(* ===== verification/C_Prelude.thy ===== *)
theory C_Prelude
  imports Main "HOL-Library.Word"
begin

unbundle bit_operations_syntax

text \<open>
  The vocabulary every component shares: the C integer types at their width, the wrap-around
  time arithmetic of \<^verbatim>\<open>platforms/timer.h\<close>, single-bit masks, and the lemmas about bits, list
  updates and counted loops that the component theories use.  The collection \<open>mask_simps\<close> holds
  the facts on single-bit masks; \<open>loop_simps\<close> the unfolding of counted loops.
\<close>

named_theorems mask_simps
named_theorems loop_simps

type_synonym u8 = "8 word"
type_synonym u16 = "16 word"
type_synonym u32 = "32 word"

section \<open>Time\<close>

text \<open>
  \<^verbatim>\<open>TIMER_DIFF_16(a, b)\<close> and \<^verbatim>\<open>TIMER_DIFF_32(a, b)\<close> are the unsigned difference cut to the width
  (\<^verbatim>\<open>platforms/timer.h\<close>): subtraction of words.
\<close>

definition TIMER_DIFF_16 :: "u16 \<Rightarrow> u16 \<Rightarrow> u16" where
  "TIMER_DIFF_16 a b = a - b"

definition TIMER_DIFF_32 :: "u32 \<Rightarrow> u32 \<Rightarrow> u32" where
  "TIMER_DIFF_32 a b = a - b"

lemma TIMER_DIFF_16_add [simp]: "TIMER_DIFF_16 (t + d) t = d"
  by (simp add: TIMER_DIFF_16_def)

lemma TIMER_DIFF_32_add [simp]: "TIMER_DIFF_32 (t + d) t = d"
  by (simp add: TIMER_DIFF_32_def)

lemma TIMER_DIFF_16_self [simp]: "TIMER_DIFF_16 t t = 0"
  by (simp add: TIMER_DIFF_16_def)

lemma TIMER_DIFF_32_self [simp]: "TIMER_DIFF_32 t t = 0"
  by (simp add: TIMER_DIFF_32_def)

section \<open>Single-bit masks\<close>

text \<open>The C idiom \<^verbatim>\<open>1 << n\<close>.\<close>

definition bitmask :: "nat \<Rightarrow> 'a::len word" where
  "bitmask n = push_bit n 1"

lemma bit_bitmask [mask_simps]:
  "bit (bitmask n :: 'a::len word) m \<longleftrightarrow> m = n \<and> n < LENGTH('a)"
  by (auto simp: bitmask_def push_bit_of_1 bit_exp_iff possible_bit_word)

lemma and_bitmask_eq_0 [mask_simps]:
  "(w :: 'a::len word) AND bitmask n = 0 \<longleftrightarrow> \<not> bit w n"
proof
  assume "w AND bitmask n = 0"
  then have "\<not> bit (w AND bitmask n) n" by simp
  then show "\<not> bit w n" by (auto simp: bit_and_iff bit_bitmask dest: bit_imp_le_length)
next
  assume "\<not> bit w n"
  then show "w AND bitmask n = 0"
    by (intro bit_eqI) (auto simp: bit_and_iff bit_bitmask)
qed

lemma bit_or_bitmask [mask_simps]:
  "bit ((w :: 'a::len word) OR bitmask n) m \<longleftrightarrow> bit w m \<or> m = n \<and> n < LENGTH('a)"
  by (simp add: bit_or_iff bit_bitmask)

lemma bit_and_not_bitmask [mask_simps]:
  "bit ((w :: 'a::len word) AND NOT (bitmask n)) m \<longleftrightarrow> bit w m \<and> m \<noteq> n"
  by (auto simp: bit_and_iff bit_not_iff bit_bitmask dest: bit_imp_le_length)

lemma bit_xor_bitmask [mask_simps]:
  "bit ((w :: 'a::len word) XOR bitmask n) m \<longleftrightarrow> bit w m \<noteq> (m = n \<and> n < LENGTH('a))"
  by (simp add: bit_xor_iff bit_bitmask)

lemma unat_and: "unat ((a :: 'a::len word) AND b) = unat a AND unat b"
  by (simp add: unsigned_and_eq)

lemma bit_unat: "bit (unat (w :: 'a::len word)) n \<longleftrightarrow> bit w n"
  by (auto simp: bit_unsigned_iff dest: bit_imp_le_length)

lemma xor_left_cancel [simp]: "(a :: 'a::len word) XOR b = a XOR c \<longleftrightarrow> b = c"
  by (auto simp: bit_eq_iff bit_xor_iff)

lemma xor_right_cancel [simp]: "(b :: 'a::len word) XOR a = c XOR a \<longleftrightarrow> b = c"
  by (auto simp: bit_eq_iff bit_xor_iff)

section \<open>Loops over an index range\<close>

text \<open>
  A \<^verbatim>\<open>for (i = 0; i < n; i++)\<close> loop whose body only writes slot \<open>i\<close> of a list and whose
  update of that slot reads only that slot computes, slot by slot, the local update.
\<close>

lemma foldl_upt_list_update [loop_simps]:
  "n \<le> length xs \<Longrightarrow>
   foldl (\<lambda>ys i. ys[i := f i (ys ! i)]) xs [0..<n] =
   map (\<lambda>i. if i < n then f i (xs ! i) else xs ! i) [0..<length xs]"
proof (induction n)
  case 0
  then show ?case by (simp add: map_nth)
next
  case (Suc n)
  then show ?case
    by (auto intro!: nth_equalityI simp: nth_list_update less_Suc_eq)
qed

lemma length_foldl_list_update [simp]:
  "length (foldl (\<lambda>ys i. ys[f i := g i ys]) xs is) = length xs"
  by (induction "is" arbitrary: xs) auto

text \<open>The row and the column of a bit in a bitmap of bytes.\<close>

lemma key_row: "unat (drop_bit 3 (k :: u8)) = unat k div 8"
  unfolding unat_drop_bit_eq by (simp add: drop_bit_eq_div)

lemma key_col: "unat (k AND 7 :: u8) = unat k mod 8"
proof -
  have m: "(7 :: nat) = mask 3" by (simp add: mask_eq_exp_minus_1)
  have "unat (k AND 7) = unat k AND 7" by (simp add: unat_and)
  also have "\<dots> = unat k mod 8" unfolding m by (simp add: take_bit_eq_mod flip: take_bit_eq_mask)
  finally show ?thesis .
qed

end
