(* ===== verification/Bitwise.thy ===== *)
theory Bitwise
  imports C_Prelude
begin

text \<open>
  \<^verbatim>\<open>quantum/bitwise.c\<close>: population count, the index of the most significant bit, and bit reversal.
  The loop of \<^verbatim>\<open>bitpop\<close> is a function with a termination proof; \<^verbatim>\<open>biton\<close> is the code's chain of
  halving steps.  The lemmas give each its mathematical meaning.
\<close>

section \<open>Population count\<close>

function bitpop_loop :: "'a::len word \<Rightarrow> u8 \<Rightarrow> u8" where
  "bitpop_loop bits c = (if bits \<noteq> 0 then bitpop_loop (bits AND (bits - 1)) (c + 1) else c)"
  by pat_completeness auto
termination
proof (relation "measure (\<lambda>(bits, c). unat bits)")
  fix bits :: "'a word" and c :: u8
  assume nz: "bits \<noteq> 0"
  have "bits AND (bits - 1) \<le> bits - 1" by (rule word_and_le1)
  then have "unat (bits AND (bits - 1)) \<le> unat (bits - 1)" by (simp add: word_le_nat_alt)
  also have "\<dots> < unat bits" using nz by (rule measure_unat)
  finally show "((bits AND (bits - 1), c + 1), bits, c) \<in> measure (\<lambda>(bits, c). unat bits)" by simp
qed simp

declare bitpop_loop.simps [simp del]

definition bitpop :: "u8 \<Rightarrow> u8" where "bitpop bits = bitpop_loop bits 0"
definition bitpop16 :: "u16 \<Rightarrow> u8" where "bitpop16 bits = bitpop_loop bits 0"
definition bitpop32 :: "u32 \<Rightarrow> u8" where "bitpop32 bits = bitpop_loop bits 0"

text \<open>\<open>n AND (n - 1)\<close> removes exactly the lowest bit of \<open>n\<close>.\<close>

lemma and_pred_double: "(2 * n) AND (2 * n - 1) = 2 * (n AND (n - 1))" for n :: nat
proof (cases n)
  case 0
  then show ?thesis by simp
next
  case (Suc m)
  then have "2 * n - 1 = 1 + 2 * (n - 1)" by simp
  then show ?thesis by (simp add: and_nat_rec [of "2 * n"])
qed

lemma and_pred_odd: "(1 + 2 * n) AND (1 + 2 * n - 1) = 2 * n" for n :: nat
  by (simp add: and_nat_rec [of "Suc (2 * n)"])

lemma bits_double: "{i. bit (2 * n) i} = Suc ` {i. bit (n :: nat) i}"
  by (auto simp: bit_double_iff image_iff gr0_conv_Suc)

lemma bits_Suc_double: "{i. bit (1 + 2 * n) i} = insert 0 (Suc ` {i. bit (n :: nat) i})"
proof -
  have "bit (1 + 2 * n) i \<longleftrightarrow> i = 0 \<or> (\<exists>j. i = Suc j \<and> bit n j)" for i
    by (cases i) (simp_all add: bit_0 bit_Suc)
  then show ?thesis by auto
qed

lemma finite_bits_nat: "finite {i. bit (n :: nat) i}"
proof (rule finite_subset)
  show "{i. bit n i} \<subseteq> {..<n}"
    by (auto simp: bit_iff_odd) (metis div_less dvd_0_right less_exp less_trans linorder_neqE_nat)
  show "finite {..<n}" by simp
qed

lemma card_bits_and_pred:
  "n \<noteq> 0 \<Longrightarrow> card {i. bit (n :: nat) i} = Suc (card {i. bit (n AND (n - 1)) i})"
proof (induction n rule: less_induct)
  case (less n)
  show ?case
  proof (cases "even n")
    case True
    then obtain m where m: "n = 2 * m" by (auto elim: evenE)
    with less have "card {i. bit m i} = Suc (card {i. bit (m AND (m - 1)) i})" by simp
    with m show ?thesis
      by (simp only: and_pred_double bits_double) (simp add: card_image)
  next
    case False
    then obtain m where m: "n = 1 + 2 * m" by (auto elim: oddE)
    have "0 \<notin> Suc ` {i. bit m i}" by auto
    with m show ?thesis
      by (simp only: and_pred_odd bits_double bits_Suc_double)
         (simp add: card_image finite_bits_nat)
  qed
qed

lemma bitpop_loop_card: "bitpop_loop bits c = c + of_nat (card {i. bit bits i})"
proof (induction bits c rule: bitpop_loop.induct)
  case (1 bits c)
  show ?case
  proof (cases "bits = 0")
    case True
    then show ?thesis by (simp add: bitpop_loop.simps)
  next
    case False
    then have "unat bits \<noteq> 0" by (simp add: unat_eq_0)
    then have "card {i. bit (unat bits) i} = Suc (card {i. bit (unat bits AND (unat bits - 1)) i})"
      by (rule card_bits_and_pred)
    moreover have "unat bits AND (unat bits - 1) = unat (bits AND (bits - 1))"
      using False by (simp add: unat_and unat_minus_one)
    ultimately have "card {i. bit bits i} = Suc (card {i. bit (bits AND (bits - 1)) i})"
      by (simp add: bit_unat)
    with False 1 show ?thesis
      by (simp add: bitpop_loop.simps [of bits])
  qed
qed

section \<open>Most significant bit\<close>

text \<open>One step of the chain: \<^verbatim>\<open>if (bits >> k) { bits >>= k; n += k; }\<close>.\<close>

definition biton_step :: "nat \<Rightarrow> 'a::len word \<times> u8 \<Rightarrow> 'a word \<times> u8" where
  "biton_step k s = (if drop_bit k (fst s) \<noteq> 0 then (drop_bit k (fst s), snd s + of_nat k) else s)"

definition biton :: "u8 \<Rightarrow> u8" where
  "biton bits = snd (biton_step 1 (biton_step 2 (biton_step 4 (bits, 0))))"

definition biton16 :: "u16 \<Rightarrow> u8" where
  "biton16 bits = snd (biton_step 1 (biton_step 2 (biton_step 4 (biton_step 8 (bits, 0)))))"

definition biton32 :: "u32 \<Rightarrow> u8" where
  "biton32 bits =
     snd (biton_step 1 (biton_step 2 (biton_step 4 (biton_step 8 (biton_step 16 (bits, 0))))))"

text \<open>
  The invariant of the chain on a word \<open>w\<close>: what is left is \<open>w\<close> shifted right by the count, not
  zero, and below \<open>2 ^ b\<close>, where \<open>b\<close> bits are still to be searched.
\<close>

definition biton_inv :: "'a::len word \<Rightarrow> nat \<Rightarrow> nat \<Rightarrow> 'a word \<times> u8 \<Rightarrow> bool" where
  "biton_inv w b m s \<longleftrightarrow>
     unat (fst s) = unat w div 2 ^ unat (snd s) \<and> unat (fst s) \<noteq> 0 \<and> unat (fst s) < 2 ^ b \<and>
     unat (snd s) \<le> m"

lemma biton_inv_step:
  assumes inv: "biton_inv w (2 * k) m s" and room: "m + k < 256"
  shows "biton_inv w k (m + k) (biton_step k s)"
proof -
  obtain x n where s: "s = (x, n)" by (cases s)
  have x: "unat x = unat w div 2 ^ unat n" "unat x \<noteq> 0" "unat x < 2 ^ (2 * k)" "unat n \<le> m"
    using inv by (auto simp: biton_inv_def s)
  have drop: "unat (drop_bit k x) = unat x div 2 ^ k" unfolding unat_drop_bit_eq by (simp add: drop_bit_eq_div)
  show ?thesis
  proof (cases "drop_bit k x = 0")
    case True
    then have "unat x div 2 ^ k = 0" using drop by simp
    then have "unat x < 2 ^ k" by (simp add: div_eq_0_iff)
    with x True s show ?thesis by (simp add: biton_inv_def biton_step_def)
  next
    case False
    have n: "unat (n + of_nat k) = unat n + k"
      using x(4) room by (simp add: unat_word_ariths unat_of_nat)
    have nz: "unat x div 2 ^ k \<noteq> 0" using False drop by (metis unat_eq_0)
    have "unat x div 2 ^ k < 2 ^ k" using x(3) by (simp add: less_mult_imp_div_less power_add mult_2)
    with nz n x False s drop show ?thesis
      by (simp add: biton_inv_def biton_step_def power_add div_mult2_eq)
  qed
qed

lemma biton_inv_end:
  assumes "biton_inv w 1 m s"
  shows "bit w (unat (snd s)) \<and> (\<forall>i. unat (snd s) < i \<longrightarrow> \<not> bit w i)"
proof -
  have one: "unat w div 2 ^ unat (snd s) = 1" using assms by (auto simp: biton_inv_def)
  have "\<not> bit (unat w) i" if lt: "unat (snd s) < i" for i
  proof -
    obtain j where j: "i = unat (snd s) + Suc j" using less_imp_Suc_add [OF lt] by auto
    have "unat w div 2 ^ i = unat w div 2 ^ unat (snd s) div 2 ^ Suc j"
      by (simp only: j power_add div_mult2_eq)
    also have "\<dots> = 0" unfolding one by (rule div_less, rule one_less_power) simp_all
    finally show ?thesis by (simp add: bit_iff_odd)
  qed
  moreover have "bit (unat w) (unat (snd s))" by (simp add: bit_iff_odd one)
  ultimately show ?thesis by (simp add: bit_unat)
qed

lemma biton_inv_start:
  fixes w :: "'a::len word"
  assumes "w \<noteq> 0"
  shows "biton_inv w LENGTH('a) 0 (w, 0)"
  using assms by (simp add: biton_inv_def unat_eq_0 unsigned_less)


lemma biton_top_8:
  assumes "w \<noteq> 0"
  shows "bit w (unat (biton w)) \<and> (\<forall>i. unat (biton w) < i \<longrightarrow> \<not> bit w i)"
proof -
  have "biton_inv w 8 0 (w, 0)" using biton_inv_start [OF assms] by simp
  then have "biton_inv w 4 4 (biton_step 4 (w, 0))"
    using biton_inv_step [of w 4 0] by simp
  then have "biton_inv w 2 6 (biton_step 2 (biton_step 4 (w, 0)))"
    using biton_inv_step [of w 2 4] by simp
  then have "biton_inv w 1 7 (biton_step 1 (biton_step 2 (biton_step 4 (w, 0))))"
    using biton_inv_step [of w 1 6] by simp
  from biton_inv_end [OF this] show ?thesis by (simp add: biton_def)
qed

lemma biton_top_16:
  assumes "w \<noteq> 0"
  shows "bit w (unat (biton16 w)) \<and> (\<forall>i. unat (biton16 w) < i \<longrightarrow> \<not> bit w i)"
proof -
  have "biton_inv w 16 0 (w, 0)" using biton_inv_start [OF assms] by simp
  then have "biton_inv w 8 8 (biton_step 8 (w, 0))"
    using biton_inv_step [of w 8 0] by simp
  then have "biton_inv w 4 12 (biton_step 4 (biton_step 8 (w, 0)))"
    using biton_inv_step [of w 4 8] by simp
  then have "biton_inv w 2 14 (biton_step 2 (biton_step 4 (biton_step 8 (w, 0))))"
    using biton_inv_step [of w 2 12] by simp
  then have "biton_inv w 1 15 (biton_step 1 (biton_step 2 (biton_step 4 (biton_step 8 (w, 0)))))"
    using biton_inv_step [of w 1 14] by simp
  from biton_inv_end [OF this] show ?thesis by (simp add: biton16_def)
qed

lemma biton_top_32:
  assumes "w \<noteq> 0"
  shows "bit w (unat (biton32 w)) \<and> (\<forall>i. unat (biton32 w) < i \<longrightarrow> \<not> bit w i)"
proof -
  have "biton_inv w 32 0 (w, 0)" using biton_inv_start [OF assms] by simp
  then have "biton_inv w 16 16 (biton_step 16 (w, 0))"
    using biton_inv_step [of w 16 0] by simp
  then have "biton_inv w 8 24 (biton_step 8 (biton_step 16 (w, 0)))"
    using biton_inv_step [of w 8 16] by simp
  then have "biton_inv w 4 28 (biton_step 4 (biton_step 8 (biton_step 16 (w, 0))))"
    using biton_inv_step [of w 4 24] by simp
  then have "biton_inv w 2 30 (biton_step 2 (biton_step 4 (biton_step 8 (biton_step 16 (w, 0)))))"
    using biton_inv_step [of w 2 28] by simp
  then have "biton_inv w 1 31
      (biton_step 1 (biton_step 2 (biton_step 4 (biton_step 8 (biton_step 16 (w, 0))))))"
    using biton_inv_step [of w 1 30] by simp
  from biton_inv_end [OF this] show ?thesis by (simp add: biton32_def)
qed

section \<open>Bit reversal\<close>

definition bitrev :: "u8 \<Rightarrow> u8" where
  "bitrev bits =
     (let b1 = push_bit 4 (bits AND 0x0f) OR drop_bit 4 (bits AND 0xf0);
          b2 = push_bit 2 (b1 AND 0x33) OR drop_bit 2 (b1 AND 0xcc)
      in push_bit 1 (b2 AND 0x55) OR drop_bit 1 (b2 AND 0xaa))"

definition bitrev16 :: "u16 \<Rightarrow> u16" where
  "bitrev16 bits =
     push_bit 8 (ucast (bitrev (ucast (bits AND 0x00ff)))) OR
     ucast (bitrev (ucast (drop_bit 8 (bits AND 0xff00))))"

definition bitrev32 :: "u32 \<Rightarrow> u32" where
  "bitrev32 bits =
     push_bit 16 (ucast (bitrev16 (ucast (bits AND 0x0000ffff)))) OR
     ucast (bitrev16 (ucast (drop_bit 16 (bits AND 0xffff0000))))"

text \<open>Each line of \<^verbatim>\<open>bitrev\<close> exchanges neighbouring groups of bits.\<close>

lemma below_8_cases: "i < 8 \<longleftrightarrow> i \<in> {0, 1, 2, 3, 4, 5, 6, 7 :: nat}"
  by auto

lemmas bit_shift_simps = bit_or_iff bit_push_bit_iff bit_and_iff bit_drop_bit_eq comp_apply

lemma bit_swap_nibbles:
  "i < 8 \<Longrightarrow> bit (push_bit 4 (w AND 0x0f) OR drop_bit 4 (w AND 0xf0) :: u8) i \<longleftrightarrow>
     bit w (if i < 4 then i + 4 else i - 4)"
  unfolding below_8_cases by (elim insertE emptyE; simp only: bit_shift_simps; simp; simp add: eval_nat_numeral)

lemma bit_swap_pairs:
  "i < 8 \<Longrightarrow> bit (push_bit 2 (w AND 0x33) OR drop_bit 2 (w AND 0xcc) :: u8) i \<longleftrightarrow>
     bit w (if i mod 4 < 2 then i + 2 else i - 2)"
  unfolding below_8_cases by (elim insertE emptyE; simp only: bit_shift_simps; simp; simp add: eval_nat_numeral)

lemma bit_swap_neighbours:
  "i < 8 \<Longrightarrow> bit (push_bit 1 (w AND 0x55) OR drop_bit 1 (w AND 0xaa) :: u8) i \<longleftrightarrow>
     bit w (if even i then i + 1 else i - 1)"
  unfolding below_8_cases by (elim insertE emptyE; simp only: bit_shift_simps; simp; simp add: eval_nat_numeral)

lemma bit_bitrev: "bit (bitrev w) i \<longleftrightarrow> i < 8 \<and> bit w (7 - i)"
proof (cases "i < 8")
  case True
  define j where "j = (if even i then i + 1 else i - 1)"
  define k where "k = (if j mod 4 < 2 then j + 2 else j - 2)"
  have "j < 8" using True by (auto simp: j_def)
  moreover from this have "k < 8" by (auto simp: k_def) presburger
  ultimately have "bit (bitrev w) i \<longleftrightarrow> bit w (if k < 4 then k + 4 else k - 4)"
    using True unfolding bitrev_def Let_def k_def j_def
    by (simp only: bit_swap_neighbours bit_swap_pairs bit_swap_nibbles)
  also have "(if k < 4 then k + 4 else k - 4) = 7 - i"
    using True unfolding k_def j_def below_8_cases by (elim insertE emptyE; simp)
  finally have "bit (bitrev w) i \<longleftrightarrow> bit w (7 - i)" .
  with True show ?thesis by simp
next
  case False
  then show ?thesis by (auto dest: bit_imp_le_length)
qed

lemma bitrev_bitrev [simp]: "bitrev (bitrev w) = w"
  by (rule bit_eqI) (auto simp: bit_bitrev)

text \<open>The masks of the wider versions only cut out the half that is reversed.\<close>

lemma ucast_low_half_16: "(ucast (w AND 0x00ff) :: u8) = ucast (w :: u16)"
proof -
  have m: "(0x00ff :: u16) = mask 8" by (simp add: mask_eq_exp_minus_1)
  show ?thesis unfolding m
    by (auto intro!: bit_eqI simp: bit_simps simp del: mask_numeral)
qed

lemma ucast_high_half_16: "(ucast (drop_bit 8 (w AND 0xff00)) :: u8) = ucast (drop_bit 8 (w :: u16))"
proof -
  have m: "(0xff00 :: u16) = push_bit 8 (mask 8)" by (simp add: mask_eq_exp_minus_1)
  show ?thesis unfolding m
    by (auto intro!: bit_eqI simp: bit_simps simp del: mask_numeral)
qed

lemma ucast_low_half_32: "(ucast (w AND 0x0000ffff) :: u16) = ucast (w :: u32)"
proof -
  have m: "(0x0000ffff :: u32) = mask 16" by (simp add: mask_eq_exp_minus_1)
  show ?thesis unfolding m
    by (auto intro!: bit_eqI simp: bit_simps simp del: mask_numeral)
qed

lemma ucast_high_half_32:
  "(ucast (drop_bit 16 (w AND 0xffff0000)) :: u16) = ucast (drop_bit 16 (w :: u32))"
proof -
  have m: "(0xffff0000 :: u32) = push_bit 16 (mask 16)" by (simp add: mask_eq_exp_minus_1)
  show ?thesis unfolding m
    by (auto intro!: bit_eqI simp: bit_simps simp del: mask_numeral)
qed

lemma bit_bitrev16: "bit (bitrev16 w) i \<longleftrightarrow> i < 16 \<and> bit w (15 - i)"
proof (cases "i < 8")
  case True
  then have "8 + (7 - i) = 15 - i" "7 - i < 8" by arith+
  with True show ?thesis
    by (simp add: bitrev16_def ucast_low_half_16 ucast_high_half_16 bit_simps bit_bitrev)
next
  case False
  then have "i < 16 \<Longrightarrow> 7 - (i - 8) = 15 - i" by simp
  with False show ?thesis
    by (auto simp: bitrev16_def ucast_low_half_16 ucast_high_half_16 bit_simps bit_bitrev
        dest: bit_imp_le_length)
qed

lemma bit_bitrev32: "bit (bitrev32 w) i \<longleftrightarrow> i < 32 \<and> bit w (31 - i)"
proof (cases "i < 16")
  case True
  then have "16 + (15 - i) = 31 - i" "15 - i < 16" by arith+
  with True show ?thesis
    by (simp add: bitrev32_def ucast_low_half_32 ucast_high_half_32 bit_simps bit_bitrev16)
next
  case False
  then have "i < 32 \<Longrightarrow> 15 - (i - 16) = 31 - i" by simp
  with False show ?thesis
    by (auto simp: bitrev32_def ucast_low_half_32 ucast_high_half_32 bit_simps bit_bitrev16
        dest: bit_imp_le_length)
qed

section \<open>Properties\<close>

text \<open>
  The population count of all three widths is the number of bits that are set: the loop
  \<^verbatim>\<open>bits &= bits - 1\<close> runs once per set bit and stops.
\<close>

theorem bitpop_counts_bits:
  "bitpop w8 = of_nat (card {i. bit w8 i}) \<and>
   bitpop16 w16 = of_nat (card {i. bit w16 i}) \<and>
   bitpop32 w32 = of_nat (card {i. bit w32 i})"
  by (simp add: bitpop_def bitpop16_def bitpop32_def bitpop_loop_card)

lemma Max_bits:
  assumes "bit w n \<and> (\<forall>i. n < i \<longrightarrow> \<not> bit (w :: 'a::len word) i)"
  shows "Max {i. bit w i} = n"
proof (rule Max_eqI)
  show "finite {i. bit w i}"
    by (rule finite_subset [of _ "{..LENGTH('a)}"]) (auto dest: bit_imp_le_length)
qed (use assms not_less in auto)

text \<open>
  \<^verbatim>\<open>biton\<close>, \<^verbatim>\<open>biton16\<close> and \<^verbatim>\<open>biton32\<close> return the index of the most significant set bit, and 0 for a
  word without set bits (the source's NOTE).
\<close>

theorem biton_highest_bit:
  "unat (biton w8) = (if w8 = 0 then 0 else Max {i. bit w8 i}) \<and>
   unat (biton16 w16) = (if w16 = 0 then 0 else Max {i. bit w16 i}) \<and>
   unat (biton32 w32) = (if w32 = 0 then 0 else Max {i. bit w32 i})"
  using Max_bits [OF biton_top_8 [of w8]] Max_bits [OF biton_top_16 [of w16]]
    Max_bits [OF biton_top_32 [of w32]]
  by (auto simp: biton_def biton16_def biton32_def biton_step_def)

text \<open>
  \<^verbatim>\<open>bitrev\<close>, \<^verbatim>\<open>bitrev16\<close> and \<^verbatim>\<open>bitrev32\<close> put bit \<open>i\<close> at the mirrored index, so reversing twice
  gives the word back.
\<close>

theorem bitrev_mirrors:
  "(bit (bitrev w8) i \<longleftrightarrow> i < 8 \<and> bit w8 (7 - i)) \<and>
   (bit (bitrev16 w16) i \<longleftrightarrow> i < 16 \<and> bit w16 (15 - i)) \<and>
   (bit (bitrev32 w32) i \<longleftrightarrow> i < 32 \<and> bit w32 (31 - i)) \<and>
   bitrev (bitrev w8) = w8 \<and> bitrev16 (bitrev16 w16) = w16 \<and> bitrev32 (bitrev32 w32) = w32"
  by (auto simp: bit_bitrev bit_bitrev16 bit_bitrev32 intro!: bit_eqI)

end
