(* ===== verification/Crc.thy ===== *)
theory Crc
  imports C_Prelude
begin

text \<open>
  \<^verbatim>\<open>quantum/crc.c\<close>: the two bodies of \<^verbatim>\<open>crc8\<close>, the bit-by-bit one and the table-driven one that
  \<^verbatim>\<open>CRC8_USE_TABLE\<close> selects, with \<^verbatim>\<open>crc_t\<close> as \<^verbatim>\<open>uint_least8_t\<close>.  The lemmas relate both to one
  polynomial division, whose polynomial is a parameter, and show which polynomial each uses.
\<close>

section \<open>The bit-by-bit routine\<close>

definition crc8_shift :: "u8 \<Rightarrow> u8" where
  "crc8_shift crc = (if crc AND 0x80 \<noteq> 0 then push_bit 1 crc XOR 0x31 else push_bit 1 crc)"

definition crc8 :: "u8 list \<Rightarrow> u8" where
  "crc8 data = foldl (\<lambda>crc d. (crc8_shift ^^ 8) (crc XOR d)) 0xff data"

section \<open>The table-driven routine\<close>

definition crc_table :: "u8 list" where
  "crc_table = [
    0x00, 0x07, 0x0e, 0x09, 0x1c, 0x1b, 0x12, 0x15, 0x38, 0x3f, 0x36, 0x31, 0x24, 0x23, 0x2a, 0x2d,
    0x70, 0x77, 0x7e, 0x79, 0x6c, 0x6b, 0x62, 0x65, 0x48, 0x4f, 0x46, 0x41, 0x54, 0x53, 0x5a, 0x5d,
    0xe0, 0xe7, 0xee, 0xe9, 0xfc, 0xfb, 0xf2, 0xf5, 0xd8, 0xdf, 0xd6, 0xd1, 0xc4, 0xc3, 0xca, 0xcd,
    0x90, 0x97, 0x9e, 0x99, 0x8c, 0x8b, 0x82, 0x85, 0xa8, 0xaf, 0xa6, 0xa1, 0xb4, 0xb3, 0xba, 0xbd,
    0xc7, 0xc0, 0xc9, 0xce, 0xdb, 0xdc, 0xd5, 0xd2, 0xff, 0xf8, 0xf1, 0xf6, 0xe3, 0xe4, 0xed, 0xea,
    0xb7, 0xb0, 0xb9, 0xbe, 0xab, 0xac, 0xa5, 0xa2, 0x8f, 0x88, 0x81, 0x86, 0x93, 0x94, 0x9d, 0x9a,
    0x27, 0x20, 0x29, 0x2e, 0x3b, 0x3c, 0x35, 0x32, 0x1f, 0x18, 0x11, 0x16, 0x03, 0x04, 0x0d, 0x0a,
    0x57, 0x50, 0x59, 0x5e, 0x4b, 0x4c, 0x45, 0x42, 0x6f, 0x68, 0x61, 0x66, 0x73, 0x74, 0x7d, 0x7a,
    0x89, 0x8e, 0x87, 0x80, 0x95, 0x92, 0x9b, 0x9c, 0xb1, 0xb6, 0xbf, 0xb8, 0xad, 0xaa, 0xa3, 0xa4,
    0xf9, 0xfe, 0xf7, 0xf0, 0xe5, 0xe2, 0xeb, 0xec, 0xc1, 0xc6, 0xcf, 0xc8, 0xdd, 0xda, 0xd3, 0xd4,
    0x69, 0x6e, 0x67, 0x60, 0x75, 0x72, 0x7b, 0x7c, 0x51, 0x56, 0x5f, 0x58, 0x4d, 0x4a, 0x43, 0x44,
    0x19, 0x1e, 0x17, 0x10, 0x05, 0x02, 0x0b, 0x0c, 0x21, 0x26, 0x2f, 0x28, 0x3d, 0x3a, 0x33, 0x34,
    0x4e, 0x49, 0x40, 0x47, 0x52, 0x55, 0x5c, 0x5b, 0x76, 0x71, 0x78, 0x7f, 0x6a, 0x6d, 0x64, 0x63,
    0x3e, 0x39, 0x30, 0x37, 0x22, 0x25, 0x2c, 0x2b, 0x06, 0x01, 0x08, 0x0f, 0x1a, 0x1d, 0x14, 0x13,
    0xae, 0xa9, 0xa0, 0xa7, 0xb2, 0xb5, 0xbc, 0xbb, 0x96, 0x91, 0x98, 0x9f, 0x8a, 0x8d, 0x84, 0x83,
    0xde, 0xd9, 0xd0, 0xd7, 0xc2, 0xc5, 0xcc, 0xcb, 0xe6, 0xe1, 0xe8, 0xef, 0xfa, 0xfd, 0xf4, 0xf3]"

definition crc8_table :: "u8 list \<Rightarrow> u8" where
  "crc8_table data = foldl (\<lambda>crc d. crc_table ! unat (crc XOR d) AND 0xff) 0xff data"

section \<open>Division by a polynomial\<close>

definition poly_shift :: "u8 \<Rightarrow> u8 \<Rightarrow> u8" where
  "poly_shift p crc = (if bit crc 7 then push_bit 1 crc XOR p else push_bit 1 crc)"

definition poly_byte :: "u8 \<Rightarrow> u8 \<Rightarrow> u8" where
  "poly_byte p crc = (poly_shift p ^^ 8) crc"

definition poly_crc :: "u8 \<Rightarrow> u8 list \<Rightarrow> u8" where
  "poly_crc p data = foldl (\<lambda>crc d. poly_byte p (crc XOR d)) 0xff data"

lemma crc8_shift_poly: "crc8_shift = poly_shift 0x31"
proof (rule ext)
  fix crc :: u8
  have m: "(0x80 :: u8) = bitmask 7" by (simp add: bitmask_def)
  show "crc8_shift crc = poly_shift 0x31 crc"
    unfolding crc8_shift_def poly_shift_def m and_bitmask_eq_0 by simp
qed

lemma crc8_poly: "crc8 data = poly_crc 0x31 data"
  by (simp add: crc8_def poly_crc_def poly_byte_def crc8_shift_poly)

lemma length_crc_table: "length crc_table = 256"
  by (simp add: crc_table_def)

lemma poly_byte_shifts:
  "poly_byte p x =
     poly_shift p (poly_shift p (poly_shift p (poly_shift p
       (poly_shift p (poly_shift p (poly_shift p (poly_shift p x)))))))"
  by (simp add: poly_byte_def eval_nat_numeral)

lemma crc_table_poly_list: "crc_table = map (\<lambda>i. poly_byte 0x07 (word_of_nat i)) [0..<256]"
  by (simp add: upt_conv_Cons, simp add: crc_table_def poly_byte_shifts poly_shift_def)


lemma crc_table_nth: "crc_table ! unat x AND 0xff = poly_byte 0x07 x"
proof -
  have "unat x < 256" using unsigned_less [of x] by simp
  then have "crc_table ! unat x = poly_byte 0x07 x" by (simp add: crc_table_poly_list)
  moreover have m: "(0xff :: u8) = - 1" by simp
  ultimately show ?thesis unfolding m by simp
qed

text \<open>With an odd polynomial a step loses nothing: the lowest bit tells which branch was taken.\<close>

lemma bit_poly_shift:
  "bit (poly_shift p x) n \<longleftrightarrow> n < 8 \<and> (n \<noteq> 0 \<and> bit x (n - 1)) \<noteq> (bit x 7 \<and> bit p n)"
  by (cases "bit x 7"; simp only: poly_shift_def if_True if_False bit_xor_iff bit_push_bit_iff)
     (auto dest: bit_imp_le_length)

lemma poly_shift_inj:
  assumes "bit p 0" and eq: "poly_shift p x = poly_shift p y"
  shows "x = y"
proof (rule bit_eqI)
  fix n assume "possible_bit TYPE(8 word) n"
  then have n: "n < 8" by simp
  have bits: "bit (poly_shift p x) k \<longleftrightarrow> bit (poly_shift p y) k" for k by (simp add: eq)
  have top: "bit x 7 \<longleftrightarrow> bit y 7"
    using bits [of 0] assms(1) by (simp add: bit_poly_shift)
  show "bit x n \<longleftrightarrow> bit y n"
  proof (cases "n = 7")
    case False
    with n have "Suc n < 8" by simp
    with bits [of "Suc n"] top show ?thesis by (auto simp: bit_poly_shift)
  qed (simp add: top)
qed

lemma poly_byte_inj:
  assumes "bit p 0" and "poly_byte p x = poly_byte p y"
  shows "x = y"
proof -
  have "inj (poly_shift p)" using assms(1) by (auto intro: injI poly_shift_inj)
  then have "inj (poly_shift p ^^ 8)" by (rule inj_fn)
  with assms(2) show ?thesis by (simp add: poly_byte_def inj_eq)
qed

lemma poly_crc_state_inj:
  assumes "bit p 0" and "foldl (\<lambda>crc d. poly_byte p (crc XOR d)) x ys = foldl (\<lambda>crc d. poly_byte p (crc XOR d)) y ys"
  shows "x = y"
  using assms(2)
proof (induction ys arbitrary: x y)
  case (Cons d ys)
  then have "poly_byte p (x XOR d) = poly_byte p (y XOR d)" by auto
  then have "x XOR d = y XOR d" by (rule poly_byte_inj [OF assms(1)])
  then show ?case by simp
qed simp

lemma poly_crc_detects_byte:
  assumes "bit p 0" and "d \<noteq> e"
  shows "poly_crc p (xs @ d # ys) \<noteq> poly_crc p (xs @ e # ys)"
proof
  let ?c = "foldl (\<lambda>crc d. poly_byte p (crc XOR d)) 0xff xs"
  assume "poly_crc p (xs @ d # ys) = poly_crc p (xs @ e # ys)"
  then have "poly_byte p (?c XOR d) = poly_byte p (?c XOR e)"
    by (simp only: poly_crc_def foldl_append foldl_Cons) (rule poly_crc_state_inj [OF assms(1)])
  then have "?c XOR d = ?c XOR e" by (rule poly_byte_inj [OF assms(1)])
  with assms(2) show False by simp
qed

lemma crc8_table_poly: "crc8_table data = poly_crc 0x07 data"
  by (simp add: crc8_table_def poly_crc_def crc_table_nth)

section \<open>Properties\<close>

text \<open>
  C26. The table-driven \<^verbatim>\<open>crc8\<close> computes, on every input, the CRC with polynomial \<open>0x07\<close>: every one
  of the 256 table entries is right for that polynomial.
\<close>

theorem crc8_table_is_poly_07: "crc8_table data = poly_crc 0x07 data"
  by (rule crc8_table_poly)

text \<open>
  The bit-by-bit body computes the CRC with polynomial \<open>0x31\<close>, so the two bodies of \<^verbatim>\<open>crc8\<close> are
  different checksums: they disagree on the one-byte message \<open>0\<close>.  Two halves of a split keyboard
  built with different settings of \<^verbatim>\<open>CRC8_USE_TABLE\<close> reject each other's data.
\<close>

theorem crc8_bodies_differ:
  "crc8 data = poly_crc 0x31 data \<and> crc8 [0] \<noteq> crc8_table [0]"
  by (simp add: crc8_poly crc8_table_poly poly_crc_def poly_byte_shifts poly_shift_def)

text \<open>
  Either body detects every corruption that is confined to one byte of a message, wherever it is.
\<close>

theorem crc8_detects_one_byte:
  "(crc8 (xs @ d # ys) = crc8 (xs @ e # ys) \<longleftrightarrow> d = e) \<and>
   (crc8_table (xs @ d # ys) = crc8_table (xs @ e # ys) \<longleftrightarrow> d = e)"
proof -
  have "bit (0x31 :: u8) 0" and "bit (0x07 :: u8) 0" by simp_all
  then have "d \<noteq> e \<Longrightarrow> crc8 (xs @ d # ys) \<noteq> crc8 (xs @ e # ys)"
    and "d \<noteq> e \<Longrightarrow> crc8_table (xs @ d # ys) \<noteq> crc8_table (xs @ e # ys)"
    by (simp_all add: crc8_poly crc8_table_poly poly_crc_detects_byte)
  then show ?thesis by blast
qed

end
