(* ===== verification/Fifo.thy ===== *)
theory Fifo
  imports C_Prelude
begin

text \<open>
  Bounded FIFO queues: the circular array with a write index \<open>head\<close> and a read index \<open>tail\<close> that the
  firmware uses twice (\<^verbatim>\<open>quantum/ring_buffer.h\<close> and the waiting buffer of
  \<^verbatim>\<open>quantum/action_tapping.c\<close>), the list it represents, and the contract \<open>bounded_fifo\<close> both
  keep.  One slot always stays free, so an array of \<open>n\<close> slots holds \<open>n - 1\<close> elements.
\<close>

section \<open>The list in a circular array\<close>

definition ring_count :: "nat \<Rightarrow> nat \<Rightarrow> nat \<Rightarrow> nat" where
  "ring_count n h t = (h + n - t) mod n"

definition ring_list :: "'a list \<Rightarrow> nat \<Rightarrow> nat \<Rightarrow> 'a list" where
  "ring_list arr h t =
     map (\<lambda>k. arr ! ((t + k) mod length arr)) [0..<ring_count (length arr) h t]"

lemma length_ring_list [simp]: "length (ring_list arr h t) = ring_count (length arr) h t"
  by (simp add: ring_list_def)

lemma add_sub_mod: "t \<le> h \<Longrightarrow> h < n \<Longrightarrow> (h + n - t) mod n = h - t" for h n t :: nat
proof -
  assume "t \<le> h" "h < n"
  then have "h + n - t = (h - t) + n" and "h - t < n" by arith+
  then show ?thesis by (simp only: mod_add_self2 mod_less)
qed

lemma ring_count_cases:
  "h < n \<Longrightarrow> t < n \<Longrightarrow> ring_count n h t = (if t \<le> h then h - t else h + n - t)"
  by (cases "t \<le> h") (simp_all add: ring_count_def add_sub_mod)

lemma ring_count_less: "0 < n \<Longrightarrow> ring_count n h t < n"
  by (simp add: ring_count_def)

lemma succ_mod: "h < n \<Longrightarrow> Suc h mod n = (if Suc h = n then 0 else Suc h)"
  by auto

lemma add_mod_neq: "t < n \<Longrightarrow> 0 < m \<Longrightarrow> m < n \<Longrightarrow> (t + m) mod n \<noteq> t" for t m n :: nat
  by (cases "t + m < n") (auto simp: le_mod_geq)

lemma ring_list_empty_iff:
  "h < length arr \<Longrightarrow> t < length arr \<Longrightarrow> ring_list arr h t = [] \<longleftrightarrow> h = t"
  by (auto simp: ring_list_def ring_count_cases)

lemma ring_full_iff:
  "h < n \<Longrightarrow> t < n \<Longrightarrow> Suc h mod n = t \<longleftrightarrow> Suc (ring_count n h t) = n"
  by (auto simp: ring_count_cases succ_mod)

lemma ring_count_Suc_head:
  "h < n \<Longrightarrow> t < n \<Longrightarrow> Suc h mod n \<noteq> t \<Longrightarrow>
   ring_count n (Suc h mod n) t = Suc (ring_count n h t)"
  by (auto simp: ring_count_cases succ_mod)

lemma ring_count_Suc_tail:
  "h < n \<Longrightarrow> t < n \<Longrightarrow> h \<noteq> t \<Longrightarrow>
   ring_count n h t = Suc (ring_count n h (Suc t mod n))"
  by (auto simp: ring_count_cases succ_mod)

lemma ring_slot_neq_head:
  assumes "h < n" "t < n" "k < ring_count n h t"
  shows "(t + k) mod n \<noteq> h"
proof (cases "t + k < n")
  case True
  with assms show ?thesis by (auto simp: ring_count_cases split: if_splits)
next
  case False
  with assms have "(t + k) mod n = t + k - n"
    by (auto simp: ring_count_cases le_mod_geq split: if_splits)
  with assms False show ?thesis by (auto simp: ring_count_cases split: if_splits)
qed

lemma ring_slot_head:
  assumes "h < n" "t < n"
  shows "(t + ring_count n h t) mod n = h"
  using assms by (auto simp: ring_count_cases)

lemma ring_list_enq:
  assumes h: "h < length arr" and t: "t < length arr" and free: "Suc h mod length arr \<noteq> t"
  shows "ring_list (arr[h := x]) (Suc h mod length arr) t = ring_list arr h t @ [x]"
proof -
  have "map (\<lambda>k. arr[h := x] ! ((t + k) mod length arr)) [0..<ring_count (length arr) h t] =
        map (\<lambda>k. arr ! ((t + k) mod length arr)) [0..<ring_count (length arr) h t]"
    using ring_slot_neq_head [OF h t] by (intro map_cong) (auto intro!: nth_list_update_neq dest: sym)
  then show ?thesis
    using h ring_slot_head [OF h t] by (simp add: ring_list_def ring_count_Suc_head [OF assms])
qed

lemma ring_list_deq:
  assumes h: "h < length arr" and t: "t < length arr" and ne: "h \<noteq> t"
  shows "ring_list arr h t = arr ! t # ring_list arr h (Suc t mod length arr)"
proof -
  have "(t + Suc k) mod length arr = (Suc t mod length arr + k) mod length arr" for k
    by (simp add: mod_simps)
  with t show ?thesis
    by (simp add: ring_list_def ring_count_Suc_tail [OF assms] map_upt_Suc
             del: upt_Suc)
qed

section \<open>The contract\<close>

text \<open>
  \<open>enq\<close> answers whether there was room; \<open>front\<close> and \<open>pop\<close> read and remove the oldest element.
\<close>

locale bounded_fifo =
  fixes enq :: "'a \<Rightarrow> 'q \<Rightarrow> bool \<times> 'q"
    and front :: "'q \<Rightarrow> 'a"
    and pop :: "'q \<Rightarrow> 'q"
    and clear :: "'q \<Rightarrow> 'q"
    and content :: "'q \<Rightarrow> 'a list"
    and wf :: "'q \<Rightarrow> bool"
    and cap :: nat
  assumes enq_room: "wf q \<Longrightarrow> length (content q) < cap \<Longrightarrow>
      fst (enq x q) \<and> content (snd (enq x q)) = content q @ [x]"
    and enq_full: "wf q \<Longrightarrow> length (content q) = cap \<Longrightarrow> enq x q = (False, q)"
    and wf_enq: "wf q \<Longrightarrow> wf (snd (enq x q))"
    and front_pop: "wf q \<Longrightarrow> content q \<noteq> [] \<Longrightarrow> content q = front q # content (pop q)"
    and wf_pop: "wf q \<Longrightarrow> content q \<noteq> [] \<Longrightarrow> wf (pop q)"
    and content_clear: "wf q \<Longrightarrow> content (clear q) = []"
    and wf_clear: "wf q \<Longrightarrow> wf (clear q)"
    and bounded: "wf q \<Longrightarrow> length (content q) \<le> cap"
begin

text \<open>Entering a list of elements, ignoring the answers, keeps a prefix of it.\<close>

fun enq_all :: "'a list \<Rightarrow> 'q \<Rightarrow> 'q" where
  "enq_all [] q = q"
| "enq_all (x # xs) q = enq_all xs (snd (enq x q))"

fun pop_n :: "nat \<Rightarrow> 'q \<Rightarrow> 'a list \<times> 'q" where
  "pop_n 0 q = ([], q)"
| "pop_n (Suc n) q = (let (xs, q') = pop_n n (pop q) in (front q # xs, q'))"

lemma enq_answer: "wf q \<Longrightarrow> fst (enq x q) \<longleftrightarrow> length (content q) < cap"
  using enq_room enq_full bounded [of q] by (cases "length (content q) = cap") fastforce+

lemma content_enq:
  "wf q \<Longrightarrow> content (snd (enq x q)) = (if length (content q) < cap then content q @ [x] else content q)"
  using enq_room enq_full bounded [of q] by (cases "length (content q) = cap") auto

lemma wf_enq_all: "wf q \<Longrightarrow> wf (enq_all xs q)"
  by (induction xs arbitrary: q) (auto simp: wf_enq)

lemma content_enq_all:
  "wf q \<Longrightarrow> content (enq_all xs q) = content q @ take (cap - length (content q)) xs"
proof (induction xs arbitrary: q)
  case (Cons x xs)
  then show ?case
    using bounded [of q] by (auto simp: wf_enq content_enq Suc_diff_Suc [symmetric])
qed simp

lemma pop_n_content:
  "wf q \<Longrightarrow> n \<le> length (content q) \<Longrightarrow>
   fst (pop_n n q) = take n (content q) \<and> content (snd (pop_n n q)) = drop n (content q) \<and>
   wf (snd (pop_n n q))"
proof (induction n arbitrary: q)
  case (Suc n)
  then have ne: "content q \<noteq> []" by auto
  note fp = front_pop [OF Suc.prems(1) ne]
  from fp Suc.prems have "n \<le> length (content (pop q))" by (metis Suc_le_mono length_Cons)
  with Suc.IH [OF wf_pop [OF Suc.prems(1) ne]] show ?case
    using fp by (simp add: case_prod_beta)
qed simp

text \<open>First in, first out: what was entered comes out in order, up to the capacity.\<close>

lemma fifo_order:
  assumes "wf q" and "content q = []" and "length xs \<le> cap"
  shows "fst (pop_n (length xs) (enq_all xs q)) = xs"
proof -
  have "content (enq_all xs q) = xs" using assms by (simp add: content_enq_all)
  with pop_n_content [OF wf_enq_all [OF assms(1)], of "length xs" xs] show ?thesis by simp
qed

end

end
