(* ===== verification/Ring_Buffer.thy ===== *)
theory Ring_Buffer
  imports Fifo
begin

text \<open>
  \<^verbatim>\<open>quantum/ring_buffer.h\<close>: the byte queue between an interrupt handler and the main loop.  Every
  operation runs inside \<^verbatim>\<open>ATOMIC_BLOCK\<close>, so a sequence of operations is an interleaving of whole
  calls.  The static variables are the record \<open>rbuf_state\<close>; index arithmetic is done in \<open>int\<close>
  before it is cut to \<open>uint8_t\<close>, as C promotes it.
\<close>

definition RBUF_SIZE :: nat where "RBUF_SIZE = 32"

record rbuf_state =
  rbuf :: "u8 list"
  rbuf_head :: u8
  rbuf_tail :: u8

definition rbuf_init :: rbuf_state where
  "rbuf_init = \<lparr>rbuf = replicate RBUF_SIZE 0, rbuf_head = 0, rbuf_tail = 0\<rparr>"

definition rbuf_enqueue :: "u8 \<Rightarrow> rbuf_state \<Rightarrow> bool \<times> rbuf_state" where
  "rbuf_enqueue data s =
     (let nxt = of_nat ((unat (rbuf_head s) + 1) mod RBUF_SIZE)
      in if nxt \<noteq> rbuf_tail s
         then (True, s\<lparr>rbuf := (rbuf s)[unat (rbuf_head s) := data], rbuf_head := nxt\<rparr>)
         else (False, s))"

definition rbuf_dequeue :: "rbuf_state \<Rightarrow> u8 \<times> rbuf_state" where
  "rbuf_dequeue s =
     (if rbuf_head s \<noteq> rbuf_tail s
      then (rbuf s ! unat (rbuf_tail s),
            s\<lparr>rbuf_tail := of_nat ((unat (rbuf_tail s) + 1) mod RBUF_SIZE)\<rparr>)
      else (0, s))"

definition rbuf_has_data :: "rbuf_state \<Rightarrow> bool" where
  "rbuf_has_data s \<longleftrightarrow> rbuf_head s \<noteq> rbuf_tail s"

definition rbuf_clear :: "rbuf_state \<Rightarrow> rbuf_state" where
  "rbuf_clear s = s\<lparr>rbuf_head := 0, rbuf_tail := 0\<rparr>"

section \<open>The queue it implements\<close>

definition rbuf_wf :: "rbuf_state \<Rightarrow> bool" where
  "rbuf_wf s \<longleftrightarrow> length (rbuf s) = RBUF_SIZE \<and> unat (rbuf_head s) < RBUF_SIZE \<and>
     unat (rbuf_tail s) < RBUF_SIZE"

definition rbuf_content :: "rbuf_state \<Rightarrow> u8 list" where
  "rbuf_content s = ring_list (rbuf s) (unat (rbuf_head s)) (unat (rbuf_tail s))"

lemma unat_index: "unat (of_nat (n mod RBUF_SIZE) :: u8) = n mod RBUF_SIZE"
proof -
  have "n mod 32 < 256" by (rule less_trans [of _ 32]) simp_all
  then show ?thesis by (simp add: RBUF_SIZE_def unat_of_nat)
qed

lemma RBUF_SIZE_pos: "0 < RBUF_SIZE"
  by (simp add: RBUF_SIZE_def)

lemma index_eq: "(of_nat (n mod RBUF_SIZE) :: u8) = t \<longleftrightarrow> n mod RBUF_SIZE = unat t"
  by (simp add: word_unat_eq_iff unat_index)

interpretation rq: bounded_fifo rbuf_enqueue "\<lambda>s. fst (rbuf_dequeue s)" "\<lambda>s. snd (rbuf_dequeue s)"
  rbuf_clear rbuf_content rbuf_wf "RBUF_SIZE - 1"
proof unfold_locales
  fix q x
  assume wf: "rbuf_wf q"
  let ?h = "unat (rbuf_head q)" and ?t = "unat (rbuf_tail q)"
  have ht: "?h < length (rbuf q)" "?t < length (rbuf q)" "length (rbuf q) = RBUF_SIZE"
    using wf by (auto simp: rbuf_wf_def)
  note full = ring_full_iff [OF ht(1,2), unfolded ht(3)]
  show "length (rbuf_content q) \<le> RBUF_SIZE - 1"
    using ring_count_less [of RBUF_SIZE ?h ?t] ht by (simp add: rbuf_content_def RBUF_SIZE_def)
  show "rbuf_wf (snd (rbuf_enqueue x q))"
    using wf RBUF_SIZE_pos by (auto simp: rbuf_enqueue_def rbuf_wf_def Let_def unat_index)
  show "rbuf_content (rbuf_clear q) = []" and "rbuf_wf (rbuf_clear q)"
    using wf by (auto simp: rbuf_content_def rbuf_clear_def rbuf_wf_def ring_list_def ring_count_def)
  show "fst (rbuf_enqueue x q) \<and> rbuf_content (snd (rbuf_enqueue x q)) = rbuf_content q @ [x]"
    if "length (rbuf_content q) < RBUF_SIZE - 1"
    using that full ring_list_enq [OF ht(1,2)] ht
    by (simp add: rbuf_enqueue_def rbuf_content_def Let_def index_eq unat_index)
  show "rbuf_enqueue x q = (False, q)" if "length (rbuf_content q) = RBUF_SIZE - 1"
    using that full ht RBUF_SIZE_pos by (simp add: rbuf_enqueue_def rbuf_content_def index_eq)
  show "rbuf_content q = fst (rbuf_dequeue q) # rbuf_content (snd (rbuf_dequeue q))"
    if "rbuf_content q \<noteq> []"
    using that ring_list_deq [OF ht(1,2)] ring_list_empty_iff [OF ht(1,2)] ht
    by (auto simp: rbuf_dequeue_def rbuf_content_def unat_index)
  show "rbuf_wf (snd (rbuf_dequeue q))"
    using wf RBUF_SIZE_pos by (auto simp: rbuf_dequeue_def rbuf_wf_def unat_index)
qed

lemma rbuf_wf_init: "rbuf_wf rbuf_init"
  by (simp add: rbuf_wf_def rbuf_init_def RBUF_SIZE_def)

lemma rbuf_content_init: "rbuf_content rbuf_init = []"
  by (simp add: rbuf_content_def rbuf_init_def ring_list_def ring_count_def)


section \<open>Interleaved calls\<close>

text \<open>
  Because the bodies are atomic, the interrupt handler and the main loop together perform one
  sequence of calls.  The specification is a list with at most 31 bytes.
\<close>

datatype rbuf_call = Enqueue u8 | Dequeue | Has_data | Clear

datatype rbuf_answer = Flag bool | Byte u8 | Done

fun rbuf_step :: "rbuf_call \<Rightarrow> rbuf_state \<Rightarrow> rbuf_answer \<times> rbuf_state" where
  "rbuf_step (Enqueue x) s = map_prod Flag id (rbuf_enqueue x s)"
| "rbuf_step Dequeue s = map_prod Byte id (rbuf_dequeue s)"
| "rbuf_step Has_data s = (Flag (rbuf_has_data s), s)"
| "rbuf_step Clear s = (Done, rbuf_clear s)"

fun queue_step :: "rbuf_call \<Rightarrow> u8 list \<Rightarrow> rbuf_answer \<times> u8 list" where
  "queue_step (Enqueue x) q = (if length q < 31 then (Flag True, q @ [x]) else (Flag False, q))"
| "queue_step Dequeue q = (case q of [] \<Rightarrow> (Byte 0, []) | y # ys \<Rightarrow> (Byte y, ys))"
| "queue_step Has_data q = (Flag (q \<noteq> []), q)"
| "queue_step Clear q = (Done, [])"

fun answers :: "('c \<Rightarrow> 's \<Rightarrow> 'a \<times> 's) \<Rightarrow> 'c list \<Rightarrow> 's \<Rightarrow> 'a list" where
  "answers step [] s = []"
| "answers step (c # cs) s = fst (step c s) # answers step cs (snd (step c s))"

lemma rbuf_dequeue_content:
  assumes wf: "rbuf_wf s"
  shows "rbuf_head s \<noteq> rbuf_tail s \<longleftrightarrow> rbuf_content s \<noteq> []"
  using wf ring_list_empty_iff [of "unat (rbuf_head s)" "rbuf s" "unat (rbuf_tail s)"]
  by (simp add: rbuf_wf_def rbuf_content_def word_unat_eq_iff)

lemma rbuf_step_simulates:
  assumes wf: "rbuf_wf s"
  shows "fst (rbuf_step c s) = fst (queue_step c (rbuf_content s)) \<and>
         rbuf_content (snd (rbuf_step c s)) = snd (queue_step c (rbuf_content s)) \<and>
         rbuf_wf (snd (rbuf_step c s))"
proof (cases c)
  case (Enqueue x)
  then show ?thesis
    using rq.enq_answer [OF wf] rq.content_enq [OF wf] rq.wf_enq [OF wf]
    by (simp add: RBUF_SIZE_def)
next
  case Dequeue
  show ?thesis
  proof (cases "rbuf_content s")
    case Nil
    then show ?thesis
      using Dequeue wf rbuf_dequeue_content [OF wf] by (simp add: rbuf_dequeue_def)
  next
    case (Cons y ys)
    then have ne: "rbuf_content s \<noteq> []" by simp
    show ?thesis using Dequeue Cons rq.front_pop [OF wf ne] rq.wf_pop [OF wf ne] by simp
  qed
next
  case Has_data
  then show ?thesis using wf rbuf_dequeue_content [OF wf] by (simp add: rbuf_has_data_def)
next
  case Clear
  then show ?thesis using rq.content_clear [OF wf] rq.wf_clear [OF wf] by simp
qed

lemma rbuf_answers_simulate:
  "rbuf_wf s \<Longrightarrow> answers rbuf_step cs s = answers queue_step cs (rbuf_content s)"
  by (induction cs arbitrary: s) (simp_all add: rbuf_step_simulates)

section \<open>Property\<close>

text \<open>
  C25. Any sequence of calls of the ring buffer's four operations, from its initial state, gives
  the answers of a first-in-first-out queue of capacity 31: an entry is refused exactly when 31
  bytes are waiting, a removal from the empty buffer reads 0.
\<close>

theorem rbuf_is_fifo_31:
  "answers rbuf_step calls rbuf_init = answers queue_step calls []"
  using rbuf_answers_simulate [OF rbuf_wf_init] by (simp add: rbuf_content_init)

end
