(* ===== verification/Debounce.thy ===== *)
theory Debounce
  imports C_Prelude
begin

text \<open>
  The debounce algorithms of \<^verbatim>\<open>quantum/debounce\<close>: each build links one of them as \<^verbatim>\<open>debounce\<close>, which
  carries the scanned matrix \<open>raw\<close> over to the matrix \<open>cooked\<close> that the keyboard acts on.  A matrix is
  the list of its rows, bit \<open>c\<close> of a row being column \<open>c\<close>; a row has at most 32 bits.  The fast timer
  is 16 or 32 bits wide, so its type is a parameter.  Every function takes the number of columns and
  the constant \<^verbatim>\<open>DEBOUNCE\<close>.

  The loops over rows and columns run a pointer along the counters: counter \<open>i\<close> belongs to row
  \<open>i div n\<close> and column \<open>i mod n\<close>, and the two nested loops are one loop over \<open>i\<close>.  The copies \<^verbatim>\<open>delta\<close> and
  \<^verbatim>\<open>existing_row\<close> that two of the loops make of a row are taken before the row is changed, and rows do
  not depend on each other, so \<^verbatim>\<open>delta\<close> is read in the matrix as it is when the loop begins.
\<close>

type_synonym matrix = "u32 list"

definition key_on :: "nat \<Rightarrow> matrix \<Rightarrow> nat \<Rightarrow> bool" where
  "key_on n m i \<longleftrightarrow> bit (m ! (i div n)) (i mod n)"

definition matrix_wf :: "nat \<Rightarrow> nat \<Rightarrow> matrix \<Rightarrow> bool" where
  "matrix_wf n rows m \<longleftrightarrow> 0 < n \<and> n \<le> 32 \<and> length m = rows"

section \<open>No debouncing\<close>

definition none_debounce :: "nat \<Rightarrow> matrix \<Rightarrow> matrix \<Rightarrow> matrix" where
  "none_debounce rows raw cooked = foldl (\<lambda>m i. m[i := raw ! i]) cooked [0..<rows]"

section \<open>The global algorithm\<close>

record 't sym_g_st =
  debouncing :: bool
  debouncing_time :: 't

definition sym_g_debounce ::
    "nat \<Rightarrow> nat \<Rightarrow> 't::len word \<Rightarrow> matrix \<Rightarrow> bool \<Rightarrow> 't word sym_g_st \<times> matrix \<Rightarrow> 't word sym_g_st \<times> matrix" where
  "sym_g_debounce d rows now raw changed sm =
     (let (s, cooked) = sm;
          s = (if changed then s\<lparr>debouncing := True, debouncing_time := now\<rparr> else s)
      in if debouncing s \<and> d \<le> unat (now - debouncing_time s)
         then (s\<lparr>debouncing := False\<rparr>, none_debounce rows raw cooked)
         else (s, cooked))"

section \<open>Algorithms with counters\<close>

record ('c, 't) debounce_st =
  debounce_counters :: "'c list"
  last_time :: 't
  counters_need_update :: bool
  matrix_need_update :: bool

text \<open>
  \<^verbatim>\<open>debounce_init\<close> and \<^verbatim>\<open>debounce_free\<close>: the counters of the algorithm per key are \<open>rows * n\<close> zeros, those
  of the algorithm per row \<open>rows\<close> zeros; the asymmetric one only clears the time of the counters it
  finds in the memory it is given.
\<close>

definition debounce_init :: "nat \<Rightarrow> ('c::zero, 't) debounce_st \<Rightarrow> ('c, 't) debounce_st" where
  "debounce_init k s = s\<lparr>debounce_counters := foldl (\<lambda>cs _. cs @ [0]) [] [0..<k]\<rparr>"

definition debounce_free :: "('c, 't) debounce_st \<Rightarrow> ('c, 't) debounce_st" where
  "debounce_free s = s\<lparr>debounce_counters := []\<rparr>"

text \<open>
  The body of \<^verbatim>\<open>debounce\<close>, which the four files with counters share: \<open>update\<close> ages the counters,
  \<open>transfer\<close> starts them, and \<open>again\<close> is the flag that makes \<open>transfer\<close> run without a change.
\<close>

definition elapsed_ms :: "'t::len word \<Rightarrow> 't word \<Rightarrow> u8" where
  "elapsed_ms now prev = (if unat (now - prev) > 255 then 255 else of_nat (unat (now - prev)))"

definition counter_debounce ::
    "(u8 \<Rightarrow> ('c, 't word) debounce_st \<times> matrix \<Rightarrow> ('c, 't word) debounce_st \<times> matrix) \<Rightarrow>
     (('c, 't word) debounce_st \<times> matrix \<Rightarrow> ('c, 't word) debounce_st \<times> matrix) \<Rightarrow>
     (('c, 't word) debounce_st \<Rightarrow> bool) \<Rightarrow> 't::len word \<Rightarrow> bool \<Rightarrow>
     ('c, 't word) debounce_st \<times> matrix \<Rightarrow> ('c, 't word) debounce_st \<times> matrix" where
  "counter_debounce update transfer again now changed sm =
     (let (s, cooked) = sm;
          updated_last = counters_need_update s;
          elapsed = elapsed_ms now (last_time s);
          (s, cooked) =
            (if counters_need_update s then
               let s = s\<lparr>last_time := now\<rparr>
               in if elapsed > 0 then update elapsed (s, cooked) else (s, cooked)
             else (s, cooked))
      in if changed \<or> again s
         then transfer (if updated_last then s else s\<lparr>last_time := now\<rparr>, cooked)
         else (s, cooked))"

text \<open>The constant, cut to what a counter holds.\<close>

definition debounce_ms :: "nat \<Rightarrow> u8" where "debounce_ms d = of_nat (min d 255)"

definition asym_debounce_ms :: "nat \<Rightarrow> 7 word" where "asym_debounce_ms d = of_nat (min d 127)"

text \<open>The counters, the cooked matrix and the flags, as the loops change them.\<close>

definition copy_key :: "nat \<Rightarrow> matrix \<Rightarrow> nat \<Rightarrow> matrix \<Rightarrow> matrix" where
  "copy_key n raw i m =
     m[i div n := (m ! (i div n) AND NOT (bitmask (i mod n))) OR
                  (raw ! (i div n) AND bitmask (i mod n))]"

definition flip_key :: "nat \<Rightarrow> nat \<Rightarrow> matrix \<Rightarrow> matrix" where
  "flip_key n i m = m[i div n := m ! (i div n) XOR bitmask (i mod n)]"

definition delta_on :: "nat \<Rightarrow> matrix \<Rightarrow> matrix \<Rightarrow> nat \<Rightarrow> bool" where
  "delta_on n raw cooked i \<longleftrightarrow> (raw ! (i div n) XOR cooked ! (i div n)) AND bitmask (i mod n) \<noteq> 0"

subsection \<open>Symmetric, deferred, per key\<close>

definition defer_update_key ::
    "nat \<Rightarrow> u8 \<Rightarrow> matrix \<Rightarrow> (u8, 't word) debounce_st \<times> matrix \<Rightarrow> nat \<Rightarrow> (u8, 't::len word) debounce_st \<times> matrix" where
  "defer_update_key n elapsed raw sm i =
     (let (s, cooked) = sm; cs = debounce_counters s
      in if cs ! i \<noteq> 0 then
           (if cs ! i \<le> elapsed then (s\<lparr>debounce_counters := cs[i := 0]\<rparr>, copy_key n raw i cooked)
            else (s\<lparr>debounce_counters := cs[i := cs ! i - elapsed], counters_need_update := True\<rparr>, cooked))
         else (s, cooked))"

definition defer_update ::
    "nat \<Rightarrow> nat \<Rightarrow> matrix \<Rightarrow> u8 \<Rightarrow> (u8, 't word) debounce_st \<times> matrix \<Rightarrow> (u8, 't::len word) debounce_st \<times> matrix" where
  "defer_update n rows raw elapsed sm =
     (let (s, cooked) = sm
      in foldl (defer_update_key n elapsed raw) (s\<lparr>counters_need_update := False\<rparr>, cooked) [0..<rows * n])"

definition defer_start_key ::
    "nat \<Rightarrow> u8 \<Rightarrow> matrix \<Rightarrow> matrix \<Rightarrow> (u8, 't word) debounce_st \<times> matrix \<Rightarrow> nat \<Rightarrow>
     (u8, 't::len word) debounce_st \<times> matrix" where
  "defer_start_key n d raw cooked0 sm i =
     (let (s, cooked) = sm; cs = debounce_counters s
      in if delta_on n raw cooked0 i then
           (if cs ! i = 0 then (s\<lparr>debounce_counters := cs[i := d], counters_need_update := True\<rparr>, cooked)
            else (s, cooked))
         else (s\<lparr>debounce_counters := cs[i := 0]\<rparr>, cooked))"

definition defer_start ::
    "nat \<Rightarrow> u8 \<Rightarrow> nat \<Rightarrow> matrix \<Rightarrow> (u8, 't word) debounce_st \<times> matrix \<Rightarrow> (u8, 't::len word) debounce_st \<times> matrix" where
  "defer_start n d rows raw sm = foldl (defer_start_key n d raw (snd sm)) sm [0..<rows * n]"

definition sym_defer_pk_debounce ::
    "nat \<Rightarrow> nat \<Rightarrow> nat \<Rightarrow> 't::len word \<Rightarrow> matrix \<Rightarrow> bool \<Rightarrow> (u8, 't word) debounce_st \<times> matrix \<Rightarrow>
     (u8, 't word) debounce_st \<times> matrix" where
  "sym_defer_pk_debounce n d rows now raw changed sm =
     counter_debounce (defer_update n rows raw) (defer_start n (debounce_ms d) rows raw) (\<lambda>_. False)
       now changed sm"

subsection \<open>Symmetric, eager, per key\<close>

definition eager_update_key :: "u8 \<Rightarrow> (u8, 't word) debounce_st \<Rightarrow> nat \<Rightarrow> (u8, 't::len word) debounce_st" where
  "eager_update_key elapsed s i =
     (let cs = debounce_counters s
      in if cs ! i \<noteq> 0 then
           (if cs ! i \<le> elapsed then s\<lparr>debounce_counters := cs[i := 0], matrix_need_update := True\<rparr>
            else s\<lparr>debounce_counters := cs[i := cs ! i - elapsed], counters_need_update := True\<rparr>)
         else s)"

definition eager_update ::
    "nat \<Rightarrow> u8 \<Rightarrow> (u8, 't word) debounce_st \<times> matrix \<Rightarrow> (u8, 't::len word) debounce_st \<times> matrix" where
  "eager_update k elapsed sm =
     (let (s, cooked) = sm
      in (foldl (eager_update_key elapsed) (s\<lparr>counters_need_update := False, matrix_need_update := False\<rparr>)
            [0..<k], cooked))"

definition eager_transfer_key ::
    "nat \<Rightarrow> u8 \<Rightarrow> matrix \<Rightarrow> matrix \<Rightarrow> (u8, 't word) debounce_st \<times> matrix \<Rightarrow> nat \<Rightarrow>
     (u8, 't::len word) debounce_st \<times> matrix" where
  "eager_transfer_key n d raw cooked0 sm i =
     (let (s, cooked) = sm; cs = debounce_counters s
      in if delta_on n raw cooked0 i \<and> cs ! i = 0 then
           (s\<lparr>debounce_counters := cs[i := d], counters_need_update := True\<rparr>, flip_key n i cooked)
         else (s, cooked))"

definition eager_transfer ::
    "nat \<Rightarrow> u8 \<Rightarrow> nat \<Rightarrow> matrix \<Rightarrow> (u8, 't word) debounce_st \<times> matrix \<Rightarrow> (u8, 't::len word) debounce_st \<times> matrix" where
  "eager_transfer n d rows raw sm = foldl (eager_transfer_key n d raw (snd sm)) sm [0..<rows * n]"

definition sym_eager_pk_debounce ::
    "nat \<Rightarrow> nat \<Rightarrow> nat \<Rightarrow> 't::len word \<Rightarrow> matrix \<Rightarrow> bool \<Rightarrow> (u8, 't word) debounce_st \<times> matrix \<Rightarrow>
     (u8, 't word) debounce_st \<times> matrix" where
  "sym_eager_pk_debounce n d rows now raw changed sm =
     counter_debounce (eager_update (rows * n)) (eager_transfer n (debounce_ms d) rows raw)
       matrix_need_update now changed sm"

subsection \<open>Symmetric, eager, per row\<close>

text \<open>The counters age as those of the algorithm per key do; there is one per row.\<close>

definition row_transfer_row ::
    "u8 \<Rightarrow> matrix \<Rightarrow> (u8, 't word) debounce_st \<times> matrix \<Rightarrow> nat \<Rightarrow> (u8, 't::len word) debounce_st \<times> matrix" where
  "row_transfer_row d raw sm r =
     (let (s, cooked) = sm; cs = debounce_counters s
      in if cooked ! r \<noteq> raw ! r \<and> cs ! r = 0 then
           (s\<lparr>debounce_counters := cs[r := d], counters_need_update := True\<rparr>, cooked[r := raw ! r])
         else (s, cooked))"

definition row_transfer ::
    "u8 \<Rightarrow> nat \<Rightarrow> matrix \<Rightarrow> (u8, 't word) debounce_st \<times> matrix \<Rightarrow> (u8, 't::len word) debounce_st \<times> matrix" where
  "row_transfer d rows raw sm = foldl (row_transfer_row d raw) sm [0..<rows]"

definition sym_eager_pr_debounce ::
    "nat \<Rightarrow> nat \<Rightarrow> 't::len word \<Rightarrow> matrix \<Rightarrow> bool \<Rightarrow> (u8, 't word) debounce_st \<times> matrix \<Rightarrow>
     (u8, 't word) debounce_st \<times> matrix" where
  "sym_eager_pr_debounce d rows now raw changed sm =
     counter_debounce (eager_update rows) (row_transfer (debounce_ms d) rows raw)
       matrix_need_update now changed sm"

subsection \<open>Eager on press, deferred on release, per key\<close>

record asym_counter =
  cnt_pressed :: bool
  cnt_time :: "7 word"

definition asym_debounce_init ::
    "nat \<Rightarrow> asym_counter list \<Rightarrow> (asym_counter, 't) debounce_st \<Rightarrow> (asym_counter, 't) debounce_st" where
  "asym_debounce_init k mem s =
     s\<lparr>debounce_counters := foldl (\<lambda>cs i. cs[i := (cs ! i)\<lparr>cnt_time := 0\<rparr>]) mem [0..<k]\<rparr>"

definition asym_update_key ::
    "nat \<Rightarrow> u8 \<Rightarrow> matrix \<Rightarrow> (asym_counter, 't word) debounce_st \<times> matrix \<Rightarrow> nat \<Rightarrow>
     (asym_counter, 't::len word) debounce_st \<times> matrix" where
  "asym_update_key n elapsed raw sm i =
     (let (s, cooked) = sm; cs = debounce_counters s; k = cs ! i
      in if cnt_time k \<noteq> 0 then
           (if unat (cnt_time k) \<le> unat elapsed then
              let s = s\<lparr>debounce_counters := cs[i := k\<lparr>cnt_time := 0\<rparr>]\<rparr>
              in if cnt_pressed k then (s\<lparr>matrix_need_update := True\<rparr>, cooked)
                 else (s, copy_key n raw i cooked)
            else (s\<lparr>debounce_counters := cs[i := k\<lparr>cnt_time := cnt_time k - ucast elapsed\<rparr>],
                    counters_need_update := True\<rparr>, cooked))
         else (s, cooked))"

definition asym_update ::
    "nat \<Rightarrow> nat \<Rightarrow> matrix \<Rightarrow> u8 \<Rightarrow> (asym_counter, 't word) debounce_st \<times> matrix \<Rightarrow>
     (asym_counter, 't::len word) debounce_st \<times> matrix" where
  "asym_update n rows raw elapsed sm =
     (let (s, cooked) = sm
      in foldl (asym_update_key n elapsed raw)
           (s\<lparr>counters_need_update := False, matrix_need_update := False\<rparr>, cooked) [0..<rows * n])"

definition asym_transfer_key ::
    "nat \<Rightarrow> 7 word \<Rightarrow> matrix \<Rightarrow> matrix \<Rightarrow> (asym_counter, 't word) debounce_st \<times> matrix \<Rightarrow> nat \<Rightarrow>
     (asym_counter, 't::len word) debounce_st \<times> matrix" where
  "asym_transfer_key n d raw cooked0 sm i =
     (let (s, cooked) = sm; cs = debounce_counters s; k = cs ! i
      in if delta_on n raw cooked0 i then
           (if cnt_time k = 0 then
              let p = (raw ! (i div n) AND bitmask (i mod n) \<noteq> 0);
                  s = s\<lparr>debounce_counters := cs[i := \<lparr>cnt_pressed = p, cnt_time = d\<rparr>],
                        counters_need_update := True\<rparr>
              in (s, if p then flip_key n i cooked else cooked)
            else (s, cooked))
         else if cnt_time k \<noteq> 0 \<and> \<not> cnt_pressed k then
           (s\<lparr>debounce_counters := cs[i := k\<lparr>cnt_time := 0\<rparr>]\<rparr>, cooked)
         else (s, cooked))"

definition asym_transfer ::
    "nat \<Rightarrow> 7 word \<Rightarrow> nat \<Rightarrow> matrix \<Rightarrow> (asym_counter, 't word) debounce_st \<times> matrix \<Rightarrow>
     (asym_counter, 't::len word) debounce_st \<times> matrix" where
  "asym_transfer n d rows raw sm = foldl (asym_transfer_key n d raw (snd sm)) sm [0..<rows * n]"

definition asym_eager_defer_pk_debounce ::
    "nat \<Rightarrow> nat \<Rightarrow> nat \<Rightarrow> 't::len word \<Rightarrow> matrix \<Rightarrow> bool \<Rightarrow> (asym_counter, 't word) debounce_st \<times> matrix \<Rightarrow>
     (asym_counter, 't word) debounce_st \<times> matrix" where
  "asym_eager_defer_pk_debounce n d rows now raw changed sm =
     counter_debounce (asym_update n rows raw) (asym_transfer n (asym_debounce_ms d) rows raw)
       matrix_need_update now changed sm"

section \<open>Keys of a matrix\<close>

lemma key_index: "i < rows * n \<Longrightarrow> i div n < rows" for i n rows :: nat
  by (simp add: less_mult_imp_div_less)

lemma key_index_col: "0 < n \<Longrightarrow> n \<le> 32 \<Longrightarrow> i mod n < 32" for i n :: nat
  using mod_less_divisor [of n i] by linarith

lemma key_index_inj: "i div n = j div n \<Longrightarrow> i mod n = j mod n \<Longrightarrow> i = j" for i j n :: nat
  by (metis div_mult_mod_eq)

lemma delta_on_iff [simp]: "delta_on n raw m i \<longleftrightarrow> key_on n raw i \<noteq> key_on n m i"
  by (auto simp: delta_on_def key_on_def and_bitmask_eq_0 bit_xor_iff)

lemma matrix_wf_key_ops [simp]:
  "matrix_wf n rows (copy_key n' raw i m) = matrix_wf n rows m"
  "matrix_wf n rows (flip_key n' i m) = matrix_wf n rows m"
  "matrix_wf n rows (m[r := x]) = matrix_wf n rows m"
  by (simp_all add: matrix_wf_def copy_key_def flip_key_def)

lemma key_on_copy [simp]:
  assumes "matrix_wf n rows m" "i < rows * n"
  shows "key_on n (copy_key n raw i m) j = (if j = i then key_on n raw i else key_on n m j)"
proof (cases "j div n = i div n")
  case True
  have "bit (copy_key n raw i m ! (i div n)) c =
      (if c = i mod n then key_on n raw i else bit (m ! (i div n)) c)" for c
    using assms key_index [OF assms(2)] key_index_col [of n i]
    by (auto simp: copy_key_def key_on_def matrix_wf_def bit_or_iff bit_and_iff bit_not_iff bit_bitmask
        dest: bit_imp_le_length)
  then show ?thesis using True key_index_inj [OF True] by (auto simp: key_on_def)
next
  case False
  then show ?thesis by (auto simp: copy_key_def key_on_def)
qed

lemma key_on_flip [simp]:
  assumes "matrix_wf n rows m" "i < rows * n"
  shows "key_on n (flip_key n i m) j = (if j = i then \<not> key_on n m i else key_on n m j)"
proof (cases "j div n = i div n")
  case True
  have "bit (flip_key n i m ! (i div n)) c =
      (if c = i mod n then \<not> key_on n m i else bit (m ! (i div n)) c)" for c
    using assms key_index [OF assms(2)] key_index_col [of n i]
    by (auto simp: flip_key_def key_on_def matrix_wf_def bit_xor_iff bit_bitmask)
  then show ?thesis using True key_index_inj [OF True] by (auto simp: key_on_def)
next
  case False
  then show ?thesis by (auto simp: flip_key_def key_on_def)
qed

section \<open>The contract of a debouncer\<close>

text \<open>
  Every key of the cooked matrix keeps its value or takes the one that has just been scanned.
\<close>

definition between_matrices :: "nat \<Rightarrow> nat \<Rightarrow> matrix \<Rightarrow> matrix \<Rightarrow> matrix \<Rightarrow> bool" where
  "between_matrices n rows raw cooked m \<longleftrightarrow> matrix_wf n rows m \<and>
     (\<forall>i < rows * n. key_on n m i = key_on n cooked i \<or> key_on n m i = key_on n raw i)"

locale debouncer =
  fixes n rows :: nat
    and debounce :: "'t::len word \<Rightarrow> matrix \<Rightarrow> bool \<Rightarrow> 's \<times> matrix \<Rightarrow> 's \<times> matrix"
  assumes only_copies: "matrix_wf n rows cooked \<Longrightarrow> matrix_wf n rows raw \<Longrightarrow>
    between_matrices n rows raw cooked (snd (debounce now raw changed (s, cooked)))"
begin

definition debounce_run :: "('t word \<times> matrix \<times> bool) list \<Rightarrow> 's \<times> matrix \<Rightarrow> 's \<times> matrix" where
  "debounce_run calls sm = fold (\<lambda>(now, raw, changed). debounce now raw changed) calls sm"

lemma debounce_run_wf:
  "matrix_wf n rows (snd sm) \<Longrightarrow> list_all (\<lambda>(now, raw, changed). matrix_wf n rows raw) calls \<Longrightarrow>
   matrix_wf n rows (snd (debounce_run calls sm))"
proof (induction calls arbitrary: sm)
  case (Cons call calls)
  obtain s cooked where sm: "sm = (s, cooked)" by (cases sm)
  obtain now raw changed where call: "call = (now, raw, changed)" by (cases call)
  have "matrix_wf n rows (snd (debounce now raw changed sm))"
    using only_copies [of cooked raw now changed s] Cons.prems by (simp add: sm call between_matrices_def)
  then show ?case using Cons by (simp add: debounce_run_def call)
qed (simp add: debounce_run_def)

lemma debounce_run_value:
  assumes "matrix_wf n rows (snd sm)" "list_all (\<lambda>(now, raw, changed). matrix_wf n rows raw) calls"
    "i < rows * n"
  shows "key_on n (snd (debounce_run calls sm)) i = key_on n (snd sm) i \<or>
    (\<exists>(now, raw, changed) \<in> set calls. key_on n (snd (debounce_run calls sm)) i = key_on n raw i)"
  using assms
proof (induction calls arbitrary: sm)
  case (Cons call calls)
  obtain s cooked where sm: "sm = (s, cooked)" by (cases sm)
  obtain now raw changed where call: "call = (now, raw, changed)" by (cases call)
  define sm' where "sm' = debounce now raw changed sm"
  have b: "between_matrices n rows raw cooked (snd sm')"
    using only_copies [of cooked raw now changed s] Cons.prems by (simp add: sm call sm'_def)
  then have "matrix_wf n rows (snd sm')" by (simp add: between_matrices_def)
  then have "key_on n (snd (debounce_run calls sm')) i = key_on n (snd sm') i \<or>
    (\<exists>(now, raw, changed) \<in> set calls. key_on n (snd (debounce_run calls sm')) i = key_on n raw i)"
    using Cons by (simp add: call)
  moreover have "key_on n (snd sm') i = key_on n cooked i \<or> key_on n (snd sm') i = key_on n raw i"
    using b Cons.prems(3) by (simp add: between_matrices_def)
  moreover have "debounce_run (call # calls) sm = debounce_run calls sm'"
    by (simp add: debounce_run_def call sm'_def)
  ultimately show ?case by (auto simp: call sm)
qed (simp add: debounce_run_def)

end

lemma between_refl: "matrix_wf n rows m \<Longrightarrow> between_matrices n rows raw m m"
  by (simp add: between_matrices_def)

lemma between_trans:
  "between_matrices n rows raw m1 m2 \<Longrightarrow> between_matrices n rows raw m m1 \<Longrightarrow>
   between_matrices n rows raw m m2"
  by (auto simp: between_matrices_def)

lemma between_copy:
  "between_matrices n rows raw m m' \<Longrightarrow> i < rows * n \<Longrightarrow> between_matrices n rows raw m (copy_key n raw i m')"
  by (auto simp: between_matrices_def split: if_splits)

lemma between_flip:
  "between_matrices n rows raw m m' \<Longrightarrow> i < rows * n \<Longrightarrow> key_on n raw i \<noteq> key_on n m i \<Longrightarrow>
   between_matrices n rows raw m (flip_key n i m')"
  by (auto simp: between_matrices_def split: if_splits)

lemma between_row:
  assumes "between_matrices n rows raw m m'"
  shows "between_matrices n rows raw m (m'[r := raw ! r])"
proof -
  have "key_on n (m'[r := raw ! r]) i = key_on n m' i \<or> key_on n (m'[r := raw ! r]) i = key_on n raw i" for i
    by (cases "i div n = r"; cases "r < length m'") (auto simp: key_on_def list_update_beyond)
  with assms show ?thesis unfolding between_matrices_def by (metis matrix_wf_key_ops(3))
qed

lemma between_loop:
  assumes "\<And>s m i. i < k \<Longrightarrow> between_matrices n rows raw m0 m \<Longrightarrow>
      between_matrices n rows raw m0 (snd (step (s, m) i))"
    and "between_matrices n rows raw m0 (snd sm)"
  shows "between_matrices n rows raw m0 (snd (foldl step sm [0..<k]))"
  using assms(1)
proof (induction k)
  case (Suc k)
  then show ?case by (cases "foldl step sm [0..<k]") fastforce
qed (simp add: assms(2))

lemma between_counter_debounce:
  assumes "\<And>e s. between_matrices n rows raw m (snd (update e (s, m)))"
    and "\<And>s m'. matrix_wf n rows m' \<Longrightarrow> between_matrices n rows raw m' (snd (transfer (s, m')))"
    and "matrix_wf n rows m"
  shows "between_matrices n rows raw m (snd (counter_debounce update transfer again now changed (s, m)))"
proof -
  define t where "t = (if counters_need_update s then
      let s' = s\<lparr>last_time := now\<rparr>; e = elapsed_ms now (last_time s)
      in if e > 0 then update e (s', m) else (s', m) else (s, m))"
  have t: "between_matrices n rows raw m (snd t)"
    using assms(1) between_refl [OF assms(3)] by (simp add: t_def Let_def)
  obtain s1 m1 where t1: "t = (s1, m1)" by (cases t)
  have "counter_debounce update transfer again now changed (s, m) =
      (if changed \<or> again s1
       then transfer (if counters_need_update s then s1 else s1\<lparr>last_time := now\<rparr>, m1) else (s1, m1))"
    using t1 by (simp add: counter_debounce_def t_def Let_def split: if_splits)
  moreover have "between_matrices n rows raw m1 (snd (transfer (s', m1)))" for s'
    using t t1 by (intro assms(2)) (simp add: between_matrices_def)
  ultimately show ?thesis using t t1 by (auto intro: between_trans)
qed

subsection \<open>The algorithms keep it\<close>

lemma between_none: "matrix_wf n rows m \<Longrightarrow> between_matrices n rows raw m (none_debounce k raw m)"
proof -
  assume "matrix_wf n rows m"
  then have "between_matrices n rows raw m (foldl (\<lambda>m i. m[i := raw ! i]) m [0..<k])"
    by (induction k) (simp_all add: between_refl between_row)
  then show ?thesis by (simp add: none_debounce_def)
qed

lemma between_defer_start:
  "matrix_wf n rows m \<Longrightarrow> between_matrices n rows raw m (snd (defer_start n d rows raw (s, m)))"
  unfolding defer_start_def
  by (rule between_loop) (auto simp: defer_start_key_def Let_def between_refl)

lemma between_defer_update:
  "matrix_wf n rows m \<Longrightarrow> between_matrices n rows raw m (snd (defer_update n rows raw e (s, m)))"
  unfolding defer_update_def
  by (simp, rule between_loop) (auto simp: defer_update_key_def Let_def between_refl between_copy)

lemma between_eager_update:
  "matrix_wf n rows m \<Longrightarrow> between_matrices n rows raw m (snd (eager_update k e (s, m)))"
  by (simp add: eager_update_def between_refl)

lemma between_eager_transfer:
  "matrix_wf n rows m \<Longrightarrow> between_matrices n rows raw m (snd (eager_transfer n d rows raw (s, m)))"
  unfolding eager_transfer_def
  by (rule between_loop) (auto simp: eager_transfer_key_def Let_def between_refl between_flip)

lemma between_row_transfer:
  "matrix_wf n rows m \<Longrightarrow> between_matrices n rows raw m (snd (row_transfer d rows raw (s, m)))"
  unfolding row_transfer_def
  by (rule between_loop) (auto simp: row_transfer_row_def Let_def between_refl between_row)

lemma between_asym_update:
  "matrix_wf n rows m \<Longrightarrow> between_matrices n rows raw m (snd (asym_update n rows raw e (s, m)))"
  unfolding asym_update_def
  by (simp, rule between_loop) (auto simp: asym_update_key_def Let_def between_refl between_copy)

lemma between_asym_transfer:
  "matrix_wf n rows m \<Longrightarrow> between_matrices n rows raw m (snd (asym_transfer n d rows raw (s, m)))"
  unfolding asym_transfer_def
  by (rule between_loop) (auto simp: asym_transfer_key_def Let_def between_refl between_flip)

interpretation sym_g: debouncer n rows "\<lambda>now raw changed. sym_g_debounce d rows now raw changed" for n rows d
  by unfold_locales (simp add: sym_g_debounce_def between_none between_refl Let_def)

interpretation sym_defer_pk: debouncer n rows "\<lambda>now raw changed. sym_defer_pk_debounce n d rows now raw changed" for n rows d
  unfolding sym_defer_pk_debounce_def
  by unfold_locales (rule between_counter_debounce, simp_all add: between_defer_update between_defer_start)

interpretation sym_eager_pk: debouncer n rows "\<lambda>now raw changed. sym_eager_pk_debounce n d rows now raw changed" for n rows d
  unfolding sym_eager_pk_debounce_def
  by unfold_locales (rule between_counter_debounce, simp_all add: between_eager_update between_eager_transfer)

interpretation sym_eager_pr: debouncer n rows "\<lambda>now raw changed. sym_eager_pr_debounce d rows now raw changed" for n rows d
  unfolding sym_eager_pr_debounce_def
  by unfold_locales (rule between_counter_debounce, simp_all add: between_eager_update between_row_transfer)

interpretation asym: debouncer n rows "\<lambda>now raw changed. asym_eager_defer_pk_debounce n d rows now raw changed" for n rows d
  unfolding asym_eager_defer_pk_debounce_def
  by unfold_locales (rule between_counter_debounce, simp_all add: between_asym_update between_asym_transfer)

section \<open>No value is made up\<close>

definition scans_wf :: "nat \<Rightarrow> nat \<Rightarrow> ('t word \<times> matrix \<times> bool) list \<Rightarrow> bool" where
  "scans_wf n rows calls \<longleftrightarrow> list_all (\<lambda>(now, raw, changed). matrix_wf n rows raw) calls"



end
