(* ===== verification/Debounce_Keys.thy ===== *)
theory Debounce_Keys
  imports Debounce
begin

text \<open>
  What the loops of the debounce algorithms with one counter per key compute, read key by key: each is
  shown to run a small machine per key, \<open>defer_key\<close> for \<^verbatim>\<open>sym_defer_pk.c\<close> and \<open>eager_key\<close> for
  \<^verbatim>\<open>sym_eager_pk.c\<close>, whose counter ages by the time between two calls.
\<close>

section \<open>Loops that work key by key\<close>

text \<open>A counter after some milliseconds; and the loops, read key by key.\<close>

definition aged :: "u8 \<Rightarrow> u8 \<Rightarrow> u8" where "aged e c = (if c \<le> e then 0 else c - e)"

lemma aged_0 [simp]: "aged e 0 = 0" "aged 0 c = c"
  by (simp_all add: aged_def)

lemma aged_still: "c = 0 \<or> e = 0 \<Longrightarrow> aged e c = c"
  by auto

lemma aged_eq_0 [simp]: "aged e c = 0 \<longleftrightarrow> c \<le> e"
  by (auto simp: aged_def)

lemma unat_aged: "unat (aged e c) = unat c - unat e"
  by (auto simp: aged_def word_le_nat_alt unat_sub)

text \<open>
  A loop whose body reads and writes component \<open>i\<close> only, and raises a flag at some components,
  changes every component on its own.
\<close>

lemma pointwise_loop:
  assumes step: "\<And>st i. i < N \<Longrightarrow> P i st \<Longrightarrow> P (Suc i) (step st i) \<and>
      (\<forall>j < N. get (step st i) j = (if j = i then f i (get st i) else get st j)) \<and>
      flag (step st i) = (flag st \<or> g i (get st i))"
    and "P 0 st"
  shows "k \<le> N \<Longrightarrow> P k (foldl step st [0..<k]) \<and>
    (\<forall>j < N. get (foldl step st [0..<k]) j = (if j < k then f j (get st j) else get st j)) \<and>
    flag (foldl step st [0..<k]) = (flag st \<or> (\<exists>i < k. g i (get st i)))"
proof (induction k)
  case (Suc k)
  define st1 where "st1 = foldl step st [0..<k]"
  have "P k st1" "\<forall>j < N. get st1 j = (if j < k then f j (get st j) else get st j)"
    "flag st1 = (flag st \<or> (\<exists>i < k. g i (get st i)))"
    using Suc by (simp_all add: st1_def)
  moreover from this(1) have "P (Suc k) (step st1 k)"
    "\<forall>j < N. get (step st1 k) j = (if j = k then f k (get st1 k) else get st1 j)"
    "flag (step st1 k) = (flag st1 \<or> g k (get st1 k))"
    using step [of k st1] Suc.prems by simp_all
  moreover have "foldl step st [0..<Suc k] = step st1 k" by (simp add: st1_def)
  ultimately show ?case using Suc.prems by (auto simp: less_Suc_eq)
qed (simp add: assms(2))

text \<open>What a loop sees of component \<open>i\<close>, and what no body changes.\<close>

definition cell :: "nat \<Rightarrow> ('c, 't) debounce_st \<times> matrix \<Rightarrow> nat \<Rightarrow> 'c \<times> bool" where
  "cell n sm i = (debounce_counters (fst sm) ! i, key_on n (snd sm) i)"

definition debounce_wf :: "nat \<Rightarrow> nat \<Rightarrow> 't \<Rightarrow> ('c, 't) debounce_st \<times> matrix \<Rightarrow> bool" where
  "debounce_wf n rows t sm \<longleftrightarrow> matrix_wf n rows (snd sm) \<and> length (debounce_counters (fst sm)) = rows * n \<and>
     last_time (fst sm) = t"

definition defer_aged :: "nat \<Rightarrow> matrix \<Rightarrow> u8 \<Rightarrow> nat \<Rightarrow> u8 \<times> bool \<Rightarrow> u8 \<times> bool" where
  "defer_aged n raw e i k = (aged e (fst k), if fst k \<noteq> 0 \<and> fst k \<le> e then key_on n raw i else snd k)"

definition defer_started :: "nat \<Rightarrow> matrix \<Rightarrow> u8 \<Rightarrow> nat \<Rightarrow> u8 \<times> bool \<Rightarrow> u8 \<times> bool" where
  "defer_started n raw d i k =
     (if key_on n raw i \<noteq> snd k then if fst k = 0 then d else fst k else 0, snd k)"

lemma defer_aged_facts:
  "fst (defer_aged n raw e i k) = aged e (fst k)"
  "fst k = 0 \<or> e = 0 \<Longrightarrow> defer_aged n raw e i k = k"
  by (cases k; auto simp: defer_aged_def aged_still)+

lemma defer_started_fst:
  "fst (defer_started n raw d i k) \<noteq> 0 \<Longrightarrow> fst k = 0 \<Longrightarrow> key_on n raw i \<noteq> snd k"
  by (auto simp: defer_started_def split: if_splits)

lemma defer_update_key_cells:
  assumes "i < rows * n" "debounce_wf n rows t sm"
  shows "debounce_wf n rows t (defer_update_key n e raw sm i) \<and>
    (\<forall>j < rows * n. cell n (defer_update_key n e raw sm i) j =
       (if j = i then defer_aged n raw e i (cell n sm i) else cell n sm j)) \<and>
    counters_need_update (fst (defer_update_key n e raw sm i)) =
      (counters_need_update (fst sm) \<or> e < fst (cell n sm i))"
proof -
  obtain s m where sm: "sm = (s, m)" by (cases sm)
  show ?thesis using assms
    by (cases "e < debounce_counters s ! i"; cases "debounce_counters s ! i = 0")
      (auto simp: sm defer_update_key_def debounce_wf_def cell_def defer_aged_def aged_def Let_def)
qed

lemma defer_update_cells:
  assumes "debounce_wf n rows t sm"
  shows "debounce_wf n rows t (defer_update n rows raw e sm) \<and>
    (\<forall>i < rows * n. cell n (defer_update n rows raw e sm) i = defer_aged n raw e i (cell n sm i)) \<and>
    counters_need_update (fst (defer_update n rows raw e sm)) = (\<exists>i < rows * n. e < fst (cell n sm i))"
proof -
  define sm0 where "sm0 = ((fst sm)\<lparr>counters_need_update := False\<rparr>, snd sm)"
  have "defer_update n rows raw e sm = foldl (defer_update_key n e raw) sm0 [0..<rows * n]"
    by (simp add: defer_update_def sm0_def split: prod.splits)
  moreover have "cell n sm0 = cell n sm" "debounce_wf n rows t sm0" "\<not> counters_need_update (fst sm0)"
    using assms by (auto simp: sm0_def cell_def debounce_wf_def)
  ultimately show ?thesis
    using pointwise_loop [where N = "rows * n" and P = "\<lambda>_. debounce_wf n rows t" and k = "rows * n" and st = sm0
        and step = "defer_update_key n e raw" and f = "defer_aged n raw e" and g = "\<lambda>i k. e < fst k",
        OF defer_update_key_cells] by simp
qed

lemma defer_start_key_cells:
  assumes "i < rows * n" "debounce_wf n rows t sm \<and> (\<forall>j < rows * n. key_on n (snd sm) j = key_on n cooked j)"
    "d \<noteq> 0"
  shows "(debounce_wf n rows t (defer_start_key n d raw cooked sm i) \<and>
      (\<forall>j < rows * n. key_on n (snd (defer_start_key n d raw cooked sm i)) j = key_on n cooked j)) \<and>
    (\<forall>j < rows * n. cell n (defer_start_key n d raw cooked sm i) j =
       (if j = i then defer_started n raw d i (cell n sm i) else cell n sm j)) \<and>
    counters_need_update (fst (defer_start_key n d raw cooked sm i)) =
      (counters_need_update (fst sm) \<or> key_on n raw i \<noteq> snd (cell n sm i) \<and> fst (cell n sm i) = 0)"
proof -
  obtain s m where sm: "sm = (s, m)" by (cases sm)
  show ?thesis using assms
    by (cases "key_on n raw i = key_on n cooked i"; cases "debounce_counters s ! i = 0")
      (auto simp: sm defer_start_key_def debounce_wf_def cell_def defer_started_def Let_def)
qed

lemma defer_start_cells:
  fixes sm :: "(u8, 't::len word) debounce_st \<times> matrix"
  assumes "debounce_wf n rows t sm" "d \<noteq> 0"
  shows "debounce_wf n rows t (defer_start n d rows raw sm) \<and>
    (\<forall>i < rows * n. cell n (defer_start n d rows raw sm) i = defer_started n raw d i (cell n sm i)) \<and>
    counters_need_update (fst (defer_start n d rows raw sm)) =
      (counters_need_update (fst sm) \<or>
       (\<exists>i < rows * n. key_on n raw i \<noteq> snd (cell n sm i) \<and> fst (cell n sm i) = 0))"
proof -
  define P where "P sm' \<longleftrightarrow> debounce_wf n rows t sm' \<and>
    (\<forall>j < rows * n. key_on n (snd sm') j = key_on n (snd sm) j)"
    for sm' :: "(u8, 't word) debounce_st \<times> matrix"
  have "P sm" using assms(1) by (simp add: P_def)
  from pointwise_loop [where P = "\<lambda>_. P" and step = "defer_start_key n d raw (snd sm)" and N = "rows * n"
      and f = "defer_started n raw d" and g = "\<lambda>i k. key_on n raw i \<noteq> snd k \<and> fst k = 0",
      OF defer_start_key_cells [OF _ _ assms(2), where t = t and n = n and rows = rows
        and raw = raw and cooked = "snd sm", folded P_def] this order_refl]
  show ?thesis by (simp add: defer_start_def P_def)
qed

text \<open>
  The deferred algorithm on one key, its counter and its value: the reference that the loops
  implement.  A counter that runs keeps \<^verbatim>\<open>counters_need_update\<close> set, so it ages at every call.
\<close>

definition defer_key :: "nat \<Rightarrow> nat \<Rightarrow> u8 \<Rightarrow> bool \<Rightarrow> matrix \<Rightarrow> nat \<Rightarrow> u8 \<times> bool \<Rightarrow> u8 \<times> bool" where
  "defer_key n d e changed raw i k =
     (let k = defer_aged n raw e i k in if changed then defer_started n raw (debounce_ms d) i k else k)"

definition counters_awake :: "nat \<Rightarrow> nat \<Rightarrow> (u8, 't) debounce_st \<Rightarrow> bool" where
  "counters_awake n rows s \<longleftrightarrow>
     (\<forall>i < rows * n. debounce_counters s ! i \<noteq> 0 \<longrightarrow> counters_need_update s)"

lemma debounce_ms_neq_0 [simp]: "debounce_ms d = 0 \<longleftrightarrow> d = 0"
proof -
  have "unat (debounce_ms d) = min d 255" by (simp add: debounce_ms_def unat_of_nat take_bit_eq_mod)
  then show ?thesis by (auto simp: unat_eq_0 [symmetric] simp del: unat_eq_zero)
qed

lemma unat_debounce_ms: "unat (debounce_ms d) = min d 255"
  by (simp add: debounce_ms_def unat_of_nat take_bit_eq_mod)

text \<open>The two halves of the body of \<^verbatim>\<open>debounce\<close>: ageing the counters, then starting them.\<close>

lemma ageing_phase:
  assumes "debounce_wf n rows t (s, m)" "counters_awake n rows s"
    and update: "\<And>sm. debounce_wf n rows now sm \<Longrightarrow> debounce_wf n rows now (update e sm) \<and>
      (\<forall>i < rows * n. cell n (update e sm) i = f i (cell n sm i)) \<and>
      counters_need_update (fst (update e sm)) = (\<exists>i < rows * n. e < fst (cell n sm i))"
    and f: "\<And>i k. fst (f i k) = aged e (fst k)" "\<And>i k. fst k = 0 \<or> e = 0 \<Longrightarrow> f i k = k"
    and sm1: "sm1 = (if counters_need_update s then
        if e > 0 then update e (s\<lparr>last_time := now\<rparr>, m) else (s\<lparr>last_time := now\<rparr>, m)
      else (s, m))"
  shows "debounce_wf n rows (last_time (fst sm1)) sm1 \<and>
      (\<forall>i < rows * n. cell n sm1 i = f i (cell n (s, m) i)) \<and> counters_awake n rows (fst sm1) \<and>
      (counters_need_update s \<or> counters_need_update (fst sm1) \<longrightarrow> last_time (fst sm1) = now)"
proof (cases "counters_need_update s \<and> e > 0")
  case True
  have wf0: "debounce_wf n rows now (s\<lparr>last_time := now\<rparr>, m)"
    and cell0: "cell n (s\<lparr>last_time := now\<rparr>, m) = cell n (s, m)"
    using assms(1) by (auto simp: debounce_wf_def cell_def)
  have "sm1 = update e (s\<lparr>last_time := now\<rparr>, m)" using True by (simp add: sm1)
  then have u: "debounce_wf n rows now sm1" "\<forall>i < rows * n. cell n sm1 i = f i (cell n (s, m) i)"
    "counters_need_update (fst sm1) = (\<exists>i < rows * n. e < fst (cell n (s, m) i))"
    using update [OF wf0] by (simp_all add: cell0)
  moreover have "debounce_counters (fst sm1) ! i = aged e (fst (cell n (s, m) i))" if "i < rows * n" for i
  proof -
    have "fst (cell n sm1 i) = aged e (fst (cell n (s, m) i))" using u(2) that by (simp add: f(1))
    then show ?thesis by (simp add: cell_def)
  qed
  ultimately show ?thesis by (auto simp: counters_awake_def debounce_wf_def not_le)
next
  case False
  then have "sm1 = (if counters_need_update s then s\<lparr>last_time := now\<rparr> else s, m)" by (auto simp: sm1)
  moreover have "f i (cell n (s, m) i) = cell n (s, m) i" if "i < rows * n" for i
    using False assms(2) that by (intro f(2)) (auto simp: counters_awake_def cell_def word_gt_0)
  ultimately show ?thesis using assms(1,2) by (auto simp: debounce_wf_def counters_awake_def cell_def)
qed

lemma starting_phase:
  assumes sm1: "debounce_wf n rows t1 (s1, m1)" "counters_awake n rows s1" "need \<longrightarrow> t1 = now"
    and transfer: "\<And>sm. debounce_wf n rows now sm \<Longrightarrow> debounce_wf n rows now (transfer sm) \<and>
      (\<forall>i < rows * n. cell n (transfer sm) i = f i (cell n sm i)) \<and>
      counters_need_update (fst (transfer sm)) = (counters_need_update (fst sm) \<or>
        (\<exists>i < rows * n. key_on n raw i \<noteq> snd (cell n sm i) \<and> fst (cell n sm i) = 0))"
    and f: "\<And>i k. fst (f i k) \<noteq> 0 \<Longrightarrow> fst k = 0 \<Longrightarrow> key_on n raw i \<noteq> snd k"
    and sm2: "sm2 = transfer (if need then s1 else s1\<lparr>last_time := now\<rparr>, m1)"
  shows "debounce_wf n rows now sm2 \<and> (\<forall>i < rows * n. cell n sm2 i = f i (cell n (s1, m1) i)) \<and>
    counters_awake n rows (fst sm2)"
proof -
  define s0 where "s0 = (if need then s1 else s1\<lparr>last_time := now\<rparr>)"
  have s0: "debounce_wf n rows now (s0, m1)" "cell n (s0, m1) = cell n (s1, m1)"
    using sm1 by (auto simp: s0_def debounce_wf_def cell_def)
  have st: "debounce_wf n rows now sm2" "\<forall>i < rows * n. cell n sm2 i = f i (cell n (s1, m1) i)"
    "counters_need_update (fst sm2) \<longleftrightarrow> counters_need_update s1 \<or>
      (\<exists>i < rows * n. key_on n raw i \<noteq> snd (cell n (s1, m1) i) \<and> fst (cell n (s1, m1) i) = 0)"
    using transfer [OF s0(1)] by (simp_all add: s0_def [symmetric] s0(2) sm2) (simp add: s0_def)
  have "counters_need_update (fst sm2)" if "i < rows * n" "debounce_counters (fst sm2) ! i \<noteq> 0" for i
  proof (cases "fst (cell n (s1, m1) i) = 0")
    case True
    have "fst (cell n sm2 i) \<noteq> 0" using that(2) by (simp add: cell_def)
    then have "fst (f i (cell n (s1, m1) i)) \<noteq> 0" using that(1) st(2) by simp
    then show ?thesis using f True st(3) that(1) by blast
  next
    case False
    then show ?thesis using sm1(2) st(3) that(1) by (simp add: cell_def counters_awake_def)
  qed
  with st show ?thesis by (simp add: counters_awake_def)
qed

lemma sym_defer_pk_cells:
  assumes "debounce_wf n rows t (s, m)" "counters_awake n rows s" "0 < d"
    and "sym_defer_pk_debounce n d rows now raw changed (s, m) = (s', m')"
  shows "(\<forall>i < rows * n. cell n (s', m') i = defer_key n d (elapsed_ms now t) changed raw i (cell n (s, m) i))
    \<and> debounce_wf n rows (last_time s') (s', m') \<and> counters_awake n rows s' \<and>
    (counters_need_update s' \<longrightarrow> last_time s' = now)"
proof -
  define e where "e = elapsed_ms now t"
  obtain s1 m1 where sm1: "(s1, m1) = (if counters_need_update s then
      if e > 0 then defer_update n rows raw e (s\<lparr>last_time := now\<rparr>, m) else (s\<lparr>last_time := now\<rparr>, m)
    else (s, m))" by (metis prod.exhaust)
  have t: "last_time s = t" using assms(1) by (simp add: debounce_wf_def)
  have run: "(s', m') = (if changed
      then defer_start n (debounce_ms d) rows raw
        (if counters_need_update s then s1 else s1\<lparr>last_time := now\<rparr>, m1) else (s1, m1))"
    using assms(4) sm1 [symmetric]
    by (simp add: sym_defer_pk_debounce_def counter_debounce_def Let_def e_def t cong: if_cong)
  have 1: "debounce_wf n rows (last_time s1) (s1, m1)" "counters_awake n rows s1"
    "\<forall>i < rows * n. cell n (s1, m1) i = defer_aged n raw e i (cell n (s, m) i)"
    "counters_need_update s \<or> counters_need_update s1 \<longrightarrow> last_time s1 = now"
    using ageing_phase [where f = "defer_aged n raw e" and update = "defer_update n rows raw",
        OF assms(1,2) defer_update_cells defer_aged_facts sm1] by simp_all
  show ?thesis
  proof (cases changed)
    case False
    then show ?thesis using 1 run by (simp add: defer_key_def e_def)
  next
    case True
    then have r: "(s', m') = defer_start n (debounce_ms d) rows raw
        (if counters_need_update s then s1 else s1\<lparr>last_time := now\<rparr>, m1)" using run by simp
    have w: "counters_need_update s \<longrightarrow> last_time s1 = now" and d: "debounce_ms d \<noteq> 0"
      using 1(4) assms(3) by simp_all
    have "debounce_wf n rows now (s', m')" "counters_awake n rows s'"
      "\<forall>i < rows * n. cell n (s', m') i = defer_started n raw (debounce_ms d) i (cell n (s1, m1) i)"
      using starting_phase [where f = "defer_started n raw (debounce_ms d)" and need = "counters_need_update s"
            and transfer = "defer_start n (debounce_ms d) rows raw",
          OF 1(1,2) w defer_start_cells [OF _ d] defer_started_fst [where d = "debounce_ms d"] r] by simp_all
    then show ?thesis using 1(3) True by (simp add: defer_key_def e_def debounce_wf_def)
  qed
qed

section \<open>The eager algorithm\<close>

definition eager_aged :: "u8 \<Rightarrow> u8 \<times> bool \<Rightarrow> u8 \<times> bool" where
  "eager_aged e k = (aged e (fst k), snd k)"

lemma eager_aged_facts:
  "fst (eager_aged e k) = aged e (fst k)"
  "fst k = 0 \<or> e = 0 \<Longrightarrow> eager_aged e k = k"
  by (cases k; auto simp: eager_aged_def aged_still)+

definition eager_started :: "nat \<Rightarrow> matrix \<Rightarrow> u8 \<Rightarrow> nat \<Rightarrow> u8 \<times> bool \<Rightarrow> u8 \<times> bool" where
  "eager_started n raw d i k =
     (if key_on n raw i \<noteq> snd k \<and> fst k = 0 then (d, \<not> snd k) else k)"

lemma eager_started_fst:
  "fst (eager_started n raw d i k) \<noteq> 0 \<Longrightarrow> fst k = 0 \<Longrightarrow> key_on n raw i \<noteq> snd k"
  by (auto simp: eager_started_def split: if_splits)

definition eager_key :: "nat \<Rightarrow> nat \<Rightarrow> u8 \<Rightarrow> matrix \<Rightarrow> nat \<Rightarrow> u8 \<times> bool \<Rightarrow> u8 \<times> bool" where
  "eager_key n d e raw i k = eager_started n raw (debounce_ms d) i (eager_aged e k)"

lemma eager_update_key_cells:
  assumes "i < rows * n" "debounce_wf n rows t (s, m)"
  shows "debounce_wf n rows t (eager_update_key e s i, m) \<and>
    (\<forall>j < rows * n. cell n (eager_update_key e s i, m) j =
       (if j = i then eager_aged e (cell n (s, m) i) else cell n (s, m) j)) \<and>
    (counters_need_update (eager_update_key e s i), matrix_need_update (eager_update_key e s i)) =
      (counters_need_update s \<or> e < fst (cell n (s, m) i),
       matrix_need_update s \<or> fst (cell n (s, m) i) \<noteq> 0 \<and> fst (cell n (s, m) i) \<le> e)"
  using assms
  by (cases "e < debounce_counters s ! i"; cases "debounce_counters s ! i = 0")
    (auto simp: eager_update_key_def debounce_wf_def cell_def aged_def eager_aged_def Let_def)

lemma eager_update_cells:
  fixes s :: "(u8, 't::len word) debounce_st"
  assumes "debounce_wf n rows t (s, m)" "eager_update (rows * n) e (s, m) = (s', m')"
  shows "debounce_wf n rows t (s', m') \<and>
    (\<forall>i < rows * n. cell n (s', m') i = eager_aged e (cell n (s, m) i)) \<and>
    counters_need_update s' = (\<exists>i < rows * n. e < fst (cell n (s, m) i)) \<and>
    matrix_need_update s' =
      (\<exists>i < rows * n. fst (cell n (s, m) i) \<noteq> 0 \<and> fst (cell n (s, m) i) \<le> e)"
proof -
  define s0 where "s0 = s\<lparr>counters_need_update := False, matrix_need_update := False\<rparr>"
  have r: "s' = foldl (eager_update_key e) s0 [0..<rows * n]" "m' = m"
    using assms(2) by (simp_all add: eager_update_def s0_def)
  have s0: "cell n (s0, m) = cell n (s, m)" "debounce_wf n rows t (s0, m)" "\<not> counters_need_update s0"
    "\<not> matrix_need_update s0"
    using assms(1) by (auto simp: s0_def cell_def debounce_wf_def)
  note loop = pointwise_loop [where N = "rows * n" and k = "rows * n" and st = s0
      and P = "\<lambda>_ s. debounce_wf n rows t (s, m)" and get = "\<lambda>s. cell n (s, m)"
      and step = "eager_update_key e" and f = "\<lambda>_. eager_aged e"]
  note step = eager_update_key_cells [of _ rows n t _ m e]
  have 1: "i < rows * n \<Longrightarrow> debounce_wf n rows t (s, m) \<Longrightarrow> debounce_wf n rows t (eager_update_key e s i, m) \<and>
      (\<forall>j < rows * n. cell n (eager_update_key e s i, m) j =
         (if j = i then eager_aged e (cell n (s, m) i) else cell n (s, m) j)) \<and>
      counters_need_update (eager_update_key e s i) = (counters_need_update s \<or> e < fst (cell n (s, m) i))"
    for i and s :: "(u8, 't word) debounce_st" using step [of i s] by simp
  have 2: "i < rows * n \<Longrightarrow> debounce_wf n rows t (s, m) \<Longrightarrow> debounce_wf n rows t (eager_update_key e s i, m) \<and>
      (\<forall>j < rows * n. cell n (eager_update_key e s i, m) j =
         (if j = i then eager_aged e (cell n (s, m) i) else cell n (s, m) j)) \<and>
      matrix_need_update (eager_update_key e s i) =
        (matrix_need_update s \<or> fst (cell n (s, m) i) \<noteq> 0 \<and> fst (cell n (s, m) i) \<le> e)"
    for i and s :: "(u8, 't word) debounce_st" using step [of i s] by simp
  show ?thesis
    using loop [where flag = counters_need_update and g = "\<lambda>i c. e < fst c", OF 1 s0(2) order_refl]
      loop [where flag = matrix_need_update and g = "\<lambda>i c. fst c \<noteq> 0 \<and> fst c \<le> e", OF 2 s0(2) order_refl] s0
    by (simp add: r)
qed

lemma eager_aged_cells:
  fixes sm :: "(u8, 't::len word) debounce_st \<times> matrix"
  assumes "debounce_wf n rows t sm"
  shows "debounce_wf n rows t (eager_update (rows * n) e sm) \<and>
    (\<forall>i < rows * n. cell n (eager_update (rows * n) e sm) i = eager_aged e (cell n sm i)) \<and>
    counters_need_update (fst (eager_update (rows * n) e sm)) = (\<exists>i < rows * n. e < fst (cell n sm i))"
  using eager_update_cells [of n rows t "fst sm" "snd sm" e "fst (eager_update (rows * n) e sm)"
      "snd (eager_update (rows * n) e sm)"] assms by simp

definition eager_todo :: "nat \<Rightarrow> nat \<Rightarrow> 't \<Rightarrow> matrix \<Rightarrow> nat \<Rightarrow> (u8, 't) debounce_st \<times> matrix \<Rightarrow> bool" where
  "eager_todo n rows t cooked i sm \<longleftrightarrow> debounce_wf n rows t sm \<and>
     (\<forall>j < rows * n. i \<le> j \<longrightarrow> key_on n (snd sm) j = key_on n cooked j)"

lemma eager_transfer_key_cells:
  assumes "i < rows * n" "eager_todo n rows t cooked i sm" "d \<noteq> 0"
  shows "eager_todo n rows t cooked (Suc i) (eager_transfer_key n d raw cooked sm i) \<and>
    (\<forall>j < rows * n. cell n (eager_transfer_key n d raw cooked sm i) j =
       (if j = i then eager_started n raw d i (cell n sm i) else cell n sm j)) \<and>
    counters_need_update (fst (eager_transfer_key n d raw cooked sm i)) =
      (counters_need_update (fst sm) \<or> key_on n raw i \<noteq> snd (cell n sm i) \<and> fst (cell n sm i) = 0)"
proof -
  obtain s m where sm: "sm = (s, m)" by (cases sm)
  show ?thesis using assms
    by (cases "key_on n raw i = key_on n cooked i"; cases "debounce_counters s ! i = 0")
      (auto simp: sm eager_transfer_key_def debounce_wf_def cell_def eager_started_def eager_todo_def Let_def)
qed

lemma eager_transfer_cells:
  fixes sm :: "(u8, 't::len word) debounce_st \<times> matrix"
  assumes "debounce_wf n rows t sm" "d \<noteq> 0"
  shows "debounce_wf n rows t (eager_transfer n d rows raw sm) \<and>
    (\<forall>i < rows * n. cell n (eager_transfer n d rows raw sm) i = eager_started n raw d i (cell n sm i)) \<and>
    counters_need_update (fst (eager_transfer n d rows raw sm)) =
      (counters_need_update (fst sm) \<or>
       (\<exists>i < rows * n. key_on n raw i \<noteq> snd (cell n sm i) \<and> fst (cell n sm i) = 0))"
proof -
  have "eager_todo n rows t (snd sm) 0 sm" using assms(1) by (simp add: eager_todo_def)
  from pointwise_loop [where P = "eager_todo n rows t (snd sm)" and step = "eager_transfer_key n d raw (snd sm)"
      and N = "rows * n" and f = "eager_started n raw d" and g = "\<lambda>i k. key_on n raw i \<noteq> snd k \<and> fst k = 0",
      OF eager_transfer_key_cells [OF _ _ assms(2)] this order_refl]
  show ?thesis by (simp add: eager_transfer_def eager_todo_def)
qed

lemma sym_eager_pk_cells:
  assumes "debounce_wf n rows t (s, m)" "counters_awake n rows s" "0 < d"
    and idle: "\<And>i. i < rows * n \<Longrightarrow> debounce_counters s ! i = 0 \<Longrightarrow> \<not> changed \<Longrightarrow> key_on n raw i = key_on n m i"
    and "sym_eager_pk_debounce n d rows now raw changed (s, m) = (s', m')"
  shows "(\<forall>i < rows * n. cell n (s', m') i = eager_key n d (elapsed_ms now t) raw i (cell n (s, m) i))
    \<and> debounce_wf n rows (last_time s') (s', m') \<and> counters_awake n rows s' \<and>
    (counters_need_update s' \<longrightarrow> last_time s' = now)"
proof -
  define e where "e = elapsed_ms now t"
  obtain s1 m1 where sm1: "(s1, m1) = (if counters_need_update s then
      if e > 0 then eager_update (rows * n) e (s\<lparr>last_time := now\<rparr>, m) else (s\<lparr>last_time := now\<rparr>, m)
    else (s, m))" by (metis prod.exhaust)
  have t: "last_time s = t" using assms(1) by (simp add: debounce_wf_def)
  have run: "(s', m') = (if changed \<or> matrix_need_update s1
      then eager_transfer n (debounce_ms d) rows raw
        (if counters_need_update s then s1 else s1\<lparr>last_time := now\<rparr>, m1) else (s1, m1))"
    using assms(5) sm1 [symmetric]
    by (simp add: sym_eager_pk_debounce_def counter_debounce_def Let_def e_def t cong: if_cong)
  have 1: "debounce_wf n rows (last_time s1) (s1, m1)" "counters_awake n rows s1"
    "\<forall>i < rows * n. cell n (s1, m1) i = eager_aged e (cell n (s, m) i)"
    "counters_need_update s \<or> counters_need_update s1 \<longrightarrow> last_time s1 = now"
    using ageing_phase [where f = "\<lambda>_. eager_aged e" and update = "eager_update (rows * n)",
        OF assms(1,2) eager_aged_cells eager_aged_facts sm1] by simp_all
  show ?thesis
  proof (cases "changed \<or> matrix_need_update s1")
    case False
    have "eager_started n raw (debounce_ms d) i (cell n (s1, m1) i) = cell n (s1, m1) i" if i: "i < rows * n" for i
    proof (cases "fst (cell n (s1, m1) i) = 0")
      case True
      have "debounce_counters s ! i = 0"
      proof (rule ccontr)
        assume c: "debounce_counters s ! i \<noteq> 0"
        then have n: "counters_need_update s" and le: "debounce_counters s ! i \<le> e"
          using assms(2) True 1(3) i by (auto simp: counters_awake_def cell_def eager_aged_def)
        then have "0 < e" using c by (simp add: word_gt_0) (metis word_le_0_iff)
        then have "eager_update (rows * n) e (s\<lparr>last_time := now\<rparr>, m) = (s1, m1)" using n sm1 by simp
        then have "matrix_need_update s1" using eager_update_cells [of n rows now "s\<lparr>last_time := now\<rparr>" m e s1 m1]
            assms(1) c le i by (auto simp: debounce_wf_def cell_def)
        then show False using False by simp
      qed
      then have "key_on n raw i = snd (cell n (s1, m1) i)"
        using idle [OF i] False 1(3) i by (simp add: cell_def eager_aged_def)
      then show ?thesis by (simp add: eager_started_def)
    qed (simp add: eager_started_def)
    then show ?thesis using 1 run False by (simp add: eager_key_def e_def)
  next
    case True
    then have r: "(s', m') = eager_transfer n (debounce_ms d) rows raw
        (if counters_need_update s then s1 else s1\<lparr>last_time := now\<rparr>, m1)" using run by simp
    have w: "counters_need_update s \<longrightarrow> last_time s1 = now" and d: "debounce_ms d \<noteq> 0"
      using 1(4) assms(3) by simp_all
    have "debounce_wf n rows now (s', m')" "counters_awake n rows s'"
      "\<forall>i < rows * n. cell n (s', m') i = eager_started n raw (debounce_ms d) i (cell n (s1, m1) i)"
      using starting_phase [where f = "eager_started n raw (debounce_ms d)" and need = "counters_need_update s"
            and transfer = "eager_transfer n (debounce_ms d) rows raw",
          OF 1(1,2) w eager_transfer_cells [OF _ d] eager_started_fst [where d = "debounce_ms d"] r] by simp_all
    then show ?thesis using 1(3) True by (simp add: eager_key_def e_def debounce_wf_def)
  qed
qed

end
