(* ===== verification/Matrix.thy ===== *)
theory Matrix
  imports Debounce_Keys Bitwise
begin

text \<open>
  Scanning the switches: \<^verbatim>\<open>quantum/matrix.c\<close> (the three ways a keyboard is wired, one hand or split) and the
  matrix of \<^verbatim>\<open>quantum/matrix_common.c\<close>.  The pins belong to the hardware: what a pin reads is a function
  \<open>level\<close> of how all pins are driven.  A pin of the wiring is \<open>None\<close> where the keyboard says \<^verbatim>\<open>NO_PIN\<close>.
  \<^verbatim>\<open>debounce\<close>, the hook \<^verbatim>\<open>matrix_scan_quantum\<close> and the transport between two halves are arguments.
\<close>

section \<open>Pins\<close>

datatype pin_mode = PinReset | PinInputHigh | PinOutputLow

type_synonym 'pin gpio = "'pin \<Rightarrow> pin_mode"

definition setPinOutput_writeLow :: "'pin \<Rightarrow> 'pin gpio \<Rightarrow> 'pin gpio" where
  "setPinOutput_writeLow pin g = g(pin := PinOutputLow)"

definition setPinInputHigh_atomic :: "'pin \<Rightarrow> 'pin gpio \<Rightarrow> 'pin gpio" where
  "setPinInputHigh_atomic pin g = g(pin := PinInputHigh)"

definition readMatrixPin :: "('pin gpio \<Rightarrow> 'pin \<Rightarrow> bool) \<Rightarrow> 'pin gpio \<Rightarrow> 'pin option \<Rightarrow> bool" where
  "readMatrixPin level g pin = (case pin of Some p \<Rightarrow> level g p | None \<Rightarrow> True)"

definition select_pin :: "'pin option \<Rightarrow> 'pin gpio \<Rightarrow> bool \<times> 'pin gpio" where
  "select_pin pin g =
     (case pin of Some p \<Rightarrow> (True, setPinOutput_writeLow p g) | None \<Rightarrow> (False, g))"

definition unselect_pin :: "'pin option \<Rightarrow> 'pin gpio \<Rightarrow> 'pin gpio" where
  "unselect_pin pin g = (case pin of Some p \<Rightarrow> setPinInputHigh_atomic p g | None \<Rightarrow> g)"

section \<open>The three wirings\<close>

datatype 'pin wiring =
    DIRECT_PINS "'pin option list list"
  | COL2ROW "'pin option list" "'pin option list"
  | ROW2COL "'pin option list" "'pin option list"

definition unselect_all :: "'pin option list \<Rightarrow> 'pin gpio \<Rightarrow> 'pin gpio" where
  "unselect_all pins g = foldl (\<lambda>g pin. unselect_pin pin g) g pins"

text \<open>Every pin gets its pull-up; the strobed side is unselected first.\<close>

fun matrix_init_pins :: "'pin wiring \<Rightarrow> 'pin gpio \<Rightarrow> 'pin gpio" where
  "matrix_init_pins (DIRECT_PINS pins) g = foldl (\<lambda>g row. unselect_all row g) g pins"
| "matrix_init_pins (COL2ROW row_pins col_pins) g = unselect_all col_pins (unselect_all row_pins g)"
| "matrix_init_pins (ROW2COL row_pins col_pins) g = unselect_all row_pins (unselect_all col_pins g)"

definition direct_read_row ::
    "'pin option list list \<Rightarrow> ('pin gpio \<Rightarrow> 'pin \<Rightarrow> bool) \<Rightarrow> 'pin gpio \<Rightarrow> matrix \<Rightarrow> nat \<Rightarrow> matrix" where
  "direct_read_row pins level g current row =
     current[row := foldl (\<lambda>v col. case pins ! row ! col of
                                     Some p \<Rightarrow> v OR (if level g p then 0 else bitmask col)
                                   | None \<Rightarrow> v) 0 [0..<length (pins ! row)]]"

definition col2row_read_row ::
    "'pin option list \<Rightarrow> 'pin option list \<Rightarrow> ('pin gpio \<Rightarrow> 'pin \<Rightarrow> bool) \<Rightarrow> 'pin gpio \<times> matrix \<Rightarrow> nat \<Rightarrow>
     'pin gpio \<times> matrix" where
  "col2row_read_row row_pins col_pins level gc row =
     (let (g, current) = gc; (selected, g) = select_pin (row_pins ! row) g
      in if \<not> selected then (g, current)
         else let v = foldl (\<lambda>v col. v OR (if readMatrixPin level g (col_pins ! col) then 0 else bitmask col))
                        0 [0..<length col_pins];
                  g = unselect_pin (row_pins ! row) g
              in (g, current[row := v]))"

definition row2col_read_col ::
    "'pin option list \<Rightarrow> 'pin option list \<Rightarrow> ('pin gpio \<Rightarrow> 'pin \<Rightarrow> bool) \<Rightarrow> 'pin gpio \<times> matrix \<Rightarrow> nat \<Rightarrow>
     'pin gpio \<times> matrix" where
  "row2col_read_col row_pins col_pins level gc col =
     (let (g, current) = gc; (selected, g) = select_pin (col_pins ! col) g
      in if \<not> selected then (g, current)
         else let current = foldl (\<lambda>m row. if \<not> readMatrixPin level g (row_pins ! row)
                                            then m[row := m ! row OR bitmask col]
                                            else m[row := m ! row AND NOT (bitmask col)])
                              current [0..<length row_pins];
                  g = unselect_pin (col_pins ! col) g
              in (g, current))"

text \<open>The loop of \<^verbatim>\<open>matrix_scan\<close> that reads the switches into \<^verbatim>\<open>curr_matrix\<close>, which starts clear.\<close>

fun read_switches :: "'pin wiring \<Rightarrow> nat \<Rightarrow> ('pin gpio \<Rightarrow> 'pin \<Rightarrow> bool) \<Rightarrow> 'pin gpio \<Rightarrow> 'pin gpio \<times> matrix" where
  "read_switches (DIRECT_PINS pins) rows level g =
     (g, foldl (direct_read_row pins level g) (replicate rows 0) [0..<length pins])"
| "read_switches (COL2ROW row_pins col_pins) rows level g =
     foldl (col2row_read_row row_pins col_pins level) (g, replicate rows 0) [0..<length row_pins]"
| "read_switches (ROW2COL row_pins col_pins) rows level g =
     foldl (row2col_read_col row_pins col_pins level) (g, replicate rows 0) [0..<length col_pins]"

section \<open>The scan\<close>

record ('pin, 's, 'q) matrix_st =
  gpio_pins :: "'pin gpio"
  raw_matrix :: matrix
  debouncer_st :: 's
  matrix_keys :: matrix
  quantum_st :: 'q

text \<open>What every scan does with the switches it has read: \<^verbatim>\<open>debounce\<close> is told whether they changed.\<close>

definition matrix_update ::
    "(matrix \<Rightarrow> bool \<Rightarrow> 's \<times> matrix \<Rightarrow> 's \<times> matrix) \<Rightarrow> matrix \<Rightarrow> matrix \<times> 's \<times> matrix \<Rightarrow>
     bool \<times> matrix \<times> 's \<times> matrix" where
  "matrix_update debounce curr_matrix rsm =
     (let (raw, sm) = rsm; changed = raw \<noteq> curr_matrix; raw = (if changed then curr_matrix else raw)
      in (changed, raw, debounce raw changed sm))"

definition matrix_scan ::
    "'pin wiring \<Rightarrow> nat \<Rightarrow> ('pin gpio \<Rightarrow> 'pin \<Rightarrow> bool) \<Rightarrow>
     (matrix \<Rightarrow> bool \<Rightarrow> 's \<times> matrix \<Rightarrow> 's \<times> matrix) \<Rightarrow> ('q \<Rightarrow> 'q) \<Rightarrow>
     ('pin, 's, 'q) matrix_st \<Rightarrow> bool \<times> ('pin, 's, 'q) matrix_st" where
  "matrix_scan w rows level debounce matrix_scan_quantum st =
     (let (g, curr_matrix) = read_switches w rows level (gpio_pins st);
          (changed, raw, s, m) =
            matrix_update debounce curr_matrix (raw_matrix st, debouncer_st st, matrix_keys st)
      in (changed, st\<lparr>gpio_pins := g, raw_matrix := raw, debouncer_st := s, matrix_keys := m,
                      quantum_st := matrix_scan_quantum (quantum_st st)\<rparr>))"

definition matrix_init ::
    "'pin wiring \<Rightarrow> nat \<Rightarrow> ('s \<Rightarrow> 's) \<Rightarrow> ('q \<Rightarrow> 'q) \<Rightarrow> ('pin, 's, 'q) matrix_st \<Rightarrow> ('pin, 's, 'q) matrix_st" where
  "matrix_init w rows init_counters matrix_init_quantum st =
     st\<lparr>gpio_pins := matrix_init_pins w (gpio_pins st), raw_matrix := replicate rows 0,
        matrix_keys := replicate rows 0, debouncer_st := init_counters (debouncer_st st),
        quantum_st := matrix_init_quantum (quantum_st st)\<rparr>"

text \<open>The scan of a keyboard with its own matrix code, \<^verbatim>\<open>matrix_scan_custom\<close>, of \<^verbatim>\<open>matrix_common.c\<close>.\<close>

definition matrix_scan_lite ::
    "(matrix \<Rightarrow> bool \<times> matrix) \<Rightarrow> (matrix \<Rightarrow> bool \<Rightarrow> 's \<times> matrix \<Rightarrow> 's \<times> matrix) \<Rightarrow> ('q \<Rightarrow> 'q) \<Rightarrow>
     ('pin, 's, 'q) matrix_st \<Rightarrow> bool \<times> ('pin, 's, 'q) matrix_st" where
  "matrix_scan_lite matrix_scan_custom debounce matrix_scan_quantum st =
     (let (changed, raw) = matrix_scan_custom (raw_matrix st);
          (s, m) = debounce raw changed (debouncer_st st, matrix_keys st)
      in (changed, st\<lparr>raw_matrix := raw, debouncer_st := s, matrix_keys := m,
                      quantum_st := matrix_scan_quantum (quantum_st st)\<rparr>))"

subsection \<open>Two halves\<close>

text \<open>
  A split keyboard debounces its own half of the matrix, at the offset \<open>this\<close>, and fetches the other
  at \<open>that\<close>.  The transport says whether the other half answered, and with which rows.
\<close>

definition half :: "nat \<Rightarrow> nat \<Rightarrow> matrix \<Rightarrow> matrix" where
  "half off h m = take h (drop off m)"

definition set_half :: "nat \<Rightarrow> matrix \<Rightarrow> matrix \<Rightarrow> matrix" where
  "set_half off hm m = take off m @ hm @ drop (off + length hm) m"

record 'tr split_st =
  last_connected :: bool
  transport :: 'tr

definition matrix_post_scan_master ::
    "nat \<Rightarrow> nat \<Rightarrow> nat \<Rightarrow> (matrix \<Rightarrow> 'tr \<Rightarrow> matrix option \<times> 'tr) \<Rightarrow> ('q \<Rightarrow> 'q) \<Rightarrow>
     matrix \<times> 'tr split_st \<times> 'q \<Rightarrow> bool \<times> matrix \<times> 'tr split_st \<times> 'q" where
  "matrix_post_scan_master this that h transport_master matrix_scan_quantum mtq =
     (let (m, t, q) = mtq;
          (answer, tr) = transport_master (half this h m) (transport t);
          t = t\<lparr>transport := tr\<rparr>;
          (changed, slave, t) =
            (case answer of
               Some slave \<Rightarrow> (half that h m \<noteq> slave, slave, t\<lparr>last_connected := True\<rparr>)
             | None \<Rightarrow> if last_connected t then (True, replicate h 0, t\<lparr>last_connected := False\<rparr>)
                       else (False, replicate h 0, t));
          m = (if changed then set_half that slave m else m)
      in (changed, m, t, matrix_scan_quantum q))"

definition matrix_post_scan_slave ::
    "nat \<Rightarrow> nat \<Rightarrow> nat \<Rightarrow> (matrix \<Rightarrow> matrix \<Rightarrow> 'tr \<Rightarrow> matrix \<times> 'tr) \<Rightarrow> ('q \<Rightarrow> 'q) \<Rightarrow>
     matrix \<times> 'tr split_st \<times> 'q \<Rightarrow> bool \<times> matrix \<times> 'tr split_st \<times> 'q" where
  "matrix_post_scan_slave this that h transport_slave matrix_slave_scan_kb mtq =
     (let (m, t, q) = mtq;
          (master, tr) = transport_slave (half that h m) (half this h m) (transport t)
      in (False, set_half that master m, t\<lparr>transport := tr\<rparr>, matrix_slave_scan_kb q))"

definition matrix_scan_split ::
    "nat \<Rightarrow> nat \<Rightarrow> 'pin wiring \<Rightarrow> nat \<Rightarrow> ('pin gpio \<Rightarrow> 'pin \<Rightarrow> bool) \<Rightarrow>
     (matrix \<Rightarrow> bool \<Rightarrow> 's \<times> matrix \<Rightarrow> 's \<times> matrix) \<Rightarrow>
     (matrix \<times> 'tr split_st \<times> 'q \<Rightarrow> bool \<times> matrix \<times> 'tr split_st \<times> 'q) \<Rightarrow>
     ('pin, 's, 'q) matrix_st \<times> 'tr split_st \<Rightarrow> bool \<times> ('pin, 's, 'q) matrix_st \<times> 'tr split_st" where
  "matrix_scan_split this h w rows level debounce matrix_post_scan stt =
     (let (st, t) = stt; (g, curr_matrix) = read_switches w rows level (gpio_pins st);
          (changed, raw, s, mine) =
            matrix_update debounce curr_matrix (raw_matrix st, debouncer_st st, half this h (matrix_keys st));
          m = set_half this mine (matrix_keys st);
          st = st\<lparr>gpio_pins := g, raw_matrix := raw, debouncer_st := s, matrix_keys := m\<rparr>
      in if changed then (True, st, t)
         else let (c, m, t, q) = matrix_post_scan (m, t, quantum_st st)
              in (c, st\<lparr>matrix_keys := m, quantum_st := q\<rparr>, t))"

section \<open>Reading the matrix\<close>

definition matrix_is_on :: "matrix \<Rightarrow> nat \<Rightarrow> nat \<Rightarrow> bool" where
  "matrix_is_on m row col \<longleftrightarrow> m ! row AND bitmask col \<noteq> 0"

definition matrix_get_row :: "matrix option \<Rightarrow> matrix \<Rightarrow> nat \<Rightarrow> u32" where
  "matrix_get_row matrix_mask m row =
     (case matrix_mask of Some masks \<Rightarrow> m ! row AND masks ! row | None \<Rightarrow> m ! row)"

definition matrix_bitpop :: "nat \<Rightarrow> matrix option \<Rightarrow> matrix \<Rightarrow> nat \<Rightarrow> u8" where
  "matrix_bitpop n matrix_mask m row =
     (if n \<le> 8 then bitpop (ucast (matrix_get_row matrix_mask m row))
      else if n \<le> 16 then bitpop16 (ucast (matrix_get_row matrix_mask m row))
      else bitpop32 (matrix_get_row matrix_mask m row))"

definition matrix_key_count :: "nat \<Rightarrow> nat \<Rightarrow> matrix option \<Rightarrow> matrix \<Rightarrow> u8" where
  "matrix_key_count n rows matrix_mask m =
     foldl (\<lambda>count i. count + matrix_bitpop n matrix_mask m i) 0 [0..<rows]"

definition peek_matrix :: "('pin, 's, 'q) matrix_st \<Rightarrow> nat \<Rightarrow> nat \<Rightarrow> bool \<Rightarrow> bool" where
  "peek_matrix st row col raw \<longleftrightarrow>
     (if raw then raw_matrix st else matrix_keys st) ! row AND bitmask col \<noteq> 0"

section \<open>Reading ideal switches\<close>

text \<open>
  The hardware the code relies on: a pulled-up pin reads low when a closed switch, through its diode,
  joins it to a pin that is driven low; with direct pins the switch joins it to ground.
\<close>

fun diode_matrix :: "'pin wiring \<Rightarrow> (nat \<Rightarrow> nat \<Rightarrow> bool) \<Rightarrow> ('pin gpio \<Rightarrow> 'pin \<Rightarrow> bool) \<Rightarrow> bool" where
  "diode_matrix (DIRECT_PINS pins) closed level \<longleftrightarrow>
     (\<forall>g r c p. r < length pins \<longrightarrow> c < length (pins ! r) \<longrightarrow> pins ! r ! c = Some p \<longrightarrow>
        level g p = (\<not> closed r c))"
| "diode_matrix (COL2ROW row_pins col_pins) closed level \<longleftrightarrow>
     (\<forall>g c p. c < length col_pins \<longrightarrow> col_pins ! c = Some p \<longrightarrow>
        level g p = (\<not> (\<exists>r q. r < length row_pins \<and> row_pins ! r = Some q \<and> g q = PinOutputLow \<and> closed r c)))"
| "diode_matrix (ROW2COL row_pins col_pins) closed level \<longleftrightarrow>
     (\<forall>g r p. r < length row_pins \<longrightarrow> row_pins ! r = Some p \<longrightarrow>
        level g p = (\<not> (\<exists>c q. c < length col_pins \<and> col_pins ! c = Some q \<and> g q = PinOutputLow \<and> closed r c)))"

fun strobes :: "'pin wiring \<Rightarrow> 'pin option list" where
  "strobes (DIRECT_PINS pins) = []"
| "strobes (COL2ROW row_pins col_pins) = row_pins"
| "strobes (ROW2COL row_pins col_pins) = col_pins"

fun wiring_wf :: "nat \<Rightarrow> nat \<Rightarrow> 'pin wiring \<Rightarrow> bool" where
  "wiring_wf n rows (DIRECT_PINS pins) \<longleftrightarrow> n \<le> 32 \<and> length pins = rows \<and> (\<forall>r < rows. length (pins ! r) = n)"
| "wiring_wf n rows (COL2ROW row_pins col_pins) \<longleftrightarrow> n \<le> 32 \<and> length row_pins = rows \<and> length col_pins = n"
| "wiring_wf n rows (ROW2COL row_pins col_pins) \<longleftrightarrow> n \<le> 32 \<and> length row_pins = rows \<and> length col_pins = n"

fun has_pins :: "'pin wiring \<Rightarrow> nat \<Rightarrow> nat \<Rightarrow> bool" where
  "has_pins (DIRECT_PINS pins) r c \<longleftrightarrow> pins ! r ! c \<noteq> None"
| "has_pins (COL2ROW row_pins col_pins) r c \<longleftrightarrow> row_pins ! r \<noteq> None \<and> col_pins ! c \<noteq> None"
| "has_pins (ROW2COL row_pins col_pins) r c \<longleftrightarrow> row_pins ! r \<noteq> None \<and> col_pins ! c \<noteq> None"

definition unselected :: "'pin option list \<Rightarrow> 'pin gpio \<Rightarrow> bool" where
  "unselected pins g \<longleftrightarrow> (\<forall>q. Some q \<in> set pins \<longrightarrow> g q \<noteq> PinOutputLow)"

definition one_strobe_per_pin :: "'pin option list \<Rightarrow> bool" where
  "one_strobe_per_pin pins \<longleftrightarrow>
     (\<forall>i j. i < length pins \<longrightarrow> j < length pins \<longrightarrow> pins ! i = pins ! j \<longrightarrow> pins ! i \<noteq> None \<longrightarrow> i = j)"

lemma bit_or_loop:
  "k \<le> 32 \<Longrightarrow> bit (foldl (\<lambda>v c. v OR (if f c then 0 else bitmask c)) (v :: u32) [0..<k]) j =
     (bit v j \<or> j < k \<and> \<not> f j)"
  by (induction k) (auto simp: bit_or_iff bit_bitmask less_Suc_eq)

lemma select_some [simp]: "select_pin (Some p) g = (True, g(p := PinOutputLow))"
  by (simp add: select_pin_def setPinOutput_writeLow_def)

lemma select_none [simp]: "select_pin None g = (False, g)"
  by (simp add: select_pin_def)

lemma unselect_some [simp]: "unselect_pin (Some p) g = g(p := PinInputHigh)"
  by (simp add: unselect_pin_def setPinInputHigh_atomic_def)

lemma strobe_lows_one:
  assumes "unselected pins g" "one_strobe_per_pin pins" "i < length pins" "pins ! i = Some p"
  shows "(\<exists>j q. j < length pins \<and> pins ! j = Some q \<and> (g(p := PinOutputLow)) q = PinOutputLow \<and> P j) = P i"
proof
  assume "\<exists>j q. j < length pins \<and> pins ! j = Some q \<and> (g(p := PinOutputLow)) q = PinOutputLow \<and> P j"
  then obtain j q where j: "j < length pins" "pins ! j = Some q" "P j" and q: "(g(p := PinOutputLow)) q = PinOutputLow"
    by blast
  have "Some q \<in> set pins" using j by (metis nth_mem)
  then have "q = p" using assms(1) q by (auto simp: unselected_def split: if_splits)
  then show "P i" using assms(2-4) j by (auto simp: one_strobe_per_pin_def)
qed (use assms(3,4) in auto)

lemma unselected_after: "unselected pins g \<Longrightarrow> unselected pins (g(p := PinInputHigh))"
  by (auto simp: unselected_def)

text \<open>A matrix of which only the rows below \<open>k\<close> have been read, and one of which only the columns have.\<close>

definition rows_read :: "'pin wiring \<Rightarrow> (nat \<Rightarrow> nat \<Rightarrow> bool) \<Rightarrow> nat \<Rightarrow> nat \<Rightarrow> nat \<Rightarrow> nat \<Rightarrow> matrix \<Rightarrow> bool" where
  "rows_read w closed n rows k l m \<longleftrightarrow> length m = rows \<and>
     (\<forall>r < rows. \<forall>c. bit (m ! r) c = (r < k \<and> c < l \<and> has_pins w r c \<and> closed r c))"

lemma col2row_read:
  assumes w: "wiring_wf n rows (COL2ROW row_pins col_pins)" "one_strobe_per_pin row_pins"
      "diode_matrix (COL2ROW row_pins col_pins) closed level"
    and "unselected row_pins g" "k \<le> rows"
    and "foldl (col2row_read_row row_pins col_pins level) (g, replicate rows 0) [0..<k] = (g', m)"
  shows "unselected row_pins g' \<and> rows_read (COL2ROW row_pins col_pins) closed n rows k n m"
  using assms(5,6)
proof (induction k arbitrary: g' m)
  case 0
  then show ?case using assms(4) by (auto simp: rows_read_def)
next
  case (Suc k)
  obtain g1 m1 where 1: "foldl (col2row_read_row row_pins col_pins level) (g, replicate rows 0) [0..<k] = (g1, m1)"
    by fastforce
  then have IH: "unselected row_pins g1" "rows_read (COL2ROW row_pins col_pins) closed n rows k n m1"
    using Suc by auto
  have step: "col2row_read_row row_pins col_pins level (g1, m1) k = (g', m)" using Suc.prems 1 by simp
  show ?case
  proof (cases "row_pins ! k")
    case None
    then show ?thesis using step IH
      by (auto simp: col2row_read_row_def rows_read_def less_Suc_eq)
  next
    case (Some p)
    have low: "readMatrixPin level (g1(p := PinOutputLow)) (col_pins ! c) = (\<not> (col_pins ! c \<noteq> None \<and> closed k c))"
      if "c < n" for c
    proof (cases "col_pins ! c")
      case (Some q)
      moreover have "c < length col_pins" "k < length row_pins" using w(1) that Suc.prems(1) by simp_all
      ultimately have "level (g1(p := PinOutputLow)) q = (\<not> closed k c)"
        using w(3) [unfolded diode_matrix.simps, rule_format, of c q "g1(p := PinOutputLow)"]
          strobe_lows_one [OF IH(1) w(2) _ \<open>row_pins ! k = Some p\<close>, of "\<lambda>r. closed r c"] by blast
      then show ?thesis using Some by (simp add: readMatrixPin_def)
    qed (simp add: readMatrixPin_def)
    define v where "v = foldl (\<lambda>v col. v OR (if readMatrixPin level (g1(p := PinOutputLow)) (col_pins ! col)
      then 0 else bitmask col)) (0 :: u32) [0..<length col_pins]"
    have "bit v c = (c < n \<and> col_pins ! c \<noteq> None \<and> closed k c)" for c
      using w(1) low [of c] by (auto simp: v_def bit_or_loop)
    moreover have "g' = g1(p := PinInputHigh)" "m = m1[k := v]"
      using step Some by (simp_all add: col2row_read_row_def v_def)
    ultimately show ?thesis using IH Some Suc.prems(1) unselected_after [OF IH(1)]
      by (auto simp: rows_read_def less_Suc_eq nth_list_update simp del: fun_upd_apply)
  qed
qed

lemma col_loop:
  "k \<le> length m \<Longrightarrow>
   foldl (\<lambda>m row. if \<not> high row then m[row := m ! row OR b] else m[row := m ! row AND NOT b]) m [0..<k] =
   map (\<lambda>i. if i < k then (if \<not> high i then m ! i OR b else m ! i AND NOT b) else m ! i) [0..<length m]"
  using foldl_upt_list_update [of k m "\<lambda>i x. if \<not> high i then x OR b else x AND NOT b"]
  by (simp add: if_distrib cong: if_cong)

lemma row2col_read:
  assumes w: "wiring_wf n rows (ROW2COL row_pins col_pins)" "one_strobe_per_pin col_pins"
      "diode_matrix (ROW2COL row_pins col_pins) closed level"
    and "unselected col_pins g" "k \<le> n"
    and "foldl (row2col_read_col row_pins col_pins level) (g, replicate rows 0) [0..<k] = (g', m)"
  shows "unselected col_pins g' \<and> rows_read (ROW2COL row_pins col_pins) closed n rows rows k m"
  using assms(5,6)
proof (induction k arbitrary: g' m)
  case 0
  then show ?case using assms(4) by (auto simp: rows_read_def)
next
  case (Suc k)
  obtain g1 m1 where 1: "foldl (row2col_read_col row_pins col_pins level) (g, replicate rows 0) [0..<k] = (g1, m1)"
    by fastforce
  then have IH: "unselected col_pins g1" "rows_read (ROW2COL row_pins col_pins) closed n rows rows k m1"
    using Suc by auto
  have step: "row2col_read_col row_pins col_pins level (g1, m1) k = (g', m)" using Suc.prems 1 by simp
  show ?case
  proof (cases "col_pins ! k")
    case None
    then show ?thesis using step IH
      by (auto simp: row2col_read_col_def rows_read_def less_Suc_eq)
  next
    case (Some p)
    have low: "readMatrixPin level (g1(p := PinOutputLow)) (row_pins ! r) = (\<not> (row_pins ! r \<noteq> None \<and> closed r k))"
      if "r < rows" for r
    proof (cases "row_pins ! r")
      case (Some q)
      moreover have "r < length row_pins" "k < length col_pins" using w(1) that Suc.prems(1) by simp_all
      ultimately have "level (g1(p := PinOutputLow)) q = (\<not> closed r k)"
        using w(3) [unfolded diode_matrix.simps, rule_format, of r q "g1(p := PinOutputLow)"]
          strobe_lows_one [OF IH(1) w(2) _ \<open>col_pins ! k = Some p\<close>, of "\<lambda>c. closed r c"] by blast
      then show ?thesis using Some by (simp add: readMatrixPin_def)
    qed (simp add: readMatrixPin_def)
    have m: "g' = g1(p := PinInputHigh)"
      "m = map (\<lambda>i. if \<not> readMatrixPin level (g1(p := PinOutputLow)) (row_pins ! i)
        then m1 ! i OR bitmask k else m1 ! i AND NOT (bitmask k)) [0..<rows]"
      using step Some IH(2) w(1) by (auto simp: row2col_read_col_def col_loop rows_read_def)
    have "bit (m ! r) c = (c < Suc k \<and> has_pins (ROW2COL row_pins col_pins) r c \<and> closed r c)" if "r < rows" for r c
      using IH(2) Some low [OF that] that w(1) Suc.prems(1)
      by (cases "c = k") (auto simp: m(2) rows_read_def bit_or_bitmask bit_and_not_bitmask less_Suc_eq)
    then show ?thesis using m unselected_after [OF IH(1)] by (auto simp: rows_read_def simp del: fun_upd_apply)
  qed
qed

lemma direct_read:
  assumes w: "wiring_wf n rows (DIRECT_PINS ps)" "diode_matrix (DIRECT_PINS ps) closed level" and "k \<le> rows"
  shows "rows_read (DIRECT_PINS ps) closed n rows k n
    (foldl (direct_read_row ps level g) (replicate rows 0) [0..<k])"
  using assms(3)
proof (induction k)
  case (Suc k)
  define v where "v = foldl (\<lambda>v col. case ps ! k ! col of
      Some p \<Rightarrow> v OR (if level g p then 0 else bitmask col) | None \<Rightarrow> v) (0 :: u32) [0..<n]"
  have "bit (foldl (\<lambda>v col. case ps ! k ! col of
      Some p \<Rightarrow> v OR (if level g p then 0 else bitmask col) | None \<Rightarrow> v) (0 :: u32) [0..<l]) c =
      (c < l \<and> ps ! k ! c \<noteq> None \<and> closed k c)" if "l \<le> n" for l c
    using that
  proof (induction l)
    case (Suc l)
    have "level g p = (\<not> closed k l)" if "ps ! k ! l = Some p" for p
      using w(2) that \<open>Suc k \<le> rows\<close> w(1) Suc.prems by simp
    then show ?case using Suc w(1)
      by (auto simp: bit_or_iff bit_bitmask less_Suc_eq split: option.splits)
  qed simp
  then have "bit v c = (c < n \<and> ps ! k ! c \<noteq> None \<and> closed k c)" for c by (simp add: v_def)
  moreover define m where "m = foldl (direct_read_row ps level g) (replicate rows 0) [0..<k]"
  moreover have "foldl (direct_read_row ps level g) (replicate rows 0) [0..<Suc k] = m[k := v]"
    using w Suc.prems by (simp add: m_def direct_read_row_def v_def)
  ultimately show ?case using Suc
    by (auto simp: rows_read_def less_Suc_eq nth_list_update)
qed (simp add: rows_read_def)

lemma read_switches_closed:
  assumes "wiring_wf n rows w" "one_strobe_per_pin (strobes w)" "diode_matrix w closed level"
    "unselected (strobes w) g" "read_switches w rows level g = (g', m)"
  shows "unselected (strobes w) g' \<and> rows_read w closed n rows rows n m"
proof (cases w)
  case (DIRECT_PINS ps)
  then show ?thesis using assms direct_read [of n rows ps closed level rows g] by (auto simp: unselected_def)
next
  case (COL2ROW row_pins col_pins)
  then show ?thesis using assms col2row_read [of n rows row_pins col_pins closed level g rows g' m] by auto
next
  case (ROW2COL row_pins col_pins)
  then show ?thesis using assms row2col_read [of n rows row_pins col_pins closed level g n g' m]
    by (auto simp: rows_read_def)
qed

lemma unselect_all_unselects:
  "(\<forall>q. g q = PinOutputLow \<longrightarrow> Some q \<in> set ps \<or> Some q \<notin> set qs) \<Longrightarrow> unselected qs (unselect_all ps g)"
proof (induction ps arbitrary: g)
  case (Cons pin ps)
  have "unselected qs (unselect_all ps (unselect_pin pin g))"
    using Cons.prems by (intro Cons.IH) (auto simp: unselect_pin_def setPinInputHigh_atomic_def split: option.splits)
  then show ?case by (simp add: unselect_all_def)
qed (auto simp: unselect_all_def unselected_def)

lemma unselect_all_keeps: "unselected qs g \<Longrightarrow> unselected qs (unselect_all ps g)"
  by (intro unselect_all_unselects) (auto simp: unselected_def)

lemma matrix_init_unselects: "unselected (strobes w) (matrix_init_pins w g)"
  by (cases w) (simp_all add: unselect_all_keeps unselect_all_unselects unselected_def [of "[]"])

text \<open>
  C15. A scan reads the switches.  On the hardware the code is written for (a diode matrix wired either way,
  or direct pins), with each strobed pin wired to one line only and none driven low when the scan begins,
  the raw matrix after \<^verbatim>\<open>matrix_scan\<close> has exactly the bits of the closed switches both of whose pins exist;
  no strobed pin is left driven low, so the next scan starts as this one did; and the scan reports a
  change exactly when the raw matrix has changed.
\<close>

theorem matrix_scan_reads_switches:
  assumes "wiring_wf n rows w" "one_strobe_per_pin (strobes w)" "diode_matrix w closed level"
    "unselected (strobes w) (gpio_pins st)"
    "matrix_scan w rows level debounce matrix_scan_quantum st = (changed, st')"
  shows "(\<forall>r < rows. \<forall>c. bit (raw_matrix st' ! r) c = (c < n \<and> has_pins w r c \<and> closed r c)) \<and>
    unselected (strobes w) (gpio_pins st') \<and> changed = (raw_matrix st' \<noteq> raw_matrix st)"
proof -
  obtain g' m where "read_switches w rows level (gpio_pins st) = (g', m)" by fastforce
  with read_switches_closed [OF assms(1-4) this] assms(5) show ?thesis
    by (auto simp: matrix_scan_def matrix_update_def rows_read_def Let_def split: prod.splits if_splits)
qed

text \<open>A board of two rows and two columns, whose second row is not wired and one switch of which is closed.\<close>

lemma matrix_scan_reads_switches_witness:
  "\<exists>st'. snd (matrix_scan (COL2ROW [Some (0 :: nat), None] [Some 2, Some 3]) 2
      (\<lambda>g p. p \<noteq> 3 \<or> g 0 \<noteq> PinOutputLow) (\<lambda>raw changed (u :: unit, m). (u, m)) (\<lambda>q :: unit. q)
      \<lparr>gpio_pins = \<lambda>_. PinReset, raw_matrix = [0, 0], debouncer_st = (), matrix_keys = [0, 0], quantum_st = ()\<rparr>) = st'
    \<and> bit (raw_matrix st' ! 0) 1 \<and> \<not> bit (raw_matrix st' ! 1) 1"
proof -
  define w where "w = COL2ROW [Some (0 :: nat), None] [Some 2, Some 3]"
  define level where "level = (\<lambda>(g :: nat gpio) (p :: nat). p \<noteq> 3 \<or> g 0 \<noteq> PinOutputLow)"
  have E: "(\<exists>r q. r < length [Some 0, None] \<and> [Some 0, None] ! r = Some q \<and> g q = PinOutputLow \<and> c = (1 :: nat)) =
      (g 0 = PinOutputLow \<and> c = 1)" for g :: "nat gpio" and c
    by (rule iffI, force simp: nth_Cons split: nat.splits, rule exI [of _ 0], simp)
  have "diode_matrix w (\<lambda>r c. c = 1) level"
    unfolding w_def diode_matrix.simps E by (auto simp: level_def nth_Cons split: nat.splits)
  moreover define st where "st = \<lparr>gpio_pins = \<lambda>_ :: nat. PinReset, raw_matrix = [0, 0], debouncer_st = (),
    matrix_keys = [0, 0], quantum_st = ()\<rparr>"
  moreover obtain changed st' where r: "matrix_scan w 2 level (\<lambda>raw changed (u :: unit, m). (u, m)) (\<lambda>q :: unit. q) st =
    (changed, st')" by fastforce
  moreover have "wiring_wf 2 2 w" "one_strobe_per_pin (strobes w)" "unselected (strobes w) (gpio_pins st)"
    by (simp_all add: w_def st_def one_strobe_per_pin_def unselected_def less_Suc_eq numeral_2_eq_2)
  ultimately have "bit (raw_matrix st' ! 0) 1 = has_pins w 0 1" "bit (raw_matrix st' ! 1) 1 = has_pins w 1 1"
    using matrix_scan_reads_switches [of 2 2 w "\<lambda>r c. c = 1" level st _ _ changed st'] by simp_all
  then show ?thesis using r by (simp add: w_def level_def st_def)
qed

section \<open>The split keyboard\<close>

text \<open>
  The call of \<^verbatim>\<open>matrix_post_scan\<close> stands to the right of \<^verbatim>\<open>changed ||\<close>: in a scan that finds changed switches the
  halves are not exchanged and the hook is not run.
\<close>

lemma split_scan_skips_post_scan:
  assumes "fst (matrix_scan_split this h w rows level debounce post (st, t))"
    "snd (read_switches w rows level (gpio_pins st)) \<noteq> raw_matrix st"
  shows "snd (snd (matrix_scan_split this h w rows level debounce post (st, t))) = t"
    "quantum_st (fst (snd (matrix_scan_split this h w rows level debounce post (st, t)))) = quantum_st st"
  using assms(2) by (auto simp: matrix_scan_split_def matrix_update_def Let_def split: prod.splits)

end
