(* ===== verification/Matrix_Debounce.thy ===== *)
theory Matrix_Debounce
  imports Matrix
begin

text \<open>
  Scans over time: what the deferred and the eager debounce algorithm with a counter per key promise
  of a keyboard that is scanned again and again.  A history is the list of the scans so far, each the time
  in milliseconds since power-up and the switches that were read; the timer the code reads is that
  time cut to the width \<open>'t\<close> of the fast timer.
\<close>

type_synonym scan = "nat \<times> matrix"

section \<open>Histories\<close>

definition matrix_boot :: "nat \<Rightarrow> nat \<Rightarrow> matrix \<times> (u8, 't::len word) debounce_st \<times> matrix" where
  "matrix_boot n rows =
     (replicate rows 0,
      debounce_init (rows * n) \<lparr>debounce_counters = [], last_time = 0, counters_need_update = False,
                               matrix_need_update = False\<rparr>,
      replicate rows 0)"

definition scan_step ::
    "('t::len word \<Rightarrow> matrix \<Rightarrow> bool \<Rightarrow> 's \<times> matrix \<Rightarrow> 's \<times> matrix) \<Rightarrow> scan \<Rightarrow> matrix \<times> 's \<times> matrix \<Rightarrow>
     matrix \<times> 's \<times> matrix" where
  "scan_step debounce sc st = snd (matrix_update (debounce (of_nat (fst sc))) (snd sc) st)"

definition scan_run ::
    "('t::len word \<Rightarrow> matrix \<Rightarrow> bool \<Rightarrow> 's \<times> matrix \<Rightarrow> 's \<times> matrix) \<Rightarrow> scan list \<Rightarrow> matrix \<times> 's \<times> matrix \<Rightarrow>
     matrix \<times> 's \<times> matrix" where
  "scan_run debounce scans st = foldl (\<lambda>st sc. scan_step debounce sc st) st scans"

definition cooked_of :: "matrix \<times> 's \<times> matrix \<Rightarrow> matrix" where "cooked_of st = snd (snd st)"

definition history_wf :: "nat \<Rightarrow> nat \<Rightarrow> scan list \<Rightarrow> bool" where
  "history_wf n rows scans \<longleftrightarrow> 0 < n \<and> n \<le> 32 \<and> sorted (map fst scans) \<and> list_all (\<lambda>sc. length (snd sc) = rows) scans"

text \<open>From scan \<open>j\<close> on, every scan has read the value \<open>v\<close> at key \<open>i\<close>.\<close>

definition read_since :: "nat \<Rightarrow> nat \<Rightarrow> scan list \<Rightarrow> nat \<Rightarrow> bool \<Rightarrow> bool" where
  "read_since n i scans j v \<longleftrightarrow> j < length scans \<and> list_all (\<lambda>sc. key_on n (snd sc) i = v) (drop j scans)"

text \<open>No two scans are so far apart that the timer wraps round between them.\<close>

definition gaps_below :: "nat \<Rightarrow> scan list \<Rightarrow> bool" where
  "gaps_below w scans \<longleftrightarrow> (\<forall>k. Suc k < length scans \<longrightarrow> fst (scans ! Suc k) - fst (scans ! k) < w)"

lemma history_snoc:
  "history_wf n rows (scans @ [sc]) \<longleftrightarrow> history_wf n rows scans \<and> length (snd sc) = rows \<and>
     (\<forall>x \<in> set scans. fst x \<le> fst sc)"
  by (auto simp: history_wf_def sorted_append)

lemma read_since_snoc:
  "read_since n i (scans @ [sc]) j v \<longleftrightarrow>
     key_on n (snd sc) i = v \<and> (read_since n i scans j v \<or> j = length scans)"
  by (auto simp: read_since_def less_Suc_eq)

lemma read_since_less: "read_since n i scans j v \<Longrightarrow> j < length scans"
  by (simp add: read_since_def)

lemma read_since_last: "read_since n i scans j v \<Longrightarrow> key_on n (snd (last scans)) i = v"
  by (cases scans rule: rev_cases) (auto simp: read_since_snoc read_since_def)

lemma gaps_snoc:
  "gaps_below w (scans @ [sc]) \<Longrightarrow> gaps_below w scans \<and> (scans \<noteq> [] \<longrightarrow> fst sc - fst (last scans) < w)"
proof -
  assume g: "gaps_below w (scans @ [sc])"
  have "gaps_below w scans" unfolding gaps_below_def
  proof (intro allI impI)
    fix k assume "Suc k < length scans"
    then show "fst (scans ! Suc k) - fst (scans ! k) < w"
      using g [unfolded gaps_below_def, rule_format, of k] by (simp add: nth_append)
  qed
  moreover have "fst sc - fst (last scans) < w" if "scans \<noteq> []"
    using g [unfolded gaps_below_def, rule_format, of "length scans - 1"] that
    by (simp add: nth_append last_conv_nth)
  ultimately show ?thesis by blast
qed

lemma unat_diff_le:
  assumes "b \<le> a"
  shows "unat (of_nat a - of_nat b :: 't::len word) \<le> a - b"
    "a - b < 2 ^ LENGTH('t) \<Longrightarrow> unat (of_nat a - of_nat b :: 't word) = a - b"
proof -
  have "of_nat a - of_nat b = (of_nat (a - b) :: 't word)" using assms by simp
  then have u: "unat (of_nat a - of_nat b :: 't word) = (a - b) mod 2 ^ LENGTH('t)"
    by (simp add: unat_of_nat take_bit_eq_mod)
  show "unat (of_nat a - of_nat b :: 't word) \<le> a - b" unfolding u by (rule mod_less_eq_dividend)
  show "a - b < 2 ^ LENGTH('t) \<Longrightarrow> unat (of_nat a - of_nat b :: 't word) = a - b" unfolding u by (rule mod_less)
qed

lemma elapsed_of_times:
  assumes "b \<le> a"
  shows "unat (elapsed_ms (of_nat a :: 't::len word) (of_nat b)) \<le> a - b"
    "a - b < 2 ^ LENGTH('t) \<Longrightarrow> unat (elapsed_ms (of_nat a :: 't word) (of_nat b)) = min 255 (a - b)"
proof -
  have e: "unat (elapsed_ms x y) = min 255 (unat (x - y))" for x y :: "'t word"
  proof (cases "unat (x - y) > 255")
    case False
    then have "unat (of_nat (unat (x - y)) :: u8) = unat (x - y)"
      by (simp only: unat_of_nat take_bit_eq_mod) simp
    then show ?thesis using False by (simp only: elapsed_ms_def if_False)
  qed (simp add: elapsed_ms_def)
  show "unat (elapsed_ms (of_nat a :: 't word) (of_nat b)) \<le> a - b"
    using unat_diff_le(1) [OF assms, where 't = 't] unfolding e by linarith
  show "a - b < 2 ^ LENGTH('t) \<Longrightarrow> unat (elapsed_ms (of_nat a :: 't word) (of_nat b)) = min 255 (a - b)"
    using unat_diff_le(2) [OF assms, where 't = 't] by (simp add: e)
qed

section \<open>One key under the deferred algorithm\<close>

definition defer_key_inv :: "nat \<Rightarrow> nat \<Rightarrow> nat \<Rightarrow> scan list \<Rightarrow> nat \<Rightarrow> matrix \<Rightarrow> u8 \<times> bool \<Rightarrow> bool" where
  "defer_key_inv w n d scans i raw k \<longleftrightarrow>
     (fst k \<noteq> 0 \<longleftrightarrow> key_on n raw i \<noteq> snd k) \<and> unat (fst k) \<le> min d 255 \<and>
     (fst k \<noteq> 0 \<longrightarrow> scans \<noteq> [] \<and>
        (\<exists>j. read_since n i scans j (\<not> snd k) \<and>
             fst (scans ! j) + min d 255 \<le> fst (last scans) + unat (fst k)) \<and>
        (gaps_below w scans \<longrightarrow> (\<forall>j. read_since n i scans j (\<not> snd k) \<longrightarrow>
             unat (fst k) + fst (last scans) \<le> min d 255 + fst (scans ! j))))"

lemma defer_key_step:
  assumes inv: "defer_key_inv w n d scans i raw k"
    and e: "fst k \<noteq> 0 \<Longrightarrow> unat e \<le> now - fst (last scans)"
      "fst k \<noteq> 0 \<Longrightarrow> now - fst (last scans) < w \<Longrightarrow> unat e = min 255 (now - fst (last scans))"
    and hist: "\<forall>x \<in> set scans. fst x \<le> now" "scans \<noteq> [] \<longrightarrow> raw = snd (last scans)"
    and d: "0 < d" and k': "k' = defer_key n d e (raw \<noteq> m) m i k"
  shows "defer_key_inv w n d (scans @ [(now, m)]) i m k' \<and>
    (snd k' \<noteq> snd k \<longrightarrow> (\<exists>j < length scans. read_since n i (scans @ [(now, m)]) j (snd k') \<and>
       fst (scans ! j) + min d 255 \<le> now))"
proof (cases "fst k = 0")
  case True
  then have on: "key_on n raw i = snd k" using inv by (simp add: defer_key_inv_def)
  have k1: "k' = (if key_on n m i \<noteq> snd k then (debounce_ms d, snd k) else (0, snd k))"
    using True on k' d by (cases k) (auto simp: defer_key_def defer_aged_def defer_started_def Let_def)
  have "j = length scans" if "read_since n i (scans @ [(now, m)]) j (\<not> snd k)" for j
  proof (cases "read_since n i scans j (\<not> snd k)")
    case True
    then have "scans \<noteq> []" by (auto simp: read_since_def)
    then show ?thesis using read_since_last [OF True] on hist(2) by simp
  qed (use that in \<open>simp add: read_since_snoc\<close>)
  then show ?thesis
    using d by (auto simp: k1 defer_key_inv_def unat_debounce_ms read_since_snoc nth_append)
next
  case False
  then have on: "key_on n raw i = (\<not> snd k)" and ne: "scans \<noteq> []" and le: "unat (fst k) \<le> min d 255"
    using inv by (auto simp: defer_key_inv_def)
  obtain j where j: "read_since n i scans j (\<not> snd k)"
    "fst (scans ! j) + min d 255 \<le> fst (last scans) + unat (fst k)"
    using inv False by (auto simp: defer_key_inv_def)
  have jl: "j < length scans" using j(1) by (simp add: read_since_def)
  have t: "fst (last scans) \<le> now" using hist(1) ne by simp
  show ?thesis
  proof (cases "fst k \<le> e")
    case True
    then have k1: "k' = (0, key_on n m i)"
      using False on k' by (cases k) (auto simp: defer_key_def defer_aged_def defer_started_def Let_def)
    have "fst (scans ! j) + min d 255 \<le> now"
      using j(2) t e(1) [OF False] True by (simp add: word_le_nat_alt)
    then show ?thesis using j(1) jl by (auto simp: k1 defer_key_inv_def read_since_snoc)
  next
    case gt: False
    then have k1: "k' = (if key_on n m i \<noteq> snd k then fst k - e else 0, snd k)"
      using False on k' by (cases k) (auto simp: defer_key_def defer_aged_def defer_started_def aged_def Let_def)
    have c: "unat (fst k - e) = unat (fst k) - unat e" "unat e < unat (fst k)"
      using gt by (simp_all add: unat_sub word_le_nat_alt)
    then have nz: "fst k - e \<noteq> 0" by auto
    have safe: "fst (scans ! j) + min d 255 \<le> now + unat (fst k - e)"
      using j(2) t e(1) [OF False] c by linarith
    have live: "unat (fst k - e) + now \<le> min d 255 + fst (scans ! j')"
      if "gaps_below w (scans @ [(now, m)])" "read_since n i scans j' (\<not> snd k)" for j'
    proof -
      have "unat (fst k) + fst (last scans) \<le> min d 255 + fst (scans ! j')"
        "now - fst (last scans) < w"
        using inv False that ne gaps_snoc [OF that(1)] by (auto simp: defer_key_inv_def)
      moreover from this(2) have "unat e = now - fst (last scans)"
        using e(2) [OF False] c le by auto
      ultimately show ?thesis using c t by linarith
    qed
    show ?thesis
    proof (cases "key_on n m i = snd k")
      case True
      then show ?thesis by (simp add: k1 defer_key_inv_def)
    next
      case m: False
      then have "defer_key_inv w n d (scans @ [(now, m)]) i m (fst k - e, snd k)"
        unfolding defer_key_inv_def using nz c le safe live j(1) jl
        by (auto simp: read_since_snoc nth_append intro!: exI [of _ j] dest: live read_since_less)
      then show ?thesis using m by (simp add: k1)
    qed
  qed
qed

section \<open>Every key, scan after scan\<close>

definition defer_inv :: "nat \<Rightarrow> nat \<Rightarrow> nat \<Rightarrow> scan list \<Rightarrow> matrix \<times> (u8, 't::len word) debounce_st \<times> matrix \<Rightarrow> bool" where
  "defer_inv n d rows scans st \<longleftrightarrow>
     (let (raw, sm) = st in
        raw = (if scans = [] then replicate rows 0 else snd (last scans)) \<and>
        debounce_wf n rows (last_time (fst sm)) sm \<and> counters_awake n rows (fst sm) \<and>
        (counters_need_update (fst sm) \<longrightarrow> scans \<noteq> [] \<and> last_time (fst sm) = of_nat (fst (last scans))) \<and>
        (\<forall>i < rows * n. defer_key_inv (2 ^ LENGTH('t)) n d scans i raw (cell n sm i)))"

lemma debounce_init_counters: "debounce_counters (debounce_init k s) = replicate k 0"
proof -
  have "foldl (\<lambda>cs _. cs @ [0]) cs [0..<k] = cs @ replicate k 0" for cs
    by (induction k arbitrary: cs) (simp_all add: replicate_append_same)
  from this [of "[]"] show ?thesis by (simp add: debounce_init_def)
qed

lemma key_on_clear: "i < rows * n \<Longrightarrow> \<not> key_on n (replicate rows 0) i"
  by (simp add: key_on_def key_index)

lemma matrix_boot_facts:
  assumes "0 < n" "n \<le> 32" "matrix_boot n rows = (raw, s, m)"
  shows "raw = replicate rows 0" "debounce_wf n rows (last_time s) (s, m)" "\<not> counters_need_update s"
    "i < rows * n \<Longrightarrow> cell n (s, m) i = (0, False)"
  using assms
  by (auto simp: matrix_boot_def debounce_wf_def matrix_wf_def debounce_init_counters cell_def key_on_clear)
    (simp_all add: debounce_init_def)

lemma defer_inv_boot:
  assumes "0 < n" "n \<le> 32"
  shows "defer_inv n d rows [] (matrix_boot n rows :: matrix \<times> (u8, 't::len word) debounce_st \<times> matrix)"
proof -
  obtain raw s m where b: "(matrix_boot n rows :: matrix \<times> (u8, 't word) debounce_st \<times> matrix) = (raw, s, m)"
    using prod_cases3 by blast
  note f = matrix_boot_facts [OF assms b]
  then show ?thesis
    by (auto simp: b defer_inv_def defer_key_inv_def key_on_clear counters_awake_def)
      (metis cell_def fst_conv)
qed

lemma scan_step_eq:
  "scan_step debounce (now, mm) (raw, sm) = (mm, debounce (of_nat now) mm (raw \<noteq> mm) sm)"
  by (simp add: scan_step_def matrix_update_def Let_def)

lemma defer_inv_step:
  fixes st :: "matrix \<times> (u8, 't::len word) debounce_st \<times> matrix"
  assumes "defer_inv n d rows scans st" "history_wf n rows (scans @ [sc])" "0 < d"
    and st': "st' = scan_step (sym_defer_pk_debounce n d rows) sc st"
  shows "defer_inv n d rows (scans @ [sc]) st' \<and>
    (\<forall>i < rows * n. key_on n (cooked_of st') i \<noteq> key_on n (cooked_of st) i \<longrightarrow>
       (\<exists>j < length scans. read_since n i (scans @ [sc]) j (key_on n (cooked_of st') i) \<and>
          fst (scans ! j) + min d 255 \<le> fst sc))"
proof -
  obtain raw s m where st: "st = (raw, s, m)" using prod_cases3 by blast
  obtain now mm where sc: "sc = (now, mm)" by (cases sc)
  obtain s' m' where d: "sym_defer_pk_debounce n d rows (of_nat now) mm (raw \<noteq> mm) (s, m) = (s', m')" by fastforce
  have s': "st' = (mm, s', m')" by (simp add: st' st sc scan_step_eq d)
  define e where "e = elapsed_ms (of_nat now) (last_time s)"
  have inv: "raw = (if scans = [] then replicate rows 0 else snd (last scans))"
    "debounce_wf n rows (last_time s) (s, m)" "counters_awake n rows s"
    "counters_need_update s \<Longrightarrow> scans \<noteq> [] \<and> last_time s = of_nat (fst (last scans))"
    "\<And>i. i < rows * n \<Longrightarrow> defer_key_inv (2 ^ LENGTH('t)) n d scans i raw (cell n (s, m) i)"
    using assms(1) unfolding defer_inv_def st by auto
  note cells = sym_defer_pk_cells [OF inv(2,3) assms(3) d, folded e_def]
  have hist: "\<forall>x \<in> set scans. fst x \<le> now" using assms(2) by (simp add: history_snoc sc)
  have key: "defer_key_inv (2 ^ LENGTH('t)) n d (scans @ [(now, mm)]) i mm (cell n (s', m') i) \<and>
      (snd (cell n (s', m') i) \<noteq> snd (cell n (s, m) i) \<longrightarrow> (\<exists>j < length scans.
         read_since n i (scans @ [(now, mm)]) j (snd (cell n (s', m') i)) \<and> fst (scans ! j) + min d 255 \<le> now))"
    if i: "i < rows * n" for i
  proof -
    have "scans \<noteq> [] \<and> last_time s = of_nat (fst (last scans))" if "fst (cell n (s, m) i) \<noteq> 0"
      using that i inv(3,4) by (simp add: cell_def counters_awake_def)
    then have "unat e \<le> now - fst (last scans)"
        "now - fst (last scans) < 2 ^ LENGTH('t) \<Longrightarrow> unat e = min 255 (now - fst (last scans))"
      if "fst (cell n (s, m) i) \<noteq> 0"
      using that elapsed_of_times [of "fst (last scans)" now, where 't = 't] hist by (auto simp: e_def)
    then show ?thesis
      using defer_key_step [OF inv(5) [OF i] _ _ hist, of e "cell n (s', m') i" mm] inv(1) cells i assms(3) by auto
  qed
  have "defer_inv n d rows (scans @ [sc]) st'"
    using cells key by (simp add: defer_inv_def s' sc)
  then show ?thesis using key by (simp add: cooked_of_def s' st sc cell_def)
qed

lemma scan_run_snoc: "scan_run debounce (scans @ [sc]) st = scan_step debounce sc (scan_run debounce scans st)"
  by (simp add: scan_run_def)

lemma scan_run_Nil: "scan_run debounce [] st = st"
  by (simp add: scan_run_def)

definition defer_after :: "nat \<Rightarrow> nat \<Rightarrow> nat \<Rightarrow> scan list \<Rightarrow> matrix \<times> (u8, 't::len word) debounce_st \<times> matrix" where
  "defer_after n d rows scans = scan_run (sym_defer_pk_debounce n d rows) scans (matrix_boot n rows)"

lemma defer_run_inv:
  assumes "history_wf n rows scans" "0 < d"
  shows "defer_inv n d rows scans (defer_after n d rows scans :: matrix \<times> (u8, 't::len word) debounce_st \<times> matrix)"
  using assms(1)
proof (induction scans rule: rev_induct)
  case Nil
  then show ?case
    unfolding defer_after_def scan_run_Nil by (intro defer_inv_boot) (simp_all add: history_wf_def)
next
  case (snoc sc scans)
  then have "history_wf n rows scans" by (simp add: history_snoc)
  from defer_inv_step [OF snoc.IH [OF this] snoc.prems assms(2) HOL.refl] show ?case
    by (simp add: defer_after_def scan_run_snoc)
qed

text \<open>
  C13. The deferred algorithm filters chatter: whenever a scan changes a key of the debounced matrix, every
  scan of the last \<^verbatim>\<open>DEBOUNCE\<close> milliseconds (at most 255), up to this one, has read the key's new value,
  whatever the scans before were and however often the timer has wrapped round.
\<close>

theorem defer_filters_chatter:
  fixes st :: "matrix \<times> (u8, 't::len word) debounce_st \<times> matrix"
  assumes "history_wf n rows (scans @ [(now, m)])" "0 < d" "i < rows * n"
    "st = defer_after n d rows scans"
    "st' = scan_step (sym_defer_pk_debounce n d rows) (now, m) st"
    "key_on n (cooked_of st') i \<noteq> key_on n (cooked_of st) i"
  shows "\<exists>j < length scans. fst (scans ! j) + min d 255 \<le> now \<and>
    read_since n i (scans @ [(now, m)]) j (key_on n (cooked_of st') i)"
proof -
  have "defer_inv n d rows scans st"
    unfolding assms(4) by (rule defer_run_inv) (use assms(1,2) in \<open>simp_all add: history_snoc\<close>)
  from defer_inv_step [OF this assms(1,2,5)] assms(3,6) show ?thesis by auto
qed

lemma defer_filters_chatter_witness:
  "key_on 2 (cooked_of (scan_step (sym_defer_pk_debounce 2 5 1) (12, [1])
      (defer_after 2 5 1 [(0, [0]), (7, [1]), (10, [1])] :: matrix \<times> (u8, 16 word) debounce_st \<times> matrix))) 0 \<and>
   (\<exists>j < 3. fst ([(0 :: nat, [0 :: u32]), (7, [1]), (10, [1])] ! j) + 5 \<le> 12 \<and>
      read_since 2 0 [(0, [0]), (7, [1]), (10, [1]), (12, [1])] j True)"
proof -
  define st where "st = (defer_after 2 5 1 [(0, [0]), (7, [1]), (10, [1])] :: matrix \<times> (u8, 16 word) debounce_st \<times> matrix)"
  define st' where "st' = scan_step (sym_defer_pk_debounce 2 5 1) (12, [1]) st"
  have "\<not> key_on 2 (cooked_of st) 0" "key_on 2 (cooked_of st') 0"
    unfolding st'_def st_def by code_simp+
  with defer_filters_chatter [where i = 0, OF _ _ _ st_def st'_def]
  show ?thesis unfolding st'_def [symmetric] st_def [symmetric] by (simp add: history_wf_def numeral_3_eq_3)
qed

text \<open>
  C14. And it does not delay a key for ever: once the scans have read the same value of a key for
  \<^verbatim>\<open>DEBOUNCE\<close> milliseconds (at most 255), the debounced matrix has that value, provided no two
  scans are a whole turn of the timer apart.
\<close>

theorem defer_settles:
  fixes st :: "matrix \<times> (u8, 't::len word) debounce_st \<times> matrix"
  assumes "history_wf n rows scans" "0 < d" "i < rows * n" "gaps_below (2 ^ LENGTH('t)) scans"
    "read_since n i scans j v" "fst (scans ! j) + min d 255 \<le> fst (last scans)"
    "st = defer_after n d rows scans"
  shows "key_on n (cooked_of st) i = v"
proof (rule ccontr)
  assume neq: "key_on n (cooked_of st) i \<noteq> v"
  obtain raw s m where st: "st = (raw, s, m)" using prod_cases3 by blast
  have ne: "scans \<noteq> []" using assms(5) by (auto simp: read_since_def)
  have "defer_inv n d rows scans st" unfolding assms(7) by (rule defer_run_inv [OF assms(1,2)])
  then have "raw = snd (last scans)" "defer_key_inv (2 ^ LENGTH('t)) n d scans i raw (cell n (s, m) i)"
    using ne assms(3) unfolding defer_inv_def st by auto
  moreover have "key_on n (snd (last scans)) i = v" by (rule read_since_last [OF assms(5)])
  moreover have "snd (cell n (s, m) i) = (\<not> v)" using neq by (auto simp: st cooked_of_def cell_def)
  ultimately have "unat (fst (cell n (s, m) i)) + fst (last scans) \<le> min d 255 + fst (scans ! j)"
    "fst (cell n (s, m) i) \<noteq> 0"
    using assms(4,5) by (auto simp: defer_key_inv_def)
  then show False using assms(6) by (simp add: unat_eq_0 [symmetric] del: unat_eq_zero)
qed

lemma defer_settles_witness:
  "key_on 2 (cooked_of (defer_after 2 5 1 [(0, [0]), (7, [1]), (10, [1]), (12, [1])]
      :: matrix \<times> (u8, 16 word) debounce_st \<times> matrix)) 0"
  using defer_settles [where 't = 16 and n = 2 and rows = 1 and d = 5 and j = 1 and i = 0 and v = True
      and scans = "[(0, [0]), (7, [1]), (10, [1]), (12, [1])]", OF _ _ _ _ _ _ HOL.refl]
  by (simp add: history_wf_def gaps_below_def read_since_def key_on_def nth_Cons split: nat.splits)

section \<open>One key under the eager algorithm\<close>

text \<open>Here the history also has the set of the scans at which the key has flipped.\<close>

definition eager_key_inv :: "nat \<Rightarrow> nat \<Rightarrow> nat \<Rightarrow> nat set \<Rightarrow> scan list \<Rightarrow> nat \<Rightarrow> matrix \<Rightarrow> u8 \<times> bool \<Rightarrow> bool" where
  "eager_key_inv w n d flips scans i raw k \<longleftrightarrow>
     (fst k = 0 \<longrightarrow> key_on n raw i = snd k) \<and> unat (fst k) \<le> min d 255 \<and>
     (\<forall>j \<in> flips. j < length scans \<and> fst (scans ! j) + min d 255 \<le> fst (last scans) + unat (fst k)) \<and>
     (fst k \<noteq> 0 \<longrightarrow> scans \<noteq> [] \<and>
        (gaps_below w scans \<longrightarrow> (\<exists>j \<in> flips. unat (fst k) + fst (last scans) \<le> min d 255 + fst (scans ! j)))) \<and>
     (\<forall>j \<in> flips. \<forall>j' \<in> flips. j < j' \<longrightarrow> fst (scans ! j) + min d 255 \<le> fst (scans ! j'))"

lemma eager_key_expired:
  assumes "fst k \<le> e"
  shows "eager_key n d e m i k =
    (if key_on n m i \<noteq> snd k then (debounce_ms d, \<not> snd k) else (0, snd k))"
  using assms by (cases k) (auto simp: eager_key_def eager_aged_def eager_started_def)

lemma eager_key_running:
  assumes "\<not> fst k \<le> e"
  shows "eager_key n d e m i k = (fst k - e, snd k)"
  using assms by (cases k) (auto simp: eager_key_def eager_aged_def eager_started_def aged_def)

lemma eager_key_step:
  assumes inv: "eager_key_inv w n d flips scans i raw k"
    and e: "fst k \<noteq> 0 \<Longrightarrow> unat e \<le> now - fst (last scans)"
      "fst k \<noteq> 0 \<Longrightarrow> now - fst (last scans) < w \<Longrightarrow> unat e = min 255 (now - fst (last scans))"
    and hist: "\<forall>x \<in> set scans. fst x \<le> now"
    and d: "0 < d" and k': "k' = eager_key n d e m i k"
  shows "eager_key_inv w n d (if snd k' = snd k then flips else insert (length scans) flips)
    (scans @ [(now, m)]) i m k'"
proof (cases "fst k \<le> e")
  case True
  have past: "fst (scans ! j) + min d 255 \<le> now \<and> j < length scans" if "j \<in> flips" for j
  proof -
    have j: "j < length scans" "fst (scans ! j) + min d 255 \<le> fst (last scans) + unat (fst k)"
      using inv that by (auto simp: eager_key_inv_def)
    then have t: "fst (last scans) \<le> now" using hist by (cases scans rule: rev_cases) auto
    show ?thesis
    proof (cases "fst k = 0")
      case False
      then show ?thesis using j t e(1) [OF False] True by (simp add: word_le_nat_alt)
    qed (use j t in simp)
  qed
  have "fst (scans ! j) + min d 255 \<le> fst (scans ! j')" if "j \<in> flips" "j' \<in> flips" "j < j'" for j j'
    using inv that by (auto simp: eager_key_inv_def)
  moreover have "j < length scans" "j < Suc (length scans)" "\<not> length scans < j" "fst (scans ! j) \<le> now"
    if "j \<in> flips" for j
    using past [OF that] by auto
  ultimately show ?thesis using d past
    unfolding k' eager_key_expired [OF True]
    by (auto simp: eager_key_inv_def unat_debounce_ms nth_append)
next
  case gt: False
  have le: "unat (fst k) \<le> min d 255" and ne: "scans \<noteq> []" and nz: "fst k \<noteq> 0"
    using inv gt by (auto simp: eager_key_inv_def)
  have c: "unat (fst k - e) = unat (fst k) - unat e" "unat e < unat (fst k)"
    using gt by (simp_all add: unat_sub word_le_nat_alt)
  then have nz': "fst k - e \<noteq> 0" by auto
  have t: "fst (last scans) \<le> now" using hist ne by simp
  have past: "j < length scans \<and> fst (scans ! j) + min d 255 \<le> now + unat (fst k - e)" if "j \<in> flips" for j
  proof -
    have "j < length scans" "fst (scans ! j) + min d 255 \<le> fst (last scans) + unat (fst k)"
      using inv that by (auto simp: eager_key_inv_def)
    then show ?thesis using t e(1) [OF nz] c by linarith
  qed
  have live: "\<exists>j \<in> flips. j < length scans \<and> unat (fst k - e) + now \<le> min d 255 + fst (scans ! j)"
    if "gaps_below w (scans @ [(now, m)])"
  proof -
    have g: "gaps_below w scans" "now - fst (last scans) < w" using gaps_snoc [OF that] ne by simp_all
    then obtain j where j: "j \<in> flips" "unat (fst k) + fst (last scans) \<le> min d 255 + fst (scans ! j)"
      using inv nz by (auto simp: eager_key_inv_def)
    have "unat e = now - fst (last scans)" using e(2) [OF nz g(2)] c le by auto
    then have "unat (fst k - e) + now \<le> min d 255 + fst (scans ! j)" using j(2) c t by linarith
    then show ?thesis using j(1) past by blast
  qed
  have "fst (scans ! j) + min d 255 \<le> fst (scans ! j')" if "j \<in> flips" "j' \<in> flips" "j < j'" for j j'
    using inv that by (auto simp: eager_key_inv_def)
  moreover have nth: "(scans @ [(now, m)]) ! j = scans ! j" if "j \<in> flips" for j
    using past [OF that] by (simp add: nth_append)
  moreover have "j < Suc (length scans)" if "j \<in> flips" for j using past [OF that] by simp
  moreover have "\<exists>j \<in> flips. unat (fst k - e) + now \<le> min d 255 + fst ((scans @ [(now, m)]) ! j)"
    if "gaps_below w (scans @ [(now, m)])"
    using live [OF that] nth by fastforce
  ultimately have "eager_key_inv w n d flips (scans @ [(now, m)]) i m (fst k - e, snd k)"
    using nz' c le past unfolding eager_key_inv_def by (simp, linarith)
  then show ?thesis unfolding k' eager_key_running [OF gt] by simp
qed

definition eager_after :: "nat \<Rightarrow> nat \<Rightarrow> nat \<Rightarrow> scan list \<Rightarrow> matrix \<times> (u8, 't::len word) debounce_st \<times> matrix" where
  "eager_after n d rows scans = scan_run (sym_eager_pk_debounce n d rows) scans (matrix_boot n rows)"

text \<open>The scans at which the debounced value of key \<open>i\<close> changes.\<close>

definition eager_flips :: "'t::len itself \<Rightarrow> nat \<Rightarrow> nat \<Rightarrow> nat \<Rightarrow> scan list \<Rightarrow> nat \<Rightarrow> nat set" where
  "eager_flips TYPE('t) n d rows scans i = {j. j < length scans \<and>
     key_on n (cooked_of (eager_after n d rows (take (Suc j) scans) :: matrix \<times> (u8, 't word) debounce_st \<times> matrix)) i \<noteq>
     key_on n (cooked_of (eager_after n d rows (take j scans) :: matrix \<times> (u8, 't word) debounce_st \<times> matrix)) i}"

definition eager_inv :: "nat \<Rightarrow> nat \<Rightarrow> nat \<Rightarrow> (nat \<Rightarrow> nat set) \<Rightarrow> scan list \<Rightarrow>
    matrix \<times> (u8, 't::len word) debounce_st \<times> matrix \<Rightarrow> bool" where
  "eager_inv n d rows flips scans st \<longleftrightarrow>
     (let (raw, sm) = st in
        raw = (if scans = [] then replicate rows 0 else snd (last scans)) \<and>
        debounce_wf n rows (last_time (fst sm)) sm \<and> counters_awake n rows (fst sm) \<and>
        (counters_need_update (fst sm) \<longrightarrow> scans \<noteq> [] \<and> last_time (fst sm) = of_nat (fst (last scans))) \<and>
        (\<forall>i < rows * n. eager_key_inv (2 ^ LENGTH('t)) n d (flips i) scans i raw (cell n sm i)))"

lemma eager_inv_boot:
  assumes "0 < n" "n \<le> 32"
  shows "eager_inv n d rows (\<lambda>_. {}) [] (matrix_boot n rows :: matrix \<times> (u8, 't::len word) debounce_st \<times> matrix)"
proof -
  obtain raw s m where b: "(matrix_boot n rows :: matrix \<times> (u8, 't word) debounce_st \<times> matrix) = (raw, s, m)"
    using prod_cases3 by blast
  note f = matrix_boot_facts [OF assms b]
  then show ?thesis
    by (auto simp: b eager_inv_def eager_key_inv_def key_on_clear counters_awake_def)
      (metis cell_def fst_conv)
qed

lemma eager_inv_step:
  fixes st :: "matrix \<times> (u8, 't::len word) debounce_st \<times> matrix"
  assumes "eager_inv n d rows flips scans st" "history_wf n rows (scans @ [sc])" "0 < d"
    and st': "st' = scan_step (sym_eager_pk_debounce n d rows) sc st"
  shows "eager_inv n d rows
    (\<lambda>i. if key_on n (cooked_of st') i = key_on n (cooked_of st) i then flips i else insert (length scans) (flips i))
    (scans @ [sc]) st'"
proof -
  obtain raw s m where st: "st = (raw, s, m)" using prod_cases3 by blast
  obtain now mm where sc: "sc = (now, mm)" by (cases sc)
  obtain s' m' where d: "sym_eager_pk_debounce n d rows (of_nat now) mm (raw \<noteq> mm) (s, m) = (s', m')" by fastforce
  have s': "st' = (mm, s', m')" by (simp add: st' st sc scan_step_eq d)
  define e where "e = elapsed_ms (of_nat now) (last_time s)"
  have inv: "raw = (if scans = [] then replicate rows 0 else snd (last scans))"
    "debounce_wf n rows (last_time s) (s, m)" "counters_awake n rows s"
    "counters_need_update s \<Longrightarrow> scans \<noteq> [] \<and> last_time s = of_nat (fst (last scans))"
    "\<And>i. i < rows * n \<Longrightarrow> eager_key_inv (2 ^ LENGTH('t)) n d (flips i) scans i raw (cell n (s, m) i)"
    using assms(1) unfolding eager_inv_def st by auto
  have idle: "key_on n mm i = key_on n m i"
    if "i < rows * n" "debounce_counters s ! i = 0" "\<not> raw \<noteq> mm" for i
    using inv(5) [OF that(1)] that(2,3) by (simp add: eager_key_inv_def cell_def)
  note cells = sym_eager_pk_cells [OF inv(2,3) assms(3) idle d, folded e_def]
  have hist: "\<forall>x \<in> set scans. fst x \<le> now" using assms(2) by (simp add: history_snoc sc)
  have "eager_key_inv (2 ^ LENGTH('t)) n d
      (if snd (cell n (s', m') i) = snd (cell n (s, m) i) then flips i else insert (length scans) (flips i))
      (scans @ [(now, mm)]) i mm (cell n (s', m') i)" if i: "i < rows * n" for i
  proof -
    have "scans \<noteq> [] \<and> last_time s = of_nat (fst (last scans))" if "fst (cell n (s, m) i) \<noteq> 0"
      using that i inv(3,4) by (simp add: cell_def counters_awake_def)
    then have "unat e \<le> now - fst (last scans)"
        "now - fst (last scans) < 2 ^ LENGTH('t) \<Longrightarrow> unat e = min 255 (now - fst (last scans))"
      if "fst (cell n (s, m) i) \<noteq> 0"
      using that elapsed_of_times [of "fst (last scans)" now, where 't = 't] hist by (auto simp: e_def)
    then show ?thesis
      using eager_key_step [OF inv(5) [OF i] _ _ hist assms(3), of e "cell n (s', m') i" mm] cells i by auto
  qed
  then show ?thesis
    using cells by (simp add: eager_inv_def s' sc st cooked_of_def cell_def)
qed

lemma eager_flips_snoc:
  "eager_flips TYPE('t::len) n d rows (scans @ [sc]) i =
    (if key_on n (cooked_of (scan_step (sym_eager_pk_debounce n d rows) sc
         (eager_after n d rows scans :: matrix \<times> (u8, 't word) debounce_st \<times> matrix))) i =
       key_on n (cooked_of (eager_after n d rows scans :: matrix \<times> (u8, 't word) debounce_st \<times> matrix)) i
     then eager_flips TYPE('t) n d rows scans i
     else insert (length scans) (eager_flips TYPE('t) n d rows scans i))"
  by (auto simp: eager_flips_def less_Suc_eq eager_after_def scan_run_snoc [symmetric])

lemma eager_run_inv:
  assumes "history_wf n rows scans" "0 < d"
  shows "eager_inv n d rows (eager_flips TYPE('t::len) n d rows scans) scans
    (eager_after n d rows scans :: matrix \<times> (u8, 't word) debounce_st \<times> matrix)"
  using assms(1)
proof (induction scans rule: rev_induct)
  case Nil
  have "eager_flips TYPE('t) n d rows [] = (\<lambda>_. {})" by (simp add: eager_flips_def fun_eq_iff)
  then show ?case using Nil
    unfolding eager_after_def scan_run_Nil by (simp only:, intro eager_inv_boot) (simp_all add: history_wf_def)
next
  case (snoc sc scans)
  then have "history_wf n rows scans" by (simp add: history_snoc)
  from eager_inv_step [OF snoc.IH [OF this] snoc.prems assms(2) HOL.refl] show ?case
    unfolding eager_flips_snoc [abs_def] by (simp add: eager_after_def scan_run_snoc)
qed

text \<open>
  The eager algorithm acts at once and then ignores chatter: two changes of a key of the debounced matrix
  are \<^verbatim>\<open>DEBOUNCE\<close> milliseconds (at most 255) apart or more; and whenever the debounced value of a key is not
  the one that the last scan read, the key has changed less than \<^verbatim>\<open>DEBOUNCE\<close> milliseconds before, provided
  no two scans are a whole turn of the timer apart.
\<close>

theorem eager_acts_at_once:
  assumes "history_wf n rows scans" "0 < d" "i < rows * n" "scans \<noteq> []"
  shows "(\<forall>j \<in> eager_flips TYPE('t::len) n d rows scans i. \<forall>j' \<in> eager_flips TYPE('t) n d rows scans i.
       j < j' \<longrightarrow> fst (scans ! j) + min d 255 \<le> fst (scans ! j')) \<and>
    (gaps_below (2 ^ LENGTH('t)) scans \<longrightarrow>
       key_on n (cooked_of (eager_after n d rows scans :: matrix \<times> (u8, 't word) debounce_st \<times> matrix)) i \<noteq>
         key_on n (snd (last scans)) i \<longrightarrow>
       (\<exists>j \<in> eager_flips TYPE('t) n d rows scans i. fst (last scans) < fst (scans ! j) + min d 255))"
proof -
  obtain raw s m where st: "(eager_after n d rows scans :: matrix \<times> (u8, 't word) debounce_st \<times> matrix) = (raw, s, m)"
    using prod_cases3 by blast
  have "eager_inv n d rows (eager_flips TYPE('t) n d rows scans) scans (raw, s, m)"
    using eager_run_inv [OF assms(1,2), where 't = 't] by (simp add: st)
  then have "raw = snd (last scans)"
    "eager_key_inv (2 ^ LENGTH('t)) n d (eager_flips TYPE('t) n d rows scans i) scans i raw (cell n (s, m) i)"
    using assms(3,4) unfolding eager_inv_def by auto
  moreover define c on where "c = fst (cell n (s, m) i)" and "on = snd (cell n (s, m) i)"
  moreover have "key_on n m i = on" by (simp add: on_def cell_def)
  moreover have "0 < unat c" if "c \<noteq> 0" using that by (simp add: unat_gt_0)
  moreover have "t < t' + D" if "k + t \<le> D + t'" "0 < k" for k t t' D :: nat using that by linarith
  ultimately show ?thesis
    unfolding eager_key_inv_def st cooked_of_def snd_conv by metis
qed

lemma eager_acts_at_once_witness:
  "0 \<in> eager_flips TYPE(16) 2 5 1 [(3, [1]), (5, [0]), (9, [0])] 0 \<and>
   2 \<in> eager_flips TYPE(16) 2 5 1 [(3, [1]), (5, [0]), (9, [0])] 0 \<and>
   fst ([(3 :: nat, [1 :: u32]), (5, [0]), (9, [0])] ! 0) + min 5 255 \<le> fst ([(3 :: nat, [1 :: u32]), (5, [0]), (9, [0])] ! 2)"
proof -
  define scans where "scans = [(3 :: nat, [1 :: u32]), (5, [0]), (9, [0])]"
  have flips: "0 \<in> eager_flips TYPE(16) 2 5 1 scans 0" "2 \<in> eager_flips TYPE(16) 2 5 1 scans 0"
    unfolding eager_flips_def scans_def mem_Collect_eq by code_simp+
  with eager_acts_at_once [where 't = 16, of 2 1 scans 5 0] show ?thesis
    unfolding scans_def [symmetric] by (auto simp: history_wf_def scans_def)
qed

end
