(* ===== verification/Report.thy ===== *)
theory Report
  imports Bitwise
begin

text \<open>
  \<^verbatim>\<open>tmk_core/protocol/report.c\<close>: the keyboard report and the operations on its keys.  The C type is
  a union of three layouts over the same bytes; the model is those bytes, in the layout of a build
  with \<^verbatim>\<open>NKRO_ENABLE\<close> and without \<^verbatim>\<open>KEYBOARD_SHARED_EP\<close> or \<^verbatim>\<open>RING_BUFFERED_6KRO_REPORT_ENABLE\<close>:
  byte 0 is \<^verbatim>\<open>mods\<close> and, at the same place, \<^verbatim>\<open>nkro.report_id\<close>; byte 1 is \<^verbatim>\<open>reserved\<close> and
  \<^verbatim>\<open>nkro.mods\<close>; the key slots \<^verbatim>\<open>keys[6]\<close> and the bitmap \<^verbatim>\<open>nkro.bits[30]\<close> both begin at byte 2.
  The argument \<open>nkro\<close> is the run-time condition \<^verbatim>\<open>keyboard_protocol && keymap_config.nkro\<close>.
  The contract \<open>key_report\<close> says what both layouts promise their client.
\<close>

type_synonym report = "u8 list"

definition KEYBOARD_REPORT_KEYS :: nat where "KEYBOARD_REPORT_KEYS = 6"
definition KEYBOARD_REPORT_BITS :: nat where "KEYBOARD_REPORT_BITS = 30"

definition empty_report :: report where
  "empty_report = replicate 32 0"

definition report_mods :: "report \<Rightarrow> u8" where "report_mods r = r ! 0"
definition set_report_mods :: "u8 \<Rightarrow> report \<Rightarrow> report" where "set_report_mods m r = r[0 := m]"

text \<open>\<^verbatim>\<open>keys[i]\<close> and \<^verbatim>\<open>nkro.bits[i]\<close>.\<close>

definition slot :: "report \<Rightarrow> nat \<Rightarrow> u8" where "slot r i = r ! (2 + i)"
definition set_slot :: "report \<Rightarrow> nat \<Rightarrow> u8 \<Rightarrow> report" where "set_slot r i b = r[2 + i := b]"

section \<open>Queries\<close>

definition has_anykey :: "bool \<Rightarrow> report \<Rightarrow> u8" where
  "has_anykey nkro r =
     (let lp = (if nkro then KEYBOARD_REPORT_BITS else KEYBOARD_REPORT_KEYS)
      in foldl (\<lambda>cnt i. if slot r i \<noteq> 0 then cnt + 1 else cnt) 0 [0..<lp])"

text \<open>
  In the bitmap layout the search loop may run off the end; the byte it then reads is not part of
  the report, so the result is \<open>None\<close>.
\<close>

fun first_nonzero :: "report \<Rightarrow> nat \<Rightarrow> nat \<Rightarrow> nat" where
  "first_nonzero r i 0 = i"
| "first_nonzero r i (Suc n) = (if slot r i = 0 then first_nonzero r (Suc i) n else i)"

definition get_first_key :: "bool \<Rightarrow> report \<Rightarrow> u8 option" where
  "get_first_key nkro r =
     (if nkro then
        let i = first_nonzero r 0 KEYBOARD_REPORT_BITS
        in if i < KEYBOARD_REPORT_BITS
           then Some (push_bit 3 (of_nat i) OR biton (slot r i)) else None
      else Some (slot r 0))"

definition is_key_pressed :: "bool \<Rightarrow> report \<Rightarrow> u8 \<Rightarrow> bool" where
  "is_key_pressed nkro r key =
     (if key = 0 then False
      else if nkro then
        (if unat (drop_bit 3 key) < KEYBOARD_REPORT_BITS
         then slot r (unat (drop_bit 3 key)) AND bitmask (unat (key AND 7)) \<noteq> 0
         else False)
      else list_ex (\<lambda>i. slot r i = key) [0..<KEYBOARD_REPORT_KEYS])"

section \<open>The six key slots\<close>

text \<open>
  The loop of \<^verbatim>\<open>add_key_byte\<close>: stops at the key if a slot already holds it, and remembers the first
  empty slot on the way.  The answer is whether the key was found, and that slot.
\<close>

fun scan_slots :: "report \<Rightarrow> u8 \<Rightarrow> nat \<Rightarrow> nat option \<Rightarrow> nat \<Rightarrow> bool \<times> nat option" where
  "scan_slots r code i free 0 = (False, free)"
| "scan_slots r code i free (Suc n) =
     (if slot r i = code then (True, free)
      else scan_slots r code (Suc i)
             (if free = None \<and> slot r i = 0 then Some i else free) n)"

definition add_key_byte :: "report \<Rightarrow> u8 \<Rightarrow> report" where
  "add_key_byte r code =
     (case scan_slots r code 0 None KEYBOARD_REPORT_KEYS of
        (True, _) \<Rightarrow> r
      | (False, None) \<Rightarrow> r
      | (False, Some e) \<Rightarrow> set_slot r e code)"

definition del_key_byte :: "report \<Rightarrow> u8 \<Rightarrow> report" where
  "del_key_byte r code =
     foldl (\<lambda>r i. if slot r i = code then set_slot r i 0 else r) r [0..<KEYBOARD_REPORT_KEYS]"

section \<open>The bitmap\<close>

definition add_key_bit :: "report \<Rightarrow> u8 \<Rightarrow> report" where
  "add_key_bit r code =
     (let i = unat (drop_bit 3 code)
      in if i < KEYBOARD_REPORT_BITS
         then set_slot r i (slot r i OR bitmask (unat (code AND 7))) else r)"

definition del_key_bit :: "report \<Rightarrow> u8 \<Rightarrow> report" where
  "del_key_bit r code =
     (let i = unat (drop_bit 3 code)
      in if i < KEYBOARD_REPORT_BITS
         then set_slot r i (slot r i AND NOT (bitmask (unat (code AND 7)))) else r)"

section \<open>The operations the firmware calls\<close>

definition add_key_to_report :: "bool \<Rightarrow> report \<Rightarrow> u8 \<Rightarrow> report" where
  "add_key_to_report nkro r key = (if nkro then add_key_bit r key else add_key_byte r key)"

definition del_key_from_report :: "bool \<Rightarrow> report \<Rightarrow> u8 \<Rightarrow> report" where
  "del_key_from_report nkro r key = (if nkro then del_key_bit r key else del_key_byte r key)"

definition clear_keys_from_report :: "bool \<Rightarrow> report \<Rightarrow> report" where
  "clear_keys_from_report nkro r =
     (if nkro then take 2 r @ replicate KEYBOARD_REPORT_BITS 0
      else take 2 r @ replicate KEYBOARD_REPORT_KEYS 0 @ drop (2 + KEYBOARD_REPORT_KEYS) r)"


section \<open>Slots\<close>

definition report_wf :: "report \<Rightarrow> bool" where
  "report_wf r \<longleftrightarrow> length r = 32"

lemma report_wf_empty [simp]: "report_wf empty_report"
  by (simp add: report_wf_def empty_report_def)

lemma length_set_slot [simp]: "length (set_slot r i b) = length r"
  by (simp add: set_slot_def)

lemma report_wf_set_slot [simp]: "report_wf (set_slot r i b) \<longleftrightarrow> report_wf r"
  by (simp add: report_wf_def)

lemma report_wf_set_mods [simp]: "report_wf (set_report_mods m r) \<longleftrightarrow> report_wf r"
  by (simp add: report_wf_def set_report_mods_def)

lemma slot_set_slot [simp]:
  "report_wf r \<Longrightarrow> i < 30 \<Longrightarrow> slot (set_slot r i b) j = (if j = i then b else slot r j)"
  by (simp add: slot_def set_slot_def report_wf_def nth_list_update)

lemma slot_set_mods [simp]: "slot (set_report_mods m r) i = slot r i"
  by (simp add: slot_def set_report_mods_def)

lemma mods_set_slot [simp]: "report_mods (set_slot r i b) = report_mods r"
  by (simp add: report_mods_def set_slot_def)

lemma mods_set_mods [simp]: "report_wf r \<Longrightarrow> report_mods (set_report_mods m r) = m"
  by (simp add: report_mods_def set_report_mods_def report_wf_def)

lemma head_set_slot [simp]: "j < 2 \<Longrightarrow> set_slot r i b ! j = r ! j"
  by (simp add: set_slot_def)

lemma scan_slots_spec:
  "fst (scan_slots r code i free n) = list_ex (\<lambda>j. slot r j = code) [i..<i + n]"
  by (induction n arbitrary: i free) (auto simp: upt_conv_Cons simp del: upt_Suc)

lemma scan_slots_free:
  assumes "\<not> fst (scan_slots r code i free n)"
  shows "snd (scan_slots r code i free n) =
         (if free = None then find (\<lambda>j. slot r j = 0) [i..<i + n] else free)"
  using assms
  by (induction n arbitrary: i free) (auto simp: upt_conv_Cons simp del: upt_Suc split: if_splits)

lemma find_upt_Some:
  "find P [m..<n] = Some e \<Longrightarrow> m \<le> e \<and> e < n \<and> P e"
  by (auto simp: find_Some_iff)

lemma find_upt_None: "find P [m..<n] = None \<longleftrightarrow> (\<forall>j. m \<le> j \<and> j < n \<longrightarrow> \<not> P j)"
  by (auto simp: find_None_iff)

definition pressed6 :: "report \<Rightarrow> u8 \<Rightarrow> bool" where
  "pressed6 r k \<longleftrightarrow> (\<exists>i<6. slot r i = k)"

lemma is_key_pressed_slots: "is_key_pressed False r k \<longleftrightarrow> k \<noteq> 0 \<and> pressed6 r k"
  by (auto simp: is_key_pressed_def pressed6_def list_ex_iff KEYBOARD_REPORT_KEYS_def)

text \<open>\<^verbatim>\<open>add_key_byte\<close> as a function of the slots.\<close>

lemma add_key_byte_eq:
  "add_key_byte r k =
     (if pressed6 r k then r
      else case find (\<lambda>j. slot r j = 0) [0..<6] of None \<Rightarrow> r | Some e \<Rightarrow> set_slot r e k)"
proof -
  obtain found free where scan: "scan_slots r k 0 None 6 = (found, free)"
    by (cases "scan_slots r k 0 None 6")
  have found: "found = pressed6 r k"
    using scan_slots_spec [of r k 0 None 6] scan by (auto simp: pressed6_def list_ex_iff)
  have "free = find (\<lambda>j. slot r j = 0) [0..<6]" if "\<not> found"
    using scan_slots_free [of r k 0 None 6] scan that by simp
  with scan found show ?thesis
    by (auto simp: add_key_byte_def KEYBOARD_REPORT_KEYS_def split: bool.splits option.splits
        simp del: upt_Suc)
qed

lemma del_key_byte_slots:
  assumes "report_wf r" "n \<le> 30"
  shows "report_wf (foldl (\<lambda>r i. if slot r i = c then set_slot r i 0 else r) r [0..<n]) \<and>
    (\<forall>j. slot (foldl (\<lambda>r i. if slot r i = c then set_slot r i 0 else r) r [0..<n]) j =
         (if j < n \<and> slot r j = c then 0 else slot r j)) \<and>
    (\<forall>j<2. foldl (\<lambda>r i. if slot r i = c then set_slot r i 0 else r) r [0..<n] ! j = r ! j)"
  using assms(2)
proof (induction n)
  case (Suc n)
  define r' where "r' = foldl (\<lambda>r i. if slot r i = c then set_slot r i 0 else r) r [0..<n]"
  have "report_wf r'" "\<forall>j. slot r' j = (if j < n \<and> slot r j = c then 0 else slot r j)"
    "\<forall>j<2. r' ! j = r ! j"
    using Suc by (simp_all add: r'_def)
  with Suc.prems show ?case
    by (auto simp: less_Suc_eq simp flip: r'_def)
qed (simp add: assms)

lemmas del_key_byte_facts = del_key_byte_slots [where n = 6, simplified]


section \<open>The contract of a key report\<close>

text \<open>
  What a client of the report relies on: adding a key presses it and nothing else, if there is room
  for it; removing a key releases it and nothing else; clearing releases everything.
\<close>

locale key_report =
  fixes add :: "'r \<Rightarrow> 'k \<Rightarrow> 'r"
    and del :: "'r \<Rightarrow> 'k \<Rightarrow> 'r"
    and clear :: "'r \<Rightarrow> 'r"
    and pressed :: "'r \<Rightarrow> 'k \<Rightarrow> bool"
    and room :: "'r \<Rightarrow> 'k \<Rightarrow> bool"
    and key :: "'k \<Rightarrow> bool"
    and wf :: "'r \<Rightarrow> bool"
  assumes pressed_add: "wf r \<Longrightarrow> key k \<Longrightarrow> room r k \<Longrightarrow> pressed (add r k) j \<longleftrightarrow> pressed r j \<or> j = k"
    and add_no_room: "wf r \<Longrightarrow> key k \<Longrightarrow> \<not> room r k \<Longrightarrow> add r k = r"
    and pressed_del: "wf r \<Longrightarrow> key k \<Longrightarrow> pressed (del r k) j \<longleftrightarrow> pressed r j \<and> j \<noteq> k"
    and pressed_clear: "wf r \<Longrightarrow> \<not> pressed (clear r) j"
    and wf_add: "wf r \<Longrightarrow> wf (add r k)"
    and wf_del: "wf r \<Longrightarrow> wf (del r k)"
    and wf_clear: "wf r \<Longrightarrow> wf (clear r)"
    and pressed_room: "wf r \<Longrightarrow> pressed r k \<Longrightarrow> room r k"
begin

lemma pressed_add_cases:
  "wf r \<Longrightarrow> key k \<Longrightarrow> pressed (add r k) j \<longleftrightarrow> pressed r j \<or> j = k \<and> room r k"
  by (cases "room r k") (auto simp: pressed_add add_no_room)

lemma press_release:
  "wf r \<Longrightarrow> key k \<Longrightarrow> pressed (del (add r k) k) j \<longleftrightarrow> pressed r j \<and> j \<noteq> k"
  by (auto simp: pressed_del wf_add pressed_add_cases)

lemma press_again:
  "wf r \<Longrightarrow> key k \<Longrightarrow> pressed r k \<Longrightarrow> pressed (add r k) j \<longleftrightarrow> pressed r j"
  by (auto simp: pressed_add pressed_room)

lemma release_all:
  "wf r \<Longrightarrow> list_all key ks \<Longrightarrow>
   wf (foldl del r ks) \<and> (pressed (foldl del r ks) j \<longleftrightarrow> pressed r j \<and> j \<notin> set ks)"
  by (induction ks arbitrary: r) (auto simp: pressed_del wf_del)

end

subsection \<open>The six-slot layout keeps it\<close>

definition room6 :: "report \<Rightarrow> u8 \<Rightarrow> bool" where
  "room6 r k \<longleftrightarrow> pressed6 r k \<or> (\<exists>i<6. slot r i = 0)"

lemma add_key_byte_cases:
  fixes r :: report and k :: u8
  obtains (held) "pressed6 r k" "add_key_byte r k = r"
  | (full) "\<not> room6 r k" "add_key_byte r k = r"
  | (placed) e where "\<not> pressed6 r k" "e < 6" "slot r e = 0" "add_key_byte r k = set_slot r e k"
proof (cases "pressed6 r k")
  case True
  then show ?thesis using held by (simp add: add_key_byte_eq)
next
  case False
  note absent = this
  show ?thesis
  proof (cases "find (\<lambda>j. slot r j = 0) [0..<6]")
    case None
    then have "add_key_byte r k = r" using absent
      by (simp add: add_key_byte_eq del: upt_Suc upt_rec_numeral)
    moreover have "\<not> room6 r k" using absent None
      by (auto simp: find_upt_None room6_def simp del: upt_Suc upt_rec_numeral)
    ultimately show ?thesis using full by blast
  next
    case (Some e)
    then have "add_key_byte r k = set_slot r e k" using absent
      by (simp add: add_key_byte_eq del: upt_Suc upt_rec_numeral)
    with absent find_upt_Some [OF Some] show ?thesis using placed by blast
  qed
qed

lemma pressed6_set_slot:
  assumes "report_wf r" "e < 6" "slot r e = 0" "j \<noteq> 0"
  shows "pressed6 (set_slot r e k) j \<longleftrightarrow> pressed6 r j \<or> j = k"
proof -
  have "(\<exists>i<6. slot (set_slot r e k) i = j) \<longleftrightarrow> (\<exists>i<6. i \<noteq> e \<and> slot r i = j) \<or> j = k"
    using assms(1,2) by auto
  also have "(\<exists>i<6. i \<noteq> e \<and> slot r i = j) \<longleftrightarrow> (\<exists>i<6. slot r i = j)"
    using assms(3,4) by metis
  finally show ?thesis by (simp add: pressed6_def)
qed

interpretation six: key_report add_key_byte del_key_byte "clear_keys_from_report False"
  "is_key_pressed False" room6 "\<lambda>k. k \<noteq> 0" report_wf
proof unfold_locales
  fix r :: report and k j :: u8
  assume wf: "report_wf r"
  show "is_key_pressed False (add_key_byte r k) j \<longleftrightarrow> is_key_pressed False r j \<or> j = k"
    if "k \<noteq> 0" "room6 r k"
    using that wf
    by (cases rule: add_key_byte_cases [of r k])
      (auto simp: is_key_pressed_slots pressed6_set_slot room6_def)
  show "add_key_byte r k = r" if "\<not> room6 r k"
    using that by (cases rule: add_key_byte_cases [of r k]) (auto simp: room6_def)
  show "report_wf (add_key_byte r k)"
    using wf by (cases rule: add_key_byte_cases [of r k]) auto
  show "is_key_pressed False (del_key_byte r k) j \<longleftrightarrow> is_key_pressed False r j \<and> j \<noteq> k"
    if "k \<noteq> 0"
    using that del_key_byte_facts [OF wf, of k]
    by (auto simp: is_key_pressed_slots pressed6_def del_key_byte_def KEYBOARD_REPORT_KEYS_def
        simp del: upt_rec_numeral upt_Suc)
  show "report_wf (del_key_byte r k)"
    using del_key_byte_facts [OF wf, of k] by (simp add: del_key_byte_def KEYBOARD_REPORT_KEYS_def)
  show "report_wf (clear_keys_from_report False r)"
    using wf by (simp add: clear_keys_from_report_def report_wf_def KEYBOARD_REPORT_KEYS_def)
  show "\<not> is_key_pressed False (clear_keys_from_report False r) j"
    using wf
    by (auto simp: is_key_pressed_slots pressed6_def slot_def clear_keys_from_report_def
        report_wf_def KEYBOARD_REPORT_KEYS_def nth_append)
  show "room6 r k" if "is_key_pressed False r k"
    using that by (simp add: is_key_pressed_slots room6_def)
qed

subsection \<open>The bitmap layout keeps it\<close>

lemma key_eq_iff: "(k :: u8) = j \<longleftrightarrow> unat k div 8 = unat j div 8 \<and> unat k mod 8 = unat j mod 8"
  by (metis div_mult_mod_eq word_unat_eq_iff)

definition room_bit :: "report \<Rightarrow> u8 \<Rightarrow> bool" where
  "room_bit r k \<longleftrightarrow> unat k div 8 < KEYBOARD_REPORT_BITS"

lemma is_key_pressed_bit:
  "is_key_pressed True r k \<longleftrightarrow>
     k \<noteq> 0 \<and> unat k div 8 < 30 \<and> bit (slot r (unat k div 8)) (unat k mod 8)"
  by (simp add: is_key_pressed_def key_row key_col and_bitmask_eq_0 KEYBOARD_REPORT_BITS_def)

interpretation bits: key_report add_key_bit del_key_bit "clear_keys_from_report True"
  "is_key_pressed True" room_bit "\<lambda>k. k \<noteq> 0" report_wf
proof unfold_locales
  fix r :: report and k j :: u8
  assume wf: "report_wf r"
  have col: "unat k mod 8 < 8" by simp
  show "is_key_pressed True (add_key_bit r k) j \<longleftrightarrow> is_key_pressed True r j \<or> j = k"
    if "k \<noteq> 0" "room_bit r k"
    using that wf col
    by (cases "j = k") (auto simp: is_key_pressed_bit add_key_bit_def key_row key_col Let_def room_bit_def
        KEYBOARD_REPORT_BITS_def bit_or_bitmask key_eq_iff [of j k] unat_eq_0)
  show "is_key_pressed True (del_key_bit r k) j \<longleftrightarrow> is_key_pressed True r j \<and> j \<noteq> k"
    if "k \<noteq> 0"
    using that wf
    by (auto simp: is_key_pressed_bit del_key_bit_def key_row key_col Let_def
        KEYBOARD_REPORT_BITS_def bit_and_not_bitmask key_eq_iff [of j k])
  show "add_key_bit r k = r" if "\<not> room_bit r k"
    using that by (simp add: add_key_bit_def room_bit_def key_row Let_def)
  show "report_wf (add_key_bit r k)" "report_wf (del_key_bit r k)"
    using wf by (simp_all add: add_key_bit_def del_key_bit_def Let_def)
  show "report_wf (clear_keys_from_report True r)"
    using wf by (simp add: clear_keys_from_report_def report_wf_def KEYBOARD_REPORT_BITS_def)
  show "\<not> is_key_pressed True (clear_keys_from_report True r) j"
    using wf
    by (auto simp: is_key_pressed_bit slot_def clear_keys_from_report_def report_wf_def
        KEYBOARD_REPORT_BITS_def nth_append)
  show "room_bit r k" if "is_key_pressed True r k"
    using that by (simp add: is_key_pressed_bit room_bit_def KEYBOARD_REPORT_BITS_def)
qed

section \<open>The report as a set of keys\<close>

text \<open>
  The reference: the set of keys held.  The bitmap has room for the keys of its rows, the six slots
  for any six keys; a key that does not fit is dropped.
\<close>

datatype report_call = Press u8 | Release u8 | ReleaseAll

definition report_step :: "bool \<Rightarrow> report \<Rightarrow> report_call \<Rightarrow> report" where
  "report_step nkro r c =
     (case c of Press k \<Rightarrow> add_key_to_report nkro r k
      | Release k \<Rightarrow> del_key_from_report nkro r k
      | ReleaseAll \<Rightarrow> clear_keys_from_report nkro r)"

definition held_step :: "bool \<Rightarrow> u8 set \<Rightarrow> report_call \<Rightarrow> u8 set" where
  "held_step nkro S c =
     (case c of Press k \<Rightarrow>
        (if k \<noteq> 0 \<and> (if nkro then unat k < 8 * KEYBOARD_REPORT_BITS
                      else card S < KEYBOARD_REPORT_KEYS)
         then insert k S else S)
      | Release k \<Rightarrow> S - {k}
      | ReleaseAll \<Rightarrow> {})"

definition keys_distinct :: "report \<Rightarrow> bool" where
  "keys_distinct r \<longleftrightarrow> (\<forall>i<6. \<forall>j<6. slot r i = slot r j \<longrightarrow> slot r i \<noteq> 0 \<longrightarrow> i = j)"

definition held :: "bool \<Rightarrow> report \<Rightarrow> u8 set" where
  "held nkro r = {k. is_key_pressed nkro r k}"

lemma held6_image: "held False r = slot r ` {..<6} - {0}"
  by (auto simp: held_def is_key_pressed_slots pressed6_def)

lemma card_held6:
  assumes "keys_distinct r"
  shows "card (held False r) < 6 \<longleftrightarrow> (\<exists>i<6. slot r i = 0)"
proof (cases "\<exists>i<6. slot r i = 0")
  case True
  then obtain i where i: "i < 6" "slot r i = 0" by blast
  then have "held False r \<subseteq> slot r ` ({..<6} - {i})" by (auto simp: held6_image)
  then have "card (held False r) \<le> card (slot r ` ({..<6} - {i}))" by (intro card_mono) auto
  also have "\<dots> \<le> card ({..<6 :: nat} - {i})" by (rule card_image_le) simp
  also have "\<dots> = 5" using i by simp
  finally show ?thesis using True by auto
next
  case False
  then have inj: "inj_on (slot r) {..<6}"
    using assms by (auto simp: inj_on_def keys_distinct_def)
  have "held False r = slot r ` {..<6}" using False by (auto simp: held6_image)
  then show ?thesis using False inj by (simp add: card_image)
qed

lemma keys_distinct_step:
  assumes wf: "report_wf r" and d: "keys_distinct r"
  shows "keys_distinct (report_step False r c)"
proof (cases c)
  case (Press k)
  have "keys_distinct (add_key_byte r k)"
    by (cases rule: add_key_byte_cases [of r k])
      (use wf d in \<open>auto simp: keys_distinct_def pressed6_def\<close>)
  with Press show ?thesis by (simp add: report_step_def add_key_to_report_def)
next
  case (Release k)
  then show ?thesis using del_key_byte_facts [OF wf, of k] d
    by (simp add: report_step_def del_key_from_report_def del_key_byte_def
        KEYBOARD_REPORT_KEYS_def keys_distinct_def del: upt_rec_numeral upt_Suc)
next
  case ReleaseAll
  then show ?thesis using wf
    by (auto simp: report_step_def clear_keys_from_report_def keys_distinct_def report_wf_def
        slot_def nth_append KEYBOARD_REPORT_KEYS_def)
qed

lemma add_key_zero: "add_key_byte r 0 = r" "del_key_byte r 0 = r"
proof -
  show "add_key_byte r 0 = r"
    by (cases rule: add_key_byte_cases [of r 0]) (auto simp: pressed6_def)
  have "(if slot r' i = 0 then set_slot r' i 0 else r') = r'" for r' i
    by (metis list_update_id slot_def set_slot_def)
  moreover have "foldl (\<lambda>r _. r) r ns = r" for r :: report and ns :: "nat list"
    by (induction ns) simp_all
  ultimately show "del_key_byte r 0 = r"
    by (simp add: del_key_byte_def)
qed

lemma room6_held: "report_wf r \<Longrightarrow> keys_distinct r \<Longrightarrow> k \<noteq> 0 \<Longrightarrow>
    room6 r k \<longleftrightarrow> k \<in> held False r \<or> card (held False r) < 6"
  using card_held6 [of r] by (auto simp: room6_def held_def is_key_pressed_slots)

lemma report_step6:
  assumes wf: "report_wf r" and d: "keys_distinct r"
  shows "report_wf (report_step False r c) \<and>
         held False (report_step False r c) = held_step False (held False r) c"
proof (cases c)
  case (Press k)
  show ?thesis
  proof (cases "k = 0")
    case True
    with Press wf show ?thesis
      by (simp add: report_step_def add_key_to_report_def held_step_def add_key_zero)
  next
    case False
    have "held False (add_key_byte r k) =
        (if room6 r k then insert k (held False r) else held False r)"
      using six.pressed_add_cases [OF wf False] by (auto simp: held_def)
    with Press False show ?thesis
      using six.wf_add [OF wf] room6_held [OF wf d False]
      by (auto simp: report_step_def add_key_to_report_def held_step_def KEYBOARD_REPORT_KEYS_def)
  qed
next
  case (Release k)
  show ?thesis
  proof (cases "k = 0")
    case True
    with Release wf show ?thesis
      by (auto simp: report_step_def del_key_from_report_def held_step_def add_key_zero held_def
          is_key_pressed_def)
  next
    case False
    with Release show ?thesis
      using six.pressed_del [OF wf False] six.wf_del [OF wf]
      by (auto simp: report_step_def del_key_from_report_def held_step_def held_def)
  qed
next
  case ReleaseAll
  then show ?thesis using six.pressed_clear [OF wf] six.wf_clear [OF wf]
    by (auto simp: report_step_def held_step_def held_def)
qed

lemma report_step_bits:
  assumes wf: "report_wf r"
  shows "report_wf (report_step True r c) \<and>
         held True (report_step True r c) = held_step True (held True r) c"
proof (cases c)
  case (Press k)
  have room: "room_bit r k \<longleftrightarrow> unat k < 8 * KEYBOARD_REPORT_BITS"
    by (auto simp: room_bit_def KEYBOARD_REPORT_BITS_def)
  show ?thesis
  proof (cases "k = 0")
    case True
    have "is_key_pressed True (add_key_bit r 0) j \<longleftrightarrow> is_key_pressed True r j" for j :: u8
      using wf
      by (auto simp: is_key_pressed_bit add_key_bit_def key_row key_col Let_def bit_or_bitmask
          KEYBOARD_REPORT_BITS_def key_eq_iff [of j 0])
    with Press True show ?thesis using bits.wf_add [OF wf]
      by (auto simp: report_step_def add_key_to_report_def held_step_def held_def)
  next
    case False
    with Press show ?thesis
      using bits.pressed_add_cases [OF wf False] bits.wf_add [OF wf] room
      by (auto simp: report_step_def add_key_to_report_def held_step_def held_def)
  qed
next
  case (Release k)
  have "is_key_pressed True (del_key_bit r k) j \<longleftrightarrow> is_key_pressed True r j \<and> j \<noteq> k" for j :: u8
    using wf
    by (cases "j = k") (auto simp: is_key_pressed_bit del_key_bit_def key_row key_col Let_def
        bit_and_not_bitmask KEYBOARD_REPORT_BITS_def key_eq_iff [of j k])
  with Release show ?thesis using bits.wf_del [OF wf]
    by (auto simp: report_step_def del_key_from_report_def held_step_def held_def)
next
  case ReleaseAll
  then show ?thesis using bits.pressed_clear [OF wf] bits.wf_clear [OF wf]
    by (auto simp: report_step_def held_step_def held_def)
qed

lemma held_empty: "held nkro empty_report = {}"
  by (cases nkro)
    (auto simp: held_def is_key_pressed_slots is_key_pressed_bit pressed6_def slot_def
      empty_report_def)

lemma report_run6:
  "report_wf r \<Longrightarrow> keys_distinct r \<Longrightarrow>
   held False (foldl (report_step False) r cs) = foldl (held_step False) (held False r) cs"
  by (induction cs arbitrary: r) (simp_all add: report_step6 keys_distinct_step)

lemma report_run_bits:
  "report_wf r \<Longrightarrow>
   held True (foldl (report_step True) r cs) = foldl (held_step True) (held True r) cs"
  by (induction cs arbitrary: r) (simp_all add: report_step_bits)

text \<open>
  C4. After any sequence of key presses, releases and clears, starting from the empty report, the
  keys that \<^verbatim>\<open>is_key_pressed\<close> finds in the report are exactly those of the reference set: the
  six-slot report holds the first six keys pressed and drops the others, a release frees its slot,
  a key pressed twice takes one slot, and the bitmap drops only the keys beyond its 30 bytes.
\<close>

theorem report_is_key_set:
  "held nkro (foldl (report_step nkro) empty_report cs) = foldl (held_step nkro) {} cs"
proof (cases nkro)
  case True
  then show ?thesis
    using report_run_bits [OF report_wf_empty] by (simp add: held_empty)
next
  case False
  have "keys_distinct empty_report"
    by (auto simp: keys_distinct_def slot_def empty_report_def)
  with False show ?thesis
    using report_run6 [OF report_wf_empty] by (simp add: held_empty)
qed

end
