(* ===== verification/Keycode.thy ===== *)
theory Keycode
  imports C_Prelude
begin

text \<open>
  The enumerations of keycodes and usages, each constant with the value the compiler gives it
  (builds without \<^verbatim>\<open>VIA_ENABLE\<close>), and the predicates and masks over them.  A keycode that fits in
  a byte is used at several widths, so its abbreviation is polymorphic in the width.
\<close>

section \<open>Constants\<close>

subsection \<open>\<^verbatim>\<open>quantum/keycode.h\<close>\<close>

abbreviation (input) KC_TRANSPARENT :: "'a::len word" where "KC_TRANSPARENT \<equiv> 0x1"
abbreviation (input) KC_NO :: "'a::len word" where "KC_NO \<equiv> 0x0"
abbreviation (input) KC_A :: "'a::len word" where "KC_A \<equiv> 0x4"
abbreviation (input) KC_B :: "'a::len word" where "KC_B \<equiv> 0x5"
abbreviation (input) KC_C :: "'a::len word" where "KC_C \<equiv> 0x6"
abbreviation (input) KC_D :: "'a::len word" where "KC_D \<equiv> 0x7"
abbreviation (input) KC_E :: "'a::len word" where "KC_E \<equiv> 0x8"
abbreviation (input) KC_F :: "'a::len word" where "KC_F \<equiv> 0x9"
abbreviation (input) KC_G :: "'a::len word" where "KC_G \<equiv> 0xA"
abbreviation (input) KC_H :: "'a::len word" where "KC_H \<equiv> 0xB"
abbreviation (input) KC_I :: "'a::len word" where "KC_I \<equiv> 0xC"
abbreviation (input) KC_J :: "'a::len word" where "KC_J \<equiv> 0xD"
abbreviation (input) KC_K :: "'a::len word" where "KC_K \<equiv> 0xE"
abbreviation (input) KC_L :: "'a::len word" where "KC_L \<equiv> 0xF"
abbreviation (input) KC_M :: "'a::len word" where "KC_M \<equiv> 0x10"
abbreviation (input) KC_N :: "'a::len word" where "KC_N \<equiv> 0x11"
abbreviation (input) KC_O :: "'a::len word" where "KC_O \<equiv> 0x12"
abbreviation (input) KC_P :: "'a::len word" where "KC_P \<equiv> 0x13"
abbreviation (input) KC_Q :: "'a::len word" where "KC_Q \<equiv> 0x14"
abbreviation (input) KC_R :: "'a::len word" where "KC_R \<equiv> 0x15"
abbreviation (input) KC_S :: "'a::len word" where "KC_S \<equiv> 0x16"
abbreviation (input) KC_T :: "'a::len word" where "KC_T \<equiv> 0x17"
abbreviation (input) KC_U :: "'a::len word" where "KC_U \<equiv> 0x18"
abbreviation (input) KC_V :: "'a::len word" where "KC_V \<equiv> 0x19"
abbreviation (input) KC_W :: "'a::len word" where "KC_W \<equiv> 0x1A"
abbreviation (input) KC_X :: "'a::len word" where "KC_X \<equiv> 0x1B"
abbreviation (input) KC_Y :: "'a::len word" where "KC_Y \<equiv> 0x1C"
abbreviation (input) KC_Z :: "'a::len word" where "KC_Z \<equiv> 0x1D"
abbreviation (input) KC_1 :: "'a::len word" where "KC_1 \<equiv> 0x1E"
abbreviation (input) KC_2 :: "'a::len word" where "KC_2 \<equiv> 0x1F"
abbreviation (input) KC_3 :: "'a::len word" where "KC_3 \<equiv> 0x20"
abbreviation (input) KC_4 :: "'a::len word" where "KC_4 \<equiv> 0x21"
abbreviation (input) KC_5 :: "'a::len word" where "KC_5 \<equiv> 0x22"
abbreviation (input) KC_6 :: "'a::len word" where "KC_6 \<equiv> 0x23"
abbreviation (input) KC_7 :: "'a::len word" where "KC_7 \<equiv> 0x24"
abbreviation (input) KC_8 :: "'a::len word" where "KC_8 \<equiv> 0x25"
abbreviation (input) KC_9 :: "'a::len word" where "KC_9 \<equiv> 0x26"
abbreviation (input) KC_0 :: "'a::len word" where "KC_0 \<equiv> 0x27"
abbreviation (input) KC_ENTER :: "'a::len word" where "KC_ENTER \<equiv> 0x28"
abbreviation (input) KC_ESCAPE :: "'a::len word" where "KC_ESCAPE \<equiv> 0x29"
abbreviation (input) KC_BACKSPACE :: "'a::len word" where "KC_BACKSPACE \<equiv> 0x2A"
abbreviation (input) KC_TAB :: "'a::len word" where "KC_TAB \<equiv> 0x2B"
abbreviation (input) KC_SPACE :: "'a::len word" where "KC_SPACE \<equiv> 0x2C"
abbreviation (input) KC_MINUS :: "'a::len word" where "KC_MINUS \<equiv> 0x2D"
abbreviation (input) KC_EQUAL :: "'a::len word" where "KC_EQUAL \<equiv> 0x2E"
abbreviation (input) KC_LEFT_BRACKET :: "'a::len word" where "KC_LEFT_BRACKET \<equiv> 0x2F"
abbreviation (input) KC_RIGHT_BRACKET :: "'a::len word" where "KC_RIGHT_BRACKET \<equiv> 0x30"
abbreviation (input) KC_BACKSLASH :: "'a::len word" where "KC_BACKSLASH \<equiv> 0x31"
abbreviation (input) KC_SEMICOLON :: "'a::len word" where "KC_SEMICOLON \<equiv> 0x33"
abbreviation (input) KC_QUOTE :: "'a::len word" where "KC_QUOTE \<equiv> 0x34"
abbreviation (input) KC_GRAVE :: "'a::len word" where "KC_GRAVE \<equiv> 0x35"
abbreviation (input) KC_COMMA :: "'a::len word" where "KC_COMMA \<equiv> 0x36"
abbreviation (input) KC_DOT :: "'a::len word" where "KC_DOT \<equiv> 0x37"
abbreviation (input) KC_SLASH :: "'a::len word" where "KC_SLASH \<equiv> 0x38"
abbreviation (input) KC_CAPS_LOCK :: "'a::len word" where "KC_CAPS_LOCK \<equiv> 0x39"
abbreviation (input) KC_SCROLL_LOCK :: "'a::len word" where "KC_SCROLL_LOCK \<equiv> 0x47"
abbreviation (input) KC_DELETE :: "'a::len word" where "KC_DELETE \<equiv> 0x4C"
abbreviation (input) KC_NUM_LOCK :: "'a::len word" where "KC_NUM_LOCK \<equiv> 0x53"
abbreviation (input) KC_LOCKING_CAPS_LOCK :: "'a::len word" where "KC_LOCKING_CAPS_LOCK \<equiv> 0x82"
abbreviation (input) KC_LOCKING_NUM_LOCK :: "'a::len word" where "KC_LOCKING_NUM_LOCK \<equiv> 0x83"
abbreviation (input) KC_LOCKING_SCROLL_LOCK :: "'a::len word" where "KC_LOCKING_SCROLL_LOCK \<equiv> 0x84"
abbreviation (input) KC_EXSEL :: "'a::len word" where "KC_EXSEL \<equiv> 0xA4"
abbreviation (input) KC_LEFT_CTRL :: "'a::len word" where "KC_LEFT_CTRL \<equiv> 0xE0"
abbreviation (input) KC_LEFT_SHIFT :: "'a::len word" where "KC_LEFT_SHIFT \<equiv> 0xE1"
abbreviation (input) KC_LEFT_ALT :: "'a::len word" where "KC_LEFT_ALT \<equiv> 0xE2"
abbreviation (input) KC_LEFT_GUI :: "'a::len word" where "KC_LEFT_GUI \<equiv> 0xE3"
abbreviation (input) KC_RIGHT_CTRL :: "'a::len word" where "KC_RIGHT_CTRL \<equiv> 0xE4"
abbreviation (input) KC_RIGHT_SHIFT :: "'a::len word" where "KC_RIGHT_SHIFT \<equiv> 0xE5"
abbreviation (input) KC_RIGHT_ALT :: "'a::len word" where "KC_RIGHT_ALT \<equiv> 0xE6"
abbreviation (input) KC_RIGHT_GUI :: "'a::len word" where "KC_RIGHT_GUI \<equiv> 0xE7"
abbreviation (input) KC_SYSTEM_POWER :: "'a::len word" where "KC_SYSTEM_POWER \<equiv> 0xA5"
abbreviation (input) KC_SYSTEM_SLEEP :: "'a::len word" where "KC_SYSTEM_SLEEP \<equiv> 0xA6"
abbreviation (input) KC_SYSTEM_WAKE :: "'a::len word" where "KC_SYSTEM_WAKE \<equiv> 0xA7"
abbreviation (input) KC_AUDIO_MUTE :: "'a::len word" where "KC_AUDIO_MUTE \<equiv> 0xA8"
abbreviation (input) KC_AUDIO_VOL_UP :: "'a::len word" where "KC_AUDIO_VOL_UP \<equiv> 0xA9"
abbreviation (input) KC_AUDIO_VOL_DOWN :: "'a::len word" where "KC_AUDIO_VOL_DOWN \<equiv> 0xAA"
abbreviation (input) KC_MEDIA_NEXT_TRACK :: "'a::len word" where "KC_MEDIA_NEXT_TRACK \<equiv> 0xAB"
abbreviation (input) KC_MEDIA_PREV_TRACK :: "'a::len word" where "KC_MEDIA_PREV_TRACK \<equiv> 0xAC"
abbreviation (input) KC_MEDIA_STOP :: "'a::len word" where "KC_MEDIA_STOP \<equiv> 0xAD"
abbreviation (input) KC_MEDIA_PLAY_PAUSE :: "'a::len word" where "KC_MEDIA_PLAY_PAUSE \<equiv> 0xAE"
abbreviation (input) KC_MEDIA_SELECT :: "'a::len word" where "KC_MEDIA_SELECT \<equiv> 0xAF"
abbreviation (input) KC_MEDIA_EJECT :: "'a::len word" where "KC_MEDIA_EJECT \<equiv> 0xB0"
abbreviation (input) KC_MAIL :: "'a::len word" where "KC_MAIL \<equiv> 0xB1"
abbreviation (input) KC_CALCULATOR :: "'a::len word" where "KC_CALCULATOR \<equiv> 0xB2"
abbreviation (input) KC_MY_COMPUTER :: "'a::len word" where "KC_MY_COMPUTER \<equiv> 0xB3"
abbreviation (input) KC_WWW_SEARCH :: "'a::len word" where "KC_WWW_SEARCH \<equiv> 0xB4"
abbreviation (input) KC_WWW_HOME :: "'a::len word" where "KC_WWW_HOME \<equiv> 0xB5"
abbreviation (input) KC_WWW_BACK :: "'a::len word" where "KC_WWW_BACK \<equiv> 0xB6"
abbreviation (input) KC_WWW_FORWARD :: "'a::len word" where "KC_WWW_FORWARD \<equiv> 0xB7"
abbreviation (input) KC_WWW_STOP :: "'a::len word" where "KC_WWW_STOP \<equiv> 0xB8"
abbreviation (input) KC_WWW_REFRESH :: "'a::len word" where "KC_WWW_REFRESH \<equiv> 0xB9"
abbreviation (input) KC_WWW_FAVORITES :: "'a::len word" where "KC_WWW_FAVORITES \<equiv> 0xBA"
abbreviation (input) KC_MEDIA_FAST_FORWARD :: "'a::len word" where "KC_MEDIA_FAST_FORWARD \<equiv> 0xBB"
abbreviation (input) KC_MEDIA_REWIND :: "'a::len word" where "KC_MEDIA_REWIND \<equiv> 0xBC"
abbreviation (input) KC_BRIGHTNESS_UP :: "'a::len word" where "KC_BRIGHTNESS_UP \<equiv> 0xBD"
abbreviation (input) KC_BRIGHTNESS_DOWN :: "'a::len word" where "KC_BRIGHTNESS_DOWN \<equiv> 0xBE"
abbreviation (input) KC_FN0 :: "'a::len word" where "KC_FN0 \<equiv> 0xC0"
abbreviation (input) KC_FN31 :: "'a::len word" where "KC_FN31 \<equiv> 0xDF"
abbreviation (input) KC_MS_UP :: "'a::len word" where "KC_MS_UP \<equiv> 0xED"
abbreviation (input) KC_MS_DOWN :: "'a::len word" where "KC_MS_DOWN \<equiv> 0xEE"
abbreviation (input) KC_MS_LEFT :: "'a::len word" where "KC_MS_LEFT \<equiv> 0xEF"
abbreviation (input) KC_MS_RIGHT :: "'a::len word" where "KC_MS_RIGHT \<equiv> 0xF0"
abbreviation (input) KC_MS_BTN1 :: "'a::len word" where "KC_MS_BTN1 \<equiv> 0xF1"
abbreviation (input) KC_MS_BTN8 :: "'a::len word" where "KC_MS_BTN8 \<equiv> 0xF8"
abbreviation (input) KC_MS_WH_UP :: "'a::len word" where "KC_MS_WH_UP \<equiv> 0xF9"
abbreviation (input) KC_MS_WH_DOWN :: "'a::len word" where "KC_MS_WH_DOWN \<equiv> 0xFA"
abbreviation (input) KC_MS_WH_LEFT :: "'a::len word" where "KC_MS_WH_LEFT \<equiv> 0xFB"
abbreviation (input) KC_MS_WH_RIGHT :: "'a::len word" where "KC_MS_WH_RIGHT \<equiv> 0xFC"
abbreviation (input) KC_MS_ACCEL0 :: "'a::len word" where "KC_MS_ACCEL0 \<equiv> 0xFD"
abbreviation (input) KC_MS_ACCEL1 :: "'a::len word" where "KC_MS_ACCEL1 \<equiv> 0xFE"
abbreviation (input) KC_MS_ACCEL2 :: "'a::len word" where "KC_MS_ACCEL2 \<equiv> 0xFF"

subsection \<open>\<^verbatim>\<open>quantum/quantum_keycodes.h\<close>\<close>

abbreviation (input) QK_BASIC_MAX :: "'a::len word" where "QK_BASIC_MAX \<equiv> 0xFF"
abbreviation (input) QK_MODS :: "u16" where "QK_MODS \<equiv> 0x100"
abbreviation (input) QK_LCTL :: "u16" where "QK_LCTL \<equiv> 0x100"
abbreviation (input) QK_LSFT :: "u16" where "QK_LSFT \<equiv> 0x200"
abbreviation (input) QK_LALT :: "u16" where "QK_LALT \<equiv> 0x400"
abbreviation (input) QK_LGUI :: "u16" where "QK_LGUI \<equiv> 0x800"
abbreviation (input) QK_RMODS_MIN :: "u16" where "QK_RMODS_MIN \<equiv> 0x1000"
abbreviation (input) QK_MODS_MAX :: "u16" where "QK_MODS_MAX \<equiv> 0x1FFF"
abbreviation (input) QK_FUNCTION :: "u16" where "QK_FUNCTION \<equiv> 0x2000"
abbreviation (input) QK_FUNCTION_MAX :: "u16" where "QK_FUNCTION_MAX \<equiv> 0x2FFF"
abbreviation (input) QK_MACRO :: "u16" where "QK_MACRO \<equiv> 0x3000"
abbreviation (input) QK_MACRO_MAX :: "u16" where "QK_MACRO_MAX \<equiv> 0x3FFF"
abbreviation (input) QK_LAYER_TAP :: "u16" where "QK_LAYER_TAP \<equiv> 0x4000"
abbreviation (input) QK_LAYER_TAP_MAX :: "u16" where "QK_LAYER_TAP_MAX \<equiv> 0x4FFF"
abbreviation (input) QK_TO :: "u16" where "QK_TO \<equiv> 0x5000"
abbreviation (input) QK_TO_MAX :: "u16" where "QK_TO_MAX \<equiv> 0x50FF"
abbreviation (input) QK_MOMENTARY :: "u16" where "QK_MOMENTARY \<equiv> 0x5100"
abbreviation (input) QK_MOMENTARY_MAX :: "u16" where "QK_MOMENTARY_MAX \<equiv> 0x51FF"
abbreviation (input) QK_DEF_LAYER :: "u16" where "QK_DEF_LAYER \<equiv> 0x5200"
abbreviation (input) QK_DEF_LAYER_MAX :: "u16" where "QK_DEF_LAYER_MAX \<equiv> 0x52FF"
abbreviation (input) QK_TOGGLE_LAYER :: "u16" where "QK_TOGGLE_LAYER \<equiv> 0x5300"
abbreviation (input) QK_TOGGLE_LAYER_MAX :: "u16" where "QK_TOGGLE_LAYER_MAX \<equiv> 0x53FF"
abbreviation (input) QK_ONE_SHOT_LAYER :: "u16" where "QK_ONE_SHOT_LAYER \<equiv> 0x5400"
abbreviation (input) QK_ONE_SHOT_LAYER_MAX :: "u16" where "QK_ONE_SHOT_LAYER_MAX \<equiv> 0x54FF"
abbreviation (input) QK_ONE_SHOT_MOD :: "u16" where "QK_ONE_SHOT_MOD \<equiv> 0x5500"
abbreviation (input) QK_ONE_SHOT_MOD_MAX :: "u16" where "QK_ONE_SHOT_MOD_MAX \<equiv> 0x55FF"
abbreviation (input) QK_SWAP_HANDS :: "u16" where "QK_SWAP_HANDS \<equiv> 0x5600"
abbreviation (input) QK_SWAP_HANDS_MAX :: "u16" where "QK_SWAP_HANDS_MAX \<equiv> 0x56FF"
abbreviation (input) QK_TAP_DANCE :: "u16" where "QK_TAP_DANCE \<equiv> 0x5700"
abbreviation (input) QK_TAP_DANCE_MAX :: "u16" where "QK_TAP_DANCE_MAX \<equiv> 0x57FF"
abbreviation (input) QK_LAYER_TAP_TOGGLE :: "u16" where "QK_LAYER_TAP_TOGGLE \<equiv> 0x5800"
abbreviation (input) QK_LAYER_TAP_TOGGLE_MAX :: "u16" where "QK_LAYER_TAP_TOGGLE_MAX \<equiv> 0x58FF"
abbreviation (input) QK_LAYER_MOD :: "u16" where "QK_LAYER_MOD \<equiv> 0x5900"
abbreviation (input) QK_LAYER_MOD_MAX :: "u16" where "QK_LAYER_MOD_MAX \<equiv> 0x59FF"
abbreviation (input) QK_MOD_TAP :: "u16" where "QK_MOD_TAP \<equiv> 0x6000"
abbreviation (input) QK_MOD_TAP_MAX :: "u16" where "QK_MOD_TAP_MAX \<equiv> 0x7FFF"
abbreviation (input) RESET :: "u16" where "RESET \<equiv> 0x5C00"
abbreviation (input) DEBUG :: "u16" where "DEBUG \<equiv> 0x5C01"
abbreviation (input) MAGIC_SWAP_CONTROL_CAPSLOCK :: "u16" where "MAGIC_SWAP_CONTROL_CAPSLOCK \<equiv> 0x5C02"
abbreviation (input) MAGIC_CAPSLOCK_TO_CONTROL :: "u16" where "MAGIC_CAPSLOCK_TO_CONTROL \<equiv> 0x5C03"
abbreviation (input) MAGIC_SWAP_LALT_LGUI :: "u16" where "MAGIC_SWAP_LALT_LGUI \<equiv> 0x5C04"
abbreviation (input) MAGIC_SWAP_RALT_RGUI :: "u16" where "MAGIC_SWAP_RALT_RGUI \<equiv> 0x5C05"
abbreviation (input) MAGIC_NO_GUI :: "u16" where "MAGIC_NO_GUI \<equiv> 0x5C06"
abbreviation (input) MAGIC_SWAP_GRAVE_ESC :: "u16" where "MAGIC_SWAP_GRAVE_ESC \<equiv> 0x5C07"
abbreviation (input) MAGIC_SWAP_BACKSLASH_BACKSPACE :: "u16" where "MAGIC_SWAP_BACKSLASH_BACKSPACE \<equiv> 0x5C08"
abbreviation (input) MAGIC_HOST_NKRO :: "u16" where "MAGIC_HOST_NKRO \<equiv> 0x5C09"
abbreviation (input) MAGIC_SWAP_ALT_GUI :: "u16" where "MAGIC_SWAP_ALT_GUI \<equiv> 0x5C0A"
abbreviation (input) MAGIC_UNSWAP_CONTROL_CAPSLOCK :: "u16" where "MAGIC_UNSWAP_CONTROL_CAPSLOCK \<equiv> 0x5C0B"
abbreviation (input) MAGIC_UNCAPSLOCK_TO_CONTROL :: "u16" where "MAGIC_UNCAPSLOCK_TO_CONTROL \<equiv> 0x5C0C"
abbreviation (input) MAGIC_UNSWAP_LALT_LGUI :: "u16" where "MAGIC_UNSWAP_LALT_LGUI \<equiv> 0x5C0D"
abbreviation (input) MAGIC_UNSWAP_RALT_RGUI :: "u16" where "MAGIC_UNSWAP_RALT_RGUI \<equiv> 0x5C0E"
abbreviation (input) MAGIC_UNNO_GUI :: "u16" where "MAGIC_UNNO_GUI \<equiv> 0x5C0F"
abbreviation (input) MAGIC_UNSWAP_GRAVE_ESC :: "u16" where "MAGIC_UNSWAP_GRAVE_ESC \<equiv> 0x5C10"
abbreviation (input) MAGIC_UNSWAP_BACKSLASH_BACKSPACE :: "u16" where "MAGIC_UNSWAP_BACKSLASH_BACKSPACE \<equiv> 0x5C11"
abbreviation (input) MAGIC_UNHOST_NKRO :: "u16" where "MAGIC_UNHOST_NKRO \<equiv> 0x5C12"
abbreviation (input) MAGIC_UNSWAP_ALT_GUI :: "u16" where "MAGIC_UNSWAP_ALT_GUI \<equiv> 0x5C13"
abbreviation (input) MAGIC_TOGGLE_NKRO :: "u16" where "MAGIC_TOGGLE_NKRO \<equiv> 0x5C14"
abbreviation (input) MAGIC_TOGGLE_ALT_GUI :: "u16" where "MAGIC_TOGGLE_ALT_GUI \<equiv> 0x5C15"
abbreviation (input) GRAVE_ESC :: "u16" where "GRAVE_ESC \<equiv> 0x5C16"
abbreviation (input) KC_LSPO :: "u16" where "KC_LSPO \<equiv> 0x5CD8"
abbreviation (input) KC_RSPC :: "u16" where "KC_RSPC \<equiv> 0x5CD9"
abbreviation (input) KC_SFTENT :: "u16" where "KC_SFTENT \<equiv> 0x5CDA"
abbreviation (input) EEPROM_RESET :: "u16" where "EEPROM_RESET \<equiv> 0x5CDF"
abbreviation (input) KC_LCPO :: "u16" where "KC_LCPO \<equiv> 0x5CF4"
abbreviation (input) KC_RCPC :: "u16" where "KC_RCPC \<equiv> 0x5CF5"
abbreviation (input) KC_LAPO :: "u16" where "KC_LAPO \<equiv> 0x5CF6"
abbreviation (input) KC_RAPC :: "u16" where "KC_RAPC \<equiv> 0x5CF7"
abbreviation (input) CMB_ON :: "u16" where "CMB_ON \<equiv> 0x5CF8"
abbreviation (input) CMB_OFF :: "u16" where "CMB_OFF \<equiv> 0x5CF9"
abbreviation (input) CMB_TOG :: "u16" where "CMB_TOG \<equiv> 0x5CFA"
abbreviation (input) MAGIC_SWAP_LCTL_LGUI :: "u16" where "MAGIC_SWAP_LCTL_LGUI \<equiv> 0x5CFB"
abbreviation (input) MAGIC_SWAP_RCTL_RGUI :: "u16" where "MAGIC_SWAP_RCTL_RGUI \<equiv> 0x5CFC"
abbreviation (input) MAGIC_UNSWAP_LCTL_LGUI :: "u16" where "MAGIC_UNSWAP_LCTL_LGUI \<equiv> 0x5CFD"
abbreviation (input) MAGIC_UNSWAP_RCTL_RGUI :: "u16" where "MAGIC_UNSWAP_RCTL_RGUI \<equiv> 0x5CFE"
abbreviation (input) MAGIC_SWAP_CTL_GUI :: "u16" where "MAGIC_SWAP_CTL_GUI \<equiv> 0x5CFF"
abbreviation (input) MAGIC_UNSWAP_CTL_GUI :: "u16" where "MAGIC_UNSWAP_CTL_GUI \<equiv> 0x5D00"
abbreviation (input) MAGIC_TOGGLE_CTL_GUI :: "u16" where "MAGIC_TOGGLE_CTL_GUI \<equiv> 0x5D01"
abbreviation (input) MAGIC_EE_HANDS_LEFT :: "u16" where "MAGIC_EE_HANDS_LEFT \<equiv> 0x5D02"
abbreviation (input) MAGIC_EE_HANDS_RIGHT :: "u16" where "MAGIC_EE_HANDS_RIGHT \<equiv> 0x5D03"
abbreviation (input) DYN_REC_START1 :: "u16" where "DYN_REC_START1 \<equiv> 0x5D04"
abbreviation (input) DYN_REC_START2 :: "u16" where "DYN_REC_START2 \<equiv> 0x5D05"
abbreviation (input) DYN_REC_STOP :: "u16" where "DYN_REC_STOP \<equiv> 0x5D06"
abbreviation (input) DYN_MACRO_PLAY1 :: "u16" where "DYN_MACRO_PLAY1 \<equiv> 0x5D07"
abbreviation (input) DYN_MACRO_PLAY2 :: "u16" where "DYN_MACRO_PLAY2 \<equiv> 0x5D08"
abbreviation (input) KC_LEAD :: "u16" where "KC_LEAD \<equiv> 0x5D29"
abbreviation (input) KC_LOCK :: "u16" where "KC_LOCK \<equiv> 0x5D2B"
abbreviation (input) ONESHOT_ENABLE :: "u16" where "ONESHOT_ENABLE \<equiv> 0x5D5B"
abbreviation (input) ONESHOT_DISABLE :: "u16" where "ONESHOT_DISABLE \<equiv> 0x5D5C"
abbreviation (input) ONESHOT_TOGGLE :: "u16" where "ONESHOT_TOGGLE \<equiv> 0x5D5D"
abbreviation (input) MAGIC_TOGGLE_GUI :: "u16" where "MAGIC_TOGGLE_GUI \<equiv> 0x5D62"

subsection \<open>\<^verbatim>\<open>quantum/action_code.h\<close>\<close>

abbreviation (input) ACT_MODS :: "'a::len word" where "ACT_MODS \<equiv> 0x0"
abbreviation (input) ACT_LMODS :: "'a::len word" where "ACT_LMODS \<equiv> 0x0"
abbreviation (input) ACT_RMODS :: "'a::len word" where "ACT_RMODS \<equiv> 0x1"
abbreviation (input) ACT_MODS_TAP :: "'a::len word" where "ACT_MODS_TAP \<equiv> 0x2"
abbreviation (input) ACT_LMODS_TAP :: "'a::len word" where "ACT_LMODS_TAP \<equiv> 0x2"
abbreviation (input) ACT_RMODS_TAP :: "'a::len word" where "ACT_RMODS_TAP \<equiv> 0x3"
abbreviation (input) ACT_USAGE :: "'a::len word" where "ACT_USAGE \<equiv> 0x4"
abbreviation (input) ACT_MOUSEKEY :: "'a::len word" where "ACT_MOUSEKEY \<equiv> 0x5"
abbreviation (input) ACT_SWAP_HANDS :: "'a::len word" where "ACT_SWAP_HANDS \<equiv> 0x6"
abbreviation (input) ACT_LAYER :: "'a::len word" where "ACT_LAYER \<equiv> 0x8"
abbreviation (input) ACT_LAYER_MODS :: "'a::len word" where "ACT_LAYER_MODS \<equiv> 0x9"
abbreviation (input) ACT_LAYER_TAP :: "'a::len word" where "ACT_LAYER_TAP \<equiv> 0xA"
abbreviation (input) ACT_LAYER_TAP_EXT :: "'a::len word" where "ACT_LAYER_TAP_EXT \<equiv> 0xB"
abbreviation (input) ACT_MACRO :: "'a::len word" where "ACT_MACRO \<equiv> 0xC"
abbreviation (input) ACT_FUNCTION :: "'a::len word" where "ACT_FUNCTION \<equiv> 0xF"
abbreviation (input) MOD_LCTL :: "'a::len word" where "MOD_LCTL \<equiv> 0x1"
abbreviation (input) MOD_LSFT :: "'a::len word" where "MOD_LSFT \<equiv> 0x2"
abbreviation (input) MOD_LALT :: "'a::len word" where "MOD_LALT \<equiv> 0x4"
abbreviation (input) MOD_LGUI :: "'a::len word" where "MOD_LGUI \<equiv> 0x8"
abbreviation (input) MOD_RCTL :: "'a::len word" where "MOD_RCTL \<equiv> 0x11"
abbreviation (input) MOD_RSFT :: "'a::len word" where "MOD_RSFT \<equiv> 0x12"
abbreviation (input) MOD_RALT :: "'a::len word" where "MOD_RALT \<equiv> 0x14"
abbreviation (input) MOD_RGUI :: "'a::len word" where "MOD_RGUI \<equiv> 0x18"
abbreviation (input) MODS_ONESHOT :: "'a::len word" where "MODS_ONESHOT \<equiv> 0x0"
abbreviation (input) MODS_TAP_TOGGLE :: "'a::len word" where "MODS_TAP_TOGGLE \<equiv> 0x1"
abbreviation (input) PAGE_SYSTEM :: "'a::len word" where "PAGE_SYSTEM \<equiv> 0x0"
abbreviation (input) PAGE_CONSUMER :: "'a::len word" where "PAGE_CONSUMER \<equiv> 0x1"
abbreviation (input) ON_PRESS :: "'a::len word" where "ON_PRESS \<equiv> 0x1"
abbreviation (input) ON_RELEASE :: "'a::len word" where "ON_RELEASE \<equiv> 0x2"
abbreviation (input) OP_BIT_AND :: "'a::len word" where "OP_BIT_AND \<equiv> 0x0"
abbreviation (input) OP_BIT_OR :: "'a::len word" where "OP_BIT_OR \<equiv> 0x1"
abbreviation (input) OP_BIT_XOR :: "'a::len word" where "OP_BIT_XOR \<equiv> 0x2"
abbreviation (input) OP_BIT_SET :: "'a::len word" where "OP_BIT_SET \<equiv> 0x3"
abbreviation (input) OP_TAP_TOGGLE :: "'a::len word" where "OP_TAP_TOGGLE \<equiv> 0xF0"
abbreviation (input) OP_ON_OFF :: "'a::len word" where "OP_ON_OFF \<equiv> 0xF1"
abbreviation (input) OP_OFF_ON :: "'a::len word" where "OP_OFF_ON \<equiv> 0xF2"
abbreviation (input) OP_SET_CLEAR :: "'a::len word" where "OP_SET_CLEAR \<equiv> 0xF3"
abbreviation (input) OP_ONESHOT :: "'a::len word" where "OP_ONESHOT \<equiv> 0xF4"
abbreviation (input) FUNC_TAP :: "'a::len word" where "FUNC_TAP \<equiv> 0x8"
abbreviation (input) OP_SH_TOGGLE :: "'a::len word" where "OP_SH_TOGGLE \<equiv> 0xF0"
abbreviation (input) OP_SH_TAP_TOGGLE :: "'a::len word" where "OP_SH_TAP_TOGGLE \<equiv> 0xF1"
abbreviation (input) OP_SH_ON_OFF :: "'a::len word" where "OP_SH_ON_OFF \<equiv> 0xF2"
abbreviation (input) OP_SH_OFF_ON :: "'a::len word" where "OP_SH_OFF_ON \<equiv> 0xF3"
abbreviation (input) OP_SH_OFF :: "'a::len word" where "OP_SH_OFF \<equiv> 0xF4"
abbreviation (input) OP_SH_ON :: "'a::len word" where "OP_SH_ON \<equiv> 0xF5"
abbreviation (input) OP_SH_ONESHOT :: "'a::len word" where "OP_SH_ONESHOT \<equiv> 0xF6"

subsection \<open>\<^verbatim>\<open>tmk_core/protocol/report.h\<close>\<close>

abbreviation (input) REPORT_ID_NKRO :: "u16" where "REPORT_ID_NKRO \<equiv> 0x6"
abbreviation (input) BRIGHTNESS_UP :: "u16" where "BRIGHTNESS_UP \<equiv> 0x6F"
abbreviation (input) BRIGHTNESS_DOWN :: "u16" where "BRIGHTNESS_DOWN \<equiv> 0x70"
abbreviation (input) TRANSPORT_FAST_FORWARD :: "u16" where "TRANSPORT_FAST_FORWARD \<equiv> 0xB3"
abbreviation (input) TRANSPORT_REWIND :: "u16" where "TRANSPORT_REWIND \<equiv> 0xB4"
abbreviation (input) TRANSPORT_NEXT_TRACK :: "u16" where "TRANSPORT_NEXT_TRACK \<equiv> 0xB5"
abbreviation (input) TRANSPORT_PREV_TRACK :: "u16" where "TRANSPORT_PREV_TRACK \<equiv> 0xB6"
abbreviation (input) TRANSPORT_STOP :: "u16" where "TRANSPORT_STOP \<equiv> 0xB7"
abbreviation (input) TRANSPORT_STOP_EJECT :: "u16" where "TRANSPORT_STOP_EJECT \<equiv> 0xCC"
abbreviation (input) TRANSPORT_PLAY_PAUSE :: "u16" where "TRANSPORT_PLAY_PAUSE \<equiv> 0xCD"
abbreviation (input) AUDIO_MUTE :: "u16" where "AUDIO_MUTE \<equiv> 0xE2"
abbreviation (input) AUDIO_VOL_UP :: "u16" where "AUDIO_VOL_UP \<equiv> 0xE9"
abbreviation (input) AUDIO_VOL_DOWN :: "u16" where "AUDIO_VOL_DOWN \<equiv> 0xEA"
abbreviation (input) AL_CC_CONFIG :: "u16" where "AL_CC_CONFIG \<equiv> 0x183"
abbreviation (input) AL_EMAIL :: "u16" where "AL_EMAIL \<equiv> 0x18A"
abbreviation (input) AL_CALCULATOR :: "u16" where "AL_CALCULATOR \<equiv> 0x192"
abbreviation (input) AL_LOCAL_BROWSER :: "u16" where "AL_LOCAL_BROWSER \<equiv> 0x194"
abbreviation (input) AC_SEARCH :: "u16" where "AC_SEARCH \<equiv> 0x221"
abbreviation (input) AC_HOME :: "u16" where "AC_HOME \<equiv> 0x223"
abbreviation (input) AC_BACK :: "u16" where "AC_BACK \<equiv> 0x224"
abbreviation (input) AC_FORWARD :: "u16" where "AC_FORWARD \<equiv> 0x225"
abbreviation (input) AC_STOP :: "u16" where "AC_STOP \<equiv> 0x226"
abbreviation (input) AC_REFRESH :: "u16" where "AC_REFRESH \<equiv> 0x227"
abbreviation (input) AC_BOOKMARKS :: "u16" where "AC_BOOKMARKS \<equiv> 0x22A"
abbreviation (input) SYSTEM_POWER_DOWN :: "u16" where "SYSTEM_POWER_DOWN \<equiv> 0x81"
abbreviation (input) SYSTEM_SLEEP :: "u16" where "SYSTEM_SLEEP \<equiv> 0x82"
abbreviation (input) SYSTEM_WAKE_UP :: "u16" where "SYSTEM_WAKE_UP \<equiv> 0x83"

subsection \<open>\<^verbatim>\<open>quantum/action_macro.h\<close>\<close>

abbreviation (input) END :: "'a::len word" where "END \<equiv> 0x0"
abbreviation (input) KEY_DOWN :: "'a::len word" where "KEY_DOWN \<equiv> 0x1"
abbreviation (input) KEY_UP :: "'a::len word" where "KEY_UP \<equiv> 0x2"
abbreviation (input) WAIT :: "'a::len word" where "WAIT \<equiv> 0x74"
abbreviation (input) INTERVAL :: "'a::len word" where "INTERVAL \<equiv> 0x75"

section \<open>Predicates and masks\<close>

definition IS_KEY :: "'a::len word \<Rightarrow> bool" where
  "IS_KEY code \<longleftrightarrow> KC_A \<le> code \<and> code \<le> KC_EXSEL"

definition IS_MOD :: "'a::len word \<Rightarrow> bool" where
  "IS_MOD code \<longleftrightarrow> KC_LEFT_CTRL \<le> code \<and> code \<le> KC_RIGHT_GUI"

definition IS_SYSTEM :: "'a::len word \<Rightarrow> bool" where
  "IS_SYSTEM code \<longleftrightarrow> KC_SYSTEM_POWER \<le> code \<and> code \<le> KC_SYSTEM_WAKE"

definition IS_CONSUMER :: "'a::len word \<Rightarrow> bool" where
  "IS_CONSUMER code \<longleftrightarrow> KC_AUDIO_MUTE \<le> code \<and> code \<le> KC_BRIGHTNESS_DOWN"

text \<open>\<^verbatim>\<open>MOD_BIT\<close> of a modifier keycode, at the width of the modifier byte.\<close>

definition MOD_BIT :: "u8 \<Rightarrow> u8" where
  "MOD_BIT code = push_bit (unat (code AND 0x07)) 1"

section \<open>Usages of the special keys\<close>

definition KEYCODE2SYSTEM :: "u8 \<Rightarrow> u16" where
  "KEYCODE2SYSTEM key =
     (if key = KC_SYSTEM_POWER then SYSTEM_POWER_DOWN
      else if key = KC_SYSTEM_SLEEP then SYSTEM_SLEEP
      else if key = KC_SYSTEM_WAKE then SYSTEM_WAKE_UP
      else 0)"

definition KEYCODE2CONSUMER :: "u8 \<Rightarrow> u16" where
  "KEYCODE2CONSUMER key =
     (if key = KC_AUDIO_MUTE then AUDIO_MUTE
      else if key = KC_AUDIO_VOL_UP then AUDIO_VOL_UP
      else if key = KC_AUDIO_VOL_DOWN then AUDIO_VOL_DOWN
      else if key = KC_MEDIA_NEXT_TRACK then TRANSPORT_NEXT_TRACK
      else if key = KC_MEDIA_PREV_TRACK then TRANSPORT_PREV_TRACK
      else if key = KC_MEDIA_FAST_FORWARD then TRANSPORT_FAST_FORWARD
      else if key = KC_MEDIA_REWIND then TRANSPORT_REWIND
      else if key = KC_MEDIA_STOP then TRANSPORT_STOP
      else if key = KC_MEDIA_EJECT then TRANSPORT_STOP_EJECT
      else if key = KC_MEDIA_PLAY_PAUSE then TRANSPORT_PLAY_PAUSE
      else if key = KC_MEDIA_SELECT then AL_CC_CONFIG
      else if key = KC_MAIL then AL_EMAIL
      else if key = KC_CALCULATOR then AL_CALCULATOR
      else if key = KC_MY_COMPUTER then AL_LOCAL_BROWSER
      else if key = KC_WWW_SEARCH then AC_SEARCH
      else if key = KC_WWW_HOME then AC_HOME
      else if key = KC_WWW_BACK then AC_BACK
      else if key = KC_WWW_FORWARD then AC_FORWARD
      else if key = KC_WWW_STOP then AC_STOP
      else if key = KC_WWW_REFRESH then AC_REFRESH
      else if key = KC_BRIGHTNESS_UP then BRIGHTNESS_UP
      else if key = KC_BRIGHTNESS_DOWN then BRIGHTNESS_DOWN
      else if key = KC_WWW_FAVORITES then AC_BOOKMARKS
      else 0)"

section \<open>Modifier masks\<close>

lemma IS_MOD_8: "IS_MOD (k :: u8) \<longleftrightarrow> 0xE0 \<le> k \<and> k \<le> 0xE7"
  by (simp add: IS_MOD_def)

lemma not_key_and_mod: "IS_KEY (k :: u8) \<Longrightarrow> \<not> IS_MOD k"
  by (auto simp: IS_KEY_def IS_MOD_def word_le_nat_alt)

lemma key_nonzero: "IS_KEY (k :: u8) \<Longrightarrow> k \<noteq> 0"
  by (auto simp: IS_KEY_def)

lemma MOD_BIT_nonzero: "MOD_BIT k \<noteq> 0"
proof -
  have "unat (k AND 7) < 8"
    by (simp add: key_col)
  then have "bit (MOD_BIT k) (unat (k AND 7))"
    by (simp only: MOD_BIT_def bit_push_bit_iff) simp
  then show ?thesis by auto
qed

end
