(* ===== verification/Keycode_Config.thy ===== *)
theory Keycode_Config
  imports Keycode
begin

text \<open>
  \<^verbatim>\<open>quantum/keycode_config.c\<close> and \<^verbatim>\<open>.h\<close>: the remapping that the magic keycodes configure, on keycodes
  and on five-bit modifier masks.  \<^verbatim>\<open>keymap_config_t\<close> is a union of a 16-bit word with bit fields; the
  model is the record of the fields, with the two conversions to the word.
\<close>

record keymap_config_t =
  swap_control_capslock :: bool
  capslock_to_control :: bool
  swap_lalt_lgui :: bool
  swap_ralt_rgui :: bool
  no_gui :: bool
  swap_grave_esc :: bool
  swap_backslash_backspace :: bool
  cfg_nkro :: bool
  swap_lctl_lgui :: bool
  swap_rctl_rgui :: bool
  oneshot_disable :: bool

definition keymap_config_raw :: "keymap_config_t \<Rightarrow> u16" where
  "keymap_config_raw c =
     (if swap_control_capslock c then 0x001 else 0) OR (if capslock_to_control c then 0x002 else 0) OR
     (if swap_lalt_lgui c then 0x004 else 0) OR (if swap_ralt_rgui c then 0x008 else 0) OR
     (if no_gui c then 0x010 else 0) OR (if swap_grave_esc c then 0x020 else 0) OR
     (if swap_backslash_backspace c then 0x040 else 0) OR (if cfg_nkro c then 0x080 else 0) OR
     (if swap_lctl_lgui c then 0x100 else 0) OR (if swap_rctl_rgui c then 0x200 else 0) OR
     (if oneshot_disable c then 0x400 else 0)"

definition keymap_config_of_raw :: "u16 \<Rightarrow> keymap_config_t" where
  "keymap_config_of_raw w =
     \<lparr>swap_control_capslock = bit w 0, capslock_to_control = bit w 1, swap_lalt_lgui = bit w 2,
      swap_ralt_rgui = bit w 3, no_gui = bit w 4, swap_grave_esc = bit w 5,
      swap_backslash_backspace = bit w 6, cfg_nkro = bit w 7, swap_lctl_lgui = bit w 8,
      swap_rctl_rgui = bit w 9, oneshot_disable = bit w 10\<rparr>"

definition keycode_config :: "keymap_config_t \<Rightarrow> u16 \<Rightarrow> u16" where
  "keycode_config c keycode =
     (if keycode = KC_CAPS_LOCK \<or> keycode = KC_LOCKING_CAPS_LOCK then
        (if swap_control_capslock c \<or> capslock_to_control c then KC_LEFT_CTRL else keycode)
      else if keycode = KC_LEFT_CTRL then
        (if swap_control_capslock c then KC_CAPS_LOCK
         else if swap_lctl_lgui c then (if no_gui c then KC_NO else KC_LEFT_GUI)
         else KC_LEFT_CTRL)
      else if keycode = KC_LEFT_ALT then
        (if swap_lalt_lgui c then (if no_gui c then KC_NO else KC_LEFT_GUI) else KC_LEFT_ALT)
      else if keycode = KC_LEFT_GUI then
        (if swap_lalt_lgui c then KC_LEFT_ALT
         else if swap_lctl_lgui c then KC_LEFT_CTRL
         else if no_gui c then KC_NO else KC_LEFT_GUI)
      else if keycode = KC_RIGHT_CTRL then
        (if swap_rctl_rgui c then (if no_gui c then KC_NO else KC_RIGHT_GUI) else KC_RIGHT_CTRL)
      else if keycode = KC_RIGHT_ALT then
        (if swap_ralt_rgui c then (if no_gui c then KC_NO else KC_RIGHT_GUI) else KC_RIGHT_ALT)
      else if keycode = KC_RIGHT_GUI then
        (if swap_ralt_rgui c then KC_RIGHT_ALT
         else if swap_rctl_rgui c then KC_RIGHT_CTRL
         else if no_gui c then KC_NO else KC_RIGHT_GUI)
      else if keycode = KC_GRAVE then (if swap_grave_esc c then KC_ESCAPE else KC_GRAVE)
      else if keycode = KC_ESCAPE then (if swap_grave_esc c then KC_GRAVE else KC_ESCAPE)
      else if keycode = KC_BACKSLASH then
        (if swap_backslash_backspace c then KC_BACKSPACE else KC_BACKSLASH)
      else if keycode = KC_BACKSPACE then
        (if swap_backslash_backspace c then KC_BACKSLASH else KC_BACKSPACE)
      else keycode)"

text \<open>
  One of the four blocks of \<^verbatim>\<open>mod_config\<close>: \<open>a\<close> and \<open>b\<close> are the masks it exchanges, \<open>ma\<close> and \<open>mb\<close> the
  right-hand masks they are tested under.
\<close>

definition swap_mods :: "u8 \<Rightarrow> u8 \<Rightarrow> u8 \<Rightarrow> u8 \<Rightarrow> u8 \<Rightarrow> u8" where
  "swap_mods ma a mb b m =
     (if m AND ma = a then m AND NOT a OR b
      else if m AND mb = b then m AND NOT b OR a
      else m)"

definition mod_config_swaps :: "keymap_config_t \<Rightarrow> u8 \<Rightarrow> u8" where
  "mod_config_swaps c m =
     (let m = (if swap_lalt_lgui c then swap_mods MOD_RGUI MOD_LGUI MOD_RALT MOD_LALT m else m);
          m = (if swap_ralt_rgui c then swap_mods MOD_RGUI MOD_RGUI MOD_RALT MOD_RALT m else m);
          m = (if swap_lctl_lgui c then swap_mods MOD_RGUI MOD_LGUI MOD_RCTL MOD_LCTL m else m)
      in if swap_rctl_rgui c then swap_mods MOD_RGUI MOD_RGUI MOD_RCTL MOD_RCTL m else m)"

definition mod_config :: "keymap_config_t \<Rightarrow> u8 \<Rightarrow> u8" where
  "mod_config c m =
     (if no_gui c then mod_config_swaps c m AND NOT MOD_LGUI AND NOT MOD_RGUI
      else mod_config_swaps c m)"

section \<open>The packed configuration\<close>

lemma bit_keymap_config_raw [simp]:
  "bit (keymap_config_raw c) 0 = swap_control_capslock c"
  "bit (keymap_config_raw c) (Suc 0) = capslock_to_control c"
  "bit (keymap_config_raw c) 2 = swap_lalt_lgui c"
  "bit (keymap_config_raw c) 3 = swap_ralt_rgui c"
  "bit (keymap_config_raw c) 4 = no_gui c"
  "bit (keymap_config_raw c) 5 = swap_grave_esc c"
  "bit (keymap_config_raw c) 6 = swap_backslash_backspace c"
  "bit (keymap_config_raw c) 7 = cfg_nkro c"
  "bit (keymap_config_raw c) 8 = swap_lctl_lgui c"
  "bit (keymap_config_raw c) 9 = swap_rctl_rgui c"
  "bit (keymap_config_raw c) 10 = oneshot_disable c"
  by (simp_all add: keymap_config_raw_def bit_or_iff)

text \<open>
  Writing the configuration to its 16-bit word and reading it back restores every flag.
\<close>

theorem keymap_config_roundtrip: "keymap_config_of_raw (keymap_config_raw c) = c"
  by (simp add: keymap_config_of_raw_def)

section \<open>The remapping of keycodes\<close>

text \<open>The configurations whose swaps do not share a key and that do not drop one.\<close>

definition swaps_only :: "keymap_config_t \<Rightarrow> bool" where
  "swaps_only c \<longleftrightarrow> \<not> no_gui c \<and> \<not> capslock_to_control c \<and>
     \<not> (swap_control_capslock c \<and> swap_lctl_lgui c) \<and>
     \<not> (swap_lalt_lgui c \<and> swap_lctl_lgui c) \<and>
     \<not> (swap_ralt_rgui c \<and> swap_rctl_rgui c)"

text \<open>
  With swaps that do not share a key, the remapping of keycodes is its own inverse: it is an
  exchange of keys, no key is lost and none is produced twice.  The locking caps lock key, which is
  sent to the left control key, is the one exception.
\<close>

theorem keycode_config_involution:
  assumes "swaps_only c" and "keycode \<noteq> KC_LOCKING_CAPS_LOCK"
  shows "keycode_config c (keycode_config c keycode) = keycode"
  using assms by (simp add: keycode_config_def swaps_only_def)

theorem keycode_config_involution_witness:
  "swaps_only (keymap_config_of_raw 0x04C) \<and>
   keycode_config (keymap_config_of_raw 0x04C) KC_RIGHT_GUI = KC_RIGHT_ALT \<and>
   keycode_config (keymap_config_of_raw 0x04C)
     (keycode_config (keymap_config_of_raw 0x04C) KC_RIGHT_GUI) = KC_RIGHT_GUI"
  using keycode_config_involution [of "keymap_config_of_raw 0x04C" KC_RIGHT_GUI]
  by (simp add: keymap_config_of_raw_def swaps_only_def keycode_config_def)

section \<open>The remapping of modifier masks\<close>

text \<open>The five-bit mask of a modifier keycode: one of four bits, and the right-hand flag.\<close>

definition mod5_of_keycode :: "u16 \<Rightarrow> u8" where
  "mod5_of_keycode k = push_bit (unat (k AND 3)) 1 OR (if bit k 2 then 0x10 else 0)"

lemma modifier_keycodes:
  "IS_MOD (k :: u16) \<longleftrightarrow> k \<in> {KC_LEFT_CTRL, KC_LEFT_SHIFT, KC_LEFT_ALT, KC_LEFT_GUI,
     KC_RIGHT_CTRL, KC_RIGHT_SHIFT, KC_RIGHT_ALT, KC_RIGHT_GUI}"
proof
  assume "IS_MOD k"
  then have r: "224 \<le> unat k" "unat k \<le> 231" by (simp_all add: IS_MOD_def word_le_nat_alt)
  then have "unat k \<in> {224, 225, 226, 227, 228, 229, 230, 231}" by auto
  then show "k \<in> {KC_LEFT_CTRL, KC_LEFT_SHIFT, KC_LEFT_ALT, KC_LEFT_GUI,
     KC_RIGHT_CTRL, KC_RIGHT_SHIFT, KC_RIGHT_ALT, KC_RIGHT_GUI}"
    by (auto simp: word_unat_eq_iff)
qed (auto simp: IS_MOD_def)

lemma mod5_of_keycode_values [simp]:
  "mod5_of_keycode KC_LEFT_CTRL = MOD_LCTL" "mod5_of_keycode KC_LEFT_SHIFT = MOD_LSFT"
  "mod5_of_keycode KC_LEFT_ALT = MOD_LALT" "mod5_of_keycode KC_LEFT_GUI = MOD_LGUI"
  "mod5_of_keycode KC_RIGHT_CTRL = MOD_RCTL" "mod5_of_keycode KC_RIGHT_SHIFT = MOD_RSFT"
  "mod5_of_keycode KC_RIGHT_ALT = MOD_RALT" "mod5_of_keycode KC_RIGHT_GUI = MOD_RGUI"
  by (simp_all add: mod5_of_keycode_def)

text \<open>
  With swaps that do not share a key, the mask remapping used for mod-tap and one-shot keys
  agrees with the keycode remapping on each single modifier: a modifier is exchanged in the same way
  whichever kind of key carries it.
\<close>

theorem mod_config_agrees:
  assumes "swaps_only c" and "\<not> swap_control_capslock c" and "IS_MOD keycode"
  shows "mod_config c (mod5_of_keycode keycode) = mod5_of_keycode (keycode_config c keycode)"
  using assms(3) unfolding modifier_keycodes
  by (elim insertE emptyE)
    (use assms(1,2) in \<open>simp_all add: mod_config_def mod_config_swaps_def swap_mods_def keycode_config_def
      swaps_only_def Let_def\<close>)

theorem mod_config_agrees_witness:
  "swaps_only (keymap_config_of_raw 0x204) \<and>
   mod_config (keymap_config_of_raw 0x204) (mod5_of_keycode KC_RIGHT_CTRL) = MOD_RGUI"
  using mod_config_agrees [of "keymap_config_of_raw 0x204" KC_RIGHT_CTRL]
  by (simp add: keymap_config_of_raw_def swaps_only_def keycode_config_def modifier_keycodes)

text \<open>
  What \<^verbatim>\<open>mod_config\<close> does beyond single modifiers.  With \<^verbatim>\<open>no_gui\<close> the mask loses the gui bit, and
  with it the right-hand flag, so every right-hand modifier becomes its left-hand one; and when a
  mask holds both of the exchanged modifiers, one of them is lost instead of both being kept.
\<close>

theorem mod_config_edge_cases:
  "mod_config (c\<lparr>no_gui := True\<rparr>) m AND MOD_RGUI = 0 \<and>
   mod_config (keymap_config_of_raw 0x010) MOD_RCTL = MOD_LCTL \<and>
   keycode_config (keymap_config_of_raw 0x010) KC_RIGHT_CTRL = KC_RIGHT_CTRL \<and>
   mod_config (keymap_config_of_raw 0x004) (MOD_LALT OR MOD_LGUI) = MOD_LALT"
proof -
  have clear: "(x AND NOT MOD_LGUI AND NOT MOD_RGUI) AND MOD_RGUI = 0" for x :: u8
    by (simp add: and.assoc)
  have "mod_config (c\<lparr>no_gui := True\<rparr>) m AND MOD_RGUI = 0"
    using clear by (simp add: mod_config_def)
  then show ?thesis
    by (simp add: mod_config_def mod_config_swaps_def swap_mods_def keymap_config_of_raw_def keycode_config_def)
qed

end
