(* ===== verification/Host.thy ===== *)
theory Host
  imports Report Keycode_Config
begin

text \<open>
  \<^verbatim>\<open>tmk_core/protocol/host.c\<close>: the reports handed to the USB driver.  What leaves the firmware is the
  list \<open>effects\<close>, oldest first: reports sent, weak callbacks called, LEDs set and milliseconds
  waited.  The driver itself is outside the repository's core; the record keeps only whether one is
  set, and the LED byte it last reported.  \<open>clock\<close> is the millisecond timer.
\<close>

datatype effect =
    Keyboard_report report
  | System_report u16
  | Consumer_report u16
  | Programmable_report u32
  | Oneshot_mods_changed u8
  | Oneshot_locked_mods_changed u8
  | Oneshot_layer_changed u8
  | Keymap_config_saved u16
  | Leds_set u8
  | Waited nat
  | Function_called u8 u8
  | Post_processed

record host_st =
  host_driver :: bool
  keyboard_protocol :: u8
  keymap_config :: keymap_config_t
  host_leds :: u8
  last_system_report :: u16
  last_consumer_report :: u16
  last_programmable_button_report :: u32
  clock :: u32
  effects :: "effect list"

definition emit :: "effect \<Rightarrow> 'a host_st_scheme \<Rightarrow> 'a host_st_scheme" where
  "emit e s = s\<lparr>effects := effects s @ [e]\<rparr>"

definition timer_read :: "'a host_st_scheme \<Rightarrow> u16" where
  "timer_read s = ucast (clock s)"

definition wait_ms :: "nat \<Rightarrow> 'a host_st_scheme \<Rightarrow> 'a host_st_scheme" where
  "wait_ms n s = emit (Waited n) (s\<lparr>clock := clock s + of_nat n\<rparr>)"

text \<open>The condition \<^verbatim>\<open>keyboard_protocol && keymap_config.nkro\<close> that selects the bitmap layout.\<close>

definition nkro :: "'a host_st_scheme \<Rightarrow> bool" where
  "nkro s \<longleftrightarrow> keyboard_protocol s \<noteq> 0 \<and> cfg_nkro (keymap_config s)"

definition host_keyboard_leds :: "'a host_st_scheme \<Rightarrow> u8" where
  "host_keyboard_leds s = (if host_driver s then host_leds s else 0)"

text \<open>
  The bitmap report needs its identifier in byte 0, where the callers put the modifiers, so the
  modifiers move to byte 1 first.  The report is changed in place.
\<close>

definition REPORT_ID_NKRO :: u8 where "REPORT_ID_NKRO = 6"

definition host_keyboard_send :: "report \<Rightarrow> 'a host_st_scheme \<Rightarrow> report \<times> 'a host_st_scheme" where
  "host_keyboard_send r s =
     (if \<not> host_driver s then (r, s)
      else let r = (if nkro s then r[1 := report_mods r, 0 := REPORT_ID_NKRO] else r)
           in (r, emit (Keyboard_report r) s))"

definition host_system_send :: "u16 \<Rightarrow> 'a host_st_scheme \<Rightarrow> 'a host_st_scheme" where
  "host_system_send r s =
     (if r = last_system_report s then s
      else let s = s\<lparr>last_system_report := r\<rparr>
           in if host_driver s then emit (System_report r) s else s)"

definition host_consumer_send :: "u16 \<Rightarrow> 'a host_st_scheme \<Rightarrow> 'a host_st_scheme" where
  "host_consumer_send r s =
     (if r = last_consumer_report s then s
      else let s = s\<lparr>last_consumer_report := r\<rparr>
           in if host_driver s then emit (Consumer_report r) s else s)"

definition host_programmable_button_send :: "u32 \<Rightarrow> 'a host_st_scheme \<Rightarrow> 'a host_st_scheme" where
  "host_programmable_button_send r s =
     (if r = last_programmable_button_report s then s
      else let s = s\<lparr>last_programmable_button_report := r\<rparr>
           in if host_driver s then emit (Programmable_report r) s else s)"

section \<open>No report is sent twice\<close>

fun consumer_reports :: "effect list \<Rightarrow> u16 list" where
  "consumer_reports [] = []"
| "consumer_reports (Consumer_report r # es) = r # consumer_reports es"
| "consumer_reports (_ # es) = consumer_reports es"

lemma consumer_reports_append [simp]:
  "consumer_reports (es @ fs) = consumer_reports es @ consumer_reports fs"
  by (induction es rule: consumer_reports.induct) simp_all

text \<open>
  The reference: of a sequence of requests, those that differ from the one before, the first being
  compared with \<open>last\<close>.
\<close>

fun changes :: "'a \<Rightarrow> 'a list \<Rightarrow> 'a list" where
  "changes l [] = []"
| "changes l (r # rs) = (if r = l then changes l rs else r # changes r rs)"

lemma consumer_sends:
  "host_driver s \<Longrightarrow>
   consumer_reports (effects (foldl (\<lambda>s r. host_consumer_send r s) s rs)) =
     consumer_reports (effects s) @ changes (last_consumer_report s) rs"
  by (induction rs arbitrary: s) (simp_all add: host_consumer_send_def Let_def emit_def)

text \<open>
  Over any sequence of media-key requests, the driver gets exactly the requests that differ from
  the one before, in order: no report is repeated and no change is lost.
\<close>

theorem consumer_reports_are_changes:
  "consumer_reports (effects (foldl (\<lambda>s r. host_consumer_send r s)
     (s\<lparr>host_driver := True, last_consumer_report := 0, effects := []\<rparr>) rs)) = changes 0 rs"
  by (simp add: consumer_sends)

section \<open>Frame\<close>

lemma emit_simps [simp]:
  "effects (emit e s) = effects s @ [e]" "host_driver (emit e s) = host_driver s"
  "keymap_config (emit e s) = keymap_config s" "clock (emit e s) = clock s"
  "nkro (emit e s) = nkro s" "timer_read (emit e s) = timer_read s"
  "keyboard_protocol (emit e s) = keyboard_protocol s"
  "last_system_report (emit e s) = last_system_report s"
  "last_consumer_report (emit e s) = last_consumer_report s"
  "host_leds (emit e s) = host_leds s" "host_st.more (emit e s) = host_st.more s"
  by (simp_all add: emit_def nkro_def timer_read_def)

end
