(* ===== verification/Firmware_Config.thy ===== *)
theory Firmware_Config
  imports Host
begin

text \<open>
  The key events of \<^verbatim>\<open>quantum/keyboard.h\<close>, the records of \<^verbatim>\<open>quantum/action.h\<close>, and the configuration
  of a build: the macros that select code, the weak functions a keyboard or a keymap overrides, and
  the constant tables it provides.  The configuration is an explicit argument of every function whose
  C text depends on it.  A feature macro that is not defined is \<open>0\<close> or \<open>False\<close>.
\<close>

section \<open>Key events\<close>

record keypos_t =
  col :: u8
  row :: u8

record keyevent_t =
  key :: keypos_t
  pressed :: bool
  time :: u16

definition KEYEQ :: "keypos_t \<Rightarrow> keypos_t \<Rightarrow> bool" where
  "KEYEQ a b \<longleftrightarrow> row a = row b \<and> col a = col b"

definition IS_NOEVENT :: "keyevent_t \<Rightarrow> bool" where
  "IS_NOEVENT e \<longleftrightarrow> time e = 0 \<or> row (key e) = 255 \<and> col (key e) = 255"

definition IS_PRESSED :: "keyevent_t \<Rightarrow> bool" where
  "IS_PRESSED e \<longleftrightarrow> \<not> IS_NOEVENT e \<and> pressed e"

definition IS_RELEASED :: "keyevent_t \<Rightarrow> bool" where
  "IS_RELEASED e \<longleftrightarrow> \<not> IS_NOEVENT e \<and> \<not> pressed e"

definition TICK :: "'a host_st_scheme \<Rightarrow> keyevent_t" where
  "TICK s = \<lparr>key = \<lparr>col = 255, row = 255\<rparr>, pressed = False, time = timer_read s OR 1\<rparr>"

lemma KEYEQ_iff [simp]: "KEYEQ a b \<longleftrightarrow> a = b"
  by (cases a; cases b) (auto simp: KEYEQ_def)

lemma TICK_noevent [simp]: "IS_NOEVENT (TICK s)"
  by (simp add: IS_NOEVENT_def TICK_def)

text \<open>
  The tap count is a four-bit field.  \<open>rec_keycode\<close> is the field of \<^verbatim>\<open>COMBO_ENABLE\<close> builds; it is
  0 in the records of a build without it.
\<close>

record keyrecord_t =
  event :: keyevent_t
  tap_interrupted :: bool
  tap_count :: "4 word"
  rec_keycode :: u16

definition empty_event :: keyevent_t where
  "empty_event = \<lparr>key = \<lparr>col = 0, row = 0\<rparr>, pressed = False, time = 0\<rparr>"

definition empty_record :: keyrecord_t where
  "empty_record = \<lparr>event = empty_event, tap_interrupted = False, tap_count = 0, rec_keycode = 0\<rparr>"

lemma empty_event_noevent [simp]: "IS_NOEVENT empty_event"
  by (simp add: IS_NOEVENT_def empty_event_def)

section \<open>The build\<close>

record 's config =
  ONESHOT_TIMEOUT :: nat
  ONESHOT_TAP_TOGGLE :: nat
  TAPPING_TERM :: nat
  TAPPING_TOGGLE :: nat
  TAP_CODE_DELAY :: u16
  TAP_HOLD_CAPS_DELAY :: u16
  PERMISSIVE_HOLD :: bool
  HOLD_ON_OTHER_KEY_PRESS :: bool
  TAPPING_FORCE_HOLD :: bool
  IGNORE_MOD_TAP_INTERRUPT :: bool
  RETRO_TAPPING :: bool
  SWAP_HANDS_ENABLE :: bool
  STRICT_LAYER_RELEASE :: bool
  LOCKING_SUPPORT_ENABLE :: bool
  LOCKING_RESYNC_ENABLE :: bool
  MATRIX_COLS :: nat
  MATRIX_ROWS :: nat
  keymap_key_to_keycode :: "u8 \<Rightarrow> keypos_t \<Rightarrow> u16"
  keymap_function_id_to_action :: "u16 \<Rightarrow> u16"
  hand_swap_config :: "keypos_t \<Rightarrow> keypos_t"
  layer_state_set_kb :: "u32 \<Rightarrow> u32"
  default_layer_state_set_kb :: "u32 \<Rightarrow> u32"
  action_get_macro :: "keyrecord_t \<Rightarrow> u8 \<Rightarrow> u8 \<Rightarrow> u8 list"
  action_function :: "keyrecord_t \<Rightarrow> u8 \<Rightarrow> u8 \<Rightarrow> 's \<Rightarrow> 's"
  pre_process_record_quantum :: "keyrecord_t \<Rightarrow> 's \<Rightarrow> bool \<times> 's"
  process_record_quantum :: "keyrecord_t \<Rightarrow> 's \<Rightarrow> bool \<times> 's"
  post_process_record_quantum :: "keyrecord_t \<Rightarrow> 's \<Rightarrow> 's"

text \<open>
  A build with the defaults of the sources and of the weak functions: no optional feature, one layer
  of a keymap given as a function.
\<close>

definition default_config :: "(u8 \<Rightarrow> keypos_t \<Rightarrow> u16) \<Rightarrow> 's config" where
  "default_config km =
     \<lparr>ONESHOT_TIMEOUT = 0, ONESHOT_TAP_TOGGLE = 0, TAPPING_TERM = 200, TAPPING_TOGGLE = 5,
      TAP_CODE_DELAY = 0, TAP_HOLD_CAPS_DELAY = 80, PERMISSIVE_HOLD = False,
      HOLD_ON_OTHER_KEY_PRESS = False, TAPPING_FORCE_HOLD = False,
      IGNORE_MOD_TAP_INTERRUPT = False, RETRO_TAPPING = False, SWAP_HANDS_ENABLE = False,
      STRICT_LAYER_RELEASE = False, LOCKING_SUPPORT_ENABLE = False,
      LOCKING_RESYNC_ENABLE = False, MATRIX_COLS = 16, MATRIX_ROWS = 16,
      keymap_key_to_keycode = km, keymap_function_id_to_action = (\<lambda>_. 0),
      hand_swap_config = (\<lambda>p. p), layer_state_set_kb = (\<lambda>s. s),
      default_layer_state_set_kb = (\<lambda>s. s), action_get_macro = (\<lambda>_ _ _. []),
      action_function = (\<lambda>_ _ _ s. s), pre_process_record_quantum = (\<lambda>_ s. (True, s)),
      process_record_quantum = (\<lambda>_ s. (True, s)), post_process_record_quantum = (\<lambda>_ s. s)\<rparr>"

lemma default_config_simps [simp]:
  "ONESHOT_TIMEOUT (default_config km) = 0" "ONESHOT_TAP_TOGGLE (default_config km) = 0"
  "TAPPING_TERM (default_config km) = 200" "TAPPING_TOGGLE (default_config km) = 5"
  "TAP_CODE_DELAY (default_config km) = 0" "TAP_HOLD_CAPS_DELAY (default_config km) = 80"
  "PERMISSIVE_HOLD (default_config km) = False"
  "HOLD_ON_OTHER_KEY_PRESS (default_config km) = False"
  "TAPPING_FORCE_HOLD (default_config km) = False"
  "IGNORE_MOD_TAP_INTERRUPT (default_config km) = False"
  "RETRO_TAPPING (default_config km) = False" "SWAP_HANDS_ENABLE (default_config km) = False"
  "STRICT_LAYER_RELEASE (default_config km) = False"
  "LOCKING_SUPPORT_ENABLE (default_config km) = False"
  "LOCKING_RESYNC_ENABLE (default_config km) = False"
  "MATRIX_COLS (default_config km) = 16" "MATRIX_ROWS (default_config km) = 16"
  "keymap_key_to_keycode (default_config km) = km"
  "keymap_function_id_to_action (default_config km) = (\<lambda>_. 0)"
  "hand_swap_config (default_config km) = (\<lambda>p. p)"
  "layer_state_set_kb (default_config km) = (\<lambda>s. s)"
  "default_layer_state_set_kb (default_config km) = (\<lambda>s. s)"
  "action_get_macro (default_config km) = (\<lambda>_ _ _. [])"
  "action_function (default_config km) = (\<lambda>_ _ _ s. s)"
  "pre_process_record_quantum (default_config km) = (\<lambda>_ s. (True, s))"
  "process_record_quantum (default_config km) = (\<lambda>_ s. (True, s))"
  "post_process_record_quantum (default_config km) = (\<lambda>_ s. s)"
  by (simp_all add: default_config_def)

end
