(* ===== verification/Keyboard.thy ===== *)
theory Keyboard
  imports Matrix Firmware_Config
begin

text \<open>
  \<^verbatim>\<open>quantum/keyboard.c\<close>: the task that the main loop runs again and again.  It scans the matrix, turns the
  differences to the matrix it saw last into key events, and lets the other tasks run.  What the task
  calls (the scan, \<^verbatim>\<open>action_exec\<close>, the hooks, the optional features, the host's LEDs) is the
  record \<open>board\<close> of functions on a state \<open>'s\<close>; \<open>plain_board\<close> is a board without optional features.
\<close>

section \<open>The task\<close>

record 's board =
  board_rows :: nat
  board_cols :: nat
  QMK_KEYS_PER_SCAN :: "nat option"
  ghost_keymap :: "(nat \<Rightarrow> nat \<Rightarrow> u16) option"
  scan_matrix :: "'s \<Rightarrow> bool \<times> 's"
  read_row :: "'s \<Rightarrow> nat \<Rightarrow> u32"
  should_process_keypress :: "'s \<Rightarrow> bool"
  exec_event :: "keyevent_t \<Rightarrow> 's \<Rightarrow> 's"
  switch_events :: "nat \<Rightarrow> nat \<Rightarrow> bool \<Rightarrow> 's \<Rightarrow> 's"
  light_tasks :: "'s \<Rightarrow> 's"
  encoder_task :: "('s \<Rightarrow> bool \<times> 's) option"
  device_tasks :: "bool \<Rightarrow> bool \<Rightarrow> 's \<Rightarrow> 's"
  board_leds :: "'s \<Rightarrow> u8"
  led_set :: "u8 \<Rightarrow> 's \<Rightarrow> 's"
  board_clock :: "'s \<Rightarrow> u32"

record 's keyboard_st =
  matrix_prev :: matrix
  led_status :: u8
  last_input_modification_time :: u32
  last_matrix_modification_time :: u32
  last_encoder_modification_time :: u32
  world :: 's

definition last_matrix_activity_trigger :: "'s board \<Rightarrow> 's keyboard_st \<Rightarrow> 's keyboard_st" where
  "last_matrix_activity_trigger b st =
     st\<lparr>last_matrix_modification_time := board_clock b (world st), last_input_modification_time := board_clock b (world st)\<rparr>"

definition last_encoder_activity_trigger :: "'s board \<Rightarrow> 's keyboard_st \<Rightarrow> 's keyboard_st" where
  "last_encoder_activity_trigger b st =
     st\<lparr>last_encoder_modification_time := board_clock b (world st), last_input_modification_time := board_clock b (world st)\<rparr>"

definition last_input_activity_elapsed :: "'s board \<Rightarrow> 's keyboard_st \<Rightarrow> u32" where
  "last_input_activity_elapsed b st = TIMER_DIFF_32 (board_clock b (world st)) (last_input_modification_time st)"

definition last_matrix_activity_elapsed :: "'s board \<Rightarrow> 's keyboard_st \<Rightarrow> u32" where
  "last_matrix_activity_elapsed b st = TIMER_DIFF_32 (board_clock b (world st)) (last_matrix_modification_time st)"

definition last_encoder_activity_elapsed :: "'s board \<Rightarrow> 's keyboard_st \<Rightarrow> u32" where
  "last_encoder_activity_elapsed b st = TIMER_DIFF_32 (board_clock b (world st)) (last_encoder_modification_time st)"

subsection \<open>Ghosts\<close>

text \<open>\<^verbatim>\<open>pgm_read_byte\<close> reads the low byte of the keycode.\<close>

definition get_real_keys :: "nat \<Rightarrow> (nat \<Rightarrow> nat \<Rightarrow> u16) \<Rightarrow> nat \<Rightarrow> u32 \<Rightarrow> u32" where
  "get_real_keys cols keymap r rowdata =
     foldl (\<lambda>out c. if (ucast (keymap r c) :: u8) \<noteq> 0 \<and> rowdata AND bitmask c \<noteq> 0 then out OR bitmask c else out)
       0 [0..<cols]"

definition popcount_more_than_one :: "u32 \<Rightarrow> bool" where
  "popcount_more_than_one rowdata \<longleftrightarrow> rowdata AND (rowdata - 1) \<noteq> 0"

definition has_ghost_in_row :: "'s board \<Rightarrow> 's \<Rightarrow> nat \<Rightarrow> u32 \<Rightarrow> bool" where
  "has_ghost_in_row b w r rowdata =
     (case ghost_keymap b of
        None \<Rightarrow> False
      | Some keymap \<Rightarrow>
          (let rowdata = get_real_keys (board_cols b) keymap r rowdata
           in popcount_more_than_one rowdata \<and>
              list_ex (\<lambda>i. i \<noteq> r \<and> popcount_more_than_one
                  (get_real_keys (board_cols b) keymap i (read_row b w i) AND rowdata)) [0..<board_rows b]))"

subsection \<open>The loop over the matrix\<close>

text \<open>
  The loops carry the count \<^verbatim>\<open>keys_processed\<close>, which is a byte, and whether \<^verbatim>\<open>goto MATRIX_LOOP_END\<close> has been
  taken.
\<close>

definition key_step ::
    "'s board \<Rightarrow> nat \<Rightarrow> u32 \<Rightarrow> u32 \<Rightarrow> u8 \<times> bool \<times> 's keyboard_st \<Rightarrow> nat \<Rightarrow> u8 \<times> bool \<times> 's keyboard_st" where
  "key_step b r matrix_row matrix_change kds c =
     (let (keys_processed, stop, st) = kds
      in if stop \<or> matrix_change AND bitmask c = 0 then kds
         else let p = (matrix_row AND bitmask c \<noteq> 0); w = world st;
                  w = (if should_process_keypress b w
                       then exec_event b \<lparr>key = \<lparr>col = of_nat c, row = of_nat r\<rparr>, pressed = p,
                                          time = ucast (board_clock b w) OR 1\<rparr> w
                       else w);
                  st = st\<lparr>matrix_prev := (matrix_prev st)[r := matrix_prev st ! r XOR bitmask c]\<rparr>;
                  st = st\<lparr>world := switch_events b r c p w\<rparr>;
                  keys_processed = keys_processed + 1
              in (keys_processed,
                  case QMK_KEYS_PER_SCAN b of None \<Rightarrow> True | Some n \<Rightarrow> n \<le> unat keys_processed, st))"

definition row_step :: "'s board \<Rightarrow> u8 \<times> bool \<times> 's keyboard_st \<Rightarrow> nat \<Rightarrow> u8 \<times> bool \<times> 's keyboard_st" where
  "row_step b kds r =
     (let (keys_processed, stop, st) = kds;
          matrix_row = read_row b (world st) r; matrix_change = matrix_row XOR matrix_prev st ! r
      in if stop \<or> matrix_change = 0 \<or> has_ghost_in_row b (world st) r matrix_row then kds
         else foldl (key_step b r matrix_row matrix_change) kds [0..<board_cols b])"

definition tick_event :: "u32 \<Rightarrow> keyevent_t" where
  "tick_event t = \<lparr>key = \<lparr>col = 255, row = 255\<rparr>, pressed = False, time = ucast t OR 1\<rparr>"

definition matrix_loop :: "'s board \<Rightarrow> 's keyboard_st \<Rightarrow> 's keyboard_st" where
  "matrix_loop b st =
     (let (keys_processed, stop, st) = foldl (row_step b) (0, False, st) [0..<board_rows b]
      in if \<not> stop \<and> (QMK_KEYS_PER_SCAN b = None \<or> keys_processed = 0)
         then st\<lparr>world := exec_event b (tick_event (board_clock b (world st))) (world st)\<rparr> else st)"

definition update_leds :: "'s board \<Rightarrow> 's keyboard_st \<Rightarrow> 's keyboard_st" where
  "update_leds b st =
     (if led_status st \<noteq> board_leds b (world st)
      then st\<lparr>led_status := board_leds b (world st), world := led_set b (board_leds b (world st)) (world st)\<rparr>
      else st)"

definition keyboard_task :: "'s board \<Rightarrow> 's keyboard_st \<Rightarrow> 's keyboard_st" where
  "keyboard_task b st =
     (let (matrix_changed, w) = scan_matrix b (world st);
          st = st\<lparr>world := w\<rparr>;
          st = (if matrix_changed then last_matrix_activity_trigger b st else st);
          st = matrix_loop b st;
          st = st\<lparr>world := light_tasks b (world st)\<rparr>;
          (encoders_changed, st) =
            (case encoder_task b of
               None \<Rightarrow> (False, st)
             | Some enc \<Rightarrow> (let (ch, w) = enc (world st); st = st\<lparr>world := w\<rparr>
                            in (ch, if ch then last_encoder_activity_trigger b st else st)));
          st = st\<lparr>world := device_tasks b matrix_changed encoders_changed (world st)\<rparr>
      in update_leds b st)"

section \<open>Press and release in turn\<close>

text \<open>The reference: which keys are down after a sequence of events, if no key is pressed or released twice.\<close>

fun switch_run :: "keypos_t set \<Rightarrow> keyevent_t list \<Rightarrow> keypos_t set option" where
  "switch_run H [] = Some H"
| "switch_run H (e # es) =
     (if pressed e = (key e \<in> H) then None
      else switch_run (if pressed e then insert (key e) H else H - {key e}) es)"

lemma switch_run_append:
  "switch_run H (es @ fs) = (case switch_run H es of None \<Rightarrow> None | Some H' \<Rightarrow> switch_run H' fs)"
  by (induction H es rule: switch_run.induct) auto

definition key_at :: "nat \<Rightarrow> nat \<Rightarrow> keypos_t" where "key_at r c = \<lparr>col = of_nat c, row = of_nat r\<rparr>"

definition keys_of :: "nat \<Rightarrow> nat \<Rightarrow> matrix \<Rightarrow> keypos_t set" where
  "keys_of rows cols m = (\<lambda>(r, c). key_at r c) ` {(r, c). r < rows \<and> c < cols \<and> bit (m ! r) c}"

definition pending :: "nat \<Rightarrow> nat \<Rightarrow> matrix \<Rightarrow> matrix \<Rightarrow> (nat \<times> nat) set" where
  "pending rows cols m prev = {(r, c). r < rows \<and> c < cols \<and> bit (m ! r) c \<noteq> bit (prev ! r) c}"

text \<open>A keyboard without optional features and without ghost detection, which reads the matrix \<open>m\<close>.\<close>

definition plain_board ::
    "nat \<Rightarrow> nat \<Rightarrow> nat option \<Rightarrow> (keyevent_t \<Rightarrow> 's \<Rightarrow> 's) \<Rightarrow> ('s \<Rightarrow> u32) \<Rightarrow> bool \<times> matrix \<Rightarrow> 's board" where
  "plain_board rows cols kps exec t cm =
     \<lparr>board_rows = rows, board_cols = cols, QMK_KEYS_PER_SCAN = kps, ghost_keymap = None,
      scan_matrix = \<lambda>w. (fst cm, w), read_row = \<lambda>w r. snd cm ! r, should_process_keypress = \<lambda>w. True,
      exec_event = exec, switch_events = \<lambda>r c p w. w, light_tasks = \<lambda>w. w, encoder_task = None,
      device_tasks = \<lambda>mc ec w. w, board_leds = \<lambda>w. 0, led_set = \<lambda>l w. w, board_clock = t\<rparr>"

lemma plain_board_simps [simp]:
  "board_rows (plain_board rows cols kps exec t cm) = rows"
  "board_cols (plain_board rows cols kps exec t cm) = cols"
  "QMK_KEYS_PER_SCAN (plain_board rows cols kps exec t cm) = kps"
  "scan_matrix (plain_board rows cols kps exec t cm) w = (fst cm, w)"
  "read_row (plain_board rows cols kps exec t cm) w r = snd cm ! r"
  "should_process_keypress (plain_board rows cols kps exec t cm) w"
  "exec_event (plain_board rows cols kps exec t cm) = exec"
  "switch_events (plain_board rows cols kps exec t cm) r c p w = w"
  "light_tasks (plain_board rows cols kps exec t cm) w = w"
  "encoder_task (plain_board rows cols kps exec t cm) = None"
  "device_tasks (plain_board rows cols kps exec t cm) mc ec w = w"
  "led_set (plain_board rows cols kps exec t cm) l w = w"
  "board_clock (plain_board rows cols kps exec t cm) = t"
  "\<not> has_ghost_in_row (plain_board rows cols kps exec t cm) w r d"
  by (simp_all add: plain_board_def has_ghost_in_row_def)

lemma key_at_inject:
  "r < 256 \<Longrightarrow> c < 256 \<Longrightarrow> r' < 256 \<Longrightarrow> c' < 256 \<Longrightarrow> key_at r c = key_at r' c' \<longleftrightarrow> r = r' \<and> c = c'"
  by (auto simp: key_at_def word_of_nat_eq_iff take_bit_eq_mod)

lemma key_at_inj: "rows \<le> 255 \<Longrightarrow> cols \<le> 32 \<Longrightarrow> inj_on (\<lambda>(r, c). key_at r c) ({..<rows} \<times> {..<cols})"
  by (auto simp: inj_on_def key_at_inject)

lemma key_at_in_keys:
  "rows \<le> 255 \<Longrightarrow> cols \<le> 32 \<Longrightarrow> r < rows \<Longrightarrow> c < cols \<Longrightarrow> key_at r c \<in> keys_of rows cols m \<longleftrightarrow> bit (m ! r) c"
  by (auto simp: keys_of_def key_at_inject)

lemma keys_of_flip:
  assumes "rows \<le> 255" "cols \<le> 32" "r < rows" "c < cols" "length m = rows"
  shows "keys_of rows cols (m[r := m ! r XOR bitmask c]) =
    (if bit (m ! r) c then keys_of rows cols m - {key_at r c} else insert (key_at r c) (keys_of rows cols m))"
proof -
  define on where "on m = {(r, c). r < rows \<and> c < cols \<and> bit ((m :: matrix) ! r) c}" for m
  have sub: "on m \<subseteq> {..<rows} \<times> {..<cols}" "{(r, c)} \<subseteq> {..<rows} \<times> {..<cols}"
    using assms(3,4) by (auto simp: on_def)
  have "on (m[r := m ! r XOR bitmask c]) = (if bit (m ! r) c then on m - {(r, c)} else insert (r, c) (on m))"
    using assms by (auto simp: on_def nth_list_update bit_xor_bitmask split: if_splits)
  moreover have "(\<lambda>(r, c). key_at r c) ` (on m - {(r, c)}) = (\<lambda>(r, c). key_at r c) ` on m - {key_at r c}"
    using inj_on_image_set_diff [OF key_at_inj [OF assms(1,2)], of "on m" "{(r, c)}"] sub by auto
  ultimately show ?thesis by (simp add: keys_of_def on_def [symmetric])
qed

lemma pending_flip:
  assumes "r < rows" "c < cols" "cols \<le> 32" "length prev = rows" "bit (m ! r) c \<noteq> bit (prev ! r) c"
  shows "pending rows cols m (prev[r := prev ! r XOR bitmask c]) = pending rows cols m prev - {(r, c)}"
  using assms by (auto simp: pending_def nth_list_update bit_xor_bitmask split: if_splits)

text \<open>What the loop has done so far: the events it has executed, and the differences that are left.\<close>

definition loop_inv ::
    "nat \<Rightarrow> nat \<Rightarrow> (keyevent_t \<Rightarrow> 's \<Rightarrow> 's) \<Rightarrow> matrix \<Rightarrow> 's keyboard_st \<Rightarrow> u8 \<times> bool \<times> 's keyboard_st \<Rightarrow> bool" where
  "loop_inv rows cols exec m st0 kds \<longleftrightarrow>
     (let (k, stop, st) = kds
      in length (matrix_prev st) = rows \<and>
         (\<exists>es. world st = fold exec es (world st0) \<and>
               list_all (\<lambda>e. key e \<in> keys_of rows cols (replicate rows (- 1)) \<and> time e \<noteq> 0) es \<and>
               switch_run (keys_of rows cols (matrix_prev st0)) es = Some (keys_of rows cols (matrix_prev st))) \<and>
         pending rows cols m (matrix_prev st) \<subseteq> pending rows cols m (matrix_prev st0) \<and>
         (stop \<longrightarrow> pending rows cols m (matrix_prev st) \<noteq> pending rows cols m (matrix_prev st0)))"

definition rows_done :: "nat \<Rightarrow> nat \<Rightarrow> matrix \<Rightarrow> nat \<Rightarrow> nat \<Rightarrow> u8 \<times> bool \<times> 's keyboard_st \<Rightarrow> bool" where
  "rows_done rows cols m r c kds \<longleftrightarrow>
     (let (k, stop, st) = kds
      in stop \<or> (\<forall>(r', c') \<in> pending rows cols m (matrix_prev st). r < r' \<or> r = r' \<and> c \<le> c'))"

lemma time_or_1 [simp]: "ucast (t :: u32) OR 1 \<noteq> (0 :: u16)"
proof
  assume "ucast t OR 1 = (0 :: u16)"
  then have "\<not> bit (ucast t OR 1 :: u16) 0" by simp
  then show False by (simp add: bit_or_iff)
qed

lemma rows_done_next:
  assumes "rows_done rows cols m r c (k, stop, st)" "stop \<or> (r, c) \<notin> pending rows cols m (matrix_prev st)"
  shows "rows_done rows cols m r (Suc c) (k, stop, st)"
proof (cases stop)
  case False
  have "r < r' \<or> r = r' \<and> Suc c \<le> c'" if "(r', c') \<in> pending rows cols m (matrix_prev st)" for r' c'
  proof -
    have "r < r' \<or> r = r' \<and> c \<le> c'" using assms(1) False that by (auto simp: rows_done_def)
    moreover have "\<not> (r = r' \<and> c = c')" using assms(2) False that by blast
    ultimately show ?thesis by linarith
  qed
  then show ?thesis by (auto simp: rows_done_def)
qed (simp add: rows_done_def)

lemma key_step_inv:
  assumes b: "b = plain_board rows cols kps exec t (ch, m)" and dims: "rows \<le> 255" "cols \<le> 32" "r < rows" "c < cols"
    and inv: "loop_inv rows cols exec m st0 (k, stop, st)" "rows_done rows cols m r c (k, stop, st)"
    and change: "\<not> stop \<Longrightarrow> bit change c \<longleftrightarrow> bit (m ! r) c \<noteq> bit (matrix_prev st ! r) c"
    and step: "key_step b r (m ! r) change (k, stop, st) c = (k', stop', st')"
  shows "loop_inv rows cols exec m st0 (k', stop', st') \<and> rows_done rows cols m r (Suc c) (k', stop', st') \<and>
    (\<forall>c' < cols. c < c' \<longrightarrow> bit (matrix_prev st' ! r) c' = bit (matrix_prev st ! r) c')"
proof (cases "stop \<or> \<not> bit change c")
  case True
  then have "(k', stop', st') = (k, stop, st)" using step by (auto simp: key_step_def and_bitmask_eq_0)
  moreover have "stop \<or> (r, c) \<notin> pending rows cols m (matrix_prev st)" using True change by (auto simp: pending_def)
  ultimately show ?thesis using inv rows_done_next [OF inv(2)] by simp
next
  case False
  define e where "e = \<lparr>key = key_at r c, pressed = bit (m ! r) c, time = ucast (t (world st)) OR 1\<rparr>"
  define prev where "prev = matrix_prev st"
  have len: "length prev = rows" using inv(1) by (simp add: loop_inv_def prev_def)
  have diff: "bit (m ! r) c \<noteq> bit (prev ! r) c" using False change by (simp add: prev_def)
  have st': "matrix_prev st' = prev[r := prev ! r XOR bitmask c]" "world st' = exec e (world st)"
    using False step by (auto simp: b key_step_def and_bitmask_eq_0 e_def key_at_def prev_def Let_def)
  obtain es where es: "world st = fold exec es (world st0)"
    "list_all (\<lambda>e. key e \<in> keys_of rows cols (replicate rows (- 1)) \<and> time e \<noteq> 0) es"
    "switch_run (keys_of rows cols (matrix_prev st0)) es = Some (keys_of rows cols prev)"
    using inv(1) by (auto simp: loop_inv_def prev_def)
  have key: "key_at r c \<in> keys_of rows cols prev \<longleftrightarrow> bit (prev ! r) c"
    "key_at r c \<in> keys_of rows cols (replicate rows (- 1))"
    using dims by (simp_all add: key_at_in_keys)
  have "switch_run (keys_of rows cols (matrix_prev st0)) (es @ [e]) = Some (keys_of rows cols (matrix_prev st'))"
    using diff key(1) by (auto simp: switch_run_append es(3) e_def st' keys_of_flip [OF dims len])
  moreover have "world st' = fold exec (es @ [e]) (world st0)" by (simp add: st' es(1))
  moreover have "list_all (\<lambda>e. key e \<in> keys_of rows cols (replicate rows (- 1)) \<and> time e \<noteq> 0) (es @ [e])"
    using es(2) key(2) by (simp add: e_def)
  ultimately have ex: "\<exists>es. world st' = fold exec es (world st0) \<and>
      list_all (\<lambda>e. key e \<in> keys_of rows cols (replicate rows (- 1)) \<and> time e \<noteq> 0) es \<and>
      switch_run (keys_of rows cols (matrix_prev st0)) es = Some (keys_of rows cols (matrix_prev st'))" by blast
  have p: "pending rows cols m (matrix_prev st') = pending rows cols m prev - {(r, c)}"
    unfolding st' by (rule pending_flip [OF dims(3,4,2) len diff])
  have "(r, c) \<in> pending rows cols m prev" using dims diff by (simp add: pending_def)
  moreover have "pending rows cols m prev \<subseteq> pending rows cols m (matrix_prev st0)"
    using inv(1) by (simp add: loop_inv_def prev_def)
  moreover have "length (matrix_prev st') = rows" by (simp add: st' len)
  ultimately have "loop_inv rows cols exec m st0 (k', stop', st')"
    using ex unfolding loop_inv_def prod.case Let_def p by blast
  moreover have "rows_done rows cols m r (Suc c) (k', stop', st')"
    using inv(2) False by (intro rows_done_next) (auto simp: rows_done_def p prev_def)
  moreover have "\<forall>c' < cols. c < c' \<longrightarrow> bit (matrix_prev st' ! r) c' = bit (matrix_prev st ! r) c'"
    using len dims by (auto simp: st' prev_def bit_xor_bitmask)
  ultimately show ?thesis by blast
qed

lemma key_loop_inv:
  assumes b: "b = plain_board rows cols kps exec t (ch, m)" and dims: "rows \<le> 255" "cols \<le> 32" "r < rows"
    and inv: "loop_inv rows cols exec m st0 (k, False, st)" "rows_done rows cols m r 0 (k, False, st)"
  shows "j \<le> cols \<Longrightarrow>
    foldl (key_step b r (m ! r) (m ! r XOR matrix_prev st ! r)) (k, False, st) [0..<j] = (k', stop', st') \<Longrightarrow>
    loop_inv rows cols exec m st0 (k', stop', st') \<and> rows_done rows cols m r j (k', stop', st') \<and>
    (\<forall>c' < cols. j \<le> c' \<longrightarrow> bit (matrix_prev st' ! r) c' = bit (matrix_prev st ! r) c')"
proof (induction j arbitrary: k' stop' st')
  case (Suc j)
  obtain k1 stop1 st1 where 1:
    "foldl (key_step b r (m ! r) (m ! r XOR matrix_prev st ! r)) (k, False, st) [0..<j] = (k1, stop1, st1)"
    using prod_cases3 by blast
  note IH = Suc.IH [OF _ 1]
  have "key_step b r (m ! r) (m ! r XOR matrix_prev st ! r) (k1, stop1, st1) j = (k', stop', st')"
    using Suc.prems 1 by simp
  from key_step_inv [OF b dims _ _ _ _ this, of st0] IH Suc.prems(1)
  show ?case by (simp add: bit_xor_iff)
qed (use inv in auto)

lemma row_step_inv:
  assumes b: "b = plain_board rows cols kps exec t (ch, m)" and dims: "rows \<le> 255" "cols \<le> 32" "r < rows"
    and inv: "loop_inv rows cols exec m st0 (k, stop, st)" "rows_done rows cols m r 0 (k, stop, st)"
    and step: "row_step b (k, stop, st) r = (k', stop', st')"
  shows "loop_inv rows cols exec m st0 (k', stop', st') \<and> rows_done rows cols m (Suc r) 0 (k', stop', st')"
proof -
  have next_row: "rows_done rows cols m (Suc r) 0 (k', stop', st')"
    if "stop' \<or> (\<forall>(r', c') \<in> pending rows cols m (matrix_prev st'). r < r' \<or> r = r' \<and> cols \<le> c')"
    using that by (auto simp: rows_done_def pending_def)
  show ?thesis
  proof (cases "stop \<or> m ! r XOR matrix_prev st ! r = 0")
    case True
    then have "k' = k" "stop' = stop" "st' = st" using step by (auto simp: row_step_def b)
    moreover have "(r, c) \<notin> pending rows cols m (matrix_prev st)" if "\<not> stop" for c
    proof -
      have "bit (m ! r XOR matrix_prev st ! r) c = bit (0 :: u32) c" using True that by simp
      then show ?thesis by (auto simp: pending_def bit_xor_iff)
    qed
    then have "stop \<or> (\<forall>(r', c') \<in> pending rows cols m (matrix_prev st). r < r' \<or> r = r' \<and> cols \<le> c')"
      using inv(2) by (auto simp: rows_done_def)
    ultimately show ?thesis using inv next_row by blast
  next
    case False
    then have "foldl (key_step b r (m ! r) (m ! r XOR matrix_prev st ! r)) (k, False, st) [0..<cols] = (k', stop', st')"
      using step by (simp add: row_step_def b Let_def)
    from key_loop_inv [OF b dims _ _ order_refl this, of st0] inv False
    have "loop_inv rows cols exec m st0 (k', stop', st')" "rows_done rows cols m r cols (k', stop', st')" by auto
    then show ?thesis using next_row by (simp add: rows_done_def)
  qed
qed

lemma rows_loop_inv:
  assumes b: "b = plain_board rows cols kps exec t (ch, m)" and dims: "rows \<le> 255" "cols \<le> 32"
    and len: "length (matrix_prev st) = rows"
  shows "j \<le> rows \<Longrightarrow> foldl (row_step b) (0, False, st) [0..<j] = (k', stop', st') \<Longrightarrow>
    loop_inv rows cols exec m st (k', stop', st') \<and> rows_done rows cols m j 0 (k', stop', st')"
proof (induction j arbitrary: k' stop' st')
  case 0
  then show ?case using len by (auto simp: loop_inv_def rows_done_def intro: exI [of _ "[]"])
next
  case (Suc j)
  obtain k1 stop1 st1 where 1: "foldl (row_step b) (0, False, st) [0..<j] = (k1, stop1, st1)"
    using prod_cases3 by blast
  from row_step_inv [OF b dims _ _ _ , of j st k1 stop1 st1] Suc.IH [OF _ 1] Suc.prems 1
  show ?case by simp
qed

lemma plain_task:
  assumes "b = plain_board rows cols kps exec t (ch, m)"
  shows "world (keyboard_task b st) =
      world (matrix_loop b (if ch then last_matrix_activity_trigger b st else st))"
    "matrix_prev (keyboard_task b st) =
      matrix_prev (matrix_loop b (if ch then last_matrix_activity_trigger b st else st))"
  by (simp_all add: assms keyboard_task_def update_leds_def Let_def)

text \<open>One task: what it executes, and what it leaves.\<close>

lemma keyboard_task_events:
  assumes b: "b = plain_board rows cols kps exec t (ch, m)" and dims: "rows \<le> 255" "cols \<le> 32"
    and len: "length (matrix_prev st) = rows" and task: "st' = keyboard_task b st"
  shows "length (matrix_prev st') = rows"
    "\<exists>es tick. world st' = fold exec (es @ tick) (world st) \<and>
       list_all (\<lambda>e. key e \<in> keys_of rows cols (replicate rows (- 1)) \<and> time e \<noteq> 0) es \<and>
       list_all (\<lambda>e. \<exists>n. e = tick_event n) tick \<and>
       switch_run (keys_of rows cols (matrix_prev st)) es = Some (keys_of rows cols (matrix_prev st'))"
    "pending rows cols m (matrix_prev st') \<subseteq> pending rows cols m (matrix_prev st)"
    "pending rows cols m (matrix_prev st) \<noteq> {} \<Longrightarrow>
     pending rows cols m (matrix_prev st') \<noteq> pending rows cols m (matrix_prev st)"
proof -
  define st0 where "st0 = (if ch then last_matrix_activity_trigger b st else st)"
  have st0: "matrix_prev st0 = matrix_prev st" "world st0 = world st"
    by (simp_all add: st0_def last_matrix_activity_trigger_def)
  obtain k1 stop1 st1 where 1: "foldl (row_step b) (0, False, st0) [0..<rows] = (k1, stop1, st1)"
    using prod_cases3 by blast
  have inv: "loop_inv rows cols exec m st0 (k1, stop1, st1)" "rows_done rows cols m rows 0 (k1, stop1, st1)"
    using rows_loop_inv [OF b dims _ order_refl 1] len st0 by simp_all
  define tick where "tick = (if \<not> stop1 \<and> (kps = None \<or> k1 = 0) then [tick_event (t (world st1))] else [])"
  have loop: "matrix_prev (matrix_loop b st0) = matrix_prev st1"
    "world (matrix_loop b st0) = fold exec tick (world st1)"
    using 1 by (simp_all add: matrix_loop_def b tick_def)
  have st': "matrix_prev st' = matrix_prev st1" "world st' = fold exec tick (world st1)"
    using loop by (simp_all add: task plain_task [OF b] st0_def)
  show "length (matrix_prev st') = rows" using inv(1) by (simp add: st' loop_inv_def)
  obtain es where "world st1 = fold exec es (world st)"
    "list_all (\<lambda>e. key e \<in> keys_of rows cols (replicate rows (- 1)) \<and> time e \<noteq> 0) es"
    "switch_run (keys_of rows cols (matrix_prev st)) es = Some (keys_of rows cols (matrix_prev st1))"
    using inv(1) by (auto simp: loop_inv_def st0)
  moreover have "list_all (\<lambda>e. \<exists>n. e = tick_event n) tick" by (auto simp: tick_def)
  ultimately show "\<exists>es tick. world st' = fold exec (es @ tick) (world st) \<and>
      list_all (\<lambda>e. key e \<in> keys_of rows cols (replicate rows (- 1)) \<and> time e \<noteq> 0) es \<and>
      list_all (\<lambda>e. \<exists>n. e = tick_event n) tick \<and>
      switch_run (keys_of rows cols (matrix_prev st)) es = Some (keys_of rows cols (matrix_prev st'))"
    unfolding st' by (intro exI [of _ es] exI [of _ tick]) simp
  show "pending rows cols m (matrix_prev st') \<subseteq> pending rows cols m (matrix_prev st)"
    using inv(1) by (simp add: loop_inv_def st' st0)
  show "pending rows cols m (matrix_prev st') \<noteq> pending rows cols m (matrix_prev st)"
    if "pending rows cols m (matrix_prev st) \<noteq> {}"
  proof (cases stop1)
    case False
    then have "pending rows cols m (matrix_prev st1) = {}"
      using inv(2) by (fastforce simp: rows_done_def pending_def)
    then show ?thesis using that by (simp add: st')
  qed (use inv(1) in \<open>simp add: loop_inv_def st' st0\<close>)
qed

section \<open>Many tasks\<close>

definition keyboard_run ::
    "nat \<Rightarrow> nat \<Rightarrow> nat option \<Rightarrow> (keyevent_t \<Rightarrow> 's \<Rightarrow> 's) \<Rightarrow> ('s \<Rightarrow> u32) \<Rightarrow> (bool \<times> matrix) list \<Rightarrow>
     's keyboard_st \<Rightarrow> 's keyboard_st" where
  "keyboard_run rows cols kps exec t scans st =
     fold (\<lambda>cm. keyboard_task (plain_board rows cols kps exec t cm)) scans st"

definition real_events :: "keyevent_t list \<Rightarrow> keyevent_t list" where
  "real_events es = filter (\<lambda>e. \<not> IS_NOEVENT e) es"

text \<open>An event of a switch, or the pseudo event of a task that found nothing.\<close>

definition board_event :: "nat \<Rightarrow> nat \<Rightarrow> keyevent_t \<Rightarrow> bool" where
  "board_event rows cols e \<longleftrightarrow>
     (\<exists>r c. r < rows \<and> c < cols \<and> key e = key_at r c \<and> time e \<noteq> 0) \<or> (\<exists>n. e = tick_event n)"

lemma tick_noevent [simp]: "IS_NOEVENT (tick_event n)"
  by (simp add: IS_NOEVENT_def tick_event_def)

lemma switch_event_real:
  assumes "rows \<le> 255" "key e \<in> keys_of rows cols (replicate rows (- 1))" "time e \<noteq> 0"
  shows "\<not> IS_NOEVENT e" "board_event rows cols e"
proof -
  obtain r c where rc: "key e = key_at r c" "r < rows" "c < cols" using assms(2) by (auto simp: keys_of_def)
  have "row (key_at r c) \<noteq> 255"
    using rc(2) assms(1) by (auto simp: key_at_def word_unat_eq_iff unat_of_nat take_bit_eq_mod)
  then show "\<not> IS_NOEVENT e" using assms(3) rc by (simp add: IS_NOEVENT_def)
  show "board_event rows cols e" using rc assms(3) by (auto simp: board_event_def)
qed

lemma keyboard_run_events:
  assumes dims: "rows \<le> 255" "cols \<le> 32" and "length (matrix_prev st) = rows"
    and run: "st' = keyboard_run rows cols kps exec t scans st"
  shows "length (matrix_prev st') = rows \<and>
    (\<exists>es. world st' = fold exec es (world st) \<and> list_all (board_event rows cols) es \<and>
       switch_run (keys_of rows cols (matrix_prev st)) (real_events es) = Some (keys_of rows cols (matrix_prev st')))"
  using assms(3,4)
proof (induction scans arbitrary: st)
  case Nil
  then show ?case by (auto simp: keyboard_run_def real_events_def intro: exI [of _ "[]"])
next
  case (Cons cm scans)
  obtain ch m where cm: "cm = (ch, m)" by (cases cm)
  define st1 where "st1 = keyboard_task (plain_board rows cols kps exec t (ch, m)) st"
  note one = keyboard_task_events [OF HOL.refl dims Cons.prems(1) st1_def]
  obtain es tick where e: "world st1 = fold exec (es @ tick) (world st)"
    "list_all (\<lambda>e. key e \<in> keys_of rows cols (replicate rows (- 1)) \<and> time e \<noteq> 0) es"
    "list_all (\<lambda>e. \<exists>n. e = tick_event n) tick"
    "switch_run (keys_of rows cols (matrix_prev st)) es = Some (keys_of rows cols (matrix_prev st1))"
    using one(2) by blast
  have es: "list_all (\<lambda>e. \<not> IS_NOEVENT e \<and> board_event rows cols e) es"
    using e(2) switch_event_real [OF dims(1)] by (auto simp: list_all_iff)
  have tick: "list_all (\<lambda>e. IS_NOEVENT e \<and> board_event rows cols e) tick"
    using e(3) by (auto simp: list_all_iff board_event_def)
  have re: "real_events (es @ tick) = es"
    using es tick by (auto simp: real_events_def list_all_iff filter_id_conv filter_empty_conv)
  have "st' = keyboard_run rows cols kps exec t scans st1"
    using Cons.prems by (simp add: keyboard_run_def cm st1_def)
  from Cons.IH [OF one(1) this] obtain fs where fs: "length (matrix_prev st') = rows"
    "world st' = fold exec fs (world st1)" "list_all (board_event rows cols) fs"
    "switch_run (keys_of rows cols (matrix_prev st1)) (real_events fs) = Some (keys_of rows cols (matrix_prev st'))"
    by blast
  have "real_events (es @ tick @ fs) = es @ real_events fs" using re by (simp add: real_events_def)
  then have "switch_run (keys_of rows cols (matrix_prev st)) (real_events (es @ tick @ fs)) =
      Some (keys_of rows cols (matrix_prev st'))" by (simp add: switch_run_append e(4) fs(4))
  moreover have "list_all (board_event rows cols) (es @ tick @ fs)"
    using es tick fs(3) by (auto simp: list_all_iff)
  moreover have "world st' = fold exec (es @ tick @ fs) (world st)" by (simp add: fs(2) e(1))
  ultimately show ?case using fs(1) by blast
qed

text \<open>
  C16. Press and release in turn.  Whatever the scans read, and however many keys a task may
  process, the tasks execute a sequence of events that is made of the events of switches and of pseudo
  events, in which no switch is pressed while it is down or released while it is up, and after which the
  switches that are down are those of the matrix the task remembers.
\<close>

theorem switch_events_alternate:
  assumes "rows \<le> 255" "cols \<le> 32" "length (matrix_prev st) = rows"
    "st' = keyboard_run rows cols kps exec t scans st"
  shows "\<exists>es. world st' = fold exec es (world st) \<and> list_all (board_event rows cols) es \<and>
    switch_run (keys_of rows cols (matrix_prev st)) (real_events es) = Some (keys_of rows cols (matrix_prev st'))"
  using keyboard_run_events [OF assms] by blast

lemma switch_events_alternate_witness:
  "\<exists>es. world (keyboard_run 1 2 None (\<lambda>e n. n + 1) (\<lambda>n. of_nat n) [(True, [3]), (False, [3]), (True, [1])]
      \<lparr>matrix_prev = [0], led_status = 0, last_input_modification_time = 0, last_matrix_modification_time = 0,
       last_encoder_modification_time = 0, world = 0 :: nat\<rparr>) = fold (\<lambda>e n. n + 1) es 0 \<and>
    switch_run {} (real_events es) = Some {key_at 0 0}"
proof -
  define st where "st = \<lparr>matrix_prev = [0], led_status = 0, last_input_modification_time = 0,
    last_matrix_modification_time = 0, last_encoder_modification_time = 0, world = 0 :: nat\<rparr>"
  define st' where "st' = keyboard_run 1 2 None (\<lambda>e n. n + 1) (\<lambda>n. of_nat n) [(True, [3]), (False, [3]), (True, [1])] st"
  have "matrix_prev st' = [1]" unfolding st'_def st_def by code_simp
  moreover have "keys_of 1 2 [0] = {}" "keys_of 1 2 [1] = {key_at 0 0}"
    by (auto simp: keys_of_def bit_1_iff)
  ultimately show ?thesis
    using switch_events_alternate [OF _ _ _ st'_def] unfolding st'_def [symmetric] st_def [symmetric]
    by (auto simp: st_def)
qed

lemma pending_finite: "finite (pending rows cols m prev)"
  by (rule finite_subset [of _ "{..<rows} \<times> {..<cols}"]) (auto simp: pending_def)

lemma run_catches_up:
  assumes "rows \<le> 255" "cols \<le> 32" "length (matrix_prev st) = rows"
    "card (pending rows cols m (matrix_prev st)) \<le> n"
    "st' = keyboard_run rows cols kps exec t (replicate n (ch, m)) st"
  shows "keys_of rows cols (matrix_prev st') = keys_of rows cols m"
proof -
  have "pending rows cols m (matrix_prev st') = {}"
    using assms(3-5)
  proof (induction n arbitrary: st)
    case 0
    then show ?case using pending_finite by (simp add: keyboard_run_def)
  next
    case (Suc n)
    define st1 where "st1 = keyboard_task (plain_board rows cols kps exec t (ch, m)) st"
    note one = keyboard_task_events [OF HOL.refl assms(1,2) Suc.prems(1) st1_def]
    have "card (pending rows cols m (matrix_prev st1)) \<le> n"
    proof (cases "pending rows cols m (matrix_prev st) = {}")
      case True
      then have "pending rows cols m (matrix_prev st1) = {}" using one(3) by simp
      then show ?thesis by simp
    next
      case False
      then have "pending rows cols m (matrix_prev st1) \<subset> pending rows cols m (matrix_prev st)"
        using one(3,4) by blast
      from psubset_card_mono [OF pending_finite this] show ?thesis using Suc.prems(2) by simp
    qed
    moreover have "st' = keyboard_run rows cols kps exec t (replicate n (ch, m)) st1"
      using Suc.prems(3) by (simp add: keyboard_run_def st1_def)
    ultimately show ?case using Suc.IH one(1) by blast
  qed
  then show ?thesis by (auto simp: keys_of_def pending_def image_iff)
qed

text \<open>
  C29. No switch is forgotten: while the matrix stays as it is, every task takes at least one of the differences
  away, so after at most as many tasks as there are differences the events that were executed have brought the
  remembered matrix to the one that is read.
\<close>

theorem keyboard_catches_up:
  assumes "rows \<le> 255" "cols \<le> 32" "length (matrix_prev st) = rows"
    "card (pending rows cols m (matrix_prev st)) \<le> n"
    "st' = keyboard_run rows cols kps exec t (replicate n (ch, m)) st"
  shows "keys_of rows cols (matrix_prev st') = keys_of rows cols m"
  using run_catches_up [OF assms] .

lemma keyboard_catches_up_witness:
  "keys_of 1 2 (matrix_prev (keyboard_run 1 2 None (\<lambda>e n. n + 1) (\<lambda>n. of_nat n) (replicate 2 (True, [3]))
      \<lparr>matrix_prev = [0], led_status = 0, last_input_modification_time = 0, last_matrix_modification_time = 0,
       last_encoder_modification_time = 0, world = 0 :: nat\<rparr>)) = keys_of 1 2 [3]"
proof -
  have "pending 1 2 [3] [0] \<subseteq> {(0, 0), (0, 1)}" by (auto simp: pending_def less_2_cases_iff)
  then have "card (pending 1 2 [3] [0]) \<le> card {(0 :: nat, 0 :: nat), (0, 1)}" by (intro card_mono) auto
  then have "card (pending 1 2 [3] [0]) \<le> 2" by simp
  then show ?thesis by (intro keyboard_catches_up [OF _ _ _ _ HOL.refl]) simp_all
qed

end
