(* ===== verification/Action_Util.thy ===== *)
theory Action_Util
  imports Firmware_Config
begin

text \<open>
  \<^verbatim>\<open>quantum/action_util.c\<close>: the modifier state and the assembly of the keyboard report.  The static
  variables are the record \<open>util_st\<close>, which extends the host's; those of \<^verbatim>\<open>KEY_OVERRIDE_ENABLE\<close> are
  included and stay 0 in a build without it.  The one-shot layer, which calls the layer operations,
  is in \<open>Action_Layer\<close>.  The last section has the three clearing functions of \<^verbatim>\<open>quantum/action.c\<close>,
  which the layer operations call.
\<close>

datatype swap_hands_oneshot_t = SHO_OFF | SHO_ACTIVE | SHO_PRESSED | SHO_USED

record util_st = host_st +
  keyboard_report :: report
  real_mods :: u8
  weak_mods :: u8
  macro_mods :: u8
  weak_override_mods :: u8
  suppressed_mods :: u8
  oneshot_mods :: u8
  oneshot_locked_mods :: u8
  oneshot_time :: u16
  oneshot_layer_data :: "8 word"
  oneshot_layer_time :: u16
  swap_hands_oneshot :: swap_hands_oneshot_t
  oneshot_swaphands_time :: u16

section \<open>Keys of the report\<close>

definition add_key :: "u8 \<Rightarrow> 'a util_st_scheme \<Rightarrow> 'a util_st_scheme" where
  "add_key k s = s\<lparr>keyboard_report := add_key_to_report (nkro s) (keyboard_report s) k\<rparr>"

definition del_key :: "u8 \<Rightarrow> 'a util_st_scheme \<Rightarrow> 'a util_st_scheme" where
  "del_key k s = s\<lparr>keyboard_report := del_key_from_report (nkro s) (keyboard_report s) k\<rparr>"

definition clear_keys :: "'a util_st_scheme \<Rightarrow> 'a util_st_scheme" where
  "clear_keys s = s\<lparr>keyboard_report := clear_keys_from_report (nkro s) (keyboard_report s)\<rparr>"

section \<open>Modifiers\<close>

definition add_mods :: "u8 \<Rightarrow> 'a util_st_scheme \<Rightarrow> 'a util_st_scheme" where
  "add_mods m s = s\<lparr>real_mods := real_mods s OR m\<rparr>"

definition del_mods :: "u8 \<Rightarrow> 'a util_st_scheme \<Rightarrow> 'a util_st_scheme" where
  "del_mods m s = s\<lparr>real_mods := real_mods s AND NOT m\<rparr>"

definition set_mods :: "u8 \<Rightarrow> 'a util_st_scheme \<Rightarrow> 'a util_st_scheme" where
  "set_mods m s = s\<lparr>real_mods := m\<rparr>"

definition clear_mods :: "'a util_st_scheme \<Rightarrow> 'a util_st_scheme" where
  "clear_mods s = s\<lparr>real_mods := 0\<rparr>"

definition add_weak_mods :: "u8 \<Rightarrow> 'a util_st_scheme \<Rightarrow> 'a util_st_scheme" where
  "add_weak_mods m s = s\<lparr>weak_mods := weak_mods s OR m\<rparr>"

definition del_weak_mods :: "u8 \<Rightarrow> 'a util_st_scheme \<Rightarrow> 'a util_st_scheme" where
  "del_weak_mods m s = s\<lparr>weak_mods := weak_mods s AND NOT m\<rparr>"

definition set_weak_mods :: "u8 \<Rightarrow> 'a util_st_scheme \<Rightarrow> 'a util_st_scheme" where
  "set_weak_mods m s = s\<lparr>weak_mods := m\<rparr>"

definition clear_weak_mods :: "'a util_st_scheme \<Rightarrow> 'a util_st_scheme" where
  "clear_weak_mods s = s\<lparr>weak_mods := 0\<rparr>"

definition set_weak_override_mods :: "u8 \<Rightarrow> 'a util_st_scheme \<Rightarrow> 'a util_st_scheme" where
  "set_weak_override_mods m s = s\<lparr>weak_override_mods := m\<rparr>"

definition clear_weak_override_mods :: "'a util_st_scheme \<Rightarrow> 'a util_st_scheme" where
  "clear_weak_override_mods s = s\<lparr>weak_override_mods := 0\<rparr>"

definition set_suppressed_override_mods :: "u8 \<Rightarrow> 'a util_st_scheme \<Rightarrow> 'a util_st_scheme" where
  "set_suppressed_override_mods m s = s\<lparr>suppressed_mods := m\<rparr>"

definition clear_suppressed_override_mods :: "'a util_st_scheme \<Rightarrow> 'a util_st_scheme" where
  "clear_suppressed_override_mods s = s\<lparr>suppressed_mods := 0\<rparr>"

definition add_macro_mods :: "u8 \<Rightarrow> 'a util_st_scheme \<Rightarrow> 'a util_st_scheme" where
  "add_macro_mods m s = s\<lparr>macro_mods := macro_mods s OR m\<rparr>"

definition del_macro_mods :: "u8 \<Rightarrow> 'a util_st_scheme \<Rightarrow> 'a util_st_scheme" where
  "del_macro_mods m s = s\<lparr>macro_mods := macro_mods s AND NOT m\<rparr>"

definition set_macro_mods :: "u8 \<Rightarrow> 'a util_st_scheme \<Rightarrow> 'a util_st_scheme" where
  "set_macro_mods m s = s\<lparr>macro_mods := m\<rparr>"

definition clear_macro_mods :: "'a util_st_scheme \<Rightarrow> 'a util_st_scheme" where
  "clear_macro_mods s = s\<lparr>macro_mods := 0\<rparr>"

definition has_anymod :: "'a util_st_scheme \<Rightarrow> u8" where
  "has_anymod s = bitpop (real_mods s)"

section \<open>One-shot modifiers\<close>

definition has_oneshot_mods_timed_out :: "'s config \<Rightarrow> 'a util_st_scheme \<Rightarrow> bool" where
  "has_oneshot_mods_timed_out c s \<longleftrightarrow>
     ONESHOT_TIMEOUT c > 0 \<and>
     unat (TIMER_DIFF_16 (timer_read s) (oneshot_time s)) \<ge> ONESHOT_TIMEOUT c"

definition set_oneshot_time :: "'s config \<Rightarrow> u16 \<Rightarrow> 'a util_st_scheme \<Rightarrow> 'a util_st_scheme" where
  "set_oneshot_time c t s = (if ONESHOT_TIMEOUT c > 0 then s\<lparr>oneshot_time := t\<rparr> else s)"

definition add_oneshot_mods :: "'s config \<Rightarrow> u8 \<Rightarrow> 'a util_st_scheme \<Rightarrow> 'a util_st_scheme" where
  "add_oneshot_mods c m s =
     (if oneshot_mods s AND m \<noteq> m then
        let s = set_oneshot_time c (timer_read s) s;
            s = s\<lparr>oneshot_mods := oneshot_mods s OR m\<rparr>
        in emit (Oneshot_mods_changed m) s
      else s)"

definition del_oneshot_mods :: "'s config \<Rightarrow> u8 \<Rightarrow> 'a util_st_scheme \<Rightarrow> 'a util_st_scheme" where
  "del_oneshot_mods c m s =
     (if oneshot_mods s AND m \<noteq> 0 then
        let s = s\<lparr>oneshot_mods := oneshot_mods s AND NOT m\<rparr>;
            s = set_oneshot_time c (if oneshot_mods s \<noteq> 0 then timer_read s else 0) s
        in emit (Oneshot_mods_changed (oneshot_mods s)) s
      else s)"

definition set_oneshot_mods :: "'s config \<Rightarrow> u8 \<Rightarrow> 'a util_st_scheme \<Rightarrow> 'a util_st_scheme" where
  "set_oneshot_mods c m s =
     (if \<not> oneshot_disable (keymap_config s) \<and> oneshot_mods s \<noteq> m then
        let s = set_oneshot_time c (timer_read s) s
        in emit (Oneshot_mods_changed m) (s\<lparr>oneshot_mods := m\<rparr>)
      else s)"

definition clear_oneshot_mods :: "'s config \<Rightarrow> 'a util_st_scheme \<Rightarrow> 'a util_st_scheme" where
  "clear_oneshot_mods c s =
     (if oneshot_mods s \<noteq> 0 then
        emit (Oneshot_mods_changed 0) (set_oneshot_time c 0 (s\<lparr>oneshot_mods := 0\<rparr>))
      else s)"

definition set_oneshot_locked_mods :: "u8 \<Rightarrow> 'a util_st_scheme \<Rightarrow> 'a util_st_scheme" where
  "set_oneshot_locked_mods m s =
     (if m \<noteq> oneshot_locked_mods s
      then emit (Oneshot_locked_mods_changed m) (s\<lparr>oneshot_locked_mods := m\<rparr>) else s)"

definition clear_oneshot_locked_mods :: "'a util_st_scheme \<Rightarrow> 'a util_st_scheme" where
  "clear_oneshot_locked_mods s =
     (if oneshot_locked_mods s \<noteq> 0
      then emit (Oneshot_locked_mods_changed 0) (s\<lparr>oneshot_locked_mods := 0\<rparr>) else s)"

section \<open>Sending the report\<close>

definition report_set_mods :: "u8 \<Rightarrow> 'a util_st_scheme \<Rightarrow> 'a util_st_scheme" where
  "report_set_mods m s = s\<lparr>keyboard_report := set_report_mods m (keyboard_report s)\<rparr>"

definition report_mods_of :: "'a util_st_scheme \<Rightarrow> u8" where
  "report_mods_of s = report_mods (keyboard_report s)"

text \<open>The block of send_keyboard_report that merges the one-shot modifiers.\<close>

definition merge_oneshot_mods :: "'s config \<Rightarrow> 'a util_st_scheme \<Rightarrow> 'a util_st_scheme" where
  "merge_oneshot_mods c s =
     (if oneshot_mods s \<noteq> 0 then
        let s = (if has_oneshot_mods_timed_out c s then clear_oneshot_mods c s else s);
            s = report_set_mods (report_mods_of s OR oneshot_mods s) s
        in if has_anykey (nkro s) (keyboard_report s) \<noteq> 0
           then clear_oneshot_mods c s else s
      else s)"

definition send_keyboard_report :: "'s config \<Rightarrow> 'a util_st_scheme \<Rightarrow> 'a util_st_scheme" where
  "send_keyboard_report c s =
     (let s = report_set_mods (real_mods s OR weak_mods s OR macro_mods s) s;
          s = merge_oneshot_mods c s;
          s = report_set_mods (report_mods_of s AND NOT (suppressed_mods s)) s;
          s = report_set_mods (report_mods_of s OR weak_override_mods s) s;
          (r, s) = host_keyboard_send (keyboard_report s) s
      in s\<lparr>keyboard_report := r\<rparr>)"

section \<open>Clearing\<close>

definition clear_keyboard_but_mods_and_keys :: "'s config \<Rightarrow> 'a util_st_scheme \<Rightarrow> 'a util_st_scheme" where
  "clear_keyboard_but_mods_and_keys c s =
     send_keyboard_report c
       (clear_macro_mods (clear_weak_mods (host_consumer_send 0 (host_system_send 0 s))))"

definition clear_keyboard_but_mods :: "'s config \<Rightarrow> 'a util_st_scheme \<Rightarrow> 'a util_st_scheme" where
  "clear_keyboard_but_mods c s = clear_keyboard_but_mods_and_keys c (clear_keys s)"

definition clear_keyboard :: "'s config \<Rightarrow> 'a util_st_scheme \<Rightarrow> 'a util_st_scheme" where
  "clear_keyboard c s = clear_keyboard_but_mods c (clear_mods s)"

section \<open>What a report carries\<close>

definition live_oneshot_mods :: "'s config \<Rightarrow> 'a util_st_scheme \<Rightarrow> u8" where
  "live_oneshot_mods c s = (if has_oneshot_mods_timed_out c s then 0 else oneshot_mods s)"

definition effective_mods :: "'s config \<Rightarrow> 'a util_st_scheme \<Rightarrow> u8" where
  "effective_mods c s =
     (real_mods s OR weak_mods s OR macro_mods s OR live_oneshot_mods c s)
       AND NOT (suppressed_mods s) OR weak_override_mods s"

definition oneshot_spent :: "'s config \<Rightarrow> 'a util_st_scheme \<Rightarrow> bool" where
  "oneshot_spent c s \<longleftrightarrow> oneshot_mods s \<noteq> 0 \<and>
     (has_oneshot_mods_timed_out c s \<or> has_anykey (nkro s) (keyboard_report s) \<noteq> 0)"

text \<open>The bytes on the wire: modifiers and keys, with the identifier of the bitmap report.\<close>

definition wire_report :: "bool \<Rightarrow> u8 \<Rightarrow> report \<Rightarrow> report" where
  "wire_report n m r = (if n then r[1 := m, 0 := REPORT_ID_NKRO] else r[0 := m])"

lemma has_anykey_set_mods [simp]: "has_anykey n (set_report_mods m r) = has_anykey n r"
  by (simp add: has_anykey_def)

lemma set_report_mods_twice [simp]: "set_report_mods m (set_report_mods n r) = set_report_mods m r"
  by (simp add: set_report_mods_def)

lemma timed_out_simps [simp]:
  "has_oneshot_mods_timed_out c (s\<lparr>keyboard_report := r\<rparr>) = has_oneshot_mods_timed_out c s"
  "nkro (s\<lparr>keyboard_report := r\<rparr>) = nkro s" "nkro (s\<lparr>oneshot_mods := m\<rparr>) = nkro s"
  "nkro (s\<lparr>oneshot_time := t\<rparr>) = nkro s"
  by (simp_all add: has_oneshot_mods_timed_out_def timer_read_def nkro_def)

lemma nkro_set_oneshot_time [simp]: "nkro (set_oneshot_time c t s) = nkro s"
  by (simp add: set_oneshot_time_def)

text \<open>
  The state that clearing the one-shot modifiers leaves, when there are any.
\<close>

definition spend_oneshot :: "'s config \<Rightarrow> 'a util_st_scheme \<Rightarrow> 'a util_st_scheme" where
  "spend_oneshot c s =
     s\<lparr>oneshot_mods := 0, oneshot_time := (if ONESHOT_TIMEOUT c > 0 then 0 else oneshot_time s),
       effects := effects s @ [Oneshot_mods_changed 0]\<rparr>"

lemma clear_oneshot_mods_eq:
  "clear_oneshot_mods c s = (if oneshot_mods s \<noteq> 0 then spend_oneshot c s else s)"
  by (simp add: clear_oneshot_mods_def spend_oneshot_def set_oneshot_time_def emit_def)

lemma report_set_mods_simps [simp]:
  "report_set_mods m (report_set_mods n s) = report_set_mods m s"
  "oneshot_mods (report_set_mods m s) = oneshot_mods s"
  "suppressed_mods (report_set_mods m s) = suppressed_mods s"
  "weak_override_mods (report_set_mods m s) = weak_override_mods s"
  "nkro (report_set_mods m s) = nkro s"
  "has_oneshot_mods_timed_out c (report_set_mods m s) = has_oneshot_mods_timed_out c s"
  "spend_oneshot c (report_set_mods m s) = report_set_mods m (spend_oneshot c s)"
  "has_anykey b (keyboard_report (report_set_mods m s)) = has_anykey b (keyboard_report s)"
  by (simp_all add: report_set_mods_def has_oneshot_mods_timed_out_def timer_read_def nkro_def
      spend_oneshot_def)

lemma spend_oneshot_simps [simp]:
  "keyboard_report (spend_oneshot c s) = keyboard_report s"
  "oneshot_mods (spend_oneshot c s) = 0"
  "suppressed_mods (spend_oneshot c s) = suppressed_mods s"
  "weak_override_mods (spend_oneshot c s) = weak_override_mods s"
  "nkro (spend_oneshot c s) = nkro s"
  "host_driver (spend_oneshot c s) = host_driver s"
  by (simp_all add: spend_oneshot_def nkro_def)

lemma report_mods_of_set [simp]:
  "report_wf (keyboard_report s) \<Longrightarrow> report_mods_of (report_set_mods m s) = m"
  by (simp add: report_mods_of_def report_set_mods_def)

lemma send_prepared:
  assumes "report_wf (keyboard_report s)" "host_driver s"
  shows "(case host_keyboard_send (keyboard_report (report_set_mods m s)) (report_set_mods m s) of
           (r, s) \<Rightarrow> s\<lparr>keyboard_report := r\<rparr>) =
    s\<lparr>keyboard_report := wire_report (nkro s) m (keyboard_report s),
      effects := effects s @ [Keyboard_report (wire_report (nkro s) m (keyboard_report s))]\<rparr>"
proof -
  have "0 < length (keyboard_report s)" using assms(1) by (simp add: report_wf_def)
  then have "(keyboard_report s)[0 := m] ! 0 = m" by simp
  then have "wire_report (nkro s) m (keyboard_report s) =
      (if nkro s then (set_report_mods m (keyboard_report s))
         [1 := report_mods (set_report_mods m (keyboard_report s)), 0 := REPORT_ID_NKRO]
       else set_report_mods m (keyboard_report s))"
    by (simp add: wire_report_def set_report_mods_def report_mods_def list_update_swap)
  with assms(2) show ?thesis
    by (simp add: host_keyboard_send_def Let_def report_set_mods_def emit_def)
qed

lemma merge_oneshot_mods_eq:
  assumes "report_wf (keyboard_report s)"
  shows "merge_oneshot_mods c (report_set_mods m s) =
    report_set_mods (m OR live_oneshot_mods c s) (if oneshot_spent c s then spend_oneshot c s else s)"
proof (cases "oneshot_mods s = 0")
  case True
  then show ?thesis
    by (simp add: merge_oneshot_mods_def live_oneshot_mods_def oneshot_spent_def)
next
  case some: False
  have wf: "report_wf (keyboard_report (spend_oneshot c s))" using assms by simp
  show ?thesis
  proof (cases "has_oneshot_mods_timed_out c s")
    case True
    with some wf show ?thesis
      by (simp add: merge_oneshot_mods_def live_oneshot_mods_def oneshot_spent_def
          clear_oneshot_mods_eq Let_def)
  next
    case False
    with some assms show ?thesis
      by (simp add: merge_oneshot_mods_def live_oneshot_mods_def oneshot_spent_def
          clear_oneshot_mods_eq Let_def)
  qed
qed

lemma merge_oneshot_mods_shape:
  "\<exists>m'. merge_oneshot_mods c (report_set_mods m s) =
     report_set_mods m' (if oneshot_spent c s then spend_oneshot c s else s)"
proof (cases "oneshot_mods s = 0")
  case True
  then show ?thesis by (auto simp: merge_oneshot_mods_def oneshot_spent_def)
next
  case some: False
  show ?thesis
  proof (cases "has_oneshot_mods_timed_out c s")
    case True
    with some show ?thesis
      by (auto simp: merge_oneshot_mods_def oneshot_spent_def clear_oneshot_mods_eq Let_def)
  next
    case False
    with some show ?thesis
      by (auto simp: merge_oneshot_mods_def oneshot_spent_def clear_oneshot_mods_eq Let_def)
  qed
qed

lemma send_report_sends:
  assumes "host_driver s" and "report_wf (keyboard_report s)"
  shows "send_keyboard_report c s =
    (let r = wire_report (nkro s) (effective_mods c s) (keyboard_report s);
         s' = (if oneshot_spent c s then spend_oneshot c s else s)
     in s'\<lparr>keyboard_report := r, effects := effects s' @ [Keyboard_report r]\<rparr>)"
proof -
  define m where "m = real_mods s OR weak_mods s OR macro_mods s"
  define s' where "s' = (if oneshot_spent c s then spend_oneshot c s else s)"
  define k where "k = (m OR live_oneshot_mods c s) AND NOT (suppressed_mods s)"
  have wf: "report_wf (keyboard_report s')" and drv: "host_driver s'"
    and s': "suppressed_mods s' = suppressed_mods s" "weak_override_mods s' = weak_override_mods s"
      "nkro s' = nkro s" "keyboard_report s' = keyboard_report s"
    using assms by (simp_all add: s'_def)
  have "send_keyboard_report c s =
     (case host_keyboard_send (keyboard_report (report_set_mods (k OR weak_override_mods s) s'))
       (report_set_mods (k OR weak_override_mods s) s') of
       (r, s) \<Rightarrow> s\<lparr>keyboard_report := r\<rparr>)"
    using wf s' by (simp add: send_keyboard_report_def Let_def merge_oneshot_mods_eq [OF assms(2)]
        s'_def [symmetric] k_def m_def)
  also have "k OR weak_override_mods s = effective_mods c s"
    by (simp add: effective_mods_def k_def m_def or.assoc)
  finally show ?thesis
    by (simp add: send_prepared [OF wf drv] Let_def s'_def [symmetric] s')
qed

text \<open>
  The keyboard report carries exactly the union of the real, weak, macro and live one-shot
  modifiers, without the suppressed ones and with the override ones, and the keys that were in the
  report.  One-shot modifiers are spent by the first report that has a key, or dropped when they
  have timed out; nothing else of the state changes.
\<close>

theorem send_keyboard_report_spec:
  assumes "host_driver s" and "report_wf (keyboard_report s)"
  shows "send_keyboard_report c s =
    (let r = wire_report (nkro s) (effective_mods c s) (keyboard_report s);
         s' = (if oneshot_spent c s then spend_oneshot c s else s)
     in s'\<lparr>keyboard_report := r, effects := effects s' @ [Keyboard_report r]\<rparr>)"
  using assms by (rule send_report_sends)

lemma slot_empty: "i < 30 \<Longrightarrow> slot empty_report i = 0"
  by (simp add: slot_def empty_report_def)

theorem send_keyboard_report_spec_witness:
  "\<exists>s :: util_st. host_driver s \<and> report_wf (keyboard_report s) \<and> oneshot_mods s = 2 \<and>
     oneshot_mods (send_keyboard_report (default_config (\<lambda>_ _. 0) :: unit config) s) = 0 \<and>
     effects (send_keyboard_report (default_config (\<lambda>_ _. 0) :: unit config) s) =
       [Oneshot_mods_changed 0, Keyboard_report (set_slot (set_report_mods 3 empty_report) 0 4)]"
proof -
  define s :: util_st where
    "s = \<lparr>host_driver = True, keyboard_protocol = 1, keymap_config = keymap_config_of_raw 0,
      host_leds = 0, last_system_report = 0, last_consumer_report = 0,
      last_programmable_button_report = 0, clock = 0, effects = [],
      keyboard_report = set_slot empty_report 0 4, real_mods = 1, weak_mods = 0, macro_mods = 0,
      weak_override_mods = 0, suppressed_mods = 0, oneshot_mods = 2, oneshot_locked_mods = 0,
      oneshot_time = 0, oneshot_layer_data = 0, oneshot_layer_time = 0,
      swap_hands_oneshot = SHO_OFF, oneshot_swaphands_time = 0\<rparr>"
  have "has_anykey False (set_slot empty_report 0 4) = 1"
    by (simp add: has_anykey_def KEYBOARD_REPORT_KEYS_def upt_rec slot_empty)
  then have spent: "oneshot_spent c s" and mods: "effective_mods c s = 3"
    if "ONESHOT_TIMEOUT c = 0" for c :: "unit config"
    using that
    by (simp_all add: s_def nkro_def keymap_config_of_raw_def oneshot_spent_def effective_mods_def
        live_oneshot_mods_def has_oneshot_mods_timed_out_def)
  have drv: "host_driver s" and wf: "report_wf (keyboard_report s)" and "\<not> nkro s"
    by (simp_all add: s_def nkro_def keymap_config_of_raw_def)
  then show ?thesis
    by (intro exI [of _ s])
      (simp add: send_keyboard_report_spec [OF drv wf] spent mods Let_def wire_report_def,
        simp add: s_def spend_oneshot_def set_slot_def set_report_mods_def list_update_swap)
qed

section \<open>Frame\<close>

text \<open>
  Sending touches only the report's modifier bytes, the one-shot modifiers, their time and the
  effects.
\<close>

lemma send_keyboard_report_frame:
  obtains r om ot es where
    "send_keyboard_report c s =
       s\<lparr>keyboard_report := r, oneshot_mods := om, oneshot_time := ot, effects := effects s @ es\<rparr>"
    "report_wf r \<longleftrightarrow> report_wf (keyboard_report s)"
    "\<And>i. slot r i = slot (keyboard_report s) i"
    "om = oneshot_mods s \<or> om = 0"
    "host_driver s \<longrightarrow> es \<noteq> []"
proof -
  define s1 where "s1 = (if oneshot_mods s \<noteq> 0 \<and> (has_oneshot_mods_timed_out c s \<or>
      has_anykey (nkro s) (keyboard_report s) \<noteq> 0) then spend_oneshot c s else s)"
  obtain om ot es where s1: "s1 = s\<lparr>oneshot_mods := om, oneshot_time := ot, effects := effects s @ es\<rparr>"
    and om: "om = oneshot_mods s \<or> om = 0"
  proof (cases "oneshot_mods s \<noteq> 0 \<and> (has_oneshot_mods_timed_out c s \<or>
      has_anykey (nkro s) (keyboard_report s) \<noteq> 0)")
    case True
    then have "s1 = s\<lparr>oneshot_mods := 0,
        oneshot_time := (if ONESHOT_TIMEOUT c > 0 then 0 else oneshot_time s),
        effects := effects s @ [Oneshot_mods_changed 0]\<rparr>"
      by (simp add: s1_def spend_oneshot_def)
    then show ?thesis by (rule that) simp
  next
    case False
    then have "s1 = s\<lparr>oneshot_mods := oneshot_mods s, oneshot_time := oneshot_time s,
        effects := effects s @ []\<rparr>"
      unfolding s1_def by (subst if_not_P) simp_all
    then show ?thesis by (rule that) simp
  qed
  have "\<exists>m. send_keyboard_report c s =
      (case host_keyboard_send (keyboard_report (report_set_mods m s1)) (report_set_mods m s1) of
         (r, s) \<Rightarrow> s\<lparr>keyboard_report := r\<rparr>)"
    using merge_oneshot_mods_shape [of c "real_mods s OR weak_mods s OR macro_mods s" s]
    by (auto simp: send_keyboard_report_def Let_def s1_def oneshot_spent_def)
  then obtain m where send: "send_keyboard_report c s =
      (case host_keyboard_send (keyboard_report (report_set_mods m s1)) (report_set_mods m s1) of
         (r, s) \<Rightarrow> s\<lparr>keyboard_report := r\<rparr>)" ..
  show ?thesis
  proof (cases "host_driver s")
    case True
    define r where "r = (let r = set_report_mods m (keyboard_report s) in
        if nkro s then r[1 := report_mods r, 0 := REPORT_ID_NKRO] else r)"
    have "send_keyboard_report c s = s\<lparr>keyboard_report := r, oneshot_mods := om,
        oneshot_time := ot, effects := effects s @ (es @ [Keyboard_report r])\<rparr>"
      using True by (simp add: send s1 report_set_mods_def host_keyboard_send_def r_def Let_def
          emit_def nkro_def)
    then show ?thesis
      by (rule that) (use om in \<open>auto simp: r_def Let_def report_wf_def set_report_mods_def slot_def\<close>)
  next
    case False
    then have "send_keyboard_report c s = s\<lparr>keyboard_report := set_report_mods m (keyboard_report s),
        oneshot_mods := om, oneshot_time := ot, effects := effects s @ es\<rparr>"
      by (simp add: send s1 report_set_mods_def host_keyboard_send_def)
    then show ?thesis
      by (rule that) (use om False in \<open>auto simp: report_wf_def set_report_mods_def slot_def\<close>)
  qed
qed

lemma send_keyboard_report_simps [simp]:
  "real_mods (send_keyboard_report c s) = real_mods s"
  "weak_mods (send_keyboard_report c s) = weak_mods s"
  "macro_mods (send_keyboard_report c s) = macro_mods s"
  "weak_override_mods (send_keyboard_report c s) = weak_override_mods s"
  "suppressed_mods (send_keyboard_report c s) = suppressed_mods s"
  "oneshot_locked_mods (send_keyboard_report c s) = oneshot_locked_mods s"
  "oneshot_layer_data (send_keyboard_report c s) = oneshot_layer_data s"
  "oneshot_layer_time (send_keyboard_report c s) = oneshot_layer_time s"
  "swap_hands_oneshot (send_keyboard_report c s) = swap_hands_oneshot s"
  "oneshot_swaphands_time (send_keyboard_report c s) = oneshot_swaphands_time s"
  "host_driver (send_keyboard_report c s) = host_driver s"
  "keyboard_protocol (send_keyboard_report c s) = keyboard_protocol s"
  "keymap_config (send_keyboard_report c s) = keymap_config s"
  "host_leds (send_keyboard_report c s) = host_leds s"
  "last_system_report (send_keyboard_report c s) = last_system_report s"
  "last_consumer_report (send_keyboard_report c s) = last_consumer_report s"
  "last_programmable_button_report (send_keyboard_report c s) = last_programmable_button_report s"
  "clock (send_keyboard_report c s) = clock s"
  "util_st.more (send_keyboard_report c s) = util_st.more s"
  "slot (keyboard_report (send_keyboard_report c s)) i = slot (keyboard_report s) i"
  "report_wf (keyboard_report (send_keyboard_report c s)) = report_wf (keyboard_report s)"
  by (rule send_keyboard_report_frame [of c s]; simp)+

lemma nkro_send [simp]: "nkro (send_keyboard_report c s) = nkro s"
  by (simp add: nkro_def)

lemma held_slots:
  assumes "\<And>i. slot r i = slot q i"
  shows "held n r = held n q"
  by (cases n) (simp_all add: held_def is_key_pressed_slots is_key_pressed_bit pressed6_def assms)

lemma held_send [simp]:
  "held n (keyboard_report (send_keyboard_report c s)) = held n (keyboard_report s)"
  by (rule held_slots) simp

lemma keys_distinct_send [simp]:
  "keys_distinct (keyboard_report (send_keyboard_report c s)) = keys_distinct (keyboard_report s)"
  by (simp add: keys_distinct_def)

lemma effects_send: "\<exists>es. effects (send_keyboard_report c s) = effects s @ es"
  by (rule send_keyboard_report_frame [of c s]) auto

text \<open>The same for the other reports and for clearing.\<close>

lemma emit_util [simp]:
  "real_mods (emit e s) = real_mods s"
  "weak_mods (emit e s) = weak_mods s"
  "macro_mods (emit e s) = macro_mods s"
  "weak_override_mods (emit e s) = weak_override_mods s"
  "suppressed_mods (emit e s) = suppressed_mods s"
  "oneshot_mods (emit e s) = oneshot_mods s"
  "oneshot_locked_mods (emit e s) = oneshot_locked_mods s"
  "oneshot_time (emit e s) = oneshot_time s"
  "oneshot_layer_data (emit e s) = oneshot_layer_data s"
  "oneshot_layer_time (emit e s) = oneshot_layer_time s"
  "swap_hands_oneshot (emit e s) = swap_hands_oneshot s"
  "oneshot_swaphands_time (emit e s) = oneshot_swaphands_time s"
  "keyboard_report (emit e s) = keyboard_report s"
  "util_st.more (emit e s) = util_st.more s"
  by (simp_all add: emit_def)

lemma host_system_send_util [simp]:
  "real_mods (host_system_send u s) = real_mods s"
  "weak_mods (host_system_send u s) = weak_mods s"
  "macro_mods (host_system_send u s) = macro_mods s"
  "oneshot_mods (host_system_send u s) = oneshot_mods s"
  "oneshot_locked_mods (host_system_send u s) = oneshot_locked_mods s"
  "oneshot_layer_data (host_system_send u s) = oneshot_layer_data s"
  "oneshot_layer_time (host_system_send u s) = oneshot_layer_time s"
  "swap_hands_oneshot (host_system_send u s) = swap_hands_oneshot s"
  "oneshot_swaphands_time (host_system_send u s) = oneshot_swaphands_time s"
  "keyboard_report (host_system_send u s) = keyboard_report s"
  "host_driver (host_system_send u s) = host_driver s"
  "keyboard_protocol (host_system_send u s) = keyboard_protocol s"
  "keymap_config (host_system_send u s) = keymap_config s"
  "host_leds (host_system_send u s) = host_leds s"
  "clock (host_system_send u s) = clock s"
  by (simp_all add: host_system_send_def emit_def Let_def)

lemma host_consumer_send_util [simp]:
  "real_mods (host_consumer_send u s) = real_mods s"
  "weak_mods (host_consumer_send u s) = weak_mods s"
  "macro_mods (host_consumer_send u s) = macro_mods s"
  "oneshot_mods (host_consumer_send u s) = oneshot_mods s"
  "oneshot_locked_mods (host_consumer_send u s) = oneshot_locked_mods s"
  "oneshot_layer_data (host_consumer_send u s) = oneshot_layer_data s"
  "oneshot_layer_time (host_consumer_send u s) = oneshot_layer_time s"
  "swap_hands_oneshot (host_consumer_send u s) = swap_hands_oneshot s"
  "oneshot_swaphands_time (host_consumer_send u s) = oneshot_swaphands_time s"
  "keyboard_report (host_consumer_send u s) = keyboard_report s"
  "host_driver (host_consumer_send u s) = host_driver s"
  "keyboard_protocol (host_consumer_send u s) = keyboard_protocol s"
  "keymap_config (host_consumer_send u s) = keymap_config s"
  "host_leds (host_consumer_send u s) = host_leds s"
  "clock (host_consumer_send u s) = clock s"
  by (simp_all add: host_consumer_send_def emit_def Let_def)

lemma clear_weak_mods_util [simp]:
  "real_mods (clear_weak_mods s) = real_mods s"
  "macro_mods (clear_weak_mods s) = macro_mods s"
  "oneshot_mods (clear_weak_mods s) = oneshot_mods s"
  "oneshot_locked_mods (clear_weak_mods s) = oneshot_locked_mods s"
  "oneshot_layer_data (clear_weak_mods s) = oneshot_layer_data s"
  "oneshot_layer_time (clear_weak_mods s) = oneshot_layer_time s"
  "swap_hands_oneshot (clear_weak_mods s) = swap_hands_oneshot s"
  "oneshot_swaphands_time (clear_weak_mods s) = oneshot_swaphands_time s"
  "keyboard_report (clear_weak_mods s) = keyboard_report s"
  "host_driver (clear_weak_mods s) = host_driver s"
  "keyboard_protocol (clear_weak_mods s) = keyboard_protocol s"
  "keymap_config (clear_weak_mods s) = keymap_config s"
  "host_leds (clear_weak_mods s) = host_leds s"
  "clock (clear_weak_mods s) = clock s"
  by (simp_all add: clear_weak_mods_def)

lemma clear_macro_mods_util [simp]:
  "real_mods (clear_macro_mods s) = real_mods s"
  "weak_mods (clear_macro_mods s) = weak_mods s"
  "oneshot_mods (clear_macro_mods s) = oneshot_mods s"
  "oneshot_locked_mods (clear_macro_mods s) = oneshot_locked_mods s"
  "oneshot_layer_data (clear_macro_mods s) = oneshot_layer_data s"
  "oneshot_layer_time (clear_macro_mods s) = oneshot_layer_time s"
  "swap_hands_oneshot (clear_macro_mods s) = swap_hands_oneshot s"
  "oneshot_swaphands_time (clear_macro_mods s) = oneshot_swaphands_time s"
  "keyboard_report (clear_macro_mods s) = keyboard_report s"
  "host_driver (clear_macro_mods s) = host_driver s"
  "keyboard_protocol (clear_macro_mods s) = keyboard_protocol s"
  "keymap_config (clear_macro_mods s) = keymap_config s"
  "host_leds (clear_macro_mods s) = host_leds s"
  "clock (clear_macro_mods s) = clock s"
  by (simp_all add: clear_macro_mods_def)

lemma clear_keys_util [simp]:
  "real_mods (clear_keys s) = real_mods s"
  "weak_mods (clear_keys s) = weak_mods s"
  "macro_mods (clear_keys s) = macro_mods s"
  "oneshot_mods (clear_keys s) = oneshot_mods s"
  "oneshot_locked_mods (clear_keys s) = oneshot_locked_mods s"
  "oneshot_layer_data (clear_keys s) = oneshot_layer_data s"
  "oneshot_layer_time (clear_keys s) = oneshot_layer_time s"
  "swap_hands_oneshot (clear_keys s) = swap_hands_oneshot s"
  "oneshot_swaphands_time (clear_keys s) = oneshot_swaphands_time s"
  "host_driver (clear_keys s) = host_driver s"
  "keyboard_protocol (clear_keys s) = keyboard_protocol s"
  "keymap_config (clear_keys s) = keymap_config s"
  "host_leds (clear_keys s) = host_leds s"
  "clock (clear_keys s) = clock s"
  by (simp_all add: clear_keys_def)

lemma clear_keyboard_but_mods_and_keys_util [simp]:
  "real_mods (clear_keyboard_but_mods_and_keys c s) = real_mods s"
  "oneshot_locked_mods (clear_keyboard_but_mods_and_keys c s) = oneshot_locked_mods s"
  "oneshot_layer_data (clear_keyboard_but_mods_and_keys c s) = oneshot_layer_data s"
  "oneshot_layer_time (clear_keyboard_but_mods_and_keys c s) = oneshot_layer_time s"
  "swap_hands_oneshot (clear_keyboard_but_mods_and_keys c s) = swap_hands_oneshot s"
  "oneshot_swaphands_time (clear_keyboard_but_mods_and_keys c s) = oneshot_swaphands_time s"
  "host_driver (clear_keyboard_but_mods_and_keys c s) = host_driver s"
  "keyboard_protocol (clear_keyboard_but_mods_and_keys c s) = keyboard_protocol s"
  "keymap_config (clear_keyboard_but_mods_and_keys c s) = keymap_config s"
  "host_leds (clear_keyboard_but_mods_and_keys c s) = host_leds s"
  "clock (clear_keyboard_but_mods_and_keys c s) = clock s"
  by (simp_all add: clear_keyboard_but_mods_and_keys_def)

lemma clear_keyboard_but_mods_util [simp]:
  "real_mods (clear_keyboard_but_mods c s) = real_mods s"
  "oneshot_locked_mods (clear_keyboard_but_mods c s) = oneshot_locked_mods s"
  "oneshot_layer_data (clear_keyboard_but_mods c s) = oneshot_layer_data s"
  "oneshot_layer_time (clear_keyboard_but_mods c s) = oneshot_layer_time s"
  "swap_hands_oneshot (clear_keyboard_but_mods c s) = swap_hands_oneshot s"
  "oneshot_swaphands_time (clear_keyboard_but_mods c s) = oneshot_swaphands_time s"
  "host_driver (clear_keyboard_but_mods c s) = host_driver s"
  "keyboard_protocol (clear_keyboard_but_mods c s) = keyboard_protocol s"
  "keymap_config (clear_keyboard_but_mods c s) = keymap_config s"
  "host_leds (clear_keyboard_but_mods c s) = host_leds s"
  "clock (clear_keyboard_but_mods c s) = clock s"
  by (simp_all add: clear_keyboard_but_mods_def)

lemma nkro_clearing [simp]:
  "nkro (host_system_send u s) = nkro s" "nkro (host_consumer_send u s) = nkro s"
  "nkro (clear_weak_mods s) = nkro s" "nkro (clear_macro_mods s) = nkro s"
  "nkro (clear_keys s) = nkro s"
  by (simp_all add: nkro_def)

lemma effects_sends:
  "\<exists>es. effects (host_system_send u s) = effects s @ es"
  "\<exists>es. effects (host_consumer_send u s) = effects s @ es"
  by (simp_all add: host_system_send_def host_consumer_send_def Let_def emit_def)

end
