(* ===== verification/Action_Code.thy ===== *)
theory Action_Code
  imports Firmware_Config
begin

text \<open>
  \<^verbatim>\<open>quantum/action_code.h\<close> and \<^verbatim>\<open>quantum/keymap_common.c\<close>: the 16-bit action codes, the keycode
  constructors of \<^verbatim>\<open>quantum/quantum_keycodes.h\<close>, and the translation of a keycode to an action.
  \<^verbatim>\<open>action_t\<close> is a union of the code with several bit-field structures; the model is the code, and
  each bit field is a function of it (fields are allocated from bit 0 up, as the comment in the
  source assumes).  The parameters of the \<^verbatim>\<open>ACTION_\<close> macros are \<open>int\<close> expressions that are cut to
  16 bits when the code is stored; the model computes them at 16 bits.
\<close>

type_synonym action_t = u16

definition bitfield :: "nat \<Rightarrow> nat \<Rightarrow> 'a::len word \<Rightarrow> 'a word" where
  "bitfield lo n w = take_bit n (drop_bit lo w)"

section \<open>Bit fields of an action\<close>

definition kind_id :: "action_t \<Rightarrow> u8" where "kind_id a = ucast (bitfield 12 4 a)"
definition key_code :: "action_t \<Rightarrow> u8" where "key_code a = ucast (bitfield 0 8 a)"
definition key_mods :: "action_t \<Rightarrow> u8" where "key_mods a = ucast (bitfield 8 4 a)"
definition bitop_bits :: "action_t \<Rightarrow> u8" where "bitop_bits a = ucast (bitfield 0 4 a)"
definition bitop_xbit :: "action_t \<Rightarrow> bool" where "bitop_xbit a = bit a 4"
definition bitop_part :: "action_t \<Rightarrow> u8" where "bitop_part a = ucast (bitfield 5 3 a)"
definition bitop_on :: "action_t \<Rightarrow> u8" where "bitop_on a = ucast (bitfield 8 2 a)"
definition bitop_op :: "action_t \<Rightarrow> u8" where "bitop_op a = ucast (bitfield 10 2 a)"
definition layer_mods_mods :: "action_t \<Rightarrow> u8" where "layer_mods_mods a = ucast (bitfield 0 8 a)"
definition layer_mods_layer :: "action_t \<Rightarrow> u8" where "layer_mods_layer a = ucast (bitfield 8 4 a)"
definition layer_tap_code :: "action_t \<Rightarrow> u8" where "layer_tap_code a = ucast (bitfield 0 8 a)"
definition layer_tap_val :: "action_t \<Rightarrow> u8" where "layer_tap_val a = ucast (bitfield 8 5 a)"
definition usage_code :: "action_t \<Rightarrow> u16" where "usage_code a = bitfield 0 10 a"
definition usage_page :: "action_t \<Rightarrow> u8" where "usage_page a = ucast (bitfield 10 2 a)"
definition func_id :: "action_t \<Rightarrow> u8" where "func_id a = ucast (bitfield 0 8 a)"
definition func_opt :: "action_t \<Rightarrow> u8" where "func_opt a = ucast (bitfield 8 4 a)"
definition swap_code :: "action_t \<Rightarrow> u8" where "swap_code a = ucast (bitfield 0 8 a)"

section \<open>The macros that build an action\<close>

abbreviation (input) ACTION_NO :: action_t where "ACTION_NO \<equiv> 0"
abbreviation (input) ACTION_TRANSPARENT :: action_t where "ACTION_TRANSPARENT \<equiv> 1"

definition ACTION :: "u16 \<Rightarrow> u16 \<Rightarrow> action_t" where
  "ACTION k p = push_bit 12 k OR p"

definition ACTION_KEY :: "u16 \<Rightarrow> action_t" where
  "ACTION_KEY k = ACTION ACT_MODS k"

definition ACTION_MODS_KEY :: "u16 \<Rightarrow> u16 \<Rightarrow> action_t" where
  "ACTION_MODS_KEY m k = ACTION ACT_MODS (push_bit 8 (m AND 0x1F) OR k)"

definition ACTION_MODS_TAP_KEY :: "u16 \<Rightarrow> u16 \<Rightarrow> action_t" where
  "ACTION_MODS_TAP_KEY m k = ACTION ACT_MODS_TAP (push_bit 8 (m AND 0x1F) OR k)"

definition ACTION_MODS_ONESHOT :: "u16 \<Rightarrow> action_t" where
  "ACTION_MODS_ONESHOT m = ACTION ACT_MODS_TAP (push_bit 8 (m AND 0x1F) OR MODS_ONESHOT)"

definition ACTION_USAGE_SYSTEM :: "u16 \<Rightarrow> action_t" where
  "ACTION_USAGE_SYSTEM i = ACTION ACT_USAGE (push_bit 10 PAGE_SYSTEM OR i)"

definition ACTION_USAGE_CONSUMER :: "u16 \<Rightarrow> action_t" where
  "ACTION_USAGE_CONSUMER i = ACTION ACT_USAGE (push_bit 10 PAGE_CONSUMER OR i)"

definition ACTION_LAYER_BITOP :: "u16 \<Rightarrow> u16 \<Rightarrow> u16 \<Rightarrow> u16 \<Rightarrow> action_t" where
  "ACTION_LAYER_BITOP op part bits on =
     ACTION ACT_LAYER (push_bit 10 op OR push_bit 8 on OR push_bit 5 part OR (bits AND 0x1F))"

definition ACTION_LAYER_TAP :: "u16 \<Rightarrow> u16 \<Rightarrow> action_t" where
  "ACTION_LAYER_TAP layer k = ACTION ACT_LAYER_TAP (push_bit 8 layer OR k)"

definition layer_part :: "u16 \<Rightarrow> u16" where "layer_part layer = layer div 4"
definition layer_bits :: "u16 \<Rightarrow> u16" where "layer_bits layer = push_bit (unat (layer mod 4)) 1"

definition ACTION_DEFAULT_LAYER_SET :: "u16 \<Rightarrow> action_t" where
  "ACTION_DEFAULT_LAYER_SET layer =
     ACTION_LAYER_BITOP OP_BIT_SET (layer_part layer) (layer_bits layer) 0"

definition ACTION_LAYER_SET :: "u16 \<Rightarrow> u16 \<Rightarrow> action_t" where
  "ACTION_LAYER_SET layer on =
     ACTION_LAYER_BITOP OP_BIT_SET (layer_part layer) (layer_bits layer) on"

definition ACTION_LAYER_TOGGLE :: "u16 \<Rightarrow> action_t" where
  "ACTION_LAYER_TOGGLE layer =
     ACTION_LAYER_BITOP OP_BIT_XOR (layer_part layer) (layer_bits layer) ON_RELEASE"

definition ACTION_LAYER_MOMENTARY :: "u16 \<Rightarrow> action_t" where
  "ACTION_LAYER_MOMENTARY layer = ACTION_LAYER_TAP layer OP_ON_OFF"

definition ACTION_LAYER_ONESHOT :: "u16 \<Rightarrow> action_t" where
  "ACTION_LAYER_ONESHOT layer = ACTION_LAYER_TAP layer OP_ONESHOT"

definition ACTION_LAYER_TAP_TOGGLE :: "u16 \<Rightarrow> action_t" where
  "ACTION_LAYER_TAP_TOGGLE layer = ACTION_LAYER_TAP layer OP_TAP_TOGGLE"

definition ACTION_LAYER_MODS :: "u16 \<Rightarrow> u16 \<Rightarrow> action_t" where
  "ACTION_LAYER_MODS layer m = ACTION ACT_LAYER_MODS (push_bit 8 layer OR m)"

definition ACTION_MACRO :: "u16 \<Rightarrow> action_t" where
  "ACTION_MACRO i = ACTION ACT_MACRO i"

definition ACTION_MACRO_TAP :: "u16 \<Rightarrow> action_t" where
  "ACTION_MACRO_TAP i = ACTION ACT_MACRO (push_bit 8 FUNC_TAP OR i)"

section \<open>The macros that build a keycode\<close>

definition LT :: "u16 \<Rightarrow> u16 \<Rightarrow> u16" where
  "LT layer kc = QK_LAYER_TAP OR push_bit 8 (layer AND 0xF) OR (kc AND 0xFF)"

definition MT :: "u16 \<Rightarrow> u16 \<Rightarrow> u16" where
  "MT m kc = QK_MOD_TAP OR push_bit 8 (m AND 0x1F) OR (kc AND 0xFF)"

definition TO :: "u16 \<Rightarrow> u16" where
  "TO layer = QK_TO OR push_bit 4 ON_PRESS OR (layer AND 0xFF)"

definition MO :: "u16 \<Rightarrow> u16" where "MO layer = QK_MOMENTARY OR (layer AND 0xFF)"
definition DF :: "u16 \<Rightarrow> u16" where "DF layer = QK_DEF_LAYER OR (layer AND 0xFF)"
definition TG :: "u16 \<Rightarrow> u16" where "TG layer = QK_TOGGLE_LAYER OR (layer AND 0xFF)"
definition OSL :: "u16 \<Rightarrow> u16" where "OSL layer = QK_ONE_SHOT_LAYER OR (layer AND 0xFF)"
definition TT :: "u16 \<Rightarrow> u16" where "TT layer = QK_LAYER_TAP_TOGGLE OR (layer AND 0xFF)"
definition OSM :: "u16 \<Rightarrow> u16" where "OSM m = QK_ONE_SHOT_MOD OR (m AND 0xFF)"

definition LM :: "u16 \<Rightarrow> u16 \<Rightarrow> u16" where
  "LM layer m = QK_LAYER_MOD OR push_bit 4 (layer AND 0xF) OR (m AND 0xF)"

section \<open>From keycode to action\<close>

definition between :: "u16 \<Rightarrow> u16 \<Rightarrow> u16 \<Rightarrow> bool" where
  "between lo hi k \<longleftrightarrow> lo \<le> k \<and> k \<le> hi"

definition action_for_keycode :: "'s config \<Rightarrow> keymap_config_t \<Rightarrow> u16 \<Rightarrow> action_t" where
  "action_for_keycode c cfg keycode =
     (let keycode = keycode_config cfg keycode in
      if between KC_A KC_EXSEL keycode \<or> between KC_LEFT_CTRL KC_RIGHT_GUI keycode
        then ACTION_KEY keycode
      else if between KC_SYSTEM_POWER KC_SYSTEM_WAKE keycode
        then ACTION_USAGE_SYSTEM (KEYCODE2SYSTEM (ucast keycode))
      else if between KC_AUDIO_MUTE KC_BRIGHTNESS_DOWN keycode
        then ACTION_USAGE_CONSUMER (KEYCODE2CONSUMER (ucast keycode))
      else if keycode = KC_TRANSPARENT then ACTION_TRANSPARENT
      else if between QK_MODS QK_MODS_MAX keycode
        then ACTION_MODS_KEY (drop_bit 8 keycode) (keycode AND 0xFF)
      else if between KC_FN0 KC_FN31 keycode
        then keymap_function_id_to_action c (keycode - KC_FN0)
      else if between QK_FUNCTION QK_FUNCTION_MAX keycode
        then keymap_function_id_to_action c (keycode AND 0xFFF)
      else if between QK_MACRO QK_MACRO_MAX keycode
        then (if keycode AND 0x800 \<noteq> 0 then ACTION_MACRO_TAP (keycode AND 0xFF)
              else ACTION_MACRO (keycode AND 0xFF))
      else if between QK_LAYER_TAP QK_LAYER_TAP_MAX keycode
        then ACTION_LAYER_TAP (drop_bit 8 keycode AND 0xF) (keycode AND 0xFF)
      else if between QK_TO QK_TO_MAX keycode
        then ACTION_LAYER_SET (keycode AND 0xF) (drop_bit 4 keycode AND 0x3)
      else if between QK_MOMENTARY QK_MOMENTARY_MAX keycode
        then ACTION_LAYER_MOMENTARY (keycode AND 0xFF)
      else if between QK_DEF_LAYER QK_DEF_LAYER_MAX keycode
        then ACTION_DEFAULT_LAYER_SET (keycode AND 0xFF)
      else if between QK_TOGGLE_LAYER QK_TOGGLE_LAYER_MAX keycode
        then ACTION_LAYER_TOGGLE (keycode AND 0xFF)
      else if between QK_ONE_SHOT_LAYER QK_ONE_SHOT_LAYER_MAX keycode
        then ACTION_LAYER_ONESHOT (keycode AND 0xFF)
      else if between QK_ONE_SHOT_MOD QK_ONE_SHOT_MOD_MAX keycode
        then ACTION_MODS_ONESHOT (ucast (mod_config cfg (ucast (keycode AND 0xFF))))
      else if between QK_LAYER_TAP_TOGGLE QK_LAYER_TAP_TOGGLE_MAX keycode
        then ACTION_LAYER_TAP_TOGGLE (keycode AND 0xFF)
      else if between QK_LAYER_MOD QK_LAYER_MOD_MAX keycode
        then ACTION_LAYER_MODS (drop_bit 4 keycode AND 0xF)
               (ucast (mod_config cfg (ucast (keycode AND 0xF))))
      else if between QK_MOD_TAP QK_MOD_TAP_MAX keycode
        then ACTION_MODS_TAP_KEY
               (ucast (mod_config cfg (ucast (drop_bit 8 keycode AND 0x1F)))) (keycode AND 0xFF)
      else if SWAP_HANDS_ENABLE c \<and> between QK_SWAP_HANDS QK_SWAP_HANDS_MAX keycode
        then ACTION ACT_SWAP_HANDS (keycode AND 0xFF)
      else ACTION_NO)"

definition action_for_key :: "'s config \<Rightarrow> keymap_config_t \<Rightarrow> u8 \<Rightarrow> keypos_t \<Rightarrow> action_t" where
  "action_for_key c cfg layer k = action_for_keycode c cfg (keymap_key_to_keycode c layer k)"

section \<open>Codes as numbers\<close>

lemma unat_and_low:
  fixes x :: "'a::len word"
  assumes "m = mask n"
  shows "unat (x AND m) = unat x mod 2 ^ n"
proof -
  have "x AND m = take_bit n x" by (simp add: assms take_bit_eq_mask)
  then have "unat (x AND m) = take_bit n (unat x)" by (simp only: unsigned_take_bit_eq)
  then show ?thesis by (simp only: take_bit_eq_mod)
qed

lemma unat_and_low_16 [simp]:
  "unat (x AND 0xFFF :: u16) = unat x mod 4096" "unat (x AND 0xFF :: u16) = unat x mod 256"
  "unat (x AND 0x1F :: u16) = unat x mod 32" "unat (x AND 0xF :: u16) = unat x mod 16"
  "unat (x AND 3 :: u16) = unat x mod 4"
  using unat_and_low [of "0xFFF :: u16" 12 x] unat_and_low [of "0xFF :: u16" 8 x]
    unat_and_low [of "0x1F :: u16" 5 x] unat_and_low [of "0xF :: u16" 4 x]
    unat_and_low [of "3 :: u16" 2 x]
  by (simp_all add: mask_eq_exp_minus_1)

lemma unat_or_push:
  fixes a b :: "'a::len word"
  assumes "unat b < 2 ^ n" "unat a * 2 ^ n + unat b < 2 ^ LENGTH('a)"
  shows "unat (push_bit n a OR b) = unat a * 2 ^ n + unat b"
proof -
  have push: "unat (push_bit n a) = unat a * 2 ^ n"
  proof -
    have "unat (push_bit n a) = take_bit LENGTH('a) (push_bit n (unat a))"
      by (rule unsigned_push_bit_eq)
    also have "\<dots> = push_bit n (unat a)"
      using assms(2) by (intro take_bit_nat_eq_self) (simp add: push_bit_eq_mult)
    finally show ?thesis by (simp only: push_bit_eq_mult)
  qed
  have "push_bit n a AND b = 0"
  proof (rule bit_word_eqI)
    fix i
    have "unat (take_bit n b) = unat b"
      unfolding unsigned_take_bit_eq using assms(1) by (rule take_bit_nat_eq_self)
    then have "take_bit n b = b" by (simp only: word_unat_eq_iff)
    then have "bit b i \<Longrightarrow> i < n" by (metis bit_take_bit_iff)
    then show "bit (push_bit n a AND b) i = bit 0 i" by (auto simp: bit_and_iff bit_push_bit_iff)
  qed
  then have or: "push_bit n a OR b = push_bit n a + b" by (rule disjunctive_add_eq_or [symmetric])
  have "unat (push_bit n a) + unat b < 2 ^ LENGTH('a)" unfolding push by (rule assms(2))
  then have "unat (push_bit n a + b) = unat (push_bit n a) + unat b" by (simp only: unat_add_lem)
  then show ?thesis unfolding or push .
qed

lemma between_unat:
  "between lo hi k \<longleftrightarrow> unat lo \<le> unat k \<and> unat k \<le> unat hi"
  by (simp add: between_def word_le_nat_alt)

lemma keycode_config_high:
  assumes "256 \<le> unat k"
  shows "keycode_config cfg k = k"
proof -
  have "k \<noteq> x" if "unat x < 256" for x using that assms by auto
  then show ?thesis by (simp add: keycode_config_def)
qed

text \<open>The fields of a code.\<close>

lemma unat_bitfield: "unat (bitfield lo n a) = unat a div 2 ^ lo mod 2 ^ n"
  unfolding bitfield_def unsigned_take_bit_eq unat_drop_bit_eq
  by (simp only: take_bit_eq_mod drop_bit_eq_div)

lemma unat_ucast_bitfield:
  "n \<le> 8 \<Longrightarrow> unat (ucast (bitfield lo n (a :: u16)) :: u8) = unat a div 2 ^ lo mod 2 ^ n"
proof -
  assume n: "n \<le> 8"
  have "unat a div 2 ^ lo mod 2 ^ n < 2 ^ n" by simp
  also have "(2 :: nat) ^ n \<le> 2 ^ 8" using n by (intro power_increasing) simp_all
  finally have small: "unat a div 2 ^ lo mod 2 ^ n < 2 ^ 8" .
  have "unat (ucast (bitfield lo n a) :: u8) = take_bit LENGTH(8) (unat (bitfield lo n a))"
    by (rule unsigned_ucast_eq)
  also have "\<dots> = unat a div 2 ^ lo mod 2 ^ n"
    unfolding unat_bitfield using small by (intro take_bit_nat_eq_self) simp
  finally show ?thesis .
qed

lemmas field_unat =
  unat_ucast_bitfield [of 4 12, simplified] unat_ucast_bitfield [of 8 0, simplified]
  unat_ucast_bitfield [of 4 8, simplified] unat_ucast_bitfield [of 4 0, simplified]
  unat_ucast_bitfield [of 3 5, simplified] unat_ucast_bitfield [of 2 8, simplified]
  unat_ucast_bitfield [of 2 10, simplified] unat_ucast_bitfield [of 5 8, simplified]

lemma unat_kind_id: "unat (kind_id a) = unat a div 4096"
proof -
  have "unat a < 65536" using unsigned_less [of a] by simp
  then show ?thesis by (simp add: kind_id_def field_unat)
qed

lemma unat_fields:
  "unat (key_code a) = unat a mod 256" "unat (key_mods a) = unat a div 256 mod 16"
  "unat (layer_tap_code a) = unat a mod 256" "unat (layer_tap_val a) = unat a div 256 mod 32"
  "unat (layer_mods_mods a) = unat a mod 256" "unat (layer_mods_layer a) = unat a div 256 mod 16"
  "unat (bitop_bits a) = unat a mod 16" "unat (bitop_part a) = unat a div 32 mod 8"
  "unat (bitop_on a) = unat a div 256 mod 4" "unat (bitop_op a) = unat a div 1024 mod 4"
  by (simp_all add: key_code_def key_mods_def layer_tap_code_def layer_tap_val_def
      layer_mods_mods_def layer_mods_layer_def bitop_bits_def bitop_part_def bitop_on_def
      bitop_op_def field_unat)

text \<open>An \<^verbatim>\<open>|\<close> of parts that do not overlap is a sum.\<close>

lemma unat_or_low:
  fixes a b :: "'a::len word"
  assumes "unat b < 2 ^ n" "unat a mod 2 ^ n = 0"
  shows "unat (a OR b) = unat a + unat b"
proof -
  have a: "unat (drop_bit n a) * 2 ^ n = unat a"
    unfolding unat_drop_bit_eq unfolding drop_bit_eq_div
    using div_mult_mod_eq [of "unat a" "2 ^ n"] assms(2) by simp
  have "push_bit n (drop_bit n a) = a"
  proof (rule iffD2 [OF word_unat_eq_iff])
    have "unat (push_bit n (drop_bit n a)) = take_bit LENGTH('a) (push_bit n (unat (drop_bit n a)))"
      by (rule unsigned_push_bit_eq)
    also have "\<dots> = unat a"
      unfolding push_bit_eq_mult a by (rule take_bit_nat_eq_self) (rule unsigned_less)
    finally show "unat (push_bit n (drop_bit n a)) = unat a" .
  qed
  moreover have "unat (drop_bit n a) * 2 ^ n + unat b < 2 ^ LENGTH('a)"
  proof (cases "n < LENGTH('a)")
    case True
    define q where "q = unat (drop_bit n a)"
    have q: "unat a = 2 ^ n * q" unfolding q_def by (subst mult.commute) (rule a [symmetric])
    define d where "d = LENGTH('a) - n"
    have d: "LENGTH('a) = n + d" unfolding d_def using True by simp
    have "unat a < 2 ^ LENGTH('a)" by (rule unsigned_less)
    then have "2 ^ n * q < (2 :: nat) ^ n * 2 ^ d" unfolding q d power_add .
    then have "q < 2 ^ d" by simp
    then have "2 ^ n * Suc q \<le> (2 :: nat) ^ n * 2 ^ d" by (intro mult_le_mono2) simp
    moreover have "2 ^ n * q + unat b < 2 ^ n * Suc q"
      unfolding mult_Suc_right using assms(1) by simp
    ultimately have "2 ^ n * q + unat b < 2 ^ n * 2 ^ d" by (rule less_le_trans [rotated])
    then show ?thesis unfolding a unfolding q d power_add .
  next
    case False
    have "unat a < 2 ^ LENGTH('a)" by (rule unsigned_less)
    also have "(2 :: nat) ^ LENGTH('a) \<le> 2 ^ n" using False by (intro power_increasing) simp_all
    finally have "unat a = 0" using assms(2) by simp
    then show ?thesis unfolding a by simp
  qed
  ultimately show ?thesis using unat_or_push [OF assms(1), of "drop_bit n a"] a by metis
qed

subsection \<open>The keycode constructors\<close>

lemma unat_push: "unat a * 2 ^ n < 2 ^ LENGTH('a) \<Longrightarrow> unat (push_bit n (a :: 'a::len word)) = unat a * 2 ^ n"
  using unat_or_push [of 0 n a] by simp

lemma unat_LT: "unat (LT l k) = 0x4000 + (unat l mod 16 * 256 + unat k mod 256)"
proof -
  have "unat (push_bit 8 (l AND 0xF) OR (k AND 0xFF)) = unat l mod 16 * 256 + unat k mod 256"
    using unat_or_push [of "k AND 0xFF" 8 "l AND 0xF"] by (simp del: push_bit_and)
  then show ?thesis
    unfolding LT_def by (subst unat_or_low [of _ 12]) simp_all
qed

lemma unat_MT: "unat (MT m k) = 0x6000 + (unat m mod 32 * 256 + unat k mod 256)"
proof -
  have "unat (push_bit 8 (m AND 0x1F) OR (k AND 0xFF)) = unat m mod 32 * 256 + unat k mod 256"
    using unat_or_push [of "k AND 0xFF" 8 "m AND 0x1F"] by (simp del: push_bit_and)
  then show ?thesis
    unfolding MT_def by (subst unat_or_low [of _ 13]) simp_all
qed

lemma unat_LM: "unat (LM l m) = 0x5900 + (unat l mod 16 * 16 + unat m mod 16)"
proof -
  have "unat (push_bit 4 (l AND 0xF) OR (m AND 0xF)) = unat l mod 16 * 16 + unat m mod 16"
    using unat_or_push [of "m AND 0xF" 4 "l AND 0xF"] by (simp del: push_bit_and)
  then show ?thesis
    unfolding LM_def by (subst unat_or_low [of _ 8]) simp_all
qed

lemma unat_layer_keycodes:
  "unat (MO l) = 0x5100 + unat l mod 256" "unat (DF l) = 0x5200 + unat l mod 256"
  "unat (TG l) = 0x5300 + unat l mod 256" "unat (OSL l) = 0x5400 + unat l mod 256"
  "unat (OSM l) = 0x5500 + unat l mod 256" "unat (TT l) = 0x5800 + unat l mod 256"
  unfolding MO_def DF_def TG_def OSL_def OSM_def TT_def
  by (subst unat_or_low [of _ 8]; simp)+

lemma unat_TO: "unat (TO (l AND 0xF)) = 0x5010 + unat l mod 16"
proof -
  have eq: "TO (l AND 0xF) = 0x5010 OR (l AND 0xF)"
    unfolding TO_def by (simp add: and.assoc flip: or.assoc)
  show ?thesis unfolding eq by (subst unat_or_low [of _ 4]) simp_all
qed

subsection \<open>The action constructors\<close>

lemma unat_ACTION:
  "unat k < 16 \<Longrightarrow> unat p < 4096 \<Longrightarrow> unat (ACTION k p) = unat k * 4096 + unat p"
  unfolding ACTION_def by (subst unat_or_push) simp_all

lemma unat_code_pair:
  "unat k < 256 \<Longrightarrow> unat m < 256 \<Longrightarrow>
   unat (push_bit 8 (m :: u16) OR k) = unat m * 256 + unat k"
  by (subst unat_or_push) simp_all

lemma unat_ACTION_LAYER_TAP:
  assumes "unat l < 32" "unat k < 256"
  shows "unat (ACTION_LAYER_TAP l k) = 0xA000 + (unat l * 256 + unat k)"
proof -
  have p: "unat (push_bit 8 l OR k) = unat l * 256 + unat k"
    using assms by (intro unat_code_pair) simp_all
  have "ACTION_LAYER_TAP l k = 0xA000 OR (push_bit 8 l OR k)"
    by (simp add: ACTION_LAYER_TAP_def ACTION_def)
  then show ?thesis using p assms by (simp only:, subst unat_or_low [of _ 13]) simp_all
qed

lemma unat_ACTION_MODS_TAP_KEY:
  assumes "unat k < 256"
  shows "unat (ACTION_MODS_TAP_KEY m k) = 0x2000 + (unat m mod 32 * 256 + unat k)"
proof -
  have p: "unat (push_bit 8 (m AND 0x1F) OR k) = unat m mod 32 * 256 + unat k"
    using assms unat_code_pair [of k "m AND 0x1F"] by (simp del: push_bit_and)
  have "ACTION_MODS_TAP_KEY m k = 0x2000 OR (push_bit 8 (m AND 0x1F) OR k)"
    by (simp add: ACTION_MODS_TAP_KEY_def ACTION_def)
  then show ?thesis using p assms by (simp only:, subst unat_or_low [of _ 13]) simp_all
qed

lemma unat_ACTION_LAYER_BITOP:
  assumes "unat op < 4" "unat part < 8" "unat bits < 32" "unat on < 4"
  shows "unat (ACTION_LAYER_BITOP op part bits on) =
    0x8000 + (unat op * 1024 + (unat on * 256 + (unat part * 32 + unat bits)))"
proof -
  have bits: "unat (bits AND 0x1F) = unat bits" using assms(3) by simp
  have 1: "unat (push_bit 5 part OR (bits AND 0x1F)) = unat part * 32 + unat bits"
    using assms unat_or_push [of "bits AND 0x1F" 5 part] unfolding bits by simp
  have 2: "unat (push_bit 8 on OR (push_bit 5 part OR (bits AND 0x1F))) =
      unat on * 256 + (unat part * 32 + unat bits)"
    using assms unat_or_push [of "push_bit 5 part OR (bits AND 0x1F)" 8 on] unfolding 1 by simp
  have 3: "unat (push_bit 10 op OR (push_bit 8 on OR (push_bit 5 part OR (bits AND 0x1F)))) =
      unat op * 1024 + (unat on * 256 + (unat part * 32 + unat bits))"
    using assms unat_or_push [of "push_bit 8 on OR (push_bit 5 part OR (bits AND 0x1F))" 10 op]
    unfolding 2 by simp
  show ?thesis
    unfolding ACTION_LAYER_BITOP_def using assms
    by (subst unat_ACTION) (simp_all only: 3, simp_all)
qed

subsection \<open>One equation per keycode range\<close>

lemma action_for_high_keycode:
  assumes "0x100 \<le> unat k"
  shows "action_for_keycode c cfg k =
   (let u = unat k in
    if u < 0x2000 then ACTION_MODS_KEY (drop_bit 8 k) (k AND 0xFF)
    else if u < 0x3000 then keymap_function_id_to_action c (k AND 0xFFF)
    else if u < 0x4000 then (if k AND 0x800 \<noteq> 0 then ACTION_MACRO_TAP (k AND 0xFF)
                             else ACTION_MACRO (k AND 0xFF))
    else if u < 0x5000 then ACTION_LAYER_TAP (drop_bit 8 k AND 0xF) (k AND 0xFF)
    else if u < 0x5100 then ACTION_LAYER_SET (k AND 0xF) (drop_bit 4 k AND 0x3)
    else if u < 0x5200 then ACTION_LAYER_MOMENTARY (k AND 0xFF)
    else if u < 0x5300 then ACTION_DEFAULT_LAYER_SET (k AND 0xFF)
    else if u < 0x5400 then ACTION_LAYER_TOGGLE (k AND 0xFF)
    else if u < 0x5500 then ACTION_LAYER_ONESHOT (k AND 0xFF)
    else if u < 0x5600 then ACTION_MODS_ONESHOT (ucast (mod_config cfg (ucast (k AND 0xFF))))
    else if u < 0x5700 then
      (if SWAP_HANDS_ENABLE c then ACTION ACT_SWAP_HANDS (k AND 0xFF) else ACTION_NO)
    else if u < 0x5800 then ACTION_NO
    else if u < 0x5900 then ACTION_LAYER_TAP_TOGGLE (k AND 0xFF)
    else if u < 0x5A00 then ACTION_LAYER_MODS (drop_bit 4 k AND 0xF)
               (ucast (mod_config cfg (ucast (k AND 0xF))))
    else if u < 0x6000 then ACTION_NO
    else if u < 0x8000 then ACTION_MODS_TAP_KEY
               (ucast (mod_config cfg (ucast (drop_bit 8 k AND 0x1F)))) (k AND 0xFF)
    else ACTION_NO)"
proof -
  define u where "u = unat k"
  have k1: "k \<noteq> KC_TRANSPARENT" using assms by auto
  have b: "between lo hi k \<longleftrightarrow> unat lo \<le> u \<and> u \<le> unat hi" for lo hi
    by (simp add: between_unat u_def)
  have cfg: "keycode_config cfg k = k" using assms by (simp add: keycode_config_high)
  have u: "0x100 \<le> u" using assms by (simp add: u_def)
  show ?thesis
    unfolding action_for_keycode_def cfg Let_def b u_def [symmetric] using k1 u
    by simp
qed

section \<open>What the keycodes mean\<close>

lemma unat_ucast_8: "unat (ucast (x :: u16) :: u8) = unat x mod 256"
proof -
  have "unat (ucast x :: u8) = take_bit LENGTH(8) (unat x)" by (rule unsigned_ucast_eq)
  then show ?thesis by (simp add: take_bit_eq_mod)
qed

lemma unat_ucast_wider:
  fixes x :: "'a::len word"
  assumes "LENGTH('a) \<le> LENGTH('b::len)"
  shows "unat (ucast x :: 'b word) = unat x"
proof -
  have "unat (ucast x :: 'b word) = take_bit LENGTH('b) (unat x)" by (rule unsigned_ucast_eq)
  also have "\<dots> = unat x"
  proof (rule take_bit_nat_eq_self)
    have "unat x < 2 ^ LENGTH('a)" by (rule unsigned_less)
    also have "(2 :: nat) ^ LENGTH('a) \<le> 2 ^ LENGTH('b)" using assms by (intro power_increasing) simp_all
    finally show "unat x < 2 ^ LENGTH('b)" .
  qed
  finally show ?thesis .
qed

lemma unat_drop_8: "unat (drop_bit 8 (k :: u16) AND m) = (unat k div 256) AND unat m"
  unfolding unat_and unat_drop_bit_eq unfolding drop_bit_eq_div by simp

lemma nat_and_low: "(x :: nat) AND 15 = x mod 16" "x AND 31 = x mod 32"
  using take_bit_eq_mask [of 4 x] take_bit_eq_mask [of 5 x]
  by (simp_all add: take_bit_eq_mod mask_eq_exp_minus_1)

text \<open>Taking a code apart again: \<open>B\<close> is the part above the high field.\<close>

lemma code_parts:
  fixes b k :: nat
  assumes "k < 256"
  shows "(b * 256 + (m * 256 + k)) div 256 = b + m" "(b * 256 + (m * 256 + k)) mod 256 = k"
    "(b * 256 + (m * 256 + k)) div 4096 = (b + m) div 16"
proof -
  have e: "b * 256 + (m * 256 + k) = (b + m) * 256 + k" by simp
  show 1: "(b * 256 + (m * 256 + k)) div 256 = b + m"
    unfolding e using assms by simp
  show "(b * 256 + (m * 256 + k)) mod 256 = k"
    unfolding e mod_mult_self3 using assms by simp
  have "(b * 256 + (m * 256 + k)) div 4096 = (b * 256 + (m * 256 + k)) div (256 * 16)" by simp
  then show "(b * 256 + (m * 256 + k)) div 4096 = (b + m) div 16"
    unfolding div_mult2_eq 1 .
qed

lemma decode_LT: "action_for_keycode c cfg (LT l k) = ACTION_LAYER_TAP (l AND 0xF) (k AND 0xFF)"
proof -
  define u where "u = unat (LT l k)"
  have u: "u = 0x4000 + (unat l mod 16 * 256 + unat k mod 256)" by (simp add: u_def unat_LT)
  have bounds: "0x4000 \<le> u" "u < 0x5000"
  proof -
    have "unat l mod 16 < 16" "unat k mod 256 < 256" by simp_all
    then show "0x4000 \<le> u" "u < 0x5000" unfolding u by linarith+
  qed
  have "action_for_keycode c cfg (LT l k) =
      ACTION_LAYER_TAP (drop_bit 8 (LT l k) AND 0xF) (LT l k AND 0xFF)"
    using bounds by (subst action_for_high_keycode) (simp_all flip: u_def)
  moreover have "drop_bit 8 (LT l k) AND 0xF = l AND 0xF"
    unfolding word_unat_eq_iff unat_drop_8 unat_LT
    using code_parts(1) [of "unat k mod 256" 64 "unat l mod 16"]
    by (simp add: nat_and_low mod_add_left_eq [of 64, symmetric])
  moreover have "LT l k AND 0xFF = k AND 0xFF"
    using code_parts(2) [of "unat k mod 256" 64 "unat l mod 16"]
    by (simp add: word_unat_eq_iff unat_LT)
  ultimately show ?thesis by simp
qed

lemma tap_kind_arith:
  fixes m :: nat
  shows "(160 + m) div 16 = 10 + m div 16" "(32 + m) div 16 = 2 + m div 16"
    and "m < 32 \<Longrightarrow> (160 + m) mod 32 = m" "(32 + m) mod 16 = m mod 16"
proof -
  show "(160 + m) div 16 = 10 + m div 16" using div_mult_self1 [of 16 m 10] by (simp add: add.commute)
  show "(32 + m) div 16 = 2 + m div 16" using div_mult_self1 [of 16 m 2] by (simp add: add.commute)
  show "m < 32 \<Longrightarrow> (160 + m) mod 32 = m" using mod_mult_self1 [of m 5 32] by (simp add: add.commute)
  show "(32 + m) mod 16 = m mod 16" using mod_mult_self1 [of m 2 16] by (simp add: add.commute)
qed

text \<open>
  A layer-tap keycode \<^verbatim>\<open>LT(l, k)\<close> becomes the layer-tap action of layer \<open>l mod 16\<close> and keycode
  \<open>k mod 256\<close>, under every remapping configuration: nothing else of the two arguments leaks into
  the action.
\<close>

theorem layer_tap_keycode:
  "kind_id (action_for_keycode c cfg (LT l k)) = ACT_LAYER_TAP \<and>
   layer_tap_val (action_for_keycode c cfg (LT l k)) = ucast (l AND 0xF) \<and>
   layer_tap_code (action_for_keycode c cfg (LT l k)) = ucast k"
proof -
  have small: "unat l mod 16 mod 256 = unat l mod 16"
    by (rule mod_less, rule less_trans [of _ 16 256]) simp_all
  have "unat l mod 16 < 16" by simp
  then have s32: "unat l mod 16 < 32" by simp
  then have "unat (ACTION_LAYER_TAP (l AND 0xF) (k AND 0xFF)) =
      0xA000 + (unat l mod 16 * 256 + unat k mod 256)"
    by (subst unat_ACTION_LAYER_TAP) simp_all
  then show ?thesis
    unfolding decode_LT word_unat_eq_iff unat_kind_id unat_fields unat_ucast_8 unat_and_low_16
    using tap_kind_arith(1) [of "unat l mod 16"] tap_kind_arith(3) [OF s32]
    using code_parts [of "unat k mod 256" 160 "unat l mod 16"] small by simp
qed

text \<open>Layer keys: momentary, toggle, default and one-shot layer, for the layers 0 to 31.\<close>

lemma keycode_low_byte:
  fixes k l :: u16
  assumes "unat k = 256 * h + unat l mod 256"
  shows "k AND 0xFF = l AND 0xFF"
  unfolding word_unat_eq_iff unat_and_low_16 assms by simp

lemma decode_layer_keys:
  "action_for_keycode c cfg (MO l) = ACTION_LAYER_TAP (l AND 0xFF) OP_ON_OFF"
  "action_for_keycode c cfg (OSL l) = ACTION_LAYER_TAP (l AND 0xFF) OP_ONESHOT"
  "action_for_keycode c cfg (TT l) = ACTION_LAYER_TAP (l AND 0xFF) OP_TAP_TOGGLE"
  "action_for_keycode c cfg (DF l) = ACTION_DEFAULT_LAYER_SET (l AND 0xFF)"
  "action_for_keycode c cfg (TG l) = ACTION_LAYER_TOGGLE (l AND 0xFF)"
proof -
  have b: "unat l mod 256 < 256" by simp
  have low: "MO l AND 0xFF = l AND 0xFF" "OSL l AND 0xFF = l AND 0xFF" "TT l AND 0xFF = l AND 0xFF"
    "DF l AND 0xFF = l AND 0xFF" "TG l AND 0xFF = l AND 0xFF"
    using keycode_low_byte [of "MO l" "0x51" l] keycode_low_byte [of "OSL l" "0x54" l]
      keycode_low_byte [of "TT l" "0x58" l] keycode_low_byte [of "DF l" "0x52" l]
      keycode_low_byte [of "TG l" "0x53" l]
    by (simp_all add: unat_layer_keycodes)
  show "action_for_keycode c cfg (MO l) = ACTION_LAYER_TAP (l AND 0xFF) OP_ON_OFF"
    by (subst action_for_high_keycode)
      (use b in \<open>simp_all add: unat_layer_keycodes low ACTION_LAYER_MOMENTARY_def Let_def\<close>)
  show "action_for_keycode c cfg (OSL l) = ACTION_LAYER_TAP (l AND 0xFF) OP_ONESHOT"
    by (subst action_for_high_keycode)
      (use b in \<open>simp_all add: unat_layer_keycodes low ACTION_LAYER_ONESHOT_def Let_def\<close>)
  show "action_for_keycode c cfg (TT l) = ACTION_LAYER_TAP (l AND 0xFF) OP_TAP_TOGGLE"
    by (subst action_for_high_keycode)
      (use b in \<open>simp_all add: unat_layer_keycodes low ACTION_LAYER_TAP_TOGGLE_def Let_def\<close>)
  show "action_for_keycode c cfg (DF l) = ACTION_DEFAULT_LAYER_SET (l AND 0xFF)"
    by (subst action_for_high_keycode)
      (use b in \<open>simp_all add: unat_layer_keycodes low Let_def\<close>)
  show "action_for_keycode c cfg (TG l) = ACTION_LAYER_TOGGLE (l AND 0xFF)"
    by (subst action_for_high_keycode)
      (use b in \<open>simp_all add: unat_layer_keycodes low Let_def\<close>)
qed

text \<open>
  The bits that a layer action contributes, as \<^verbatim>\<open>process_action\<close> computes them from its chunk, its
  four bits and its extra bit.
\<close>

definition bitop_value :: "action_t \<Rightarrow> u32" where
  "bitop_value a =
     (let shift = bitop_part a * 4
      in push_bit (unat shift) (ucast (bitop_bits a)) OR
         (if bitop_xbit a then NOT (push_bit (unat shift) 0xF) else 0))"

lemma unat_layer_bits: "unat (layer_bits l) = 2 ^ (unat l mod 4)"
proof -
  have m: "unat (l mod 4) = unat l mod 4" by (simp add: unat_mod_distrib)
  have "unat l mod 4 < 4" by simp
  then have "(2 :: nat) ^ (unat l mod 4) \<le> 2 ^ 4" by (intro power_increasing) simp_all
  then show ?thesis
    unfolding layer_bits_def m using unat_push [of "1 :: u16" "unat l mod 4"] by simp
qed

lemma unat_layer_part: "unat (layer_part l) = unat l div 4"
  by (simp add: layer_part_def unat_div_distrib)

lemma split_low:
  fixes x b d :: nat
  assumes "N = x * d + b" "b < d"
  shows "N div d = x" "N mod d = b"
  using assms by simp_all

lemma bitop_arith:
  fixes op on p b :: nat
  assumes b: "b < 16" and p: "p < 8" and on: "on < 4" and op: "op < 4"
  defines "N \<equiv> 0x8000 + (op * 1024 + (on * 256 + (p * 32 + b)))"
  shows "N div 4096 = 8" "N div 1024 mod 4 = op" "N div 256 mod 4 = on" "N div 32 mod 8 = p"
    "N mod 16 = b" "even (N div 16)"
proof -
  have 16: "N div 16 = 0x800 + (op * 64 + (on * 16 + p * 2))"
    by (rule split_low(1) [OF _ b]) (simp add: N_def)
  show "N mod 16 = b"
    by (rule split_low(2) [of N "0x800 + (op * 64 + (on * 16 + p * 2))"]) (use b in \<open>simp_all add: N_def\<close>)
  show "even (N div 16)" by (simp add: 16)
  have 32: "N div 32 = 0x400 + (op * 32 + (on * 8 + p))"
    by (rule split_low(1) [of _ _ _ b]) (use b in \<open>simp_all add: N_def\<close>)
  show "N div 32 mod 8 = p"
    unfolding 32 by (rule split_low(2) [of _ "0x80 + (op * 4 + on)"]) (use p in simp_all)
  have 256: "N div 256 = 0x80 + (op * 4 + on)"
    by (rule split_low(1) [of _ _ _ "p * 32 + b"]) (use b p in \<open>simp_all add: N_def\<close>)
  show "N div 256 mod 4 = on"
    unfolding 256 by (rule split_low(2) [of _ "0x20 + op"]) (use on in simp_all)
  have 1024: "N div 1024 = 0x20 + op"
    by (rule split_low(1) [of _ _ _ "on * 256 + (p * 32 + b)"]) (use b p on in \<open>simp_all add: N_def\<close>)
  show "N div 1024 mod 4 = op"
    unfolding 1024 by (rule split_low(2) [of _ 8]) (use op in simp_all)
  show "N div 4096 = 8"
    by (rule split_low(1) [of _ _ _ "op * 1024 + (on * 256 + (p * 32 + b))"])
      (use b p on op in \<open>simp_all add: N_def\<close>)
qed

lemma bitop_layer:
  assumes l: "unat l < 32" and op: "unat op < 4" and on: "unat on < 4"
  defines "a \<equiv> ACTION_LAYER_BITOP op (layer_part l) (layer_bits l) on"
  shows "kind_id a = ACT_LAYER" "unat (bitop_on a) = unat on" "unat (bitop_op a) = unat op"
    "bitop_value a = bitmask (unat l)"
proof -
  define b where "b = (2 :: nat) ^ (unat l mod 4)"
  define p where "p = unat l div 4"
  have "unat l mod 4 < 4" by simp
  then have "b \<le> 2 ^ 3" unfolding b_def by (intro power_increasing) simp_all
  then have b: "b < 16" by simp
  have p: "p < 8" using l by (simp add: p_def)
  have N: "unat a = 0x8000 + (unat op * 1024 + (unat on * 256 + (p * 32 + b)))"
    unfolding a_def using op on b p
    by (subst unat_ACTION_LAYER_BITOP) (simp_all add: unat_layer_bits unat_layer_part p_def b_def)
  note arith = bitop_arith [OF b p on op, folded N]
  show "kind_id a = ACT_LAYER"
    unfolding word_unat_eq_iff unat_kind_id arith by simp
  show "unat (bitop_on a) = unat on" "unat (bitop_op a) = unat op"
    unfolding unat_fields arith by (rule refl)+
  have bits: "unat (bitop_bits a) = b" and part: "unat (bitop_part a) = p"
    unfolding unat_fields arith by (rule refl)+
  have xbit: "\<not> bitop_xbit a"
    using arith(6) bit_unat [of a 4] bit_iff_odd [of "unat a" 4] by (simp add: bitop_xbit_def)
  have "unat (bitop_part a) * unat (4 :: u8) < 2 ^ LENGTH(8)" using p unfolding part by simp
  then have "unat (bitop_part a * 4) = unat (bitop_part a) * unat (4 :: u8)"
    by (simp only: unat_mult_lem)
  then have shift: "unat (bitop_part a * 4) = p * 4" unfolding part by simp
  have "unat (ucast (bitop_bits a) :: u32) = b"
    by (subst unat_ucast_wider) (simp_all add: bits)
  then have "of_nat (unat (ucast (bitop_bits a) :: u32)) = (of_nat b :: u32)" by simp
  then have "(ucast (bitop_bits a) :: u32) = 2 ^ (unat l mod 4)"
    unfolding b_def by simp
  then have "bitop_value a = push_bit (p * 4) (2 ^ (unat l mod 4))"
    unfolding bitop_value_def Let_def shift using xbit by simp
  also have "\<dots> = 2 ^ (unat l mod 4 + p * 4)"
    by (simp add: push_bit_eq_mult power_add)
  also have "unat l mod 4 + p * 4 = unat l" unfolding p_def by simp
  finally show "bitop_value a = bitmask (unat l)"
    by (simp add: bitmask_def push_bit_eq_mult)
qed

lemma decode_TO: "action_for_keycode c cfg (TO (l AND 0xF)) = ACTION_LAYER_SET (l AND 0xF) ON_PRESS"
proof -
  define k where "k = TO (l AND 0xF)"
  have u: "unat k = 0x5010 + unat l mod 16" unfolding k_def by (rule unat_TO)
  have x: "unat l mod 16 < 16" by simp
  have "unat k mod 16 = unat l mod 16"
    by (rule split_low(2) [of _ "0x501"]) (simp_all add: u)
  then have 1: "k AND 0xF = l AND 0xF" by (simp add: word_unat_eq_iff)
  have "unat k div 16 = 0x501"
    by (rule split_low(1) [of _ _ _ "unat l mod 16"]) (simp_all add: u)
  then have "unat (drop_bit 4 k) = 0x501"
    unfolding unat_drop_bit_eq unfolding drop_bit_eq_div by simp
  then have 2: "drop_bit 4 k AND 3 = 1" unfolding word_unat_eq_iff unat_and_low_16 by simp
  have "action_for_keycode c cfg k = ACTION_LAYER_SET (k AND 0xF) (drop_bit 4 k AND 3)"
  proof -
    have "0x5000 \<le> unat k" "unat k < 0x5100" using x unfolding u by linarith+
    then show ?thesis by (subst action_for_high_keycode) (simp_all add: Let_def)
  qed
  then have "action_for_keycode c cfg k = ACTION_LAYER_SET (l AND 0xF) ON_PRESS" unfolding 1 2 .
  then show ?thesis unfolding k_def .
qed

text \<open>
  The keycodes \<^verbatim>\<open>DF\<close>, \<^verbatim>\<open>TG\<close> (layers 0 to 31) and \<^verbatim>\<open>TO\<close> (layers 0 to 15) become bitwise layer
  actions whose chunk and four bits denote exactly the one layer named: the operand that
  \<^verbatim>\<open>process_action\<close> computes from the action is \<open>1 << layer\<close>, with the operation and the event of the
  keycode.
\<close>

theorem layer_keycodes_name_their_layer:
  "(let a = action_for_keycode c cfg (DF (l AND 0x1F))
    in kind_id a = ACT_LAYER \<and> bitop_on a = 0 \<and> bitop_op a = OP_BIT_SET \<and>
       bitop_value a = bitmask (unat l mod 32)) \<and>
   (let a = action_for_keycode c cfg (TG (l AND 0x1F))
    in kind_id a = ACT_LAYER \<and> bitop_on a = ON_RELEASE \<and> bitop_op a = OP_BIT_XOR \<and>
       bitop_value a = bitmask (unat l mod 32)) \<and>
   (let a = action_for_keycode c cfg (TO (l AND 0xF))
    in kind_id a = ACT_LAYER \<and> bitop_on a = ON_PRESS \<and> bitop_op a = OP_BIT_SET \<and>
       bitop_value a = bitmask (unat l mod 16))"
proof -
  have l32: "unat ((l AND 0x1F) AND 0xFF) = unat l mod 32"
    unfolding unat_and_low_16 by (rule mod_less, rule less_trans [of _ 32 256]) simp_all
  have b32: "unat ((l AND 0x1F) AND 0xFF) < 32" unfolding l32 by simp
  have b16: "unat (l AND 0xF) < 32" unfolding unat_and_low_16 by (rule less_trans [of _ 16 32]) simp_all
  have l16: "unat (l AND 0xF) = unat l mod 16" by simp
  note D = bitop_layer [OF b32, of OP_BIT_SET 0, unfolded l32]
    and T = bitop_layer [OF b32, of OP_BIT_XOR ON_RELEASE, unfolded l32]
    and O = bitop_layer [OF b16, of OP_BIT_SET ON_PRESS, unfolded l16]
  show ?thesis
    unfolding decode_layer_keys decode_TO ACTION_DEFAULT_LAYER_SET_def ACTION_LAYER_TOGGLE_def
      ACTION_LAYER_SET_def Let_def
    by (intro conjI) (use D T O in \<open>simp_all add: word_unat_eq_iff [of "bitop_on _"]
      word_unat_eq_iff [of "bitop_op _"]\<close>)
qed

lemma decode_MT:
  "action_for_keycode c cfg (MT m k) =
     ACTION_MODS_TAP_KEY (ucast (mod_config cfg (ucast (m AND 0x1F)))) (k AND 0xFF)"
proof -
  define u where "u = unat (MT m k)"
  have u: "u = 96 * 256 + (unat m mod 32 * 256 + unat k mod 256)" by (simp add: u_def unat_MT)
  have parts: "u div 256 = 96 + unat m mod 32" "u mod 256 = unat k mod 256"
    unfolding u by (rule code_parts, simp)+
  have bounds: "0x6000 \<le> u" "u < 0x8000"
  proof -
    have "unat m mod 32 < 32" "unat k mod 256 < 256" by simp_all
    then show "0x6000 \<le> u" "u < 0x8000" unfolding u by linarith+
  qed
  have "action_for_keycode c cfg (MT m k) = ACTION_MODS_TAP_KEY
      (ucast (mod_config cfg (ucast (drop_bit 8 (MT m k) AND 0x1F)))) (MT m k AND 0xFF)"
    using bounds by (subst action_for_high_keycode) (simp_all add: Let_def flip: u_def)
  moreover have "(96 + unat m mod 32) mod 32 = unat m mod 32"
    by (rule split_low(2) [of _ 3]) simp_all
  then have "drop_bit 8 (MT m k) AND 0x1F = m AND 0x1F"
    unfolding word_unat_eq_iff unat_drop_8 u_def [symmetric] parts by (simp add: nat_and_low)
  moreover have "MT m k AND 0xFF = k AND 0xFF"
    unfolding word_unat_eq_iff unat_and_low_16 u_def [symmetric] parts by simp
  ultimately show ?thesis by simp
qed

text \<open>
  A mod-tap keycode \<^verbatim>\<open>MT(m, k)\<close> becomes a mod-tap action with the remapped modifiers, left- or
  right-handed by the fifth bit of the mask, and keycode \<open>k mod 256\<close>.
\<close>

theorem mod_tap_keycode:
  "let m' = mod_config cfg (ucast (m AND 0x1F));
       a = action_for_keycode c cfg (MT m k)
   in kind_id a = (if bit m' 4 then ACT_RMODS_TAP else ACT_LMODS_TAP) \<and>
      key_mods a = m' AND 0xF \<and> key_code a = ucast k"
proof -
  define m' where "m' = mod_config cfg (ucast (m AND 0x1F))"
  define x where "x = unat m' mod 32"
  define a where "a = ACTION_MODS_TAP_KEY (ucast m') (k AND 0xFF)"
  have wide: "unat (ucast m' :: u16) = unat m'" by (rule unat_ucast_wider) simp
  have N: "unat a = 32 * 256 + (x * 256 + unat k mod 256)"
    unfolding a_def x_def by (subst unat_ACTION_MODS_TAP_KEY) (simp_all add: wide)
  have parts: "unat a div 256 = 32 + x" "unat a mod 256 = unat k mod 256"
      "unat a div 4096 = (32 + x) div 16"
    unfolding N by (rule code_parts, simp)+
  have "x div 16 = (if bit m' 4 then 1 else 0)"
  proof -
    have "x = unat m' div 16 mod 2 * 16 + unat m' mod 16"
      unfolding x_def using mod_mult2_eq [of "unat m'" 16 2] by simp
    then have "x div 16 = unat m' div 16 mod 2" by (rule split_low(1)) simp
    also have "\<dots> = (if bit (unat m') 4 then 1 else 0)"
      by (simp add: bit_iff_odd mod_2_eq_odd)
    finally show ?thesis by (simp add: bit_unat)
  qed
  moreover have "x mod 16 = unat m' mod 16" unfolding x_def by (simp add: mod_mod_cancel)
  moreover have "unat (m' AND 0xF) = unat m' mod 16"
    using unat_and_low [of "0xF :: u8" 4] by (simp add: mask_eq_exp_minus_1)
  ultimately have "kind_id a = (if bit m' 4 then ACT_RMODS_TAP else ACT_LMODS_TAP) \<and>
      key_mods a = m' AND 0xF \<and> key_code a = ucast k"
    unfolding word_unat_eq_iff unat_kind_id unat_fields parts tap_kind_arith(2,4) unat_ucast_8
    by simp
  then show ?thesis unfolding decode_MT a_def m'_def Let_def .
qed

end
