(* ===== verification/Key_Store.thy ===== *)
theory Key_Store
  imports C_Prelude
begin

text \<open>
  The contract of a table indexed by keys: what is read back after a write.  The tables of the
  firmware that hold a value per key (the cache of source layers, the map of swapped hands, the settings in the EEPROM)
  keep it.
\<close>

locale key_store =
  fixes lookup :: "'m \<Rightarrow> 'k \<Rightarrow> 'v"
    and update :: "'k \<Rightarrow> 'v \<Rightarrow> 'm \<Rightarrow> 'm"
    and is_key :: "'k \<Rightarrow> bool"
    and is_val :: "'k \<Rightarrow> 'v \<Rightarrow> bool"
    and wf :: "'m \<Rightarrow> bool"
  assumes lookup_update:
    "wf m \<Longrightarrow> is_key k \<Longrightarrow> is_key j \<Longrightarrow> is_val k v \<Longrightarrow>
     lookup (update k v m) j = (if j = k then v else lookup m j)"
    and wf_update: "wf m \<Longrightarrow> is_key k \<Longrightarrow> is_val k v \<Longrightarrow> wf (update k v m)"
begin

definition write_all :: "('k \<times> 'v) list \<Rightarrow> 'm \<Rightarrow> 'm" where
  "write_all ws m = fold (\<lambda>(k, v). update k v) ws m"

definition valid_writes :: "('k \<times> 'v) list \<Rightarrow> bool" where
  "valid_writes ws \<longleftrightarrow> (\<forall>(k, v) \<in> set ws. is_key k \<and> is_val k v)"

lemma wf_write_all: "wf m \<Longrightarrow> valid_writes ws \<Longrightarrow> wf (write_all ws m)"
  by (induction ws arbitrary: m) (auto simp: write_all_def valid_writes_def wf_update)

lemma lookup_write_all:
  "wf m \<Longrightarrow> valid_writes ws \<Longrightarrow> is_key j \<Longrightarrow>
   lookup (write_all ws m) j = (case map_of (rev ws) j of Some v \<Rightarrow> v | None \<Rightarrow> lookup m j)"
proof (induction ws arbitrary: m)
  case (Cons w ws)
  obtain k v where w: "w = (k, v)" by (cases w)
  have valid: "is_key k" "is_val k v" "valid_writes ws"
    using Cons.prems(2) by (auto simp: valid_writes_def w)
  have "lookup (write_all (w # ws) m) j = lookup (write_all ws (update k v m)) j"
    by (simp add: write_all_def w)
  also have "\<dots> = (case map_of (rev ws) j of Some v \<Rightarrow> v | None \<Rightarrow> lookup (update k v m) j)"
    using Cons.IH [OF wf_update [OF Cons.prems(1) valid(1,2)] valid(3) Cons.prems(3)] .
  also have "\<dots> = (case map_of (rev (w # ws)) j of Some v \<Rightarrow> v | None \<Rightarrow> lookup m j)"
    using lookup_update [OF Cons.prems(1) valid(1) Cons.prems(3) valid(2)]
    by (auto simp: w map_add_def split: option.splits)
  finally show ?case .
qed (simp add: write_all_def)

lemma lookup_unwritten:
  assumes "wf m" "valid_writes ws" "is_key j" "j \<notin> fst ` set ws"
  shows "lookup (write_all ws m) j = lookup m j"
proof -
  have "map_of (rev ws) j = None" using assms(4) by (auto simp: map_of_eq_None_iff)
  then show ?thesis using lookup_write_all [OF assms(1-3)] by simp
qed

end

end
