(* ===== verification/Action_Layer.thy ===== *)
theory Action_Layer
  imports Action_Util Action_Code Key_Store
begin

text \<open>
  \<^verbatim>\<open>quantum/action_layer.c\<close>: the layer state, the choice of the layer a key takes its action from,
  and the cache that makes a release use the layer of its press; and the one-shot layer of
  \<^verbatim>\<open>quantum/action_util.c\<close>, which switches layers.  Layers are 32 bits wide
  (\<^verbatim>\<open>LAYER_STATE_32BIT\<close>, the default).  A shift by 32 or more is undefined in C; the model gives 0.
\<close>

definition MAX_LAYER :: nat where "MAX_LAYER = 32"
definition MAX_LAYER_BITS :: nat where "MAX_LAYER_BITS = 5"

record layer_st = util_st +
  layer_state :: u32
  default_layer_state :: u32
  source_layers_cache :: "u8 list list"
  disable_action_cache :: bool

section \<open>Layer state\<close>

text \<open>
  Both setters end by clearing the keyboard, so that nothing stays stuck: with
  \<^verbatim>\<open>STRICT_LAYER_RELEASE\<close> the keys too.
\<close>

definition layer_clear_keyboard :: "'s config \<Rightarrow> 'a util_st_scheme \<Rightarrow> 'a util_st_scheme" where
  "layer_clear_keyboard c s =
     (if STRICT_LAYER_RELEASE c then clear_keyboard_but_mods c s
      else clear_keyboard_but_mods_and_keys c s)"

definition default_layer_state_set :: "'s config \<Rightarrow> u32 \<Rightarrow> 'a layer_st_scheme \<Rightarrow> 'a layer_st_scheme" where
  "default_layer_state_set c st s =
     layer_clear_keyboard c (s\<lparr>default_layer_state := default_layer_state_set_kb c st\<rparr>)"

definition default_layer_set :: "'s config \<Rightarrow> u32 \<Rightarrow> 'a layer_st_scheme \<Rightarrow> 'a layer_st_scheme" where
  "default_layer_set c st s = default_layer_state_set c st s"

definition default_layer_or :: "'s config \<Rightarrow> u32 \<Rightarrow> 'a layer_st_scheme \<Rightarrow> 'a layer_st_scheme" where
  "default_layer_or c st s = default_layer_state_set c (default_layer_state s OR st) s"

definition default_layer_and :: "'s config \<Rightarrow> u32 \<Rightarrow> 'a layer_st_scheme \<Rightarrow> 'a layer_st_scheme" where
  "default_layer_and c st s = default_layer_state_set c (default_layer_state s AND st) s"

definition default_layer_xor :: "'s config \<Rightarrow> u32 \<Rightarrow> 'a layer_st_scheme \<Rightarrow> 'a layer_st_scheme" where
  "default_layer_xor c st s = default_layer_state_set c (default_layer_state s XOR st) s"

definition layer_state_set :: "'s config \<Rightarrow> u32 \<Rightarrow> 'a layer_st_scheme \<Rightarrow> 'a layer_st_scheme" where
  "layer_state_set c st s = layer_clear_keyboard c (s\<lparr>layer_state := layer_state_set_kb c st\<rparr>)"

definition layer_clear :: "'s config \<Rightarrow> 'a layer_st_scheme \<Rightarrow> 'a layer_st_scheme" where
  "layer_clear c s = layer_state_set c 0 s"

definition layer_bit :: "u8 \<Rightarrow> u32" where "layer_bit layer = bitmask (unat layer)"

definition layer_state_cmp :: "u32 \<Rightarrow> u8 \<Rightarrow> bool" where
  "layer_state_cmp st layer \<longleftrightarrow> (if st = 0 then layer = 0 else st AND layer_bit layer \<noteq> 0)"

definition layer_state_is :: "u8 \<Rightarrow> 'a layer_st_scheme \<Rightarrow> bool" where
  "layer_state_is layer s = layer_state_cmp (layer_state s) layer"

definition layer_move :: "'s config \<Rightarrow> u8 \<Rightarrow> 'a layer_st_scheme \<Rightarrow> 'a layer_st_scheme" where
  "layer_move c layer s = layer_state_set c (layer_bit layer) s"

definition layer_on :: "'s config \<Rightarrow> u8 \<Rightarrow> 'a layer_st_scheme \<Rightarrow> 'a layer_st_scheme" where
  "layer_on c layer s = layer_state_set c (layer_state s OR layer_bit layer) s"

definition layer_off :: "'s config \<Rightarrow> u8 \<Rightarrow> 'a layer_st_scheme \<Rightarrow> 'a layer_st_scheme" where
  "layer_off c layer s = layer_state_set c (layer_state s AND NOT (layer_bit layer)) s"

definition layer_invert :: "'s config \<Rightarrow> u8 \<Rightarrow> 'a layer_st_scheme \<Rightarrow> 'a layer_st_scheme" where
  "layer_invert c layer s = layer_state_set c (layer_state s XOR layer_bit layer) s"

definition layer_or :: "'s config \<Rightarrow> u32 \<Rightarrow> 'a layer_st_scheme \<Rightarrow> 'a layer_st_scheme" where
  "layer_or c st s = layer_state_set c (layer_state s OR st) s"

definition layer_and :: "'s config \<Rightarrow> u32 \<Rightarrow> 'a layer_st_scheme \<Rightarrow> 'a layer_st_scheme" where
  "layer_and c st s = layer_state_set c (layer_state s AND st) s"

definition layer_xor :: "'s config \<Rightarrow> u32 \<Rightarrow> 'a layer_st_scheme \<Rightarrow> 'a layer_st_scheme" where
  "layer_xor c st s = layer_state_set c (layer_state s XOR st) s"

section \<open>The cache of source layers\<close>

text \<open>
  One bit of the layer number per row of the table and one bit per key in a byte.  \<^verbatim>\<open>key_number\<close> is a
  \<^verbatim>\<open>uint8_t\<close>, so a matrix with more than 256 keys would share entries.
\<close>

definition key_number :: "'s config \<Rightarrow> keypos_t \<Rightarrow> nat" where
  "key_number c k = (unat (col k) + unat (row k) * MATRIX_COLS c) mod 256"

definition store_bit :: "u8 \<Rightarrow> nat \<Rightarrow> bool \<Rightarrow> u8" where
  "store_bit b i v = b XOR (((if v then - 1 else 0) XOR b) AND bitmask i)"

definition update_source_layers_cache ::
    "'s config \<Rightarrow> keypos_t \<Rightarrow> u8 \<Rightarrow> u8 list list \<Rightarrow> u8 list list" where
  "update_source_layers_cache c k layer cache =
     (let storage_row = key_number c k div 8; storage_bit = key_number c k mod 8
      in foldl (\<lambda>cache n. cache[storage_row := (cache ! storage_row)
                  [n := store_bit (cache ! storage_row ! n) storage_bit (layer AND bitmask n \<noteq> 0)]])
           cache [0..<MAX_LAYER_BITS])"

definition read_source_layers_cache :: "'s config \<Rightarrow> keypos_t \<Rightarrow> u8 list list \<Rightarrow> u8" where
  "read_source_layers_cache c k cache =
     (let storage_row = key_number c k div 8; storage_bit = key_number c k mod 8
      in foldl (\<lambda>layer n. layer OR
                  (if cache ! storage_row ! n AND bitmask storage_bit \<noteq> 0 then bitmask n else 0))
           0 [0..<MAX_LAYER_BITS])"

section \<open>The layer of a key\<close>

fun switch_from :: "'s config \<Rightarrow> keymap_config_t \<Rightarrow> u32 \<Rightarrow> keypos_t \<Rightarrow> nat \<Rightarrow> u8" where
  "switch_from c cfg layers k 0 = 0"
| "switch_from c cfg layers k (Suc i) =
     (if layers AND bitmask i \<noteq> 0 \<and> action_for_key c cfg (of_nat i) k \<noteq> ACTION_TRANSPARENT
      then of_nat i else switch_from c cfg layers k i)"

definition layer_switch_get_layer :: "'s config \<Rightarrow> keypos_t \<Rightarrow> 'a layer_st_scheme \<Rightarrow> u8" where
  "layer_switch_get_layer c k s =
     switch_from c (keymap_config s) (layer_state s OR default_layer_state s) k MAX_LAYER"

definition layer_switch_get_action :: "'s config \<Rightarrow> keypos_t \<Rightarrow> 'a layer_st_scheme \<Rightarrow> action_t" where
  "layer_switch_get_action c k s =
     action_for_key c (keymap_config s) (layer_switch_get_layer c k s) k"

definition store_or_get_action ::
    "'s config \<Rightarrow> bool \<Rightarrow> keypos_t \<Rightarrow> 'a layer_st_scheme \<Rightarrow> action_t \<times> 'a layer_st_scheme" where
  "store_or_get_action c prs k s =
     (if STRICT_LAYER_RELEASE c \<or> disable_action_cache s then (layer_switch_get_action c k s, s)
      else if prs then
        (let layer = layer_switch_get_layer c k s;
             s = s\<lparr>source_layers_cache :=
                     update_source_layers_cache c k layer (source_layers_cache s)\<rparr>
         in (action_for_key c (keymap_config s) layer k, s))
      else
        (action_for_key c (keymap_config s)
           (read_source_layers_cache c k (source_layers_cache s)) k, s))"

section \<open>The highest active layer that is not transparent\<close>

definition layer_defines :: "'s config \<Rightarrow> keymap_config_t \<Rightarrow> u32 \<Rightarrow> keypos_t \<Rightarrow> nat \<Rightarrow> bool" where
  "layer_defines c cfg layers k i \<longleftrightarrow>
     bit layers i \<and> action_for_key c cfg (of_nat i) k \<noteq> ACTION_TRANSPARENT"

lemma switch_from_max:
  "switch_from c cfg layers k n =
     of_nat (Max (insert 0 {i. i < n \<and> layer_defines c cfg layers k i}))"
proof (induction n)
  case (Suc n)
  show ?case
  proof (cases "layer_defines c cfg layers k n")
    case True
    have "Max (insert 0 {i. i < Suc n \<and> layer_defines c cfg layers k i}) = n"
      using True by (intro Max_eqI) auto
    with True show ?thesis by (simp add: layer_defines_def and_bitmask_eq_0)
  next
    case False
    have "{i. i < Suc n \<and> layer_defines c cfg layers k i} = {i. i < n \<and> layer_defines c cfg layers k i}"
      using False by (auto simp: less_Suc_eq)
    with False Suc show ?thesis by (auto simp: layer_defines_def and_bitmask_eq_0)
  qed
qed simp

text \<open>
  A key takes its action from the highest layer that is active, as layer or as default layer, and
  in which its keycode is not transparent; if there is none, from layer 0.
\<close>

theorem layer_switch_highest:
  "layer_switch_get_layer c k s =
     of_nat (Max (insert 0 {i. i < 32 \<and> bit (layer_state s OR default_layer_state s) i \<and>
       action_for_key c (keymap_config s) (of_nat i) k \<noteq> ACTION_TRANSPARENT}))"
  by (simp add: layer_switch_get_layer_def switch_from_max layer_defines_def MAX_LAYER_def)

section \<open>The cache keeps the contract of a key store\<close>

definition matrix_key :: "'s config \<Rightarrow> keypos_t \<Rightarrow> bool" where
  "matrix_key c k \<longleftrightarrow> unat (row k) < MATRIX_ROWS c \<and> unat (col k) < MATRIX_COLS c \<and>
     MATRIX_ROWS c * MATRIX_COLS c \<le> 256"

definition cache_wf :: "'s config \<Rightarrow> u8 list list \<Rightarrow> bool" where
  "cache_wf c cache \<longleftrightarrow> length cache = (MATRIX_ROWS c * MATRIX_COLS c + 7) div 8 \<and>
     (\<forall>r \<in> set cache. length r = MAX_LAYER_BITS)"

lemma matrix_key_number:
  assumes "matrix_key c k"
  shows "key_number c k = unat (col k) + unat (row k) * MATRIX_COLS c"
    and "key_number c k < MATRIX_ROWS c * MATRIX_COLS c"
proof -
  have "Suc (unat (row k)) * MATRIX_COLS c \<le> MATRIX_ROWS c * MATRIX_COLS c"
    using assms by (intro mult_le_mono1) (simp add: matrix_key_def)
  then have less: "unat (col k) + unat (row k) * MATRIX_COLS c < MATRIX_ROWS c * MATRIX_COLS c"
    using assms by (simp add: matrix_key_def)
  then show "key_number c k = unat (col k) + unat (row k) * MATRIX_COLS c"
    using assms by (simp add: key_number_def matrix_key_def)
  with less show "key_number c k < MATRIX_ROWS c * MATRIX_COLS c" by simp
qed

lemma key_number_inj:
  assumes "matrix_key c k" "matrix_key c j" "key_number c k = key_number c j"
  shows "k = j"
proof -
  let ?n = "MATRIX_COLS c"
  have col: "unat (col k) < ?n" "unat (col j) < ?n" using assms(1,2) by (simp_all add: matrix_key_def)
  have eq: "unat (col k) + unat (row k) * ?n = unat (col j) + unat (row j) * ?n"
    using assms(3) matrix_key_number(1) [OF assms(1)] matrix_key_number(1) [OF assms(2)] by simp
  have "unat (col k) = (unat (col k) + unat (row k) * ?n) mod ?n" using col(1) by simp
  also have "\<dots> = unat (col j)" unfolding eq using col(2) by simp
  finally have c: "unat (col k) = unat (col j)" .
  have "unat (row k) = (unat (col k) + unat (row k) * ?n) div ?n" using col(1) by simp
  also have "\<dots> = unat (row j)" unfolding eq using col(2) by simp
  finally have "unat (row k) = unat (row j)" .
  with c show ?thesis by (cases k; cases j) (simp add: word_unat_eq_iff)
qed

lemma bit_store_bit: "i < 8 \<Longrightarrow> bit (store_bit b i v) m \<longleftrightarrow> (if m = i then v else bit b m)"
  by (auto simp: store_bit_def bit_simps bit_bitmask)

text \<open>The table after an update, and the bits a read collects.\<close>

lemma foldl_row_update:
  "r < length cache \<Longrightarrow>
   foldl (\<lambda>cache n. cache[r := (cache ! r)[n := g n (cache ! r ! n)]]) cache ns =
     cache[r := foldl (\<lambda>row n. row[n := g n (row ! n)]) (cache ! r) ns]"
  by (induction ns arbitrary: cache) simp_all

lemma update_cache_row:
  assumes "cache_wf c cache" "matrix_key c k"
  defines "r \<equiv> key_number c k div 8"
  shows "update_source_layers_cache c k layer cache =
    cache[r := map (\<lambda>n. store_bit (cache ! r ! n) (key_number c k mod 8) (bit layer n)) [0..<5]]"
proof -
  have r: "r < length cache"
    using matrix_key_number(2) [OF assms(2)] assms(1) by (simp add: r_def cache_wf_def)
  then have row: "length (cache ! r) = 5"
    using assms(1) by (simp add: cache_wf_def MAX_LAYER_BITS_def)
  have "update_source_layers_cache c k layer cache =
      cache[r := foldl (\<lambda>row n. row[n := store_bit (row ! n) (key_number c k mod 8) (bit layer n)])
        (cache ! r) [0..<5]]"
    unfolding update_source_layers_cache_def Let_def r_def [symmetric] MAX_LAYER_BITS_def
      and_bitmask_eq_0 not_not
    by (rule foldl_row_update [OF r])
  also have "foldl (\<lambda>row n. row[n := store_bit (row ! n) (key_number c k mod 8) (bit layer n)])
        (cache ! r) [0..<5] =
      map (\<lambda>n. store_bit (cache ! r ! n) (key_number c k mod 8) (bit layer n)) [0..<5]"
    using foldl_upt_list_update [of 5 "cache ! r"
        "\<lambda>n b. store_bit b (key_number c k mod 8) (bit layer n)"] row
    by (auto simp del: upt_rec_numeral upt_Suc)
  finally show ?thesis .
qed

lemma bit_read_cache:
  "bit (read_source_layers_cache c k cache) n \<longleftrightarrow>
     n < 5 \<and> bit (cache ! (key_number c k div 8) ! n) (key_number c k mod 8)"
proof -
  have "bit (foldl (\<lambda>layer n. layer OR (if f n then bitmask n else 0)) (0 :: u8) [0..<m]) n \<longleftrightarrow>
      n < m \<and> f n \<and> n < 8" for f :: "nat \<Rightarrow> bool" and m
    by (induction m) (auto simp: bit_or_iff bit_bitmask less_Suc_eq)
  then show ?thesis
    by (auto simp: read_source_layers_cache_def Let_def and_bitmask_eq_0 MAX_LAYER_BITS_def)
qed

lemma small_layer_bits: "unat (v :: u8) < 32 \<Longrightarrow> bit v n \<Longrightarrow> n < 5"
proof -
  assume v: "unat v < 32" and b: "bit v n"
  have "take_bit 5 (unat v) = unat v" using v by (intro take_bit_nat_eq_self) simp
  with b show "n < 5" by (metis bit_take_bit_iff bit_unat)
qed

interpretation source_layers: key_store "\<lambda>cache k. read_source_layers_cache c k cache" "update_source_layers_cache c"
  "matrix_key c" "\<lambda>_ v. unat v < 32" "cache_wf c" for c :: "'s config"
proof unfold_locales
  fix cache :: "u8 list list" and k j :: keypos_t and v :: u8
  assume wf: "cache_wf c cache" and k: "matrix_key c k" and v: "unat v < 32"
  note upd = update_cache_row [OF wf k]
  have r: "key_number c k div 8 < length cache"
    using matrix_key_number(2) [OF k] wf by (simp add: cache_wf_def)
  show "cache_wf c (update_source_layers_cache c k v cache)"
    using wf r by (auto simp: upd cache_wf_def MAX_LAYER_BITS_def dest!: set_update_subset_insert [THEN subsetD])
  show "read_source_layers_cache c j (update_source_layers_cache c k v cache) =
      (if j = k then v else read_source_layers_cache c j cache)" if j: "matrix_key c j"
  proof (rule bit_word_eqI)
    fix n
    have same: "key_number c j div 8 = key_number c k div 8 \<Longrightarrow>
        key_number c j mod 8 = key_number c k mod 8 \<Longrightarrow> j = k"
      using key_number_inj [OF j k] by (metis div_mult_mod_eq)
    show "bit (read_source_layers_cache c j (update_source_layers_cache c k v cache)) n =
        bit (if j = k then v else read_source_layers_cache c j cache) n"
    proof (cases "n < 5")
      case True
      show ?thesis
      proof (cases "key_number c j div 8 = key_number c k div 8")
        case row: True
        have "bit (read_source_layers_cache c j (update_source_layers_cache c k v cache)) n =
            bit (store_bit (cache ! (key_number c k div 8) ! n) (key_number c k mod 8) (bit v n))
              (key_number c j mod 8)"
          using True r by (simp add: bit_read_cache upd row del: upt_rec_numeral)
        also have "\<dots> = (if key_number c j mod 8 = key_number c k mod 8 then bit v n
            else bit (cache ! (key_number c k div 8) ! n) (key_number c j mod 8))"
          by (simp add: bit_store_bit)
        also have "\<dots> = bit (if j = k then v else read_source_layers_cache c j cache) n"
          using same [OF row] True by (auto simp: bit_read_cache row)
        finally show ?thesis .
      next
        case False
        then have "j \<noteq> k" by auto
        with False True show ?thesis by (simp add: bit_read_cache upd)
      qed
    next
      case False
      then have "\<not> bit v n" using small_layer_bits [OF v] by blast
      with False show ?thesis by (simp add: bit_read_cache)
    qed
  qed
qed

section \<open>A release uses the action of its press\<close>

lemma unat_switch_from: "n \<le> 32 \<Longrightarrow> unat (switch_from c cfg layers k n) < 32"
  by (induction n) (simp_all add: unat_of_nat)

lemma layer_switch_less: "unat (layer_switch_get_layer c k s) < 32"
  by (simp add: layer_switch_get_layer_def MAX_LAYER_def unat_switch_from)

text \<open>
  What may happen between a press and its release, as far as actions are concerned: presses and
  releases of other keys, and any change of the layers.
\<close>

datatype layer_event = Press_key keypos_t | Release_key keypos_t | Layers u32 u32

definition layer_event_step :: "'s config \<Rightarrow> layer_event \<Rightarrow> layer_st \<Rightarrow> layer_st" where
  "layer_event_step c e s =
     (case e of Press_key k \<Rightarrow> snd (store_or_get_action c True k s)
      | Release_key k \<Rightarrow> snd (store_or_get_action c False k s)
      | Layers l d \<Rightarrow> s\<lparr>layer_state := l, default_layer_state := d\<rparr>)"

definition layer_events :: "'s config \<Rightarrow> layer_event list \<Rightarrow> layer_st \<Rightarrow> layer_st" where
  "layer_events c es s = fold (layer_event_step c) es s"

definition other_keys :: "'s config \<Rightarrow> keypos_t \<Rightarrow> layer_event list \<Rightarrow> bool" where
  "other_keys c k es \<longleftrightarrow>
     list_all (\<lambda>e. case e of Press_key j \<Rightarrow> matrix_key c j \<and> j \<noteq> k | _ \<Rightarrow> True) es"

definition caching :: "'s config \<Rightarrow> 'a layer_st_scheme \<Rightarrow> bool" where
  "caching c s \<longleftrightarrow> \<not> STRICT_LAYER_RELEASE c \<and> \<not> disable_action_cache s \<and>
     cache_wf c (source_layers_cache s)"

lemma layer_event_step_cache:
  assumes "caching c s" "matrix_key c k" "other_keys c k [e]"
  shows "caching c (layer_event_step c e s)" "keymap_config (layer_event_step c e s) = keymap_config s"
    "read_source_layers_cache c k (source_layers_cache (layer_event_step c e s)) =
       read_source_layers_cache c k (source_layers_cache s)"
proof -
  have "caching c (layer_event_step c e s) \<and> keymap_config (layer_event_step c e s) = keymap_config s \<and>
    read_source_layers_cache c k (source_layers_cache (layer_event_step c e s)) =
       read_source_layers_cache c k (source_layers_cache s)"
    using assms
    by (cases e) (auto simp: layer_switch_less layer_event_step_def store_or_get_action_def caching_def Let_def
        other_keys_def source_layers.wf_update source_layers.lookup_update)
  then show "caching c (layer_event_step c e s)"
    "keymap_config (layer_event_step c e s) = keymap_config s"
    "read_source_layers_cache c k (source_layers_cache (layer_event_step c e s)) =
       read_source_layers_cache c k (source_layers_cache s)" by simp_all
qed

lemma layer_events_cache:
  "caching c s \<Longrightarrow> matrix_key c k \<Longrightarrow> other_keys c k es \<Longrightarrow>
   caching c (layer_events c es s) \<and> keymap_config (layer_events c es s) = keymap_config s \<and>
   read_source_layers_cache c k (source_layers_cache (layer_events c es s)) =
     read_source_layers_cache c k (source_layers_cache s)"
  by (induction es arbitrary: s)
    (simp_all add: layer_events_def layer_event_step_cache other_keys_def)

text \<open>
  C7. The action of a key's release is the action of its press, whatever layers are switched and
  whatever other keys are pressed and released in between: a key cannot get stuck because the layer
  changed under it.
\<close>

theorem release_action_is_press_action:
  assumes "caching c s" and "matrix_key c k" and "other_keys c k es"
  shows "fst (store_or_get_action c False k
           (layer_events c es (snd (store_or_get_action c True k s)))) =
         fst (store_or_get_action c True k s)"
proof -
  define t where "t = snd (store_or_get_action c True k s)"
  have t: "caching c t" "keymap_config t = keymap_config s"
    "read_source_layers_cache c k (source_layers_cache t) = layer_switch_get_layer c k s"
    using assms layer_switch_less [of c k s]
    by (simp_all add: t_def store_or_get_action_def caching_def Let_def source_layers.wf_update
        source_layers.lookup_update)
  show ?thesis
    unfolding t_def [symmetric]
    using layer_events_cache [OF t(1) assms(2,3)] t assms(1)
    by (simp add: store_or_get_action_def caching_def Let_def)
qed

text \<open>The state at power-on, with a driver and without any remapping.\<close>

definition layer_init :: "'s config \<Rightarrow> layer_st" where
  "layer_init c = \<lparr>host_driver = True, keyboard_protocol = 1,
     keymap_config = keymap_config_of_raw 0, host_leds = 0, last_system_report = 0,
     last_consumer_report = 0, last_programmable_button_report = 0, clock = 0, effects = [],
     keyboard_report = empty_report, real_mods = 0, weak_mods = 0, macro_mods = 0,
     weak_override_mods = 0, suppressed_mods = 0, oneshot_mods = 0, oneshot_locked_mods = 0,
     oneshot_time = 0, oneshot_layer_data = 0, oneshot_layer_time = 0,
     swap_hands_oneshot = SHO_OFF, oneshot_swaphands_time = 0,
     layer_state = 0, default_layer_state = 1,
     source_layers_cache =
       replicate ((MATRIX_ROWS c * MATRIX_COLS c + 7) div 8) (replicate MAX_LAYER_BITS 0),
     disable_action_cache = False\<rparr>"

theorem release_action_is_press_action_witness:
  "let c = default_config (\<lambda>l _. if l = 0 then KC_A else KC_B) :: unit config;
       k = \<lparr>col = 2, row = 1\<rparr>; s = (layer_init c)\<lparr>layer_state := 2\<rparr>;
       es = [Layers 0 1, Press_key \<lparr>col = 3, row = 1\<rparr>, Release_key \<lparr>col = 3, row = 1\<rparr>]
   in caching c s \<and> matrix_key c k \<and> other_keys c k es \<and>
      fst (store_or_get_action c False k
        (layer_events c es (snd (store_or_get_action c True k s)))) =
      fst (store_or_get_action c True k s)"
proof -
  define c :: "unit config" where "c = default_config (\<lambda>l _. if l = 0 then KC_A else KC_B)"
  define s where "s = (layer_init c)\<lparr>layer_state := 2\<rparr>"
  have "caching c s"
    by (simp add: caching_def c_def s_def cache_wf_def layer_init_def)
  moreover have "matrix_key c \<lparr>col = 2, row = 1\<rparr>"
    by (simp add: matrix_key_def c_def)
  moreover have "other_keys c \<lparr>col = 2, row = 1\<rparr>
      [Layers 0 1, Press_key \<lparr>col = 3, row = 1\<rparr>, Release_key \<lparr>col = 3, row = 1\<rparr>]"
    by (simp add: other_keys_def matrix_key_def c_def)
  ultimately show ?thesis
    using release_action_is_press_action [of c s "\<lparr>col = 2, row = 1\<rparr>"
        "[Layers 0 1, Press_key \<lparr>col = 3, row = 1\<rparr>, Release_key \<lparr>col = 3, row = 1\<rparr>]"]
    unfolding Let_def s_def c_def by blast
qed

section \<open>The one-shot layer\<close>

text \<open>
  \<^verbatim>\<open>oneshot_layer_data\<close> is an \<^verbatim>\<open>int8_t\<close> holding the layer above three state bits.  Its layer is read
  with an arithmetic shift and cut to \<^verbatim>\<open>uint8_t\<close>.
\<close>

definition ONESHOT_PRESSED :: "8 word" where "ONESHOT_PRESSED = 1"
definition ONESHOT_OTHER_KEY_PRESSED :: "8 word" where "ONESHOT_OTHER_KEY_PRESSED = 2"
definition ONESHOT_START :: "8 word" where "ONESHOT_START = 3"
definition ONESHOT_TOGGLED :: "8 word" where "ONESHOT_TOGGLED = 4"

definition get_oneshot_layer :: "'a util_st_scheme \<Rightarrow> u8" where
  "get_oneshot_layer s = signed_drop_bit 3 (oneshot_layer_data s)"

definition get_oneshot_layer_state :: "'a util_st_scheme \<Rightarrow> u8" where
  "get_oneshot_layer_state s = oneshot_layer_data s AND 7"

definition is_oneshot_layer_active :: "'a util_st_scheme \<Rightarrow> bool" where
  "is_oneshot_layer_active s \<longleftrightarrow> get_oneshot_layer_state s \<noteq> 0"

definition has_oneshot_layer_timed_out :: "'s config \<Rightarrow> 'a util_st_scheme \<Rightarrow> bool" where
  "has_oneshot_layer_timed_out c s \<longleftrightarrow>
     ONESHOT_TIMEOUT c > 0 \<and>
     unat (TIMER_DIFF_16 (timer_read s) (oneshot_layer_time s)) \<ge> ONESHOT_TIMEOUT c \<and>
     get_oneshot_layer_state s AND ONESHOT_TOGGLED = 0"

definition set_oneshot_layer_time :: "'s config \<Rightarrow> u16 \<Rightarrow> 'a util_st_scheme \<Rightarrow> 'a util_st_scheme" where
  "set_oneshot_layer_time c t s = (if ONESHOT_TIMEOUT c > 0 then s\<lparr>oneshot_layer_time := t\<rparr> else s)"

definition set_oneshot_layer ::
    "'s config \<Rightarrow> u8 \<Rightarrow> u8 \<Rightarrow> 'a layer_st_scheme \<Rightarrow> 'a layer_st_scheme" where
  "set_oneshot_layer c layer state s =
     (if \<not> oneshot_disable (keymap_config s) then
        let s = s\<lparr>oneshot_layer_data := push_bit 3 layer OR state\<rparr>;
            s = layer_on c layer s;
            s = set_oneshot_layer_time c (timer_read s) s
        in emit (Oneshot_layer_changed (get_oneshot_layer s)) s
      else layer_on c layer s)"

definition reset_oneshot_layer :: "'s config \<Rightarrow> 'a layer_st_scheme \<Rightarrow> 'a layer_st_scheme" where
  "reset_oneshot_layer c s =
     (let s = set_oneshot_layer_time c 0 (s\<lparr>oneshot_layer_data := 0\<rparr>)
      in emit (Oneshot_layer_changed (get_oneshot_layer s)) s)"

text \<open>
  \<^verbatim>\<open>start_state\<close> is a \<^verbatim>\<open>uint8_t\<close> copy of the signed data; the comparison promotes the one without
  sign and the other with its sign.
\<close>

definition clear_oneshot_layer_state :: "'s config \<Rightarrow> u8 \<Rightarrow> 'a layer_st_scheme \<Rightarrow> 'a layer_st_scheme" where
  "clear_oneshot_layer_state c state s =
     (let start_state = oneshot_layer_data s;
          s = s\<lparr>oneshot_layer_data := oneshot_layer_data s AND NOT state\<rparr>
      in if get_oneshot_layer_state s = 0 \<and>
            uint start_state \<noteq> sint (oneshot_layer_data s) \<and>
            \<not> oneshot_disable (keymap_config s)
         then reset_oneshot_layer c (layer_off c (get_oneshot_layer s) s)
         else s)"

definition oneshot_set :: "'s config \<Rightarrow> bool \<Rightarrow> 'a layer_st_scheme \<Rightarrow> 'a layer_st_scheme" where
  "oneshot_set c active s =
     (if oneshot_disable (keymap_config s) \<noteq> active then
        let s = s\<lparr>keymap_config := (keymap_config s)\<lparr>oneshot_disable := active\<rparr>\<rparr>;
            s = emit (Keymap_config_saved (keymap_config_raw (keymap_config s))) s
        in clear_oneshot_layer_state c ONESHOT_OTHER_KEY_PRESSED s
      else s)"

definition oneshot_toggle :: "'s config \<Rightarrow> 'a layer_st_scheme \<Rightarrow> 'a layer_st_scheme" where
  "oneshot_toggle c s = oneshot_set c (\<not> oneshot_disable (keymap_config s)) s"

definition oneshot_enable :: "'s config \<Rightarrow> 'a layer_st_scheme \<Rightarrow> 'a layer_st_scheme" where
  "oneshot_enable c s = oneshot_set c True s"

definition oneshot_disable_op :: "'s config \<Rightarrow> 'a layer_st_scheme \<Rightarrow> 'a layer_st_scheme" where
  "oneshot_disable_op c s = oneshot_set c False s"

definition is_oneshot_enabled :: "'a util_st_scheme \<Rightarrow> bool" where
  "is_oneshot_enabled s \<longleftrightarrow> oneshot_disable (keymap_config s)"

section \<open>Frame\<close>

text \<open>What reports and clearing leave alone.\<close>

lemma emit_layer [simp]:
  "layer_state (emit e s) = layer_state s"
  "default_layer_state (emit e s) = default_layer_state s"
  "source_layers_cache (emit e s) = source_layers_cache s"
  "disable_action_cache (emit e s) = disable_action_cache s"
  "layer_st.more (emit e s) = layer_st.more s"
  by (simp_all add: emit_def)

lemma send_keyboard_report_layer [simp]:
  "layer_state (send_keyboard_report c s) = layer_state s"
  "default_layer_state (send_keyboard_report c s) = default_layer_state s"
  "source_layers_cache (send_keyboard_report c s) = source_layers_cache s"
  "disable_action_cache (send_keyboard_report c s) = disable_action_cache s"
  "layer_st.more (send_keyboard_report c s) = layer_st.more s"
  by (rule send_keyboard_report_frame [of c s]; simp)+

lemma host_system_send_layer [simp]:
  "layer_state (host_system_send r s) = layer_state s"
  "default_layer_state (host_system_send r s) = default_layer_state s"
  "source_layers_cache (host_system_send r s) = source_layers_cache s"
  "disable_action_cache (host_system_send r s) = disable_action_cache s"
  "layer_st.more (host_system_send r s) = layer_st.more s"
  by (simp_all add: host_system_send_def emit_def Let_def)

lemma host_consumer_send_layer [simp]:
  "layer_state (host_consumer_send r s) = layer_state s"
  "default_layer_state (host_consumer_send r s) = default_layer_state s"
  "source_layers_cache (host_consumer_send r s) = source_layers_cache s"
  "disable_action_cache (host_consumer_send r s) = disable_action_cache s"
  "layer_st.more (host_consumer_send r s) = layer_st.more s"
  by (simp_all add: host_consumer_send_def emit_def Let_def)

lemma clear_weak_mods_layer [simp]:
  "layer_state (clear_weak_mods s) = layer_state s"
  "default_layer_state (clear_weak_mods s) = default_layer_state s"
  "source_layers_cache (clear_weak_mods s) = source_layers_cache s"
  "disable_action_cache (clear_weak_mods s) = disable_action_cache s"
  "layer_st.more (clear_weak_mods s) = layer_st.more s"
  by (simp_all add: clear_weak_mods_def)

lemma clear_macro_mods_layer [simp]:
  "layer_state (clear_macro_mods s) = layer_state s"
  "default_layer_state (clear_macro_mods s) = default_layer_state s"
  "source_layers_cache (clear_macro_mods s) = source_layers_cache s"
  "disable_action_cache (clear_macro_mods s) = disable_action_cache s"
  "layer_st.more (clear_macro_mods s) = layer_st.more s"
  by (simp_all add: clear_macro_mods_def)

lemma clear_keys_layer [simp]:
  "layer_state (clear_keys s) = layer_state s"
  "default_layer_state (clear_keys s) = default_layer_state s"
  "source_layers_cache (clear_keys s) = source_layers_cache s"
  "disable_action_cache (clear_keys s) = disable_action_cache s"
  "layer_st.more (clear_keys s) = layer_st.more s"
  by (simp_all add: clear_keys_def)

lemma clear_keyboard_but_mods_and_keys_layer [simp]:
  "layer_state (clear_keyboard_but_mods_and_keys c s) = layer_state s"
  "default_layer_state (clear_keyboard_but_mods_and_keys c s) = default_layer_state s"
  "source_layers_cache (clear_keyboard_but_mods_and_keys c s) = source_layers_cache s"
  "disable_action_cache (clear_keyboard_but_mods_and_keys c s) = disable_action_cache s"
  "layer_st.more (clear_keyboard_but_mods_and_keys c s) = layer_st.more s"
  by (simp_all add: clear_keyboard_but_mods_and_keys_def)

lemma clear_keyboard_but_mods_layer [simp]:
  "layer_state (clear_keyboard_but_mods c s) = layer_state s"
  "default_layer_state (clear_keyboard_but_mods c s) = default_layer_state s"
  "source_layers_cache (clear_keyboard_but_mods c s) = source_layers_cache s"
  "disable_action_cache (clear_keyboard_but_mods c s) = disable_action_cache s"
  "layer_st.more (clear_keyboard_but_mods c s) = layer_st.more s"
  by (simp_all add: clear_keyboard_but_mods_def)

lemma layer_clear_keyboard_layer [simp]:
  "layer_state (layer_clear_keyboard c s) = layer_state s"
  "default_layer_state (layer_clear_keyboard c s) = default_layer_state s"
  "source_layers_cache (layer_clear_keyboard c s) = source_layers_cache s"
  "disable_action_cache (layer_clear_keyboard c s) = disable_action_cache s"
  "layer_st.more (layer_clear_keyboard c s) = layer_st.more s"
  by (simp_all add: layer_clear_keyboard_def)

lemma set_oneshot_layer_time_layer [simp]:
  "layer_state (set_oneshot_layer_time c t s) = layer_state s"
  "default_layer_state (set_oneshot_layer_time c t s) = default_layer_state s"
  "source_layers_cache (set_oneshot_layer_time c t s) = source_layers_cache s"
  "disable_action_cache (set_oneshot_layer_time c t s) = disable_action_cache s"
  "layer_st.more (set_oneshot_layer_time c t s) = layer_st.more s"
  by (simp_all add: set_oneshot_layer_time_def)

lemma layer_clear_keyboard_util [simp]:
  "real_mods (layer_clear_keyboard c s) = real_mods s"
  "oneshot_locked_mods (layer_clear_keyboard c s) = oneshot_locked_mods s"
  "oneshot_layer_data (layer_clear_keyboard c s) = oneshot_layer_data s"
  "swap_hands_oneshot (layer_clear_keyboard c s) = swap_hands_oneshot s"
  "oneshot_swaphands_time (layer_clear_keyboard c s) = oneshot_swaphands_time s"
  "host_driver (layer_clear_keyboard c s) = host_driver s"
  "keyboard_protocol (layer_clear_keyboard c s) = keyboard_protocol s"
  "keymap_config (layer_clear_keyboard c s) = keymap_config s"
  "host_leds (layer_clear_keyboard c s) = host_leds s"
  "clock (layer_clear_keyboard c s) = clock s"
  "oneshot_layer_time (layer_clear_keyboard c s) = oneshot_layer_time s"
  by (simp_all add: layer_clear_keyboard_def)

lemma set_oneshot_layer_time_util [simp]:
  "real_mods (set_oneshot_layer_time c t s) = real_mods s"
  "oneshot_locked_mods (set_oneshot_layer_time c t s) = oneshot_locked_mods s"
  "oneshot_layer_data (set_oneshot_layer_time c t s) = oneshot_layer_data s"
  "swap_hands_oneshot (set_oneshot_layer_time c t s) = swap_hands_oneshot s"
  "oneshot_swaphands_time (set_oneshot_layer_time c t s) = oneshot_swaphands_time s"
  "host_driver (set_oneshot_layer_time c t s) = host_driver s"
  "keyboard_protocol (set_oneshot_layer_time c t s) = keyboard_protocol s"
  "keymap_config (set_oneshot_layer_time c t s) = keymap_config s"
  "host_leds (set_oneshot_layer_time c t s) = host_leds s"
  "clock (set_oneshot_layer_time c t s) = clock s"
  by (simp_all add: set_oneshot_layer_time_def)

lemma layer_state_set_simps [simp]:
  "layer_state (layer_state_set c st s) = layer_state_set_kb c st"
  "default_layer_state (layer_state_set c st s) = default_layer_state s"
  "oneshot_layer_data (layer_state_set c st s) = oneshot_layer_data s"
  "keymap_config (layer_state_set c st s) = keymap_config s"
  "source_layers_cache (layer_state_set c st s) = source_layers_cache s"
  "disable_action_cache (layer_state_set c st s) = disable_action_cache s"
  "layer_st.more (layer_state_set c st s) = layer_st.more s"
  by (simp_all add: layer_state_set_def)

section \<open>The life of a one-shot layer\<close>

text \<open>The data byte for a layer, seen through its two readers.\<close>

lemma small_layer_bit: "unat (l :: u8) < 16 \<Longrightarrow> bit l n \<Longrightarrow> n < 4"
proof -
  assume v: "unat l < 16" and b: "bit l n"
  have "take_bit 4 (unat l) = unat l" using v by (intro take_bit_nat_eq_self) simp
  with b show "n < 4" by (metis bit_take_bit_iff bit_unat)
qed

lemma bit_layer_data:
  assumes "unat (st :: u8) < 8"
  shows "bit (push_bit 3 (l :: u8) OR st) n \<longleftrightarrow> n < 8 \<and> (if n < 3 then bit st n else bit l (n - 3))"
proof -
  have "take_bit 3 (unat st) = unat st" using assms by (intro take_bit_nat_eq_self) simp
  then have "bit st n \<Longrightarrow> n < 3" by (metis bit_take_bit_iff bit_unat)
  then show ?thesis
    by (auto simp: bit_or_iff bit_push_bit_iff dest: bit_imp_le_length)
qed

lemma layer_data_state: "unat (st :: u8) < 8 \<Longrightarrow> (push_bit 3 (l :: u8) OR st) AND 7 = st"
proof (rule bit_word_eqI)
  fix n
  assume st: "unat st < 8"
  have 7: "(7 :: u8) = mask 3" by (simp add: mask_eq_exp_minus_1)
  have "take_bit 3 (unat st) = unat st" using st by (intro take_bit_nat_eq_self) simp
  then have "bit st n \<Longrightarrow> n < 3" by (metis bit_take_bit_iff bit_unat)
  then show "bit ((push_bit 3 l OR st) AND 7) n = bit st n"
    unfolding 7 by (auto simp: bit_and_iff bit_layer_data [OF st] bit_mask_iff simp del: mask_numeral)
qed

lemma layer_data_layer:
  assumes "unat (l :: u8) < 16" "unat (st :: u8) < 8"
  shows "signed_drop_bit 3 (push_bit 3 l OR st) = l"
proof (rule bit_word_eqI)
  fix n assume "n < LENGTH(8)"
  then show "bit (signed_drop_bit 3 (push_bit 3 l OR st)) n = bit l n"
    using small_layer_bit [OF assms(1), of n] small_layer_bit [OF assms(1), of 4]
    by (auto simp: bit_signed_drop_bit_iff bit_layer_data [OF assms(2)])
qed

lemma layer_data_positive:
  assumes "unat (l :: u8) < 16" "unat (st :: u8) < 8"
  shows "sint (push_bit 3 l OR st) = uint (push_bit 3 l OR st)"
proof -
  have "\<not> bit (push_bit 3 l OR st) 7"
    using small_layer_bit [OF assms(1), of 4] by (auto simp: bit_layer_data [OF assms(2)])
  define w where "w = push_bit 3 l OR st"
  with \<open>\<not> bit (push_bit 3 l OR st) 7\<close> have w: "\<not> bit w 7" by simp
  have "n < 7" if "bit w n" for n
    using that w bit_imp_le_length [OF that] by (cases "n = 7") auto
  then have "take_bit 7 (uint w) = uint w"
    by (intro bit_eqI) (auto simp: bit_take_bit_iff bit_uint_iff)
  with w have "sint w = uint w"
    by (simp add: sint_uint signed_take_bit_eq_if_positive bit_uint_iff)
  then show ?thesis unfolding w_def .
qed

lemma layer_data_clear:
  assumes "unat (m :: u8) < 8" "unat (st :: u8) < 8"
  shows "(push_bit 3 (l :: u8) OR st) AND NOT m = push_bit 3 l OR (st AND NOT m)"
    and "unat (st AND NOT m) < 8"
proof -
  have small: "take_bit 3 x = x" if "unat x < 8" for x :: u8
    using take_bit_nat_eq_self [of "unat x" 3] that
    by (simp add: word_unat_eq_iff unsigned_take_bit_eq)
  have bits: "n < 3" if "bit m n" for n using small [OF assms(1)] that by (metis bit_take_bit_iff)
  show "(push_bit 3 l OR st) AND NOT m = push_bit 3 l OR (st AND NOT m)"
    by (rule bit_word_eqI) (auto simp: bit_and_iff bit_or_iff bit_not_iff bit_push_bit_iff dest: bits)
  have "take_bit 3 (st AND NOT m) = st AND NOT m"
    by (metis small [OF assms(2)] take_bit_and take_bit_eq_mask and.assoc and.commute)
  then have "unat (st AND NOT m) = take_bit 3 (unat (st AND NOT m))"
    by (metis unsigned_take_bit_eq)
  also have "\<dots> < 8" using take_bit_nat_less_exp [of 3] by simp
  finally show "unat (st AND NOT m) < 8" .
qed

lemma clear_oneshot_layer_state_eq:
  assumes l: "unat (l :: u8) < 16" and st: "unat (st :: u8) < 8" and m: "unat (m :: u8) < 8"
    and data: "oneshot_layer_data s = push_bit 3 l OR st"
    and enabled: "\<not> oneshot_disable (keymap_config s)"
  shows "clear_oneshot_layer_state c m s =
    (let s' = s\<lparr>oneshot_layer_data := push_bit 3 l OR (st AND NOT m)\<rparr>
     in if st AND NOT m = 0 \<and> st \<noteq> 0 then reset_oneshot_layer c (layer_off c l s') else s')"
proof -
  note d = layer_data_clear(1) [OF m st, of l] layer_data_clear(2) [OF m st]
  define s' where "s' = s\<lparr>oneshot_layer_data := push_bit 3 l OR (st AND NOT m)\<rparr>"
  have state: "get_oneshot_layer_state s' = st AND NOT m"
    unfolding get_oneshot_layer_state_def s'_def by (simp add: layer_data_state [OF d(2)])
  have layer: "get_oneshot_layer s' = l"
    unfolding get_oneshot_layer_def s'_def by (simp add: layer_data_layer [OF l d(2)])
  have cmp: "uint (push_bit 3 l OR st) \<noteq> sint (push_bit 3 l OR (st AND NOT m)) \<longleftrightarrow> st \<noteq> st AND NOT m"
    unfolding layer_data_positive [OF l d(2)]
    using layer_data_state [OF st, of l] layer_data_state [OF d(2), of l]
    by (metis word_uint_eq_iff)
  show ?thesis
    unfolding clear_oneshot_layer_state_def Let_def data d(1) s'_def [symmetric] state layer
    using cmp enabled by (auto simp: s'_def)
qed

lemma set_oneshot_layer_simps:
  assumes "\<not> oneshot_disable (keymap_config s)"
  shows "oneshot_layer_data (set_oneshot_layer c l st s) = push_bit 3 l OR st"
    and "layer_state (set_oneshot_layer c l st s) = layer_state_set_kb c (layer_state s OR layer_bit l)"
    and "keymap_config (set_oneshot_layer c l st s) = keymap_config s"
  using assms by (simp_all add: set_oneshot_layer_def Let_def layer_on_def)

lemma reset_oneshot_layer_simps [simp]:
  "layer_state (reset_oneshot_layer c s) = layer_state s"
  "oneshot_layer_data (reset_oneshot_layer c s) = 0"
  "keymap_config (reset_oneshot_layer c s) = keymap_config s"
  by (simp_all add: reset_oneshot_layer_def Let_def set_oneshot_layer_time_def)

text \<open>
  C23. A one-shot layer below 16 is on from the press of its key until both its key has been released
  and another key has been pressed, in either order; then it is off, and the one-shot state is reset.
\<close>

theorem oneshot_layer_life:
  assumes "unat l < 16" and "\<not> oneshot_disable (keymap_config s)"
    and "layer_state_set_kb c = (\<lambda>x. x)"
    and "(a, b) \<in> {(ONESHOT_PRESSED, ONESHOT_OTHER_KEY_PRESSED), (ONESHOT_OTHER_KEY_PRESSED, ONESHOT_PRESSED)}"
  defines "s1 \<equiv> set_oneshot_layer c l ONESHOT_START s"
  defines "s2 \<equiv> clear_oneshot_layer_state c a s1"
  defines "s3 \<equiv> clear_oneshot_layer_state c b s2"
  shows "layer_state s1 = layer_state s OR layer_bit l \<and>
    is_oneshot_layer_active s2 \<and> layer_state s2 = layer_state s OR layer_bit l \<and>
    \<not> is_oneshot_layer_active s3 \<and> layer_state s3 = layer_state s AND NOT (layer_bit l)"
proof -
  note on = set_oneshot_layer_simps [OF assms(2), where c = c and l = l and st = ONESHOT_START, folded s1_def]
  have m: "unat a < 8" "unat b < 8" "unat ONESHOT_START < 8" "unat (3 AND NOT a :: u8) < 8"
    and ab: "3 AND NOT a = b" "b \<noteq> 0" "b AND NOT b = 0"
    using assms(4) by (auto simp: ONESHOT_PRESSED_def ONESHOT_OTHER_KEY_PRESSED_def ONESHOT_START_def)
  have en1: "\<not> oneshot_disable (keymap_config s1)" using on(3) assms(2) by simp
  have s2: "s2 = s1\<lparr>oneshot_layer_data := push_bit 3 l OR b\<rparr>"
    unfolding s2_def
    using clear_oneshot_layer_state_eq [OF assms(1) m(3) m(1) on(1) en1, of c] ab
    by (simp add: ONESHOT_START_def Let_def)
  have d2: "oneshot_layer_data s2 = push_bit 3 l OR b" and en2: "\<not> oneshot_disable (keymap_config s2)"
    using en1 by (simp_all add: s2)
  have s3: "s3 = reset_oneshot_layer c (layer_off c l (s2\<lparr>oneshot_layer_data := push_bit 3 l OR 0\<rparr>))"
    unfolding s3_def
    using clear_oneshot_layer_state_eq [OF assms(1) m(2) m(2) d2 en2, of c] ab
    by (simp add: Let_def)
  have "is_oneshot_layer_active s2"
    unfolding is_oneshot_layer_active_def get_oneshot_layer_state_def d2
    using layer_data_state [OF m(2), of l] ab(2) by simp
  moreover have "(layer_state s OR layer_bit l) AND NOT (layer_bit l) = layer_state s AND NOT (layer_bit l)"
    by (simp add: bit.conj_disj_distrib2)
  ultimately show ?thesis
    using on assms(3)
    by (simp add: s2 s3 layer_off_def is_oneshot_layer_active_def get_oneshot_layer_state_def)
qed

theorem oneshot_layer_life_witness:
  "let c = default_config (\<lambda>_ _. 0) :: unit config; s = layer_init c;
       s1 = set_oneshot_layer c 3 ONESHOT_START s;
       s2 = clear_oneshot_layer_state c ONESHOT_PRESSED s1;
       s3 = clear_oneshot_layer_state c ONESHOT_OTHER_KEY_PRESSED s2
   in \<not> oneshot_disable (keymap_config s) \<and> layer_state_set_kb c = (\<lambda>x. x) \<and>
      layer_state s1 = 8 \<and> layer_state s2 = 8 \<and> layer_state s3 = 0"
proof -
  have "layer_state (layer_init (default_config (\<lambda>_ _. 0) :: unit config)) = 0"
    "\<not> oneshot_disable (keymap_config (layer_init (default_config (\<lambda>_ _. 0) :: unit config)))"
    by (simp_all add: layer_init_def keymap_config_of_raw_def)
  moreover have "layer_bit 3 = 8" by (simp add: layer_bit_def bitmask_def)
  ultimately show ?thesis
    using oneshot_layer_life [of 3 "layer_init (default_config (\<lambda>_ _. 0) :: unit config)"
        "default_config (\<lambda>_ _. 0) :: unit config" ONESHOT_PRESSED ONESHOT_OTHER_KEY_PRESSED]
    by (simp add: Let_def)
qed

subsection \<open>Layers 16 to 31\<close>

lemma high_layer_read:
  assumes "unat (st :: u8) < 8" "bit (l :: u8) 4"
  shows "layer_bit (signed_drop_bit 3 (push_bit 3 l OR st)) = 0"
proof -
  define x where "x = signed_drop_bit 3 (push_bit 3 l OR st)"
  have "bit x 5" unfolding x_def using assms(2) by (simp add: bit_signed_drop_bit_iff bit_layer_data [OF assms(1)])
  then have "\<not> unat x < 32" using small_layer_bits [of x 5] by auto
  then have "layer_bit x = 0"
    by (intro bit_word_eqI) (simp add: layer_bit_def bit_bitmask)
  then show ?thesis unfolding x_def .
qed

lemma high_layer_clear:
  assumes "unat (st :: u8) < 8" "unat (m :: u8) < 8" "bit (l :: u8) 4"
    and "oneshot_layer_data s = push_bit 3 l OR st" "layer_state_set_kb c = (\<lambda>x. x)"
  shows "layer_state (clear_oneshot_layer_state c m s) = layer_state s"
    and "oneshot_layer_data (clear_oneshot_layer_state c m s) \<in> {0, push_bit 3 l OR (st AND NOT m)}"
proof -
  note d = layer_data_clear(1) [OF assms(2,1), of l] layer_data_clear(2) [OF assms(2,1)]
  have "layer_bit (get_oneshot_layer (s\<lparr>oneshot_layer_data := push_bit 3 l OR (st AND NOT m)\<rparr>)) = 0"
    unfolding get_oneshot_layer_def using high_layer_read [OF d(2) assms(3)] by simp
  then show "layer_state (clear_oneshot_layer_state c m s) = layer_state s"
    using assms(4,5) by (simp add: clear_oneshot_layer_state_def Let_def d(1) layer_off_def)
  show "oneshot_layer_data (clear_oneshot_layer_state c m s) \<in> {0, push_bit 3 l OR (st AND NOT m)}"
    using assms(4) by (simp add: clear_oneshot_layer_state_def Let_def d(1))
qed

text \<open>
  For the layers 16 to 31 the same sequence leaves the layer on.  The layer does not fit the signed
  byte: it is read back with its sign extended, as a number of 240 or more, so the layer switched off is
  not the one that was switched on.
\<close>

theorem oneshot_high_layer_stays_on:
  assumes "16 \<le> unat l" and "unat l < 32" and "\<not> oneshot_disable (keymap_config s)"
    and "layer_state_set_kb c = (\<lambda>x. x)"
  shows "layer_state (clear_oneshot_layer_state c ONESHOT_OTHER_KEY_PRESSED
      (clear_oneshot_layer_state c ONESHOT_PRESSED (set_oneshot_layer c l ONESHOT_START s))) =
    layer_state s OR layer_bit l"
proof -
  have l4: "bit l 4"
  proof -
    have "odd (unat l div 16)"
    proof -
      have "unat l div 16 = 1" using assms(1,2) by simp
      then show ?thesis by simp
    qed
    then show ?thesis using bit_unat [of l 4] bit_iff_odd [of "unat l" 4] by simp
  qed
  define s1 where "s1 = set_oneshot_layer c l ONESHOT_START s"
  define s2 where "s2 = clear_oneshot_layer_state c ONESHOT_PRESSED s1"
  note on = set_oneshot_layer_simps [OF assms(3), where c = c and l = l and st = ONESHOT_START, folded s1_def]
  have m: "unat ONESHOT_START < 8" "unat ONESHOT_PRESSED < 8" "unat ONESHOT_OTHER_KEY_PRESSED < 8"
    by (simp_all add: ONESHOT_START_def ONESHOT_PRESSED_def ONESHOT_OTHER_KEY_PRESSED_def)
  note s2 = high_layer_clear [OF m(1,2) l4 on(1) assms(4), folded s2_def]
  have "oneshot_layer_data s2 = push_bit 3 l OR ONESHOT_OTHER_KEY_PRESSED \<or> oneshot_layer_data s2 = 0"
    using s2(2) by (auto simp: ONESHOT_START_def ONESHOT_PRESSED_def ONESHOT_OTHER_KEY_PRESSED_def)
  then have "layer_state (clear_oneshot_layer_state c ONESHOT_OTHER_KEY_PRESSED s2) = layer_state s2"
  proof
    assume "oneshot_layer_data s2 = push_bit 3 l OR ONESHOT_OTHER_KEY_PRESSED"
    then show ?thesis using high_layer_clear(1) [OF m(3,3) l4 _ assms(4)] by blast
  next
    assume "oneshot_layer_data s2 = 0"
    then show ?thesis
      by (simp add: clear_oneshot_layer_state_def Let_def)
  qed
  then show ?thesis using s2(1) on(2) assms(4) unfolding s1_def [symmetric] s2_def [symmetric] by simp
qed

theorem oneshot_high_layer_stays_on_witness:
  "let c = default_config (\<lambda>_ _. 0) :: unit config; s = layer_init c
   in \<not> oneshot_disable (keymap_config s) \<and> layer_state_set_kb c = (\<lambda>x. x) \<and>
      layer_state (clear_oneshot_layer_state c ONESHOT_OTHER_KEY_PRESSED
        (clear_oneshot_layer_state c ONESHOT_PRESSED (set_oneshot_layer c 16 ONESHOT_START s))) = 0x10000"
proof -
  have "layer_state (layer_init (default_config (\<lambda>_ _. 0) :: unit config)) = 0"
    "\<not> oneshot_disable (keymap_config (layer_init (default_config (\<lambda>_ _. 0) :: unit config)))"
    by (simp_all add: layer_init_def keymap_config_of_raw_def)
  moreover have "layer_bit 16 = 0x10000" by (simp add: layer_bit_def bitmask_def)
  ultimately show ?thesis
    using oneshot_high_layer_stays_on [of 16 "layer_init (default_config (\<lambda>_ _. 0) :: unit config)"
        "default_config (\<lambda>_ _. 0) :: unit config"]
    by (simp add: Let_def)
qed

subsection \<open>Enabling\<close>

lemma keymap_config_clear_oneshot [simp]:
  "keymap_config (clear_oneshot_layer_state c m s) = keymap_config s"
  by (simp add: clear_oneshot_layer_state_def Let_def layer_off_def)

text \<open>
  The two functions that switch one-shot keys are exchanged: after \<^verbatim>\<open>oneshot_enable\<close> a one-shot
  modifier cannot be set, after \<^verbatim>\<open>oneshot_disable\<close> it can, and \<^verbatim>\<open>is_oneshot_enabled\<close> agrees with their
  names, not with the effect.
\<close>

theorem oneshot_enable_disables:
  "is_oneshot_enabled (oneshot_enable c s) \<and>
   oneshot_mods (set_oneshot_mods c m (oneshot_enable c s)) = oneshot_mods (oneshot_enable c s) \<and>
   \<not> is_oneshot_enabled (oneshot_disable_op c s) \<and>
   oneshot_mods (set_oneshot_mods c m (oneshot_disable_op c s)) = m"
proof -
  have e: "oneshot_disable (keymap_config (oneshot_enable c s))"
    and d: "\<not> oneshot_disable (keymap_config (oneshot_disable_op c s))"
    by (simp_all add: oneshot_enable_def oneshot_disable_op_def oneshot_set_def Let_def)
  have "oneshot_mods (set_oneshot_mods c m (oneshot_disable_op c s)) = m"
    using d by (simp add: set_oneshot_mods_def set_oneshot_time_def Let_def emit_def)
  with e d show ?thesis by (simp add: is_oneshot_enabled_def set_oneshot_mods_def)
qed

end
