(* ===== verification/Action_Register.thy ===== *)
theory Action_Register
  imports Action_Layer
begin

text \<open>
  The part of \<^verbatim>\<open>quantum/action.c\<close> that turns a keycode into a change of the reports:
  \<^verbatim>\<open>register_code\<close>, \<^verbatim>\<open>unregister_code\<close> and their relatives, in a build with \<^verbatim>\<open>EXTRAKEY_ENABLE\<close> and
  without \<^verbatim>\<open>MOUSEKEY_ENABLE\<close> and \<^verbatim>\<open>COMMAND_ENABLE\<close>; and \<^verbatim>\<open>quantum/action_macro.c\<close>, which plays
  sequences of them.
\<close>

definition USB_LED_NUM_LOCK :: nat where "USB_LED_NUM_LOCK = 0"
definition USB_LED_CAPS_LOCK :: nat where "USB_LED_CAPS_LOCK = 1"
definition USB_LED_SCROLL_LOCK :: nat where "USB_LED_SCROLL_LOCK = 2"

section \<open>Locking keys\<close>

text \<open>One of the three blocks: the lock key and the LED that shows its state.\<close>

definition register_locking :: "'s config \<Rightarrow> u8 \<Rightarrow> nat \<Rightarrow> 'a util_st_scheme \<Rightarrow> 'a util_st_scheme" where
  "register_locking c k led s =
     (if LOCKING_RESYNC_ENABLE c \<and> host_keyboard_leds s AND bitmask led \<noteq> 0 then s
      else send_keyboard_report c (del_key k (wait_ms 100 (send_keyboard_report c (add_key k s)))))"

definition unregister_locking :: "'s config \<Rightarrow> u8 \<Rightarrow> nat \<Rightarrow> 'a util_st_scheme \<Rightarrow> 'a util_st_scheme" where
  "unregister_locking c k led s =
     (if LOCKING_RESYNC_ENABLE c \<and> host_keyboard_leds s AND bitmask led = 0 then s
      else send_keyboard_report c (del_key k (send_keyboard_report c (add_key k s))))"

section \<open>Registering a keycode\<close>

definition register_code :: "'s config \<Rightarrow> u8 \<Rightarrow> 'a util_st_scheme \<Rightarrow> 'a util_st_scheme" where
  "register_code c code s =
     (if code = KC_NO then s
      else if LOCKING_SUPPORT_ENABLE c \<and> code = KC_LOCKING_CAPS_LOCK
        then register_locking c KC_CAPS_LOCK USB_LED_CAPS_LOCK s
      else if LOCKING_SUPPORT_ENABLE c \<and> code = KC_LOCKING_NUM_LOCK
        then register_locking c KC_NUM_LOCK USB_LED_NUM_LOCK s
      else if LOCKING_SUPPORT_ENABLE c \<and> code = KC_LOCKING_SCROLL_LOCK
        then register_locking c KC_SCROLL_LOCK USB_LED_SCROLL_LOCK s
      else if IS_KEY code then
        (let s = (if is_key_pressed (nkro s) (keyboard_report s) code
                  then send_keyboard_report c (del_key code s) else s)
         in send_keyboard_report c (add_key code s))
      else if IS_MOD code then send_keyboard_report c (add_mods (MOD_BIT code) s)
      else if IS_SYSTEM code then host_system_send (KEYCODE2SYSTEM code) s
      else if IS_CONSUMER code then host_consumer_send (KEYCODE2CONSUMER code) s
      else s)"

definition unregister_code :: "'s config \<Rightarrow> u8 \<Rightarrow> 'a util_st_scheme \<Rightarrow> 'a util_st_scheme" where
  "unregister_code c code s =
     (if code = KC_NO then s
      else if LOCKING_SUPPORT_ENABLE c \<and> code = KC_LOCKING_CAPS_LOCK
        then unregister_locking c KC_CAPS_LOCK USB_LED_CAPS_LOCK s
      else if LOCKING_SUPPORT_ENABLE c \<and> code = KC_LOCKING_NUM_LOCK
        then unregister_locking c KC_NUM_LOCK USB_LED_NUM_LOCK s
      else if LOCKING_SUPPORT_ENABLE c \<and> code = KC_LOCKING_SCROLL_LOCK
        then unregister_locking c KC_SCROLL_LOCK USB_LED_SCROLL_LOCK s
      else if IS_KEY code then send_keyboard_report c (del_key code s)
      else if IS_MOD code then send_keyboard_report c (del_mods (MOD_BIT code) s)
      else if IS_SYSTEM code then host_system_send 0 s
      else if IS_CONSUMER code then host_consumer_send 0 s
      else s)"

definition tap_code_delay :: "'s config \<Rightarrow> u8 \<Rightarrow> u16 \<Rightarrow> 'a util_st_scheme \<Rightarrow> 'a util_st_scheme" where
  "tap_code_delay c code delay s =
     unregister_code c code ((wait_ms 1 ^^ unat delay) (register_code c code s))"

definition tap_code :: "'s config \<Rightarrow> u8 \<Rightarrow> 'a util_st_scheme \<Rightarrow> 'a util_st_scheme" where
  "tap_code c code s =
     tap_code_delay c code (if code = KC_CAPS_LOCK then TAP_HOLD_CAPS_DELAY c else TAP_CODE_DELAY c) s"

section \<open>Registering modifiers\<close>

definition register_mods :: "'s config \<Rightarrow> u8 \<Rightarrow> 'a util_st_scheme \<Rightarrow> 'a util_st_scheme" where
  "register_mods c m s = (if m \<noteq> 0 then send_keyboard_report c (add_mods m s) else s)"

definition unregister_mods :: "'s config \<Rightarrow> u8 \<Rightarrow> 'a util_st_scheme \<Rightarrow> 'a util_st_scheme" where
  "unregister_mods c m s = (if m \<noteq> 0 then send_keyboard_report c (del_mods m s) else s)"

definition register_weak_mods :: "'s config \<Rightarrow> u8 \<Rightarrow> 'a util_st_scheme \<Rightarrow> 'a util_st_scheme" where
  "register_weak_mods c m s = (if m \<noteq> 0 then send_keyboard_report c (add_weak_mods m s) else s)"

definition unregister_weak_mods :: "'s config \<Rightarrow> u8 \<Rightarrow> 'a util_st_scheme \<Rightarrow> 'a util_st_scheme" where
  "unregister_weak_mods c m s = (if m \<noteq> 0 then send_keyboard_report c (del_weak_mods m s) else s)"

section \<open>Macros\<close>

text \<open>
  A macro is the list of its bytes.  The code reads on until \<^verbatim>\<open>END\<close> or a byte that is no command; for a
  macro without either it would read past the array, where the model stops.
\<close>

definition wait_steps :: "nat \<Rightarrow> 'a host_st_scheme \<Rightarrow> 'a host_st_scheme" where
  "wait_steps n s = (wait_ms 1 ^^ n) s"

definition macro_key_down :: "'s config \<Rightarrow> u8 \<Rightarrow> 'a util_st_scheme \<Rightarrow> 'a util_st_scheme" where
  "macro_key_down c k s =
     (if IS_MOD k then send_keyboard_report c (add_macro_mods (MOD_BIT k) s) else register_code c k s)"

definition macro_key_up :: "'s config \<Rightarrow> u8 \<Rightarrow> 'a util_st_scheme \<Rightarrow> 'a util_st_scheme" where
  "macro_key_up c k s =
     (if IS_MOD k then send_keyboard_report c (del_macro_mods (MOD_BIT k) s) else unregister_code c k s)"

fun macro_loop :: "'s config \<Rightarrow> u8 \<Rightarrow> u8 list \<Rightarrow> 'a util_st_scheme \<Rightarrow> 'a util_st_scheme" where
  "macro_loop c interval [] s = s"
| "macro_loop c interval [b] s =
     (if 0x04 \<le> b \<and> b \<le> 0x73 then wait_steps (unat interval) (register_code c b s)
      else if 0x84 \<le> b \<and> b \<le> 0xF3 then wait_steps (unat interval) (unregister_code c (b AND 0x7F) s)
      else s)"
| "macro_loop c interval (b # d # bs) s =
     (if b = KEY_DOWN then
        macro_loop c interval bs (wait_steps (unat interval) (macro_key_down c d s))
      else if b = KEY_UP then
        macro_loop c interval bs (wait_steps (unat interval) (macro_key_up c d s))
      else if b = WAIT then
        macro_loop c interval bs (wait_steps (unat interval) (wait_steps (unat d) s))
      else if b = INTERVAL then macro_loop c d bs (wait_steps (unat d) s)
      else if 0x04 \<le> b \<and> b \<le> 0x73 then
        macro_loop c interval (d # bs) (wait_steps (unat interval) (register_code c b s))
      else if 0x84 \<le> b \<and> b \<le> 0xF3 then
        macro_loop c interval (d # bs) (wait_steps (unat interval) (unregister_code c (b AND 0x7F) s))
      else s)"

definition action_macro_play :: "'s config \<Rightarrow> u8 list \<Rightarrow> 'a util_st_scheme \<Rightarrow> 'a util_st_scheme" where
  "action_macro_play c m s = macro_loop c 0 m s"

section \<open>Frame\<close>

text \<open>What the layers and the rest of the state keep is part of \<open>util_st.more\<close>.\<close>

lemma layer_fields_of_more:
  assumes "util_st.more s = util_st.more t"
  shows "layer_state s = layer_state t" "default_layer_state s = default_layer_state t"
    "source_layers_cache s = source_layers_cache t" "disable_action_cache s = disable_action_cache t"
    "layer_st.more s = layer_st.more t"
  using assms by (cases s; cases t; simp)+

lemma mods_more [simp]:
  "util_st.more (add_mods m s) = util_st.more s" "util_st.more (del_mods m s) = util_st.more s"
  "util_st.more (add_weak_mods m s) = util_st.more s" "util_st.more (del_weak_mods m s) = util_st.more s"
  "util_st.more (add_macro_mods m s) = util_st.more s" "util_st.more (del_macro_mods m s) = util_st.more s"
  "util_st.more (add_key k s) = util_st.more s" "util_st.more (del_key k s) = util_st.more s"
  "util_st.more (wait_ms n s) = util_st.more s"
  "util_st.more (host_system_send u s) = util_st.more s"
  "util_st.more (host_consumer_send u s) = util_st.more s"
  by (simp_all add: add_mods_def del_mods_def add_weak_mods_def del_weak_mods_def add_macro_mods_def
      del_macro_mods_def add_key_def del_key_def wait_ms_def emit_def host_system_send_def
      host_consumer_send_def Let_def)

lemma mods_oneshot_layer [simp]:
  "oneshot_layer_data (add_mods m s) = oneshot_layer_data s"
  "oneshot_layer_data (del_mods m s) = oneshot_layer_data s"
  "oneshot_layer_data (add_weak_mods m s) = oneshot_layer_data s"
  "oneshot_layer_data (del_weak_mods m s) = oneshot_layer_data s"
  "oneshot_layer_data (add_macro_mods m s) = oneshot_layer_data s"
  "oneshot_layer_data (del_macro_mods m s) = oneshot_layer_data s"
  "oneshot_layer_data (add_key k s) = oneshot_layer_data s"
  "oneshot_layer_data (del_key k s) = oneshot_layer_data s"
  "oneshot_layer_data (wait_ms n s) = oneshot_layer_data s"
  by (simp_all add: add_mods_def del_mods_def add_weak_mods_def del_weak_mods_def add_macro_mods_def
      del_macro_mods_def add_key_def del_key_def wait_ms_def emit_def)

lemma mods_keymap_config [simp]:
  "keymap_config (add_mods m s) = keymap_config s" "keymap_config (del_mods m s) = keymap_config s"
  "keymap_config (add_weak_mods m s) = keymap_config s"
  "keymap_config (del_weak_mods m s) = keymap_config s"
  "keymap_config (add_macro_mods m s) = keymap_config s"
  "keymap_config (del_macro_mods m s) = keymap_config s"
  "keymap_config (add_key k s) = keymap_config s" "keymap_config (del_key k s) = keymap_config s"
  "keymap_config (wait_ms n s) = keymap_config s"
  by (simp_all add: add_mods_def del_mods_def add_weak_mods_def del_weak_mods_def add_macro_mods_def
      del_macro_mods_def add_key_def del_key_def wait_ms_def emit_def)

lemma oneshot_mods_frame [simp]:
  "util_st.more (set_oneshot_mods c m s) = util_st.more s"
  "util_st.more (clear_oneshot_mods c s) = util_st.more s"
  "util_st.more (set_oneshot_locked_mods m s) = util_st.more s"
  "util_st.more (clear_oneshot_locked_mods s) = util_st.more s"
  "oneshot_layer_data (set_oneshot_mods c m s) = oneshot_layer_data s"
  "oneshot_layer_data (clear_oneshot_mods c s) = oneshot_layer_data s"
  "oneshot_layer_data (set_oneshot_locked_mods m s) = oneshot_layer_data s"
  "oneshot_layer_data (clear_oneshot_locked_mods s) = oneshot_layer_data s"
  "keymap_config (set_oneshot_mods c m s) = keymap_config s"
  "keymap_config (clear_oneshot_mods c s) = keymap_config s"
  "keymap_config (set_oneshot_locked_mods m s) = keymap_config s"
  "keymap_config (clear_oneshot_locked_mods s) = keymap_config s"
  by (simp_all add: set_oneshot_mods_def clear_oneshot_mods_def set_oneshot_locked_mods_def
      clear_oneshot_locked_mods_def set_oneshot_time_def emit_def Let_def)

lemma register_frame [simp]:
  "util_st.more (register_code c k s) = util_st.more s"
  "util_st.more (unregister_code c k s) = util_st.more s"
  "util_st.more (register_mods c m s) = util_st.more s"
  "util_st.more (unregister_mods c m s) = util_st.more s"
  "oneshot_layer_data (register_code c k s) = oneshot_layer_data s"
  "oneshot_layer_data (unregister_code c k s) = oneshot_layer_data s"
  "oneshot_layer_data (register_mods c m s) = oneshot_layer_data s"
  "oneshot_layer_data (unregister_mods c m s) = oneshot_layer_data s"
  "keymap_config (register_code c k s) = keymap_config s"
  "keymap_config (unregister_code c k s) = keymap_config s"
  "keymap_config (register_mods c m s) = keymap_config s"
  "keymap_config (unregister_mods c m s) = keymap_config s"
  by (simp_all add: register_code_def unregister_code_def register_mods_def unregister_mods_def
      register_locking_def unregister_locking_def Let_def)

lemma wait_steps_frame [simp]:
  "util_st.more (wait_steps n s) = util_st.more s"
  "oneshot_layer_data (wait_steps n s) = oneshot_layer_data s"
  "keymap_config (wait_steps n s) = keymap_config s"
  by (induction n) (simp_all add: wait_steps_def)

lemma tap_code_frame [simp]:
  "util_st.more (tap_code c k s) = util_st.more s"
  "oneshot_layer_data (tap_code c k s) = oneshot_layer_data s"
  "keymap_config (tap_code c k s) = keymap_config s"
  unfolding tap_code_def tap_code_delay_def wait_steps_def [symmetric] by simp_all

lemma macro_key_frame [simp]:
  "util_st.more (macro_key_down c k s) = util_st.more s"
  "util_st.more (macro_key_up c k s) = util_st.more s"
  "oneshot_layer_data (macro_key_down c k s) = oneshot_layer_data s"
  "oneshot_layer_data (macro_key_up c k s) = oneshot_layer_data s"
  "keymap_config (macro_key_down c k s) = keymap_config s"
  "keymap_config (macro_key_up c k s) = keymap_config s"
  by (simp_all add: macro_key_down_def macro_key_up_def)

lemma macro_loop_frame [simp]:
  "util_st.more (macro_loop c i bs s) = util_st.more s"
  "oneshot_layer_data (macro_loop c i bs s) = oneshot_layer_data s"
  "keymap_config (macro_loop c i bs s) = keymap_config s"
  by (induction c i bs s rule: macro_loop.induct) simp_all

lemma action_macro_play_frame [simp]:
  "util_st.more (action_macro_play c m s) = util_st.more s"
  "oneshot_layer_data (action_macro_play c m s) = oneshot_layer_data s"
  "keymap_config (action_macro_play c m s) = keymap_config s"
  by (simp_all add: action_macro_play_def)

section \<open>What the firmware holds and what the host was told\<close>

definition util_wf :: "'a util_st_scheme \<Rightarrow> bool" where
  "util_wf s \<longleftrightarrow> report_wf (keyboard_report s) \<and> (nkro s \<or> keys_distinct (keyboard_report s))"

definition util_held :: "'a util_st_scheme \<Rightarrow> u8 set" where
  "util_held s = held (nkro s) (keyboard_report s)"

fun last_report :: "effect list \<Rightarrow> report option" where
  "last_report [] = None"
| "last_report (e # es) =
     (case last_report es of Some r \<Rightarrow> Some r
      | None \<Rightarrow> (case e of Keyboard_report r \<Rightarrow> Some r | _ \<Rightarrow> None))"

definition synced :: "'a util_st_scheme \<Rightarrow> bool" where
  "synced s \<longleftrightarrow> (case last_report (effects s) of None \<Rightarrow> True | Some r \<Rightarrow> held (nkro s) r = util_held s)"

lemma last_report_append:
  "last_report (es @ fs) = (case last_report fs of Some r \<Rightarrow> Some r | None \<Rightarrow> last_report es)"
  by (induction es) (auto split: option.splits)

lemma last_report_emit [simp]:
  "last_report (es @ [e]) = (case e of Keyboard_report r \<Rightarrow> Some r | _ \<Rightarrow> last_report es)"
  by (auto simp: last_report_append split: effect.splits option.splits)

text \<open>One change of the key report, in both layouts.\<close>

lemma report_step_held:
  assumes "report_wf r" "n \<or> keys_distinct r"
  shows "report_wf (report_step n r e)" "n \<or> keys_distinct (report_step n r e)"
    "held n (report_step n r e) = held_step n (held n r) e"
proof -
  have "report_wf (report_step n r e) \<and> (n \<or> keys_distinct (report_step n r e)) \<and>
      held n (report_step n r e) = held_step n (held n r) e"
    using assms by (cases n) (simp_all add: report_step_bits report_step6 keys_distinct_step)
  then show "report_wf (report_step n r e)" "n \<or> keys_distinct (report_step n r e)"
    "held n (report_step n r e) = held_step n (held n r) e" by simp_all
qed

lemma util_key_ops:
  assumes "util_wf s"
  shows "util_wf (add_key k s)" "util_held (add_key k s) = held_step (nkro s) (util_held s) (Press k)"
    "util_wf (del_key k s)" "util_held (del_key k s) = util_held s - {k}"
    "util_wf (clear_keys s)" "util_held (clear_keys s) = {}"
  using assms report_step_held [of "keyboard_report s" "nkro s" "Press k"]
    report_step_held [of "keyboard_report s" "nkro s" "Release k"]
    report_step_held [of "keyboard_report s" "nkro s" ReleaseAll]
  by (simp_all add: util_wf_def util_held_def add_key_def del_key_def clear_keys_def
      report_step_def held_step_def)

lemma nkro_ops [simp]:
  "nkro (add_key k s) = nkro s" "nkro (del_key k s) = nkro s"
  "nkro (add_mods m s) = nkro s" "nkro (del_mods m s) = nkro s"
  by (simp_all add: add_key_def del_key_def add_mods_def del_mods_def nkro_def)

lemma util_send [simp]:
  "util_wf (send_keyboard_report c s) = util_wf s"
  "util_held (send_keyboard_report c s) = util_held s"
  by (simp_all add: util_wf_def util_held_def)

lemma wire_report_held:
  assumes "report_wf r"
  shows "held n (wire_report n m r) = held n r"
  by (rule held_slots) (simp add: wire_report_def slot_def)

lemma synced_send: "host_driver s \<Longrightarrow> util_wf s \<Longrightarrow> synced (send_keyboard_report c s)"
  by (simp add: send_report_sends util_wf_def synced_def util_held_def Let_def
      wire_report_held nkro_def spend_oneshot_def)

section \<open>Keycodes against a set of keys and a set of modifiers\<close>

datatype code_call = Register u8 | Unregister u8 | Register_mods u8 | Unregister_mods u8

definition code_step :: "'s config \<Rightarrow> 'a util_st_scheme \<Rightarrow> code_call \<Rightarrow> 'a util_st_scheme" where
  "code_step c s e =
     (case e of Register k \<Rightarrow> register_code c k s
      | Unregister k \<Rightarrow> unregister_code c k s
      | Register_mods m \<Rightarrow> register_mods c m s
      | Unregister_mods m \<Rightarrow> unregister_mods c m s)"

definition keyboard_step :: "bool \<Rightarrow> u8 set \<times> u8 \<Rightarrow> code_call \<Rightarrow> u8 set \<times> u8" where
  "keyboard_step n v e =
     (case e of
        Register k \<Rightarrow> (if IS_KEY k then held_step n (fst v) (Press k) else fst v,
                       if IS_MOD k then snd v OR MOD_BIT k else snd v)
      | Unregister k \<Rightarrow> (if IS_KEY k then fst v - {k} else fst v,
                         if IS_MOD k then snd v AND NOT (MOD_BIT k) else snd v)
      | Register_mods m \<Rightarrow> (fst v, snd v OR m)
      | Unregister_mods m \<Rightarrow> (fst v, snd v AND NOT m))"

definition ready :: "'a util_st_scheme \<Rightarrow> bool" where
  "ready s \<longleftrightarrow> host_driver s \<and> util_wf s \<and> synced s"

definition keyboard_view :: "'a util_st_scheme \<Rightarrow> u8 set \<times> u8" where
  "keyboard_view s = (util_held s, real_mods s)"

lemma ready_send: "host_driver s \<Longrightarrow> util_wf s \<Longrightarrow> ready (send_keyboard_report c s)"
  by (simp add: ready_def synced_send)

lemma host_sends [simp]:
  "last_report (effects (host_system_send u s)) = last_report (effects s)"
  "last_report (effects (host_consumer_send u s)) = last_report (effects s)"
  by (simp_all add: host_system_send_def host_consumer_send_def Let_def emit_def)

lemma nkro_sends [simp]:
  "nkro (host_system_send u s) = nkro s" "nkro (host_consumer_send u s) = nkro s"
  by (simp_all add: nkro_def host_system_send_def host_consumer_send_def Let_def emit_def)

lemma ready_sends [simp]:
  "ready (host_system_send u s) = ready s" "ready (host_consumer_send u s) = ready s"
  "util_held (host_system_send u s) = util_held s" "util_held (host_consumer_send u s) = util_held s"
  "keyboard_view (host_system_send u s) = keyboard_view s"
  "keyboard_view (host_consumer_send u s) = keyboard_view s"
  by (simp_all add: ready_def synced_def util_held_def util_wf_def keyboard_view_def
      split: option.splits)

lemma util_mods [simp]:
  "util_wf (add_mods m s) = util_wf s" "util_wf (del_mods m s) = util_wf s"
  "util_held (add_mods m s) = util_held s" "util_held (del_mods m s) = util_held s"
  "host_driver (add_mods m s) = host_driver s" "host_driver (del_mods m s) = host_driver s"
  "real_mods (add_mods m s) = real_mods s OR m" "real_mods (del_mods m s) = real_mods s AND NOT m"
  by (simp_all add: util_wf_def util_held_def add_mods_def del_mods_def nkro_def)

lemma util_keys [simp]:
  "host_driver (add_key k s) = host_driver s" "host_driver (del_key k s) = host_driver s"
  "real_mods (add_key k s) = real_mods s" "real_mods (del_key k s) = real_mods s"
  by (simp_all add: add_key_def del_key_def)

text \<open>A key that is already held always finds room again.\<close>

lemma held_room:
  assumes "util_wf s" "k \<in> util_held s"
  shows "k \<noteq> 0 \<and> (if nkro s then unat k < 240 else card (util_held s - {k}) < 6)"
proof (cases "nkro s")
  case True
  then show ?thesis using assms(2)
    by (auto simp: util_held_def held_def is_key_pressed_bit)
next
  case False
  have sub: "util_held s \<subseteq> slot (keyboard_report s) ` {..<6}"
    using False by (auto simp: util_held_def held6_image)
  then have "card (util_held s) \<le> card (slot (keyboard_report s) ` {..<6})"
    by (intro card_mono) auto
  also have "\<dots> \<le> 6" using card_image_le [of "{..<6 :: nat}" "slot (keyboard_report s)"] by simp
  finally have "card (util_held s) \<le> 6" .
  moreover have "finite (util_held s)" using sub by (rule finite_subset) simp
  ultimately have "card (util_held s - {k}) < 6"
    using assms(2) card_Diff1_less [of "util_held s" k] by linarith
  with False assms(2) show ?thesis
    by (auto simp: util_held_def held_def is_key_pressed_def)
qed

lemma register_key:
  fixes c :: "'s config"
  assumes "ready s" "IS_KEY k"
  defines "s' \<equiv> send_keyboard_report c (add_key k
      (if is_key_pressed (nkro s) (keyboard_report s) k then send_keyboard_report c (del_key k s) else s))"
  shows "ready s'" "keyboard_view s' = (held_step (nkro s) (util_held s) (Press k), real_mods s)"
proof -
  have wf: "util_wf s" "host_driver s" using assms(1) by (simp_all add: ready_def)
  note ops = util_key_ops(1-4) [OF wf(1), of k]
  have wfd: "util_wf (send_keyboard_report c (del_key k s))" using ops(3) by simp
  note again = util_key_ops(1,2) [OF wfd, of k]
  show "ready s'"
    unfolding s'_def using wf ops(1) again(1) by (intro ready_send) simp_all
  show "keyboard_view s' = (held_step (nkro s) (util_held s) (Press k), real_mods s)"
  proof (cases "is_key_pressed (nkro s) (keyboard_report s) k")
    case True
    then have k: "k \<in> util_held s" by (simp add: util_held_def held_def)
    have "util_held s' = held_step (nkro s) (util_held s - {k}) (Press k)"
      using True again(2) ops(4) by (simp add: s'_def)
    also have "\<dots> = held_step (nkro s) (util_held s) (Press k)"
      using held_room [OF wf(1) k] k
      by (auto simp: held_step_def KEYBOARD_REPORT_BITS_def KEYBOARD_REPORT_KEYS_def)
    finally show ?thesis using True by (simp add: keyboard_view_def s'_def)
  next
    case False
    then show ?thesis using ops(2) by (simp add: keyboard_view_def s'_def)
  qed
qed

lemma nkro_wait [simp]: "nkro (wait_ms n s) = nkro s"
  by (simp add: wait_ms_def nkro_def)

lemma nkro_register [simp]:
  "nkro (register_code c k s) = nkro s" "nkro (unregister_code c k s) = nkro s"
  "nkro (register_mods c m s) = nkro s" "nkro (unregister_mods c m s) = nkro s"
  by (simp_all add: register_code_def unregister_code_def register_mods_def unregister_mods_def
      register_locking_def unregister_locking_def Let_def)

lemma code_step_simulates:
  assumes "ready s" "\<not> LOCKING_SUPPORT_ENABLE c"
  shows "ready (code_step c s e) \<and>
    keyboard_view (code_step c s e) = keyboard_step (nkro s) (keyboard_view s) e"
proof -
  have wf: "util_wf s" "host_driver s" using assms(1) by (simp_all add: ready_def)
  note ops = util_key_ops [OF wf(1)]
  show ?thesis
  proof (cases e)
    case (Register k)
    show ?thesis
    proof (cases "IS_KEY k")
      case True
      then have "code_step c s e = send_keyboard_report c (add_key k
          (if is_key_pressed (nkro s) (keyboard_report s) k
           then send_keyboard_report c (del_key k s) else s))"
        using assms(2) key_nonzero [OF True] by (simp add: Register code_step_def register_code_def Let_def)
      then show ?thesis
        using register_key [OF assms(1) True, of c] not_key_and_mod [OF True]
        by (simp add: Register keyboard_step_def keyboard_view_def True)
    next
      case False
      then show ?thesis using assms wf ready_send [of "add_mods (MOD_BIT k) s" c]
        by (auto simp: Register code_step_def register_code_def keyboard_step_def keyboard_view_def
            IS_MOD_8)
    qed
  next
    case (Unregister k)
    show ?thesis
    proof (cases "IS_KEY k")
      case True
      then show ?thesis
        using assms(2) key_nonzero [OF True] not_key_and_mod [OF True] ops(3,4) [of k] wf
          ready_send [of "del_key k s" c]
        by (simp add: Unregister code_step_def unregister_code_def keyboard_step_def keyboard_view_def)
    next
      case False
      then show ?thesis using assms wf ready_send [of "del_mods (MOD_BIT k) s" c]
        by (auto simp: Unregister code_step_def unregister_code_def keyboard_step_def
            keyboard_view_def IS_MOD_8)
    qed
  next
    case (Register_mods m)
    then show ?thesis using assms wf ready_send [of "add_mods m s" c]
      by (simp add: code_step_def register_mods_def keyboard_step_def keyboard_view_def)
  next
    case (Unregister_mods m)
    then show ?thesis using assms wf ready_send [of "del_mods m s" c]
      by (simp add: code_step_def unregister_mods_def keyboard_step_def keyboard_view_def)
  qed
qed

lemma nkro_code_step [simp]: "nkro (code_step c s e) = nkro s"
  by (cases e) (simp_all add: code_step_def)

lemma code_steps_simulate:
  "ready s \<Longrightarrow> \<not> LOCKING_SUPPORT_ENABLE c \<Longrightarrow>
   ready (foldl (code_step c) s es) \<and>
   keyboard_view (foldl (code_step c) s es) = foldl (keyboard_step (nkro s)) (keyboard_view s) es"
  by (induction es arbitrary: s) (simp_all add: code_step_simulates)

text \<open>
  C3. Over any sequence of registered and unregistered keycodes and modifier masks, the firmware's keys
  and real modifiers are those of the reference (keys up to the room of the report, modifiers as a bit
  set), and the last report sent to the host carries exactly those keys: the host is never left with a
  key that the firmware has released, nor without one it holds.
\<close>

theorem registered_codes_reach_host:
  assumes "ready s" and "\<not> LOCKING_SUPPORT_ENABLE c"
  shows "let s' = foldl (code_step c) s es
    in (util_held s', real_mods s') = foldl (keyboard_step (nkro s)) (util_held s, real_mods s) es \<and>
      (case last_report (effects s') of None \<Rightarrow> True | Some r \<Rightarrow> held (nkro s') r = util_held s')"
  using code_steps_simulate [OF assms, of es]
  by (simp add: Let_def keyboard_view_def ready_def synced_def)

theorem registered_codes_reach_host_witness:
  "let c = default_config (\<lambda>_ _. 0) :: unit config; s = layer_init c;
       s' = foldl (code_step c) s [Register KC_A, Register KC_LEFT_SHIFT, Unregister KC_A]
   in ready s \<and> (util_held s', real_mods s') = ({}, 2)"
proof -
  have r: "ready (layer_init c)" for c :: "unit config"
    by (auto simp: ready_def layer_init_def util_wf_def synced_def nkro_def keymap_config_of_raw_def
        keys_distinct_def slot_empty)
  have "util_held (layer_init c) = {}" "real_mods (layer_init c) = 0" for c :: "unit config"
    by (simp_all add: util_held_def layer_init_def held_empty)
  moreover have "foldl (keyboard_step n) ({}, 0)
      [Register KC_A, Register KC_LEFT_SHIFT, Unregister KC_A] = ({}, 2)" for n
    by (auto simp: keyboard_step_def IS_KEY_def IS_MOD_def MOD_BIT_def held_step_def)
  moreover have "\<not> LOCKING_SUPPORT_ENABLE (default_config (\<lambda>_ _. 0) :: unit config)" by simp
  ultimately show ?thesis
    using registered_codes_reach_host [OF r [of "default_config (\<lambda>_ _. 0)"],
        of "default_config (\<lambda>_ _. 0) :: unit config"
          "[Register KC_A, Register KC_LEFT_SHIFT, Unregister KC_A]"] r
    by (simp only: Let_def) simp
qed

end
