(* ===== verification/Action.thy ===== *)
theory Action
  imports Action_Register
begin

text \<open>
  \<^verbatim>\<open>quantum/action.c\<close>: what a key record does.  The state extends the layers' with the hand swap and
  the retro-tapping counter.  The build has \<^verbatim>\<open>EXTRAKEY_ENABLE\<close> and neither \<^verbatim>\<open>MOUSEKEY_ENABLE\<close> nor a
  \<^verbatim>\<open>PER_KEY\<close> option; the other options are fields of the configuration.  The functions that a keymap
  overrides (\<^verbatim>\<open>process_record_quantum\<close> and its relatives) are fields of the configuration that act on
  the whole state.  The local \<^verbatim>\<open>event\<close> and \<^verbatim>\<open>tap_count\<close> of \<^verbatim>\<open>process_action\<close> are copies made at its
  start; the record itself may be changed, so it is returned.
\<close>

record action_st = layer_st +
  swap_hands :: bool
  swap_held :: bool
  swap_state :: "u32 list"
  retro_tapping_counter :: int

section \<open>Swapping hands\<close>

text \<open>
  The one-shot functions of \<^verbatim>\<open>quantum/action_util.c\<close>, which change \<^verbatim>\<open>swap_hands\<close>.
\<close>

definition has_oneshot_swaphands_timed_out :: "'s config \<Rightarrow> 'a util_st_scheme \<Rightarrow> bool" where
  "has_oneshot_swaphands_timed_out c s \<longleftrightarrow>
     unat (TIMER_DIFF_16 (timer_read s) (oneshot_swaphands_time s)) \<ge> ONESHOT_TIMEOUT c \<and>
     swap_hands_oneshot s = SHO_ACTIVE"

definition clear_oneshot_swaphands :: "'s config \<Rightarrow> 'a action_st_scheme \<Rightarrow> 'a action_st_scheme" where
  "clear_oneshot_swaphands c s =
     (let s = s\<lparr>swap_hands_oneshot := SHO_OFF, swap_hands := False\<rparr>
      in if ONESHOT_TIMEOUT c > 0 then s\<lparr>oneshot_swaphands_time := 0\<rparr> else s)"

definition set_oneshot_swaphands :: "'s config \<Rightarrow> 'a action_st_scheme \<Rightarrow> 'a action_st_scheme" where
  "set_oneshot_swaphands c s =
     (let s = s\<lparr>swap_hands_oneshot := SHO_PRESSED, swap_hands := True\<rparr>
      in if ONESHOT_TIMEOUT c > 0 then
           let s = s\<lparr>oneshot_swaphands_time := timer_read s\<rparr>
           in if oneshot_layer_time s \<noteq> 0 then s\<lparr>oneshot_layer_time := oneshot_swaphands_time s\<rparr> else s
         else s)"

definition release_oneshot_swaphands :: "'s config \<Rightarrow> 'a action_st_scheme \<Rightarrow> 'a action_st_scheme" where
  "release_oneshot_swaphands c s =
     (let s = (if swap_hands_oneshot s = SHO_PRESSED then s\<lparr>swap_hands_oneshot := SHO_ACTIVE\<rparr> else s)
      in if swap_hands_oneshot s = SHO_USED then clear_oneshot_swaphands c s else s)"

definition use_oneshot_swaphands :: "'s config \<Rightarrow> 'a action_st_scheme \<Rightarrow> 'a action_st_scheme" where
  "use_oneshot_swaphands c s =
     (let s = (if swap_hands_oneshot s = SHO_PRESSED then s\<lparr>swap_hands_oneshot := SHO_USED\<rparr> else s)
      in if swap_hands_oneshot s = SHO_ACTIVE then clear_oneshot_swaphands c s else s)"

text \<open>
  A row of \<^verbatim>\<open>swap_state\<close> has at least as many bits as the matrix has columns.
\<close>

definition swap_bit :: "keypos_t \<Rightarrow> u32" where "swap_bit p = bitmask (unat (col p))"

definition was_swapped :: "u32 list \<Rightarrow> keypos_t \<Rightarrow> bool" where
  "was_swapped st p \<longleftrightarrow> st ! unat (row p) AND swap_bit p \<noteq> 0"

definition set_swapped :: "keypos_t \<Rightarrow> bool \<Rightarrow> u32 list \<Rightarrow> u32 list" where
  "set_swapped p v st =
     st[unat (row p) := (if v then st ! unat (row p) OR swap_bit p
                         else st ! unat (row p) AND NOT (swap_bit p))]"

definition process_hand_swap ::
    "'s config \<Rightarrow> keyevent_t \<Rightarrow> 'a action_st_scheme \<Rightarrow> keyevent_t \<times> 'a action_st_scheme" where
  "process_hand_swap c e s =
     (let pos = key e;
          do_swap = (if pressed e then swap_hands s else was_swapped (swap_state s) pos)
      in (if do_swap then e\<lparr>key := hand_swap_config c pos\<rparr> else e,
          s\<lparr>swap_state := set_swapped pos do_swap (swap_state s)\<rparr>))"

section \<open>Keys with modifiers\<close>

text \<open>The two blocks that \<^verbatim>\<open>ACT_MODS\<close> and a disabled one-shot modifier share.\<close>

definition mods_key_press :: "'s config \<Rightarrow> u8 \<Rightarrow> u8 \<Rightarrow> 'a util_st_scheme \<Rightarrow> 'a util_st_scheme" where
  "mods_key_press c mods code s =
     (let s = (if mods \<noteq> 0 then
                 send_keyboard_report c
                   (if IS_MOD code \<or> code = KC_NO then add_mods mods s else add_weak_mods mods s)
               else s)
      in register_code c code s)"

definition mods_key_release :: "'s config \<Rightarrow> u8 \<Rightarrow> u8 \<Rightarrow> 'a util_st_scheme \<Rightarrow> 'a util_st_scheme" where
  "mods_key_release c mods code s =
     (let s = unregister_code c code s
      in if mods \<noteq> 0 then
           send_keyboard_report c
             (if IS_MOD code \<or> code = KC_NO then del_mods mods s else del_weak_mods mods s)
         else s)"

definition action_mods :: "action_t \<Rightarrow> u8" where
  "action_mods a =
     (if kind_id a = ACT_LMODS \<or> kind_id a = ACT_LMODS_TAP then key_mods a else push_bit 4 (key_mods a))"

definition act_mods :: "'s config \<Rightarrow> action_t \<Rightarrow> bool \<Rightarrow> 'a util_st_scheme \<Rightarrow> 'a util_st_scheme" where
  "act_mods c a prs s =
     (if prs then mods_key_press c (action_mods a) (key_code a) s
      else mods_key_release c (action_mods a) (key_code a) s)"

section \<open>Mod-tap keys\<close>

definition oneshot_mods_press :: "'s config \<Rightarrow> u8 \<Rightarrow> nat \<Rightarrow> 'a util_st_scheme \<Rightarrow> 'a util_st_scheme" where
  "oneshot_mods_press c mods tap s =
     (if tap = 0 then register_mods c (mods OR oneshot_mods s) s
      else if tap = 1 then set_oneshot_mods c (mods OR oneshot_mods s) s
      else if ONESHOT_TAP_TOGGLE c > 1 \<and> tap = ONESHOT_TAP_TOGGLE c
        then register_mods c mods (set_oneshot_locked_mods mods (clear_oneshot_mods c s))
      else register_mods c (mods OR oneshot_mods s) s)"

definition oneshot_mods_release :: "'s config \<Rightarrow> u8 \<Rightarrow> nat \<Rightarrow> 'a util_st_scheme \<Rightarrow> 'a util_st_scheme" where
  "oneshot_mods_release c mods tap s =
     (if tap = 0 then unregister_mods c mods (clear_oneshot_mods c s)
      else if tap = 1 then
        (if ONESHOT_TAP_TOGGLE c > 1 \<and> mods AND real_mods s \<noteq> 0
         then unregister_mods c mods (clear_oneshot_mods c (clear_oneshot_locked_mods s))
         else s)
      else if ONESHOT_TAP_TOGGLE c > 1 \<and> tap = ONESHOT_TAP_TOGGLE c then s
      else unregister_mods c mods (clear_oneshot_mods c s))"

definition oneshot_mods_key ::
    "'s config \<Rightarrow> action_t \<Rightarrow> bool \<Rightarrow> nat \<Rightarrow> 'a util_st_scheme \<Rightarrow> 'a util_st_scheme" where
  "oneshot_mods_key c a prs tap s =
     (if oneshot_disable (keymap_config s) then act_mods c a prs s
      else if prs then oneshot_mods_press c (action_mods a) tap s
      else oneshot_mods_release c (action_mods a) tap s)"

definition tap_delay :: "'s config \<Rightarrow> u8 \<Rightarrow> nat" where
  "tap_delay c code =
     unat (if code = KC_CAPS_LOCK then TAP_HOLD_CAPS_DELAY c else TAP_CODE_DELAY c)"

definition mod_tap_press ::
    "'s config \<Rightarrow> action_t \<Rightarrow> keyrecord_t \<Rightarrow> 'a util_st_scheme \<Rightarrow> keyrecord_t \<times> 'a util_st_scheme" where
  "mod_tap_press c a r s =
     (if tap_count r = 0 then (r, register_mods c (action_mods a) s)
      else if \<not> IGNORE_MOD_TAP_INTERRUPT c \<and> tap_interrupted r
        then (r\<lparr>tap_count := 0\<rparr>, register_mods c (action_mods a) s)
      else (r, register_code c (key_code a) s))"

definition mod_tap_release ::
    "'s config \<Rightarrow> action_t \<Rightarrow> keyrecord_t \<Rightarrow> 'a util_st_scheme \<Rightarrow> 'a util_st_scheme" where
  "mod_tap_release c a r s =
     (if tap_count r = 0 then unregister_mods c (action_mods a) s
      else unregister_code c (key_code a) (wait_ms (tap_delay c (layer_tap_code a)) s))"

definition act_mods_tap ::
    "'s config \<Rightarrow> action_t \<Rightarrow> keyrecord_t \<Rightarrow> 'a util_st_scheme \<Rightarrow> keyrecord_t \<times> 'a util_st_scheme" where
  "act_mods_tap c a r s =
     (let prs = pressed (event r); tap = unat (tap_count r)
      in if layer_tap_code a = MODS_ONESHOT then (r, oneshot_mods_key c a prs tap s)
         else if layer_tap_code a = MODS_TAP_TOGGLE then
           (r, if prs then (if tap \<le> TAPPING_TOGGLE c then register_mods c (action_mods a) s else s)
               else (if tap < TAPPING_TOGGLE c then unregister_mods c (action_mods a) s else s))
         else if prs then mod_tap_press c a r s
         else (r, mod_tap_release c a r s))"

section \<open>System and consumer usages\<close>

definition act_usage :: "action_t \<Rightarrow> bool \<Rightarrow> 'a util_st_scheme \<Rightarrow> 'a util_st_scheme" where
  "act_usage a prs s =
     (if usage_page a = PAGE_SYSTEM then host_system_send (if prs then usage_code a else 0) s
      else if usage_page a = PAGE_CONSUMER then host_consumer_send (if prs then usage_code a else 0) s
      else s)"

section \<open>Layer actions\<close>

definition act_layer :: "'s config \<Rightarrow> action_t \<Rightarrow> bool \<Rightarrow> 'a layer_st_scheme \<Rightarrow> 'a layer_st_scheme" where
  "act_layer c a prs s =
     (let op = bitop_op a; v = bitop_value a
      in if bitop_on a = 0 then
           (if prs then s
            else if op = OP_BIT_AND then default_layer_and c v s
            else if op = OP_BIT_OR then default_layer_or c v s
            else if op = OP_BIT_XOR then default_layer_xor c v s
            else default_layer_set c v s)
         else if bitop_on a AND (if prs then ON_PRESS else ON_RELEASE) \<noteq> 0 then
           (if op = OP_BIT_AND then layer_and c v s
            else if op = OP_BIT_OR then layer_or c v s
            else if op = OP_BIT_XOR then layer_xor c v s
            else layer_state_set c v s)
         else s)"

definition act_layer_mods :: "'s config \<Rightarrow> action_t \<Rightarrow> bool \<Rightarrow> 'a layer_st_scheme \<Rightarrow> 'a layer_st_scheme" where
  "act_layer_mods c a prs s =
     (if prs then register_mods c (layer_mods_mods a) (layer_on c (layer_mods_layer a) s)
      else layer_off c (layer_mods_layer a) (unregister_mods c (layer_mods_mods a) s))"

text \<open>
  The one-shot layer key, with \<^verbatim>\<open>ONESHOT_TAP_TOGGLE > 1\<close> and without.
\<close>

definition oneshot_layer_toggle_key ::
    "'s config \<Rightarrow> u8 \<Rightarrow> bool \<Rightarrow> nat \<Rightarrow> 'a layer_st_scheme \<Rightarrow> 'a layer_st_scheme" where
  "oneshot_layer_toggle_key c layer prs tap s =
     (if prs then
        let s = del_mods (oneshot_locked_mods s) s
        in if get_oneshot_layer_state s = ONESHOT_TOGGLED then layer_off c layer (reset_oneshot_layer c s)
           else if tap < ONESHOT_TAP_TOGGLE c then
             set_oneshot_layer c layer ONESHOT_START (layer_on c layer s)
           else s
      else
        let s = add_mods (oneshot_locked_mods s) s
        in if tap \<ge> ONESHOT_TAP_TOGGLE c then
             set_oneshot_layer c layer ONESHOT_TOGGLED
               (clear_oneshot_locked_mods (reset_oneshot_layer c s))
           else clear_oneshot_layer_state c ONESHOT_PRESSED s)"

definition oneshot_layer_simple_key ::
    "'s config \<Rightarrow> u8 \<Rightarrow> bool \<Rightarrow> nat \<Rightarrow> 'a layer_st_scheme \<Rightarrow> 'a layer_st_scheme" where
  "oneshot_layer_simple_key c layer prs tap s =
     (if prs then set_oneshot_layer c layer ONESHOT_START (layer_on c layer s)
      else
        let s = clear_oneshot_layer_state c ONESHOT_PRESSED s
        in if tap > 1 then clear_oneshot_layer_state c ONESHOT_OTHER_KEY_PRESSED s else s)"

text \<open>The whole case; the flag is \<^verbatim>\<open>do_release_oneshot\<close>.\<close>

definition act_layer_tap ::
    "'s config \<Rightarrow> action_t \<Rightarrow> bool \<Rightarrow> nat \<Rightarrow> bool \<Rightarrow> 'a layer_st_scheme \<Rightarrow> bool \<times> 'a layer_st_scheme" where
  "act_layer_tap c a prs tap d s =
     (let code = layer_tap_code a; layer = layer_tap_val a
      in if code = OP_TAP_TOGGLE then
           (d, if (if prs then tap < TAPPING_TOGGLE c else tap \<le> TAPPING_TOGGLE c)
               then layer_invert c layer s else s)
         else if code = OP_ON_OFF then (d, if prs then layer_on c layer s else layer_off c layer s)
         else if code = OP_OFF_ON then (d, if prs then layer_off c layer s else layer_on c layer s)
         else if code = OP_SET_CLEAR then (d, if prs then layer_move c layer s else layer_clear c s)
         else if code = OP_ONESHOT then
           (if oneshot_disable (keymap_config s)
              then (d, if prs then layer_on c layer s else layer_off c layer s)
            else if ONESHOT_TAP_TOGGLE c > 1 then (False, oneshot_layer_toggle_key c layer prs tap s)
            else (d, oneshot_layer_simple_key c layer prs tap s))
         else if prs then (d, if tap > 0 then register_code c code s else layer_on c layer s)
         else (d, if tap > 0 then unregister_code c code (wait_ms (tap_delay c code) s)
                  else layer_off c layer s))"

section \<open>Swap-hands actions\<close>

definition toggle_swap :: "'a action_st_scheme \<Rightarrow> 'a action_st_scheme" where
  "toggle_swap s = s\<lparr>swap_hands := \<not> swap_hands s\<rparr>"

text \<open>Undoing the hold that \<^verbatim>\<open>process_record_tap_hint\<close> set up.\<close>

definition undo_tap_hint :: "'a action_st_scheme \<Rightarrow> 'a action_st_scheme" where
  "undo_tap_hint s = (toggle_swap s)\<lparr>swap_held := False\<rparr>"

definition swap_tap_key ::
    "'s config \<Rightarrow> u8 \<Rightarrow> keyrecord_t \<Rightarrow> 'a action_st_scheme \<Rightarrow> keyrecord_t \<times> 'a action_st_scheme" where
  "swap_tap_key c code r s =
     (if tap_count r > 0 then
        let s = (if swap_held s then undo_tap_hint s else s)
        in if pressed (event r) then (r, register_code c code s)
           else (empty_record, unregister_code c code (wait_ms (unat (TAP_CODE_DELAY c)) s))
      else (r, if swap_held s \<and> \<not> pressed (event r) then undo_tap_hint s else s))"

definition act_swap_hands ::
    "'s config \<Rightarrow> action_t \<Rightarrow> keyrecord_t \<Rightarrow> 'a action_st_scheme \<Rightarrow> keyrecord_t \<times> 'a action_st_scheme" where
  "act_swap_hands c a r s =
     (let code = swap_code a; prs = pressed (event r)
      in if code = OP_SH_TOGGLE then (r, if prs then toggle_swap s else s)
         else if code = OP_SH_ON_OFF then (r, s\<lparr>swap_hands := prs\<rparr>)
         else if code = OP_SH_OFF_ON then (r, s\<lparr>swap_hands := \<not> prs\<rparr>)
         else if code = OP_SH_ON then (r, if prs then s else s\<lparr>swap_hands := True\<rparr>)
         else if code = OP_SH_OFF then (r, if prs then s else s\<lparr>swap_hands := False\<rparr>)
         else if code = OP_SH_ONESHOT then
           (r, if prs then set_oneshot_swaphands c s else release_oneshot_swaphands c s)
         else if code = OP_SH_TAP_TOGGLE then
           (r, if prs then (if swap_held s then s\<lparr>swap_held := False\<rparr> else toggle_swap s)
               else if unat (tap_count r) < TAPPING_TOGGLE c then toggle_swap s else s)
         else swap_tap_key c code r s)"

section \<open>The switch over the kinds of action\<close>

text \<open>
  The case \<^verbatim>\<open>ACT_SWAP_HANDS\<close> has no \<^verbatim>\<open>break\<close> and runs into \<^verbatim>\<open>ACT_FUNCTION\<close>.
\<close>

definition action_switch ::
    "'a action_st_scheme config \<Rightarrow> action_t \<Rightarrow> keyrecord_t \<Rightarrow> bool \<Rightarrow> 'a action_st_scheme \<Rightarrow>
     keyrecord_t \<times> bool \<times> 'a action_st_scheme" where
  "action_switch c a r d s =
     (let k = kind_id a; prs = pressed (event r); tap = unat (tap_count r)
      in if k = ACT_LMODS \<or> k = ACT_RMODS then (r, d, act_mods c a prs s)
         else if k = ACT_LMODS_TAP \<or> k = ACT_RMODS_TAP then
           let (r, s) = act_mods_tap c a r s in (r, d, s)
         else if k = ACT_USAGE then (r, d, act_usage a prs s)
         else if k = ACT_LAYER then (r, d, act_layer c a prs s)
         else if k = ACT_LAYER_MODS then (r, d, act_layer_mods c a prs s)
         else if k = ACT_LAYER_TAP \<or> k = ACT_LAYER_TAP_EXT then
           let (d, s) = act_layer_tap c a prs tap d s in (r, d, s)
         else if k = ACT_MACRO then
           (r, d, action_macro_play c (action_get_macro c r (func_id a) (func_opt a)) s)
         else if k = ACT_SWAP_HANDS \<and> SWAP_HANDS_ENABLE c then
           let (r, s) = act_swap_hands c a r s
           in (r, d, action_function c r (func_id a) (func_opt a) s)
         else if k = ACT_FUNCTION then (r, d, action_function c r (func_id a) (func_opt a) s)
         else (r, d, s))"

section \<open>Tap actions\<close>

definition is_tap_action :: "action_t \<Rightarrow> bool" where
  "is_tap_action a \<longleftrightarrow>
     (let k = kind_id a
      in if k = ACT_LMODS_TAP \<or> k = ACT_RMODS_TAP \<or> k = ACT_LAYER_TAP \<or> k = ACT_LAYER_TAP_EXT then
           layer_tap_code a \<le> KC_RIGHT_GUI \<or> layer_tap_code a = OP_TAP_TOGGLE \<or>
           layer_tap_code a = OP_ONESHOT
         else if k = ACT_SWAP_HANDS then swap_code a \<le> KC_RIGHT_GUI \<or> swap_code a = OP_SH_TAP_TOGGLE
         else if k = ACT_MACRO \<or> k = ACT_FUNCTION then func_opt a AND FUNC_TAP \<noteq> 0
         else False)"

definition is_tap_key :: "'s config \<Rightarrow> keypos_t \<Rightarrow> 'a layer_st_scheme \<Rightarrow> bool" where
  "is_tap_key c k s \<longleftrightarrow> is_tap_action (layer_switch_get_action c k s)"

definition is_tap_record :: "'s config \<Rightarrow> keyrecord_t \<Rightarrow> 'a layer_st_scheme \<Rightarrow> bool" where
  "is_tap_record c r s \<longleftrightarrow>
     is_tap_action (if rec_keycode r \<noteq> 0 then action_for_keycode c (keymap_config s) (rec_keycode r)
                    else layer_switch_get_action c (key (event r)) s)"

text \<open>Setting up the hold of a swap-hands tap key at once.\<close>

definition process_record_tap_hint ::
    "'s config \<Rightarrow> keyrecord_t \<Rightarrow> 'a action_st_scheme \<Rightarrow> 'a action_st_scheme" where
  "process_record_tap_hint c r s =
     (let a = layer_switch_get_action c (key (event r)) s
      in if SWAP_HANDS_ENABLE c \<and> kind_id a = ACT_SWAP_HANDS \<and> swap_code a \<noteq> OP_SH_ONESHOT
         then (toggle_swap s)\<lparr>swap_held := True\<rparr> else s)"

section \<open>After the action\<close>

definition is_layer_action :: "action_t \<Rightarrow> bool" where
  "is_layer_action a \<longleftrightarrow>
     kind_id a = ACT_LAYER \<or> kind_id a = ACT_LAYER_MODS \<or> kind_id a = ACT_LAYER_TAP \<or>
     kind_id a = ACT_LAYER_TAP_EXT"

definition retro_tapping ::
    "'s config \<Rightarrow> action_t \<Rightarrow> bool \<Rightarrow> nat \<Rightarrow> 'a action_st_scheme \<Rightarrow> 'a action_st_scheme" where
  "retro_tapping c a prs tap s =
     (if \<not> is_tap_action a then s\<lparr>retro_tapping_counter := 0\<rparr>
      else if prs then (if tap > 0 then s\<lparr>retro_tapping_counter := 0\<rparr> else s)
      else if tap > 0 then s\<lparr>retro_tapping_counter := 0\<rparr>
      else (if retro_tapping_counter s = 2 then tap_code c (layer_tap_code a) s else s)
             \<lparr>retro_tapping_counter := 0\<rparr>)"

definition is_swap_oneshot :: "action_t \<Rightarrow> bool" where
  "is_swap_oneshot a \<longleftrightarrow> kind_id a = ACT_SWAP_HANDS \<and> swap_code a = OP_SH_ONESHOT"

definition after_action ::
    "'s config \<Rightarrow> action_t \<Rightarrow> bool \<Rightarrow> nat \<Rightarrow> 'a action_st_scheme \<Rightarrow> 'a action_st_scheme" where
  "after_action c a prs tap s =
     (let s = (if is_layer_action a then emit (Leds_set (host_keyboard_leds s)) s else s);
          s = (if RETRO_TAPPING c then retro_tapping c a prs tap s else s)
      in if SWAP_HANDS_ENABLE c \<and> prs \<and> \<not> is_swap_oneshot a then use_oneshot_swaphands c s else s)"

section \<open>Records\<close>

text \<open>Whether the pressed key ends the one-shot layer: any key but a modifier does.\<close>

definition ends_oneshot_layer :: "'s config \<Rightarrow> action_t \<Rightarrow> bool \<Rightarrow> 'a layer_st_scheme \<Rightarrow> bool" where
  "ends_oneshot_layer c a prs s \<longleftrightarrow>
     is_oneshot_layer_active s \<and> prs \<and> (kind_id a = ACT_USAGE \<or> \<not> IS_MOD (key_code a)) \<and>
     (SWAP_HANDS_ENABLE c \<longrightarrow> \<not> is_swap_oneshot a) \<and> \<not> oneshot_disable (keymap_config s)"

text \<open>All of \<^verbatim>\<open>process_action\<close> before its last block; the flag is \<^verbatim>\<open>do_release_oneshot\<close>.\<close>

definition run_action ::
    "'a action_st_scheme config \<Rightarrow> action_t \<Rightarrow> keyrecord_t \<Rightarrow> 'a action_st_scheme \<Rightarrow>
     keyrecord_t \<times> bool \<times> 'a action_st_scheme" where
  "run_action c a r s =
     (let prs = pressed (event r); tap = unat (tap_count r);
          (d, s) = (if ends_oneshot_layer c a prs s then
                      let s = clear_oneshot_layer_state c ONESHOT_OTHER_KEY_PRESSED s
                      in (\<not> is_oneshot_layer_active s, s)
                    else (False, s));
          (r, d, s) = action_switch c a r d s
      in (r, d, after_action c a prs tap s))"

definition record_action ::
    "'a action_st_scheme config \<Rightarrow> keyrecord_t \<Rightarrow> 'a action_st_scheme \<Rightarrow> action_t \<times> 'a action_st_scheme" where
  "record_action c r s =
     (if rec_keycode r \<noteq> 0 then (action_for_keycode c (keymap_config s) (rec_keycode r), s)
      else store_or_get_action c (pressed (event r)) (key (event r)) s)"

lemma act_layer_tap_flag: "fst (act_layer_tap c a prs tap d s) \<Longrightarrow> d"
  by (auto simp: act_layer_tap_def Let_def split: if_splits)

lemma action_switch_flag: "action_switch c a r d s = (r', d', s') \<Longrightarrow> d' \<Longrightarrow> d"
  using act_layer_tap_flag [of c a "pressed (event r)" "unat (tap_count r)" d s]
  by (auto simp: action_switch_def Let_def split: if_splits prod.splits)

lemma run_action_flag: "run_action c a r s = (r', d', s') \<Longrightarrow> d' \<Longrightarrow> pressed (event r)"
  by (auto simp: run_action_def Let_def ends_oneshot_layer_def split: if_splits prod.splits
      dest: action_switch_flag)

function process_record ::
      "'a action_st_scheme config \<Rightarrow> keyrecord_t \<Rightarrow> 'a action_st_scheme \<Rightarrow> keyrecord_t \<times> 'a action_st_scheme"
  and process_action ::
      "'a action_st_scheme config \<Rightarrow> action_t \<Rightarrow> keyrecord_t \<Rightarrow> 'a action_st_scheme \<Rightarrow>
       keyrecord_t \<times> 'a action_st_scheme" where
  "process_record c r s =
     (if IS_NOEVENT (event r) then (r, s)
      else case process_record_quantum c r s of (ok, s) \<Rightarrow>
        if \<not> ok then
          (r, if is_oneshot_layer_active s \<and> pressed (event r) \<and> \<not> oneshot_disable (keymap_config s)
              then clear_oneshot_layer_state c ONESHOT_OTHER_KEY_PRESSED s else s)
        else case record_action c r s of (a, s) \<Rightarrow>
          case process_action c a r s of (r, s) \<Rightarrow> (r, post_process_record_quantum c r s))"
| "process_action c a r s =
     (case run_action c a r s of (r', d, s) \<Rightarrow>
        if d \<and> get_oneshot_layer_state s AND ONESHOT_PRESSED = 0 then
          case process_record c (r'\<lparr>event := (event r')\<lparr>pressed := False\<rparr>\<rparr>)
                 (layer_on c (get_oneshot_layer s) s) of
            (r, s) \<Rightarrow> (r, layer_off c (get_oneshot_layer s) s)
        else (r', s))"
  by pat_completeness auto

termination
  by (relation "measure (case_sum (\<lambda>(c, r, s). if pressed (event r) then 3 else 1)
      (\<lambda>(c, a, r, s). if pressed (event r) then 2 else 0))")
    (auto dest: run_action_flag [OF sym])

definition process_record_handler ::
    "'a action_st_scheme config \<Rightarrow> keyrecord_t \<Rightarrow> 'a action_st_scheme \<Rightarrow> keyrecord_t \<times> 'a action_st_scheme" where
  "process_record_handler c r s = (case record_action c r s of (a, s) \<Rightarrow> process_action c a r s)"

definition process_record_nocache ::
    "'a action_st_scheme config \<Rightarrow> keyrecord_t \<Rightarrow> 'a action_st_scheme \<Rightarrow> keyrecord_t \<times> 'a action_st_scheme" where
  "process_record_nocache c r s =
     (if STRICT_LAYER_RELEASE c then process_record c r s
      else case process_record c r (s\<lparr>disable_action_cache := True\<rparr>) of
        (r, s) \<Rightarrow> (r, s\<lparr>disable_action_cache := False\<rparr>))"

declare process_record.simps [simp del] process_action.simps [simp del]

section \<open>A swapped key is released where it was pressed\<close>

definition swappable :: "'s config \<Rightarrow> keypos_t \<Rightarrow> bool" where
  "swappable c p \<longleftrightarrow> unat (row p) < MATRIX_ROWS c \<and> unat (col p) < 32"

lemma was_swapped_bit: "was_swapped st p \<longleftrightarrow> bit (st ! unat (row p)) (unat (col p))"
  by (simp add: was_swapped_def swap_bit_def and_bitmask_eq_0)

lemma keypos_eq_iff: "(q :: keypos_t) = p \<longleftrightarrow> unat (row q) = unat (row p) \<and> unat (col q) = unat (col p)"
  by (cases p; cases q) (auto simp: word_unat_eq_iff)

lemma was_swapped_set:
  assumes "unat (row p) < length st" "unat (col q) < 32"
  shows "was_swapped (set_swapped p v st) q \<longleftrightarrow> (if q = p then v else was_swapped st q)"
proof (cases "unat (row q) = unat (row p)")
  case True
  then show ?thesis using assms
    by (auto simp: was_swapped_bit set_swapped_def swap_bit_def keypos_eq_iff [of q p] bit_or_iff
        bit_and_iff bit_not_iff bit_bitmask)
next
  case False
  then have "q \<noteq> p" by auto
  with False show ?thesis by (simp add: was_swapped_bit set_swapped_def)
qed

interpretation hand_swaps: key_store was_swapped set_swapped "swappable c" "\<lambda>_ _. True"
  "\<lambda>st. length st = MATRIX_ROWS c" for c :: "'s config"
  by unfold_locales (simp_all add: swappable_def was_swapped_set, simp add: set_swapped_def)

text \<open>Events of other keys, before each of which the hands may be swapped in any way.\<close>

definition swap_event ::
    "'s config \<Rightarrow> keyevent_t \<times> bool \<Rightarrow> 'a action_st_scheme \<Rightarrow> 'a action_st_scheme" where
  "swap_event c eh s = snd (process_hand_swap c (fst eh) (s\<lparr>swap_hands := snd eh\<rparr>))"

definition other_swaps :: "'s config \<Rightarrow> keypos_t \<Rightarrow> (keyevent_t \<times> bool) list \<Rightarrow> bool" where
  "other_swaps c p es \<longleftrightarrow> list_all (\<lambda>(e, h). swappable c (key e) \<and> key e \<noteq> p) es"

lemma swap_events_keep:
  "length (swap_state s) = MATRIX_ROWS c \<Longrightarrow> swappable c p \<Longrightarrow> other_swaps c p es \<Longrightarrow>
   length (swap_state (fold (swap_event c) es s)) = MATRIX_ROWS c \<and>
   was_swapped (swap_state (fold (swap_event c) es s)) p = was_swapped (swap_state s) p"
proof (induction es arbitrary: s)
  case (Cons e es)
  have "length (swap_state (swap_event c e s)) = MATRIX_ROWS c \<and>
      was_swapped (swap_state (swap_event c e s)) p = was_swapped (swap_state s) p"
    using Cons.prems hand_swaps.lookup_update [of "swap_state s" c "key (fst e)" p]
      hand_swaps.wf_update [of "swap_state s" c "key (fst e)"]
    by (auto simp: swap_event_def process_hand_swap_def Let_def other_swaps_def)
  with Cons show ?case by (simp add: other_swaps_def)
qed simp

text \<open>
  C24. A key that is pressed while the hands are swapped, or not swapped, is released at the same
  position: toggling the swap and using other keys in between cannot leave a key pressed on one hand
  and released on the other.
\<close>

theorem swapped_release_matches_press:
  assumes "length (swap_state s) = MATRIX_ROWS c" and "swappable c p" and "other_swaps c p es"
  shows "let (pe, s1) = process_hand_swap c \<lparr>key = p, pressed = True, time = t\<rparr> s;
             s2 = fold (swap_event c) es s1;
             (re, s3) = process_hand_swap c \<lparr>key = p, pressed = False, time = t'\<rparr> (s2\<lparr>swap_hands := h\<rparr>)
         in key re = key pe \<and> key pe = (if swap_hands s then hand_swap_config c p else p)"
proof -
  define s1 where "s1 = snd (process_hand_swap c \<lparr>key = p, pressed = True, time = t\<rparr> s)"
  have s1: "length (swap_state s1) = MATRIX_ROWS c" "was_swapped (swap_state s1) p = swap_hands s"
    using assms hand_swaps.lookup_update [of "swap_state s" c p p]
      hand_swaps.wf_update [of "swap_state s" c p]
    by (simp_all add: s1_def process_hand_swap_def Let_def)
  have "was_swapped (swap_state (fold (swap_event c) es s1)) p = swap_hands s"
    using swap_events_keep [OF s1(1) assms(2,3)] s1(2) by simp
  then show ?thesis
    by (simp add: s1_def process_hand_swap_def Let_def)
qed

text \<open>The state at power-on.\<close>

definition action_init :: "'s config \<Rightarrow> action_st" where
  "action_init c = layer_st.extend (layer_init c)
     \<lparr>swap_hands = False, swap_held = False, swap_state = replicate (MATRIX_ROWS c) 0,
      retro_tapping_counter = 0\<rparr>"

lemma action_init_simps [simp]:
  "keymap_config (action_init c) = keymap_config_of_raw 0" "oneshot_layer_data (action_init c) = 0"
  "layer_state (action_init c) = 0" "default_layer_state (action_init c) = 1"
  by (simp_all add: action_init_def layer_init_def layer_st.defs)

section \<open>The missing break\<close>

text \<open>
  Every swap-hands action also calls the function action of the keymap, with the swap code as its
  identifier: the case has no \<^verbatim>\<open>break\<close>.  In a build whose \<^verbatim>\<open>action_function\<close> records its calls, an event
  of a swap-hands key leaves such a record.
\<close>

theorem swap_hands_runs_function:
  assumes "SWAP_HANDS_ENABLE c" and "kind_id a = ACT_SWAP_HANDS"
    and "action_function c = (\<lambda>r i opt. emit (Function_called i opt))"
  shows "\<exists>r' s'. action_switch c a r d s = (r', d, emit (Function_called (swap_code a) (func_opt a)) s')"
  using assms by (auto simp: action_switch_def Let_def func_id_def swap_code_def split: prod.splits)

theorem swap_hands_runs_function_witness:
  "\<exists>(c :: action_st config) s r' s'.
     action_switch c 0x60F0 empty_record False s = (r', False, emit (Function_called 0xF0 0) s')"
proof -
  define c :: "action_st config" where
    "c = (default_config (\<lambda>_ _. 0))\<lparr>SWAP_HANDS_ENABLE := True,
       action_function := (\<lambda>r i opt. emit (Function_called i opt))\<rparr>"
  have "kind_id 0x60F0 = ACT_SWAP_HANDS" "swap_code 0x60F0 = 0xF0" "func_opt 0x60F0 = 0"
    by (simp_all add: word_unat_eq_iff unat_kind_id swap_code_def func_opt_def field_unat)
  then show ?thesis
    using swap_hands_runs_function [of c "0x60F0" empty_record False "action_init c"]
    by (intro exI [of _ c] exI [of _ "action_init c"]) (simp add: c_def)
qed

section \<open>The end of a one-shot layer\<close>

lemma action_oneshot_layer [simp]:
  "oneshot_layer_data (act_mods c a prs s) = oneshot_layer_data s"
  "oneshot_layer_data (act_usage a prs s) = oneshot_layer_data s"
  "oneshot_layer_data (snd (act_mods_tap c a r s)) = oneshot_layer_data s"
  by (simp_all add: act_mods_def mods_key_press_def mods_key_release_def act_usage_def
      act_mods_tap_def oneshot_mods_key_def oneshot_mods_press_def oneshot_mods_release_def
      mod_tap_press_def mod_tap_release_def Let_def)

lemma layer_oneshot_layer [simp]:
  "oneshot_layer_data (default_layer_state_set c v s) = oneshot_layer_data s"
  "oneshot_layer_data (layer_on c l s) = oneshot_layer_data s"
  "oneshot_layer_data (layer_off c l s) = oneshot_layer_data s"
  "oneshot_layer_data (layer_invert c l s) = oneshot_layer_data s"
  "oneshot_layer_data (layer_move c l s) = oneshot_layer_data s"
  "oneshot_layer_data (layer_clear c s) = oneshot_layer_data s"
  "oneshot_layer_data (act_layer c a prs s) = oneshot_layer_data s"
  "oneshot_layer_data (act_layer_mods c a prs s) = oneshot_layer_data s"
  by (simp_all add: default_layer_state_set_def layer_on_def layer_off_def layer_invert_def
      layer_move_def layer_clear_def act_layer_def act_layer_mods_def default_layer_and_def
      default_layer_or_def default_layer_xor_def default_layer_set_def layer_and_def layer_or_def
      layer_xor_def Let_def)

lemma swap_oneshot_layer [simp]:
  "oneshot_layer_data (toggle_swap s) = oneshot_layer_data s"
  "oneshot_layer_data (set_oneshot_swaphands c s) = oneshot_layer_data s"
  "oneshot_layer_data (clear_oneshot_swaphands c s) = oneshot_layer_data s"
  "oneshot_layer_data (release_oneshot_swaphands c s) = oneshot_layer_data s"
  "oneshot_layer_data (use_oneshot_swaphands c s) = oneshot_layer_data s"
  "oneshot_layer_data (undo_tap_hint s) = oneshot_layer_data s"
  "oneshot_layer_data (snd (swap_tap_key c k r s)) = oneshot_layer_data s"
  "oneshot_layer_data (snd (act_swap_hands c a r s)) = oneshot_layer_data s"
  by (simp_all add: toggle_swap_def set_oneshot_swaphands_def clear_oneshot_swaphands_def
      release_oneshot_swaphands_def use_oneshot_swaphands_def undo_tap_hint_def swap_tap_key_def
      act_swap_hands_def Let_def)

lemma after_action_oneshot_layer [simp]:
  "oneshot_layer_data (after_action c a prs tap s) = oneshot_layer_data s"
  by (simp add: after_action_def retro_tapping_def Let_def)

lemma act_layer_tap_oneshot_layer:
  assumes "\<not> oneshot_disable (keymap_config s)"
  shows "oneshot_layer_data (snd (act_layer_tap c a True tap True s)) = oneshot_layer_data s \<or>
    \<not> fst (act_layer_tap c a True tap True s) \<or>
    oneshot_layer_data (snd (act_layer_tap c a True tap True s)) =
      push_bit 3 (layer_tap_val a) OR ONESHOT_START"
  using assms by (auto simp: act_layer_tap_def oneshot_layer_simple_key_def Let_def
      set_oneshot_layer_simps layer_on_def)

lemma uint_eq_sint: "uint (x :: 'a::len word) = sint (y :: 'a word) \<Longrightarrow> x = y"
proof -
  assume "uint x = sint y"
  then have "(of_int (uint x) :: 'a word) = of_int (sint y)" by simp
  then show "x = y" by simp
qed

lemma clear_oneshot_layer_state_zero:
  assumes "get_oneshot_layer_state s \<noteq> 0" "\<not> oneshot_disable (keymap_config s)"
    "get_oneshot_layer_state (clear_oneshot_layer_state c m s) = 0"
  shows "oneshot_layer_data (clear_oneshot_layer_state c m s) = 0"
  using assms by (auto simp: clear_oneshot_layer_state_def Let_def get_oneshot_layer_state_def
      split: if_splits dest: uint_eq_sint)

lemma action_pair_oneshot_layer:
  "act_mods_tap c a r s = (r', s') \<Longrightarrow> oneshot_layer_data s' = oneshot_layer_data s"
  "act_swap_hands c a r s1 = (r', s2) \<Longrightarrow> oneshot_layer_data s2 = oneshot_layer_data s1"
  using action_oneshot_layer(3) [of c a r s] swap_oneshot_layer(8) [of c a r s1] by simp_all

text \<open>
  When a key ends the one-shot layer, the layer that \<^verbatim>\<open>process_action\<close> switches on again around the
  early release is layer 0, whichever layer the one-shot key had named: the layer number has been
  cleared with the one-shot state before it is read.
\<close>

theorem oneshot_release_uses_layer_0:
  assumes "run_action c a r s = (r', True, s')" and "get_oneshot_layer_state s' AND ONESHOT_PRESSED = 0"
    and "\<And>r i p s. oneshot_layer_data (action_function c r i p s) = oneshot_layer_data s"
  shows "get_oneshot_layer s' = 0"
proof -
  define prs where "prs = pressed (event r)"
  define t where "t = clear_oneshot_layer_state c ONESHOT_OTHER_KEY_PRESSED s"
  from assms(1) have ends: "ends_oneshot_layer c a prs s"
    by (auto simp: run_action_def prs_def Let_def split: if_splits prod.splits dest: action_switch_flag)
  then have prs: "prs" by (simp add: ends_oneshot_layer_def)
  from assms(1) ends obtain r1 s1 where sw: "action_switch c a r (\<not> is_oneshot_layer_active t) t = (r1, True, s1)"
    and s': "s' = after_action c a prs (unat (tap_count r)) s1"
    by (auto simp: run_action_def prs_def [symmetric] t_def [symmetric] Let_def split: prod.splits)
  from action_switch_flag [OF sw] have d: "\<not> is_oneshot_layer_active t" by simp
  have zero: "oneshot_layer_data t = 0" and enabled: "\<not> oneshot_disable (keymap_config t)"
    using clear_oneshot_layer_state_zero [of s c ONESHOT_OTHER_KEY_PRESSED] ends d
    by (auto simp: t_def is_oneshot_layer_active_def ends_oneshot_layer_def)
  have "oneshot_layer_data s1 = 0 \<or> oneshot_layer_data s1 = push_bit 3 (layer_tap_val a) OR ONESHOT_START"
    using sw zero d prs act_layer_tap_oneshot_layer [OF enabled, of c a "unat (tap_count r)"]
    by (auto simp: action_switch_def Let_def prs_def assms(3) split: if_splits prod.splits
        dest!: action_pair_oneshot_layer)
  moreover have "oneshot_layer_data s' = oneshot_layer_data s1" by (simp add: s')
  ultimately show ?thesis
  proof (elim disjE)
    assume "oneshot_layer_data s1 = push_bit 3 (layer_tap_val a) OR ONESHOT_START"
    with \<open>oneshot_layer_data s' = oneshot_layer_data s1\<close> have "get_oneshot_layer_state s' = ONESHOT_START"
      by (simp add: get_oneshot_layer_state_def layer_data_state ONESHOT_START_def)
    with assms(2) show ?thesis by (simp add: ONESHOT_START_def ONESHOT_PRESSED_def)
  qed (simp add: get_oneshot_layer_def)
qed

theorem oneshot_release_uses_layer_0_witness:
  "\<exists>(c :: action_st config) s s' r'. get_oneshot_layer s = 1 \<and>
     run_action c (ACTION_KEY KC_A) \<lparr>event = \<lparr>key = \<lparr>col = 0, row = 0\<rparr>, pressed = True, time = 5\<rparr>,
       tap_interrupted = False, tap_count = 0, rec_keycode = 0\<rparr> s = (r', True, s') \<and>
     get_oneshot_layer_state s' AND ONESHOT_PRESSED = 0 \<and> get_oneshot_layer s' = 0"
proof -
  define c :: "action_st config" where "c = default_config (\<lambda>_ _. 0)"
  define s :: action_st where "s = (action_init c)\<lparr>oneshot_layer_data := 10\<rparr>"
  define r where "r = \<lparr>event = \<lparr>key = \<lparr>col = 0, row = 0\<rparr>, pressed = True, time = 5\<rparr>,
       tap_interrupted = False, tap_count = 0, rec_keycode = 0\<rparr>"
  have kind: "kind_id (ACTION_KEY KC_A) = ACT_LMODS" "key_code (ACTION_KEY KC_A) = KC_A"
    by (simp_all add: ACTION_KEY_def ACTION_def word_unat_eq_iff unat_kind_id key_code_def field_unat)
  have enabled: "\<not> oneshot_disable (keymap_config s)"
    by (simp add: s_def keymap_config_of_raw_def)
  define t where "t = clear_oneshot_layer_state c ONESHOT_OTHER_KEY_PRESSED s"
  have "get_oneshot_layer_state t = 0"
    using enabled
    by (simp add: t_def clear_oneshot_layer_state_def ONESHOT_OTHER_KEY_PRESSED_def
        get_oneshot_layer_state_def s_def Let_def)
  then have t: "\<not> is_oneshot_layer_active t" by (simp add: is_oneshot_layer_active_def)
  have "ends_oneshot_layer c (ACTION_KEY KC_A) True s"
    using enabled kind by (simp add: ends_oneshot_layer_def is_oneshot_layer_active_def s_def
        get_oneshot_layer_state_def IS_MOD_def c_def)
  then obtain s' where run: "run_action c (ACTION_KEY KC_A) r s = (r, True, s')"
    using kind t by (simp add: run_action_def r_def t_def [symmetric] Let_def action_switch_def)
  moreover have "get_oneshot_layer_state s' AND ONESHOT_PRESSED = 0"
    using run \<open>get_oneshot_layer_state t = 0\<close> \<open>ends_oneshot_layer c (ACTION_KEY KC_A) True s\<close> kind t
    by (auto simp: run_action_def r_def t_def [symmetric] Let_def action_switch_def
        get_oneshot_layer_state_def)
  moreover have "get_oneshot_layer s' = 0"
    using run calculation(2) by (rule oneshot_release_uses_layer_0) (simp add: c_def)
  moreover have "get_oneshot_layer s = 1"
    by (simp add: get_oneshot_layer_def s_def)
  ultimately show ?thesis unfolding r_def by blast
qed

text \<open>A build with the hands mirrored.\<close>

definition mirror_config :: "unit config" where
  "mirror_config = (default_config (\<lambda>_ _. 0))\<lparr>hand_swap_config := (\<lambda>p. \<lparr>col = 15 - col p, row = row p\<rparr>)\<rparr>"

theorem swapped_release_matches_press_witness:
  "let s = (action_init mirror_config)\<lparr>swap_hands := True\<rparr>; p = \<lparr>col = 2, row = 1\<rparr>; q = \<lparr>col = 3, row = 1\<rparr>;
       (pe, s1) = process_hand_swap mirror_config \<lparr>key = p, pressed = True, time = 5\<rparr> s;
       s2 = fold (swap_event mirror_config) [(\<lparr>key = q, pressed = True, time = 7\<rparr>, False)] s1;
       (re, s3) = process_hand_swap mirror_config \<lparr>key = p, pressed = False, time = 9\<rparr> (s2\<lparr>swap_hands := False\<rparr>)
   in key re = key pe \<and> key pe = \<lparr>col = 13, row = 1\<rparr>"
proof -
  let ?p = "\<lparr>col = 2, row = 1\<rparr> :: keypos_t"
  define s where "s = (action_init mirror_config)\<lparr>swap_hands := True\<rparr>"
  have s: "length (swap_state s) = MATRIX_ROWS mirror_config" "swap_hands s"
    by (simp_all add: s_def action_init_def layer_init_def layer_st.defs)
  have p: "swappable mirror_config ?p"
    "other_swaps mirror_config ?p [(\<lparr>key = \<lparr>col = 3, row = 1\<rparr>, pressed = True, time = 7\<rparr>, False)]"
    by (simp_all add: swappable_def other_swaps_def mirror_config_def)
  have "hand_swap_config mirror_config ?p = \<lparr>col = 13, row = 1\<rparr>" by (simp add: mirror_config_def)
  then show ?thesis
    using swapped_release_matches_press [OF s(1) p, of 5 9 False] s(2)
    by (simp add: s_def Let_def split: prod.splits)
qed

section \<open>Records in a plain build\<close>

text \<open>
  A keymap that overrides none of the hooks, without retro tapping and hand swapping.
\<close>

definition plain_build :: "'a action_st_scheme config \<Rightarrow> bool" where
  "plain_build c \<longleftrightarrow> process_record_quantum c = (\<lambda>_ s. (True, s)) \<and>
     post_process_record_quantum c = (\<lambda>_ s. s) \<and> \<not> RETRO_TAPPING c \<and> \<not> SWAP_HANDS_ENABLE c"

lemma plain_process_record:
  assumes "plain_build c" "\<not> IS_NOEVENT (event r)" "\<not> is_oneshot_layer_active s"
    and "record_action c r s = (a, s1)" "oneshot_layer_data s1 = oneshot_layer_data s"
    and "action_switch c a r False s1 = (r', d, s2)" "\<not> is_layer_action a"
  shows "process_record c r s = (r', s2)"
proof -
  have "\<not> d" using action_switch_flag assms(6) by blast
  moreover have "\<not> is_oneshot_layer_active s1"
    using assms(3,5) by (simp add: is_oneshot_layer_active_def get_oneshot_layer_state_def)
  ultimately show ?thesis
    using assms by (simp add: process_record.simps process_action.simps plain_build_def run_action_def
        ends_oneshot_layer_def after_action_def Let_def)
qed

text \<open>The cache after a press.\<close>

definition remember_layer :: "'s config \<Rightarrow> keypos_t \<Rightarrow> 'a layer_st_scheme \<Rightarrow> 'a layer_st_scheme" where
  "remember_layer c k s = s\<lparr>source_layers_cache :=
     update_source_layers_cache c k (layer_switch_get_layer c k s) (source_layers_cache s)\<rparr>"

lemma record_action_press:
  assumes "caching c s" "rec_keycode r = 0" "pressed (event r)"
  shows "record_action c r s =
    (layer_switch_get_action c (key (event r)) s, remember_layer c (key (event r)) s)"
  using assms by (simp add: record_action_def store_or_get_action_def caching_def Let_def
      remember_layer_def layer_switch_get_action_def)

lemma record_action_release:
  assumes "caching c s" "rec_keycode r = 0" "\<not> pressed (event r)"
  shows "record_action c r s =
    (action_for_key c (keymap_config s) (read_source_layers_cache c (key (event r)) (source_layers_cache s))
       (key (event r)), s)"
  using assms by (simp add: record_action_def store_or_get_action_def caching_def)

lemma remember_layer_simps:
  assumes "caching c s" "matrix_key c k"
  shows "caching c (remember_layer c k s)"
    "matrix_key c j \<Longrightarrow> read_source_layers_cache c j (source_layers_cache (remember_layer c k s)) =
       (if j = k then layer_switch_get_layer c k s else read_source_layers_cache c j (source_layers_cache s))"
  using assms layer_switch_less [of c k s]
  by (simp_all add: remember_layer_def caching_def source_layers.wf_update source_layers.lookup_update)

lemma remember_layer_frame [simp]:
  "keymap_config (remember_layer c k s) = keymap_config s"
  "oneshot_layer_data (remember_layer c k s) = oneshot_layer_data s"
  "layer_state (remember_layer c k s) = layer_state s"
  "default_layer_state (remember_layer c k s) = default_layer_state s"
  "disable_action_cache (remember_layer c k s) = disable_action_cache s"
  by (simp_all add: remember_layer_def)

lemma caching_of_more: "util_st.more s = util_st.more t \<Longrightarrow> caching c s = caching c t"
  using layer_fields_of_more [of s t] by (simp add: caching_def)

end
