(* ===== verification/Action_Tapping.thy ===== *)
theory Action_Tapping
  imports Action Fifo
begin

text \<open>
  \<^verbatim>\<open>quantum/action_tapping.c\<close>: the decision whether a key that does one thing when tapped and another
  when held is being tapped or held, and \<^verbatim>\<open>action_exec\<close>, which feeds it.  The static variables are the
  record \<open>tapping_st\<close> around the state of \<^verbatim>\<open>action.c\<close>; \<^verbatim>\<open>g_tapping_term\<close> is one of them.  The build has
  no \<^verbatim>\<open>PER_KEY\<close> option and no \<^verbatim>\<open>RETRO_SHIFT\<close>.

  \<^verbatim>\<open>process_tapping\<close> gets a pointer to a record, which may be a slot of the waiting buffer.  It changes
  the record's tap data, and \<^verbatim>\<open>process_record\<close> may change all of it; the model returns the changed
  record, and the caller writes it back to the slot.  That is the same as a change in place, because
  the only other writer of the buffer, \<^verbatim>\<open>waiting_buffer_scan_tap\<close>, writes to slots with releases, and it
  runs only when the record is a press.
\<close>

section \<open>The waiting buffer\<close>

definition WAITING_BUFFER_SIZE :: nat where "WAITING_BUFFER_SIZE = 8"

record waiting_t =
  waiting_buffer :: "keyrecord_t list"
  waiting_buffer_head :: nat
  waiting_buffer_tail :: nat

definition waiting_init :: waiting_t where
  "waiting_init = \<lparr>waiting_buffer = replicate WAITING_BUFFER_SIZE empty_record,
     waiting_buffer_head = 0, waiting_buffer_tail = 0\<rparr>"

text \<open>The part of \<^verbatim>\<open>waiting_buffer_enq\<close> after its first test.\<close>

definition waiting_buffer_put :: "keyrecord_t \<Rightarrow> waiting_t \<Rightarrow> bool \<times> waiting_t" where
  "waiting_buffer_put r w =
     (if (waiting_buffer_head w + 1) mod WAITING_BUFFER_SIZE = waiting_buffer_tail w then (False, w)
      else (True, w\<lparr>waiting_buffer := (waiting_buffer w)[waiting_buffer_head w := r],
                    waiting_buffer_head := (waiting_buffer_head w + 1) mod WAITING_BUFFER_SIZE\<rparr>))"

definition waiting_buffer_enq :: "keyrecord_t \<Rightarrow> waiting_t \<Rightarrow> bool \<times> waiting_t" where
  "waiting_buffer_enq r w = (if IS_NOEVENT (event r) then (True, w) else waiting_buffer_put r w)"

definition waiting_buffer_clear :: "waiting_t \<Rightarrow> waiting_t" where
  "waiting_buffer_clear w = w\<lparr>waiting_buffer_head := 0, waiting_buffer_tail := 0\<rparr>"

definition waiting_buffer_next :: "waiting_t \<Rightarrow> waiting_t" where
  "waiting_buffer_next w =
     w\<lparr>waiting_buffer_tail := (waiting_buffer_tail w + 1) mod WAITING_BUFFER_SIZE\<rparr>"

definition waiting_buffer_front :: "waiting_t \<Rightarrow> keyrecord_t" where
  "waiting_buffer_front w = waiting_buffer w ! waiting_buffer_tail w"

text \<open>The indices that the loops over the buffer visit, in order.\<close>

definition waiting_indices :: "waiting_t \<Rightarrow> nat list" where
  "waiting_indices w =
     map (\<lambda>k. (waiting_buffer_tail w + k) mod WAITING_BUFFER_SIZE)
       [0..<ring_count WAITING_BUFFER_SIZE (waiting_buffer_head w) (waiting_buffer_tail w)]"

definition waiting_buffer_typed :: "keyevent_t \<Rightarrow> waiting_t \<Rightarrow> bool" where
  "waiting_buffer_typed e w \<longleftrightarrow>
     list_ex (\<lambda>i. let b = event (waiting_buffer w ! i)
                  in KEYEQ (key e) (key b) \<and> pressed e \<noteq> pressed b) (waiting_indices w)"

definition waiting_buffer_has_anykey_pressed :: "waiting_t \<Rightarrow> bool" where
  "waiting_buffer_has_anykey_pressed w \<longleftrightarrow>
     list_ex (\<lambda>i. pressed (event (waiting_buffer w ! i))) (waiting_indices w)"

section \<open>The tapping state\<close>

record 'a tapping_st =
  act :: "'a action_st_scheme"
  tapping_key :: keyrecord_t
  waiting :: waiting_t
  g_tapping_term :: u16

definition IS_TAPPING :: "'a tapping_st \<Rightarrow> bool" where
  "IS_TAPPING s \<longleftrightarrow> \<not> IS_NOEVENT (event (tapping_key s))"

definition IS_TAPPING_PRESSED :: "'a tapping_st \<Rightarrow> bool" where
  "IS_TAPPING_PRESSED s \<longleftrightarrow> IS_TAPPING s \<and> pressed (event (tapping_key s))"

definition IS_TAPPING_RELEASED :: "'a tapping_st \<Rightarrow> bool" where
  "IS_TAPPING_RELEASED s \<longleftrightarrow> IS_TAPPING s \<and> \<not> pressed (event (tapping_key s))"

definition IS_TAPPING_KEY :: "keypos_t \<Rightarrow> 'a tapping_st \<Rightarrow> bool" where
  "IS_TAPPING_KEY k s \<longleftrightarrow> IS_TAPPING s \<and> KEYEQ (key (event (tapping_key s))) k"

text \<open>The keycode of a record is 0 in a build without \<^verbatim>\<open>COMBO_ENABLE\<close>, so the last test is then true.\<close>

definition IS_TAPPING_RECORD :: "keyrecord_t \<Rightarrow> 'a tapping_st \<Rightarrow> bool" where
  "IS_TAPPING_RECORD r s \<longleftrightarrow>
     IS_TAPPING s \<and> KEYEQ (key (event (tapping_key s))) (key (event r)) \<and>
     rec_keycode (tapping_key s) = rec_keycode r"

definition WITHIN_TAPPING_TERM :: "keyevent_t \<Rightarrow> 'a tapping_st \<Rightarrow> bool" where
  "WITHIN_TAPPING_TERM e s \<longleftrightarrow> TIMER_DIFF_16 (time e) (time (event (tapping_key s))) < g_tapping_term s"

text \<open>Processing a record, or the tapping key itself, which is changed in place.\<close>

definition run_record ::
    "'a action_st_scheme config \<Rightarrow> keyrecord_t \<Rightarrow> 'a tapping_st \<Rightarrow> keyrecord_t \<times> 'a tapping_st" where
  "run_record c r s = (case process_record c r (act s) of (r, a) \<Rightarrow> (r, s\<lparr>act := a\<rparr>))"

definition run_tapping_key :: "'a action_st_scheme config \<Rightarrow> 'a tapping_st \<Rightarrow> 'a tapping_st" where
  "run_tapping_key c s = (case run_record c (tapping_key s) s of (r, s) \<Rightarrow> s\<lparr>tapping_key := r\<rparr>)"

definition set_tap :: "keyrecord_t \<Rightarrow> keyrecord_t \<Rightarrow> keyrecord_t" where
  "set_tap k r = r\<lparr>tap_interrupted := tap_interrupted k, tap_count := tap_count k\<rparr>"

definition waiting_buffer_scan_tap :: "'a action_st_scheme config \<Rightarrow> 'a tapping_st \<Rightarrow> 'a tapping_st" where
  "waiting_buffer_scan_tap c s =
     (if tap_count (tapping_key s) > 0 \<or> \<not> pressed (event (tapping_key s)) then s
      else case find (\<lambda>i. let e = event (waiting_buffer (waiting s) ! i)
                          in IS_TAPPING_KEY (key e) s \<and> \<not> pressed e \<and> WITHIN_TAPPING_TERM e s)
                  (waiting_indices (waiting s)) of
        None \<Rightarrow> s
      | Some i \<Rightarrow>
          let w = waiting s; b = waiting_buffer w
          in run_tapping_key c
               (s\<lparr>tapping_key := (tapping_key s)\<lparr>tap_count := 1\<rparr>,
                  waiting := w\<lparr>waiting_buffer := b[i := (b ! i)\<lparr>tap_count := 1\<rparr>]\<rparr>\<rparr>))"

section \<open>The state machine\<close>

text \<open>
  The states of \<^verbatim>\<open>process_tapping\<close>, one function each.  The answer is whether the event has been
  processed or consumed; the caller puts it into the buffer otherwise.  First: the tapping key is
  down, the tapping term is running, and nothing is decided.
\<close>

definition retained_modifier :: "action_t \<Rightarrow> keyrecord_t \<Rightarrow> bool" where
  "retained_modifier a r \<longleftrightarrow>
     (if kind_id a = ACT_LMODS \<or> kind_id a = ACT_RMODS then
        key_mods a \<noteq> 0 \<and> key_code a = 0 \<or> IS_MOD (key_code a)
      else if kind_id a = ACT_LMODS_TAP \<or> kind_id a = ACT_RMODS_TAP then
        key_mods a \<noteq> 0 \<and> tap_count r = 0 \<or> IS_MOD (key_code a)
      else False)"

definition permissive_hold :: "'s config \<Rightarrow> keyrecord_t \<Rightarrow> 'a tapping_st \<Rightarrow> bool" where
  "permissive_hold c r s \<longleftrightarrow>
     (TAPPING_TERM c \<ge> 500 \<or> PERMISSIVE_HOLD c) \<and>
     (g_tapping_term s \<ge> 500 \<or> PERMISSIVE_HOLD c) \<and>
     IS_RELEASED (event r) \<and> waiting_buffer_typed (event r) (waiting s)"

text \<open>The tapping key turns out to be held.\<close>

definition end_as_hold :: "'a action_st_scheme config \<Rightarrow> 'a tapping_st \<Rightarrow> 'a tapping_st" where
  "end_as_hold c s = (run_tapping_key c s)\<lparr>tapping_key := empty_record\<rparr>"

definition tapping_undecided ::
    "'a action_st_scheme config \<Rightarrow> keyrecord_t \<Rightarrow> 'a tapping_st \<Rightarrow> bool \<times> keyrecord_t \<times> 'a tapping_st" where
  "tapping_undecided c r s =
     (let e = event r
      in if IS_TAPPING_RECORD r s \<and> \<not> pressed e then
           let s = run_tapping_key c (s\<lparr>tapping_key := (tapping_key s)\<lparr>tap_count := 1\<rparr>\<rparr>)
           in (False, set_tap (tapping_key s) r, s)
         else if permissive_hold c r s then (False, r, end_as_hold c s)
         else if IS_RELEASED e \<and> \<not> waiting_buffer_typed e (waiting s) then
           (if retained_modifier (layer_switch_get_action c (key e) (act s)) r then (False, r, s)
            else let (r, s) = run_record c r s in (True, r, s))
         else if pressed e then
           let s = s\<lparr>tapping_key := (tapping_key s)\<lparr>tap_interrupted := True\<rparr>\<rparr>
           in (False, r, if HOLD_ON_OTHER_KEY_PRESS c then end_as_hold c s else s)
         else (False, r, s))"

text \<open>
  A tap key is pressed: it becomes the tapping key.  When the last tap was a sequential one, its key
  is released first.
\<close>

definition release_last_tap ::
    "'a action_st_scheme config \<Rightarrow> u16 \<Rightarrow> 'a tapping_st \<Rightarrow> 'a tapping_st" where
  "release_last_tap c t s =
     (if tap_count (tapping_key s) > 1 then
        snd (run_record c ((tapping_key s)\<lparr>event := (event (tapping_key s))\<lparr>time := t, pressed := False\<rparr>\<rparr>) s)
      else s)"

definition start_tapping :: "'a action_st_scheme config \<Rightarrow> keyrecord_t \<Rightarrow> 'a tapping_st \<Rightarrow> 'a tapping_st" where
  "start_tapping c r s = waiting_buffer_scan_tap c (s\<lparr>tapping_key := r\<rparr>)"

text \<open>
  Second: the tapping key is down after a tap, within the term or after it (the argument \<open>within\<close>): the
  two branches of the source differ only in what a release leaves behind.
\<close>

definition tapping_tapped ::
    "'a action_st_scheme config \<Rightarrow> bool \<Rightarrow> keyrecord_t \<Rightarrow> 'a tapping_st \<Rightarrow>
     bool \<times> keyrecord_t \<times> 'a tapping_st" where
  "tapping_tapped c within r s =
     (let e = event r
      in if IS_TAPPING_RECORD r s \<and> \<not> pressed e then
           let (r, s) = run_record c (set_tap (tapping_key s) r) s
           in (True, r, s\<lparr>tapping_key := (if within then r else empty_record)\<rparr>)
         else if is_tap_record c r (act s) \<and> pressed e then
           (True, r, start_tapping c r (release_last_tap c (time e) s))
         else let (r, s) = run_record c r s in (True, r, s))"

text \<open>Third: the tapping key has been released within the term.\<close>

definition tapping_released ::
    "'a action_st_scheme config \<Rightarrow> keyrecord_t \<Rightarrow> 'a tapping_st \<Rightarrow> bool \<times> keyrecord_t \<times> 'a tapping_st" where
  "tapping_released c r s =
     (let e = event r; k = tapping_key s
      in if \<not> pressed e then let (r, s) = run_record c r s in (True, r, s)
         else if IS_TAPPING_RECORD r s then
           (if \<not> TAPPING_FORCE_HOLD c \<and> \<not> tap_interrupted k \<and> tap_count k > 0 then
              let r = set_tap k r;
                  r = (if tap_count r < 15 then r\<lparr>tap_count := tap_count r + 1\<rparr> else r);
                  (r, s) = run_record c r s
              in (True, r, s\<lparr>tapping_key := r\<rparr>)
            else (True, r, s\<lparr>tapping_key := r\<rparr>))
         else if is_tap_record c r (act s) then (True, r, start_tapping c r s)
         else
           let (r, s) = run_record c r (s\<lparr>tapping_key := k\<lparr>tap_interrupted := True\<rparr>\<rparr>)
           in (True, r, s))"

text \<open>Fourth: no tapping key.\<close>

definition not_tapping ::
    "'a action_st_scheme config \<Rightarrow> keyrecord_t \<Rightarrow> 'a tapping_st \<Rightarrow> bool \<times> keyrecord_t \<times> 'a tapping_st" where
  "not_tapping c r s =
     (if pressed (event r) \<and> is_tap_record c r (act s) then
        (True, r, waiting_buffer_scan_tap c
           (s\<lparr>tapping_key := r, act := process_record_tap_hint c r (act s)\<rparr>))
      else let (r, s) = run_record c r s in (True, r, s))"

definition process_tapping ::
    "'a action_st_scheme config \<Rightarrow> keyrecord_t \<Rightarrow> 'a tapping_st \<Rightarrow> bool \<times> keyrecord_t \<times> 'a tapping_st" where
  "process_tapping c r s =
     (let within = WITHIN_TAPPING_TERM (event r) s
      in if IS_TAPPING_PRESSED s then
           (if tap_count (tapping_key s) > 0 then tapping_tapped c within r s
            else if within then tapping_undecided c r s
            else (False, r, end_as_hold c s))
         else if IS_TAPPING_RELEASED s then
           (if within then tapping_released c r s
            else (False, r, s\<lparr>tapping_key := empty_record\<rparr>))
         else not_tapping c r s)"

section \<open>The head and tail of the buffer\<close>

text \<open>Nothing in \<^verbatim>\<open>process_tapping\<close> adds or removes a slot.\<close>

definition same_slots :: "waiting_t \<Rightarrow> waiting_t \<Rightarrow> bool" where
  "same_slots w v \<longleftrightarrow>
     waiting_buffer_head w = waiting_buffer_head v \<and> waiting_buffer_tail w = waiting_buffer_tail v \<and>
     length (waiting_buffer w) = length (waiting_buffer v) \<and>
     map event (waiting_buffer w) = map event (waiting_buffer v)"

lemma same_slots_refl [simp]: "same_slots w w" by (simp add: same_slots_def)

lemma run_record_waiting [simp]:
  "run_record c r s = (r', s') \<Longrightarrow> waiting s' = waiting s"
  "run_record c r s = (r', s') \<Longrightarrow> tapping_key s' = tapping_key s"
  "run_record c r s = (r', s') \<Longrightarrow> g_tapping_term s' = g_tapping_term s"
  "waiting (snd (run_record c r s)) = waiting s"
  by (auto simp: run_record_def split: prod.splits)

lemma run_tapping_key_waiting [simp]: "waiting (run_tapping_key c s) = waiting s"
  by (auto simp: run_tapping_key_def split: prod.splits)

lemma end_as_hold_waiting [simp]: "waiting (end_as_hold c s) = waiting s"
  by (simp add: end_as_hold_def)

lemma release_last_tap_waiting [simp]: "waiting (release_last_tap c t s) = waiting s"
  by (simp add: release_last_tap_def run_record_def split: prod.splits)

lemma map_event_tap: "map event (b[i := (b ! i)\<lparr>tap_count := n\<rparr>]) = map event b"
proof (rule nth_equalityI)
  fix j assume "j < length (map event (b[i := (b ! i)\<lparr>tap_count := n\<rparr>]))"
  then show "map event (b[i := (b ! i)\<lparr>tap_count := n\<rparr>]) ! j = map event b ! j"
    by (cases "j = i") simp_all
qed simp

lemma scan_tap_slots [simp]:
  "same_slots (waiting (waiting_buffer_scan_tap c s)) (waiting s)"
  by (auto simp: waiting_buffer_scan_tap_def same_slots_def map_event_tap Let_def split: option.splits)

lemma start_tapping_slots [simp]: "same_slots (waiting (start_tapping c r s)) (waiting s)"
  using scan_tap_slots [of c "s\<lparr>tapping_key := r\<rparr>"] by (simp add: start_tapping_def)

lemma process_tapping_slots [simp]:
  "same_slots (waiting (snd (snd (process_tapping c r s)))) (waiting s)"
proof -
  have "same_slots (waiting (snd (snd (tapping_undecided c r s)))) (waiting s)"
    by (auto simp: tapping_undecided_def Let_def split: prod.splits)
  moreover have "same_slots (waiting (snd (snd (tapping_tapped c w r s)))) (waiting s)" for w
    using start_tapping_slots [of c r "release_last_tap c (time (event r)) s"]
    by (auto simp: tapping_tapped_def Let_def split: prod.splits)
  moreover have "same_slots (waiting (snd (snd (tapping_released c r s)))) (waiting s)"
    by (auto simp: tapping_released_def Let_def split: prod.splits)
  moreover have "same_slots (waiting (snd (snd (not_tapping c r s)))) (waiting s)"
    using scan_tap_slots [of c "s\<lparr>tapping_key := r, act := process_record_tap_hint c r (act s)\<rparr>"]
    by (auto simp: not_tapping_def split: prod.splits)
  ultimately show ?thesis by (simp add: process_tapping_def Let_def)
qed

section \<open>Emptying the buffer\<close>

text \<open>
  One turn of the loop: the front slot is processed, and what has become of its record is in the slot.
\<close>

definition process_front :: "'a action_st_scheme config \<Rightarrow> 'a tapping_st \<Rightarrow> bool \<times> 'a tapping_st" where
  "process_front c s =
     (case process_tapping c (waiting_buffer_front (waiting s)) s of (ok, r, s) \<Rightarrow>
        let w = waiting s
        in (ok, s\<lparr>waiting := w\<lparr>waiting_buffer := (waiting_buffer w)[waiting_buffer_tail w := r]\<rparr>\<rparr>))"

definition pop_front :: "'a tapping_st \<Rightarrow> 'a tapping_st" where
  "pop_front s = s\<lparr>waiting := waiting_buffer_next (waiting s)\<rparr>"

definition waiting_count :: "'a tapping_st \<Rightarrow> nat" where
  "waiting_count s =
     ring_count WAITING_BUFFER_SIZE (waiting_buffer_head (waiting s)) (waiting_buffer_tail (waiting s))"

definition waiting_wf :: "waiting_t \<Rightarrow> bool" where
  "waiting_wf w \<longleftrightarrow> length (waiting_buffer w) = WAITING_BUFFER_SIZE \<and>
     waiting_buffer_head w < WAITING_BUFFER_SIZE \<and> waiting_buffer_tail w < WAITING_BUFFER_SIZE"

lemma process_front_indices [simp]:
  "waiting_buffer_head (waiting (snd (process_front c s))) = waiting_buffer_head (waiting s)"
  "waiting_buffer_tail (waiting (snd (process_front c s))) = waiting_buffer_tail (waiting s)"
  "length (waiting_buffer (waiting (snd (process_front c s)))) = length (waiting_buffer (waiting s))"
  using process_tapping_slots [of c "waiting_buffer_front (waiting s)" s]
  by (auto simp: process_front_def same_slots_def Let_def split: prod.splits)

lemma mod_8_closer:
  "h < 8 \<Longrightarrow> t < 8 \<Longrightarrow> h \<noteq> t \<Longrightarrow> ring_count 8 h (Suc t mod 8) < ring_count 8 h t"
  using ring_count_Suc_tail [of h 8 t] by simp

text \<open>
  The indices are always below 8; the second test of the loop only makes the model total.
\<close>

function process_waiting :: "'a action_st_scheme config \<Rightarrow> 'a tapping_st \<Rightarrow> 'a tapping_st" where
  "process_waiting c s =
     (if waiting_buffer_tail (waiting s) \<noteq> waiting_buffer_head (waiting s) \<and> waiting_wf (waiting s)
      then let (ok, s) = process_front c s in if ok then process_waiting c (pop_front s) else s
      else s)"
  by pat_completeness auto

termination
proof (relation "measure (\<lambda>(c, s). waiting_count s)")
  fix c :: "'a action_st_scheme config" and s x ok s'
  assume wf: "waiting_buffer_tail (waiting s) \<noteq> waiting_buffer_head (waiting s) \<and> waiting_wf (waiting s)"
    and x: "x = process_front c s" "(ok, s') = x"
  then have "s' = snd (process_front c s)" by (metis snd_conv)
  with wf show "((c, pop_front s'), (c, s)) \<in> measure (\<lambda>(c, s). waiting_count s)"
    using mod_8_closer [of "waiting_buffer_head (waiting s)" "waiting_buffer_tail (waiting s)"]
    by (auto simp: waiting_count_def pop_front_def waiting_buffer_next_def waiting_wf_def
        WAITING_BUFFER_SIZE_def)
qed simp

declare process_waiting.simps [simp del]

definition action_tapping_process ::
    "'a action_st_scheme config \<Rightarrow> keyrecord_t \<Rightarrow> 'a tapping_st \<Rightarrow> 'a tapping_st" where
  "action_tapping_process c r s =
     (let (ok, r, s) = process_tapping c r s;
          s = (if ok then s
               else let (room, w) = waiting_buffer_enq r (waiting s)
                    in if room then s\<lparr>waiting := w\<rparr>
                       else s\<lparr>act := clear_keyboard c (act s), waiting := waiting_buffer_clear w,
                              tapping_key := empty_record\<rparr>)
      in process_waiting c s)"

section \<open>An event\<close>

text \<open>
  The one-shot timeouts are only compiled with \<^verbatim>\<open>ONESHOT_TIMEOUT > 0\<close>.
\<close>

definition oneshot_timeouts :: "'s config \<Rightarrow> 'a action_st_scheme \<Rightarrow> 'a action_st_scheme" where
  "oneshot_timeouts c s =
     (if oneshot_disable (keymap_config s) \<or> ONESHOT_TIMEOUT c = 0 then s
      else
        let s = (if has_oneshot_layer_timed_out c s
                 then clear_oneshot_layer_state c ONESHOT_OTHER_KEY_PRESSED s else s);
            s = (if has_oneshot_mods_timed_out c s then clear_oneshot_mods c s else s)
        in if SWAP_HANDS_ENABLE c \<and> has_oneshot_swaphands_timed_out c s
           then clear_oneshot_swaphands c s else s)"

definition action_exec :: "'a action_st_scheme config \<Rightarrow> keyevent_t \<Rightarrow> 'a tapping_st \<Rightarrow> 'a tapping_st" where
  "action_exec c e s =
     (let a = act s;
          a = (if \<not> IS_NOEVENT e \<and> RETRO_TAPPING c
               then a\<lparr>retro_tapping_counter := retro_tapping_counter a + 1\<rparr> else a);
          a = (if pressed e then clear_weak_mods a else a);
          (e, a) = (if \<not> IS_NOEVENT e \<and> SWAP_HANDS_ENABLE c then process_hand_swap c e a else (e, a));
          r = \<lparr>event = e, tap_interrupted = False, tap_count = 0, rec_keycode = 0\<rparr>;
          a = oneshot_timeouts c a
      in if IS_NOEVENT e then action_tapping_process c r (s\<lparr>act := a\<rparr>)
         else let (ok, a) = pre_process_record_quantum c r a
              in if ok then action_tapping_process c r (s\<lparr>act := a\<rparr>) else s\<lparr>act := a\<rparr>)"

section \<open>The buffer is a queue\<close>

definition waiting_content :: "waiting_t \<Rightarrow> keyrecord_t list" where
  "waiting_content w = ring_list (waiting_buffer w) (waiting_buffer_head w) (waiting_buffer_tail w)"

interpretation wq: bounded_fifo waiting_buffer_put waiting_buffer_front waiting_buffer_next
  waiting_buffer_clear waiting_content waiting_wf "WAITING_BUFFER_SIZE - 1"
proof unfold_locales
  fix q x
  assume wf: "waiting_wf q"
  let ?h = "waiting_buffer_head q" and ?t = "waiting_buffer_tail q"
  have ht: "?h < length (waiting_buffer q)" "?t < length (waiting_buffer q)"
    "length (waiting_buffer q) = WAITING_BUFFER_SIZE"
    using wf by (auto simp: waiting_wf_def)
  note full = ring_full_iff [OF ht(1,2), unfolded ht(3)]
  have size: "0 < WAITING_BUFFER_SIZE" by (simp add: WAITING_BUFFER_SIZE_def)
  show "length (waiting_content q) \<le> WAITING_BUFFER_SIZE - 1"
    using ring_count_less [OF size, of ?h ?t] ht by (simp add: waiting_content_def)
  show "waiting_wf (snd (waiting_buffer_put x q))"
    using wf size by (auto simp: waiting_buffer_put_def waiting_wf_def)
  show "waiting_content (waiting_buffer_clear q) = []" and "waiting_wf (waiting_buffer_clear q)"
    using wf by (auto simp: waiting_content_def waiting_buffer_clear_def waiting_wf_def ring_list_def
        ring_count_def)
  show "fst (waiting_buffer_put x q) \<and>
      waiting_content (snd (waiting_buffer_put x q)) = waiting_content q @ [x]"
    if "length (waiting_content q) < WAITING_BUFFER_SIZE - 1"
    using that full ring_list_enq [OF ht(1,2)] ht
    by (simp add: waiting_buffer_put_def waiting_content_def)
  show "waiting_buffer_put x q = (False, q)" if "length (waiting_content q) = WAITING_BUFFER_SIZE - 1"
    using that full ht size by (simp add: waiting_buffer_put_def waiting_content_def)
  show "waiting_content q = waiting_buffer_front q # waiting_content (waiting_buffer_next q)"
    if "waiting_content q \<noteq> []"
    using that ring_list_deq [OF ht(1,2)] ring_list_empty_iff [OF ht(1,2)] ht
    by (auto simp: waiting_buffer_front_def waiting_buffer_next_def waiting_content_def)
  show "waiting_wf (waiting_buffer_next q)"
    using wf size by (auto simp: waiting_buffer_next_def waiting_wf_def)
qed

lemma waiting_content_empty:
  "waiting_wf w \<Longrightarrow> waiting_content w = [] \<longleftrightarrow> waiting_buffer_head w = waiting_buffer_tail w"
  using ring_list_empty_iff [of "waiting_buffer_head w" "waiting_buffer w" "waiting_buffer_tail w"]
  by (simp add: waiting_content_def waiting_wf_def)

lemma waiting_indices_empty:
  "waiting_wf w \<Longrightarrow> waiting_content w = [] \<Longrightarrow> waiting_indices w = []"
  by (simp add: waiting_content_empty waiting_indices_def ring_count_def waiting_wf_def)

lemma same_slots_wf: "same_slots w v \<Longrightarrow> waiting_wf w = waiting_wf v"
  by (simp add: same_slots_def waiting_wf_def)

lemma same_slots_events:
  assumes "same_slots w v" "waiting_wf v"
  shows "map event (waiting_content w) = map event (waiting_content v)"
proof -
  have "event (waiting_buffer w ! i) = event (waiting_buffer v ! i)" if "i < WAITING_BUFFER_SIZE" for i
  proof -
    have len: "i < length (waiting_buffer w)" "i < length (waiting_buffer v)"
      using that assms by (simp_all add: same_slots_def waiting_wf_def)
    have "map event (waiting_buffer w) = map event (waiting_buffer v)"
      using assms(1) by (simp add: same_slots_def)
    then show ?thesis using nth_map [OF len(1), of event] nth_map [OF len(2), of event] by metis
  qed
  then show ?thesis
    using assms by (simp add: same_slots_def waiting_content_def ring_list_def waiting_wf_def
        WAITING_BUFFER_SIZE_def)
qed

lemma process_waiting_done:
  "waiting_wf (waiting s) \<Longrightarrow> waiting_content (waiting s) = [] \<Longrightarrow> process_waiting c s = s"
  by (simp add: process_waiting.simps waiting_content_empty)

text \<open>The buffer stays well-formed, whatever happens.\<close>

lemma process_front_wf: "waiting_wf (waiting s) \<Longrightarrow> waiting_wf (waiting (snd (process_front c s)))"
  by (simp add: waiting_wf_def)

lemma process_waiting_wf: "waiting_wf (waiting s) \<Longrightarrow> waiting_wf (waiting (process_waiting c s))"
proof (induction c s rule: process_waiting.induct)
  case (1 c s)
  show ?case
  proof (cases "waiting_buffer_tail (waiting s) \<noteq> waiting_buffer_head (waiting s)")
    case True
    obtain ok s' where f: "process_front c s = (ok, s')" by fastforce
    have wf: "waiting_wf (waiting s')"
      using process_front_wf [OF 1(2), of c] f by simp
    then have "waiting_wf (waiting (pop_front s'))"
      by (simp add: pop_front_def waiting_buffer_next_def waiting_wf_def WAITING_BUFFER_SIZE_def)
    with 1(1) [of "(ok, s')" ok s'] 1(2) True wf f show ?thesis
      by (simp add: process_waiting.simps [of c s])
  next
    case False
    with 1(2) show ?thesis by (simp add: process_waiting.simps)
  qed
qed

lemma action_tapping_process_wf:
  assumes "waiting_wf (waiting s)"
  shows "waiting_wf (waiting (action_tapping_process c r s))"
proof -
  obtain ok r' s' where p: "process_tapping c r s = (ok, r', s')" using prod_cases3 by blast
  then have wf: "waiting_wf (waiting s')"
    using same_slots_wf [OF process_tapping_slots [of c r s]] assms by simp
  have "waiting_wf (snd (waiting_buffer_enq r' (waiting s')))"
    using wq.wf_enq [OF wf] wf by (simp add: waiting_buffer_enq_def)
  then show ?thesis
    using wf wq.wf_clear
    by (auto simp: action_tapping_process_def p Let_def split: prod.splits intro!: process_waiting_wf)
qed

section \<open>Tap or hold\<close>

definition key_record :: "keypos_t \<Rightarrow> bool \<Rightarrow> u16 \<Rightarrow> 4 word \<Rightarrow> keyrecord_t" where
  "key_record k p t n =
     \<lparr>event = \<lparr>key = k, pressed = p, time = t\<rparr>, tap_interrupted = False, tap_count = n,
      rec_keycode = 0\<rparr>"

definition real_event :: "keypos_t \<Rightarrow> u16 \<Rightarrow> bool" where
  "real_event k t \<longleftrightarrow> t \<noteq> 0 \<and> k \<noteq> \<lparr>col = 255, row = 255\<rparr>"

definition idle :: "'a tapping_st \<Rightarrow> bool" where
  "idle s \<longleftrightarrow> \<not> IS_TAPPING s \<and> waiting_wf (waiting s) \<and> waiting_content (waiting s) = []"

lemma key_record_simps [simp]:
  "event (key_record k p t n) = \<lparr>key = k, pressed = p, time = t\<rparr>"
  "tap_count (key_record k p t n) = n" "\<not> tap_interrupted (key_record k p t n)"
  "rec_keycode (key_record k p t n) = 0"
  "key_record k p t n\<lparr>tap_count := m\<rparr> = key_record k p t m"
  "set_tap (key_record k p t n) (key_record k' p' t' m) = key_record k' p' t' n"
  by (simp_all add: key_record_def set_tap_def)

lemma real_event_noevent [simp]:
  "real_event k t \<Longrightarrow> \<not> IS_NOEVENT \<lparr>key = k, pressed = p, time = t\<rparr>"
  by (cases k) (auto simp: real_event_def IS_NOEVENT_def)

lemma scan_tap_empty [simp]:
  "waiting_wf (waiting s) \<Longrightarrow> waiting_content (waiting s) = [] \<Longrightarrow> waiting_buffer_scan_tap c s = s"
  by (simp add: waiting_buffer_scan_tap_def waiting_indices_empty)

text \<open>A record put into the empty buffer is the next to be processed, and leaves it if it is consumed.\<close>

lemma put_empty:
  fixes r
  assumes "waiting_wf w" "waiting_content w = []"
  defines "w' \<equiv> snd (waiting_buffer_put r w)"
  shows "fst (waiting_buffer_put r w)" "waiting_wf w'" "waiting_content w' = [r]"
    "waiting_buffer_front w' = r" "waiting_buffer_tail w' \<noteq> waiting_buffer_head w'"
proof -
  have room: "length (waiting_content w) < WAITING_BUFFER_SIZE - 1"
    using assms(2) by (simp add: WAITING_BUFFER_SIZE_def)
  show "fst (waiting_buffer_put r w)" and wf: "waiting_wf w'" and c: "waiting_content w' = [r]"
    using wq.enq_room [OF assms(1) room, of r] wq.wf_enq [OF assms(1), of r] assms(2)
    by (simp_all add: w'_def)
  show "waiting_buffer_front w' = r" using wq.front_pop [OF wf] c by simp
  show "waiting_buffer_tail w' \<noteq> waiting_buffer_head w'"
    using waiting_content_empty [OF wf] c by auto
qed

lemma process_waiting_single:
  assumes w: "waiting_wf (waiting s)" "waiting_content (waiting s) = [r]"
    and p: "process_tapping c r s = (True, r', s')"
    and keep: "waiting s' = waiting s"
  shows "act (process_waiting c s) = act s'" "tapping_key (process_waiting c s) = tapping_key s'"
    "waiting_content (waiting (process_waiting c s)) = []" "waiting_wf (waiting (process_waiting c s))"
    "g_tapping_term (process_waiting c s) = g_tapping_term s'"
proof -
  have ne: "waiting_content (waiting s) \<noteq> []" using w(2) by simp
  have front: "waiting_buffer_front (waiting s) = r" using wq.front_pop [OF w(1) ne] w(2) by simp
  define w' where "w' = (waiting s)\<lparr>waiting_buffer :=
    (waiting_buffer (waiting s))[waiting_buffer_tail (waiting s) := r']\<rparr>"
  have f: "process_front c s = (True, s'\<lparr>waiting := w'\<rparr>)"
    by (simp add: process_front_def front p keep w'_def Let_def)
  have wf: "waiting_wf w'" using w(1) by (simp add: w'_def waiting_wf_def)
  have "length (waiting_content w') = length (waiting_content (waiting s))"
    by (simp add: w'_def waiting_content_def)
  then have one: "length (waiting_content w') = 1" using w(2) by simp
  then have ne': "waiting_content w' \<noteq> []" by auto
  have empty: "waiting_content (waiting_buffer_next w') = []" "waiting_wf (waiting_buffer_next w')"
    using wq.front_pop [OF wf ne'] one wq.wf_pop [OF wf ne'] by (auto simp: length_Suc_conv)
  have "process_waiting c s = pop_front (s'\<lparr>waiting := w'\<rparr>)"
    using waiting_content_empty [OF w(1)] ne w(1) empty
    by (simp add: process_waiting.simps [of c s] f process_waiting_done pop_front_def)
  then show "act (process_waiting c s) = act s'" "tapping_key (process_waiting c s) = tapping_key s'"
    "waiting_content (waiting (process_waiting c s)) = []" "waiting_wf (waiting (process_waiting c s))"
    "g_tapping_term (process_waiting c s) = g_tapping_term s'"
    using empty by (simp_all add: pop_front_def)
qed

text \<open>An event that the machine declines while the buffer is empty, and consumes on the second try.\<close>

lemma action_tapping_process_twice:
  assumes p: "process_tapping c r s = (False, r', s')" and real: "\<not> IS_NOEVENT (event r')"
    and w: "waiting_wf (waiting s')" "waiting_content (waiting s') = []"
    and p': "process_tapping c r' (s'\<lparr>waiting := snd (waiting_buffer_put r' (waiting s'))\<rparr>) = (True, r'', s'')"
    and keep: "waiting s'' = snd (waiting_buffer_put r' (waiting s'))"
  shows "act (action_tapping_process c r s) = act s''"
    "tapping_key (action_tapping_process c r s) = tapping_key s''"
    "waiting_content (waiting (action_tapping_process c r s)) = []"
    "waiting_wf (waiting (action_tapping_process c r s))"
proof -
  define t where "t = s'\<lparr>waiting := snd (waiting_buffer_put r' (waiting s'))\<rparr>"
  have "action_tapping_process c r s = process_waiting c t"
    using put_empty(1) [OF w, of r'] real
    by (cases "waiting_buffer_put r' (waiting s')")
      (simp add: action_tapping_process_def p waiting_buffer_enq_def t_def)
  moreover have "waiting_wf (waiting t)" "waiting_content (waiting t) = [r']"
    using put_empty(2,3) [OF w, of r'] by (simp_all add: t_def)
  ultimately show "act (action_tapping_process c r s) = act s''"
    "tapping_key (action_tapping_process c r s) = tapping_key s''"
    "waiting_content (waiting (action_tapping_process c r s)) = []"
    "waiting_wf (waiting (action_tapping_process c r s))"
    using process_waiting_single [of t r' c r'' s''] p' keep by (simp_all add: t_def)
qed

lemma action_tapping_process_once:
  assumes "process_tapping c r s = (True, r', s')"
    and "waiting_wf (waiting s')" "waiting_content (waiting s') = []"
  shows "action_tapping_process c r s = s'"
  using assms by (simp add: action_tapping_process_def process_waiting_done)

text \<open>The two steps of a tap-or-hold key: its press waits, its release decides.\<close>

definition tap_decision :: "u16 \<Rightarrow> u16 \<Rightarrow> 'a tapping_st \<Rightarrow> 4 word" where
  "tap_decision t t' s = (if t' - t < g_tapping_term s then 1 else 0)"

lemma press_tap_key:
  assumes "idle s" "\<not> SWAP_HANDS_ENABLE c" "is_tap_record c r (act s)" "pressed (event r)"
  shows "action_tapping_process c r s = s\<lparr>tapping_key := r\<rparr>"
proof -
  have "process_record_tap_hint c r (act s) = act s"
    using assms(2) by (simp add: process_record_tap_hint_def)
  moreover have "s\<lparr>tapping_key := r, act := act s\<rparr> = s\<lparr>tapping_key := r\<rparr>" by (cases s) simp
  ultimately have "process_tapping c r s = (True, r, s\<lparr>tapping_key := r\<rparr>)"
    using assms by (simp add: process_tapping_def IS_TAPPING_PRESSED_def IS_TAPPING_RELEASED_def
        idle_def not_tapping_def)
  then show ?thesis using assms(1) by (simp add: action_tapping_process_once idle_def)
qed

lemma tapping_predicates:
  assumes "tapping_key s = key_record k p t n" "real_event k t"
  shows "IS_TAPPING_PRESSED s = p" "IS_TAPPING_RELEASED s = (\<not> p)"
    "IS_TAPPING_RECORD (key_record j q t' m) s = (j = k)"
    "WITHIN_TAPPING_TERM \<lparr>key = j, pressed = q, time = t'\<rparr> s = (t' - t < g_tapping_term s)"
  using assms by (auto simp: IS_TAPPING_PRESSED_def IS_TAPPING_RELEASED_def IS_TAPPING_def
      IS_TAPPING_RECORD_def WITHIN_TAPPING_TERM_def TIMER_DIFF_16_def)

lemma not_tapping_empty:
  "tapping_key s = empty_record \<Longrightarrow> \<not> IS_TAPPING_PRESSED s \<and> \<not> IS_TAPPING_RELEASED s"
  by (simp add: IS_TAPPING_PRESSED_def IS_TAPPING_RELEASED_def IS_TAPPING_def empty_record_def)

lemma release_within:
  assumes key: "tapping_key s = key_record k True t 0" and real: "real_event k t" "real_event k t'"
    and w: "waiting_wf (waiting s)" "waiting_content (waiting s) = []"
    and within: "t' - t < g_tapping_term s"
    and same: "fst (process_record c (key_record k True t 1) (act s)) = key_record k True t 1"
  shows "act (action_tapping_process c (key_record k False t' 0) s) =
      snd (process_record c (key_record k False t' 1) (snd (process_record c (key_record k True t 1) (act s))))"
    "waiting_content (waiting (action_tapping_process c (key_record k False t' 0) s)) = []"
proof -
  define a where "a = snd (process_record c (key_record k True t 1) (act s))"
  define s1 where "s1 = s\<lparr>act := a, tapping_key := key_record k True t 1\<rparr>"
  have one: "process_record c (key_record k True t 1) (act s) = (key_record k True t 1, a)"
    using same by (simp add: a_def prod_eq_iff)
  have p1: "process_tapping c (key_record k False t' 0) s = (False, key_record k False t' 1, s1)"
    using key within one
    by (simp add: process_tapping_def tapping_predicates [OF key real(1)] tapping_undecided_def
        run_tapping_key_def run_record_def s1_def)
  define s2 where "s2 = s1\<lparr>waiting := snd (waiting_buffer_put (key_record k False t' 1) (waiting s1))\<rparr>"
  have key2: "tapping_key s2 = key_record k True t 1" by (simp add: s2_def s1_def)
  obtain r' b where rb: "process_record c (key_record k False t' 1) a = (r', b)" by fastforce
  have p2: "process_tapping c (key_record k False t' 1) s2 = (True, r', s2\<lparr>act := b, tapping_key := r'\<rparr>)"
    using within rb
    by (simp add: process_tapping_def tapping_predicates [OF key2 real(1)] tapping_tapped_def key2
        run_record_def) (simp add: s2_def s1_def rb)
  note twice = action_tapping_process_twice [OF p1 _ _ _ p2 [unfolded s2_def]]
  show "act (action_tapping_process c (key_record k False t' 0) s) =
      snd (process_record c (key_record k False t' 1) (snd (process_record c (key_record k True t 1) (act s))))"
    using twice(1) real w by (simp add: s1_def rb a_def [symmetric])
  show "waiting_content (waiting (action_tapping_process c (key_record k False t' 0) s)) = []"
    using twice(3) real w by (simp add: s1_def)
qed

lemma release_after:
  assumes key: "tapping_key s = key_record k True t 0" and real: "real_event k t" "real_event k t'"
    and w: "waiting_wf (waiting s)" "waiting_content (waiting s) = []"
    and late: "\<not> t' - t < g_tapping_term s"
  shows "act (action_tapping_process c (key_record k False t' 0) s) =
      snd (process_record c (key_record k False t' 0) (snd (process_record c (key_record k True t 0) (act s))))"
    "waiting_content (waiting (action_tapping_process c (key_record k False t' 0) s)) = []"
proof -
  obtain r0 a where one: "process_record c (key_record k True t 0) (act s) = (r0, a)" by fastforce
  define s1 where "s1 = s\<lparr>act := a, tapping_key := empty_record\<rparr>"
  have p1: "process_tapping c (key_record k False t' 0) s = (False, key_record k False t' 0, s1)"
    using key late one
    by (simp add: process_tapping_def tapping_predicates [OF key real(1)] end_as_hold_def
        run_tapping_key_def run_record_def s1_def)
  define s2 where "s2 = s1\<lparr>waiting := snd (waiting_buffer_put (key_record k False t' 0) (waiting s1))\<rparr>"
  have key2: "tapping_key s2 = empty_record" by (simp add: s2_def s1_def)
  obtain r' b where rb: "process_record c (key_record k False t' 0) a = (r', b)" by fastforce
  have p2: "process_tapping c (key_record k False t' 0) s2 = (True, r', s2\<lparr>act := b\<rparr>)"
    using not_tapping_empty [OF key2] rb
    by (simp add: process_tapping_def not_tapping_def run_record_def) (simp add: s2_def s1_def rb)
  note twice = action_tapping_process_twice [OF p1 _ _ _ p2 [unfolded s2_def]]
  show "act (action_tapping_process c (key_record k False t' 0) s) =
      snd (process_record c (key_record k False t' 0) (snd (process_record c (key_record k True t 0) (act s))))"
    using twice(1) real w by (simp add: s1_def rb one)
  show "waiting_content (waiting (action_tapping_process c (key_record k False t' 0) s)) = []"
    using twice(3) real w by (simp add: s1_def)
qed

text \<open>
  A tap-or-hold key that is pressed at time \<open>t\<close> and released at \<open>t'\<close>, with nothing in between, is
  processed as a tap exactly when the release comes within the tapping term (time modulo \<open>2 ^ 16\<close>):
  its press and its release are then processed with tap count 1, otherwise both with tap count 0, in
  this order, and nothing is left waiting.
\<close>

lemma tap_or_hold:
  assumes "idle s" and "real_event k t" and "real_event k t'" and "\<not> SWAP_HANDS_ENABLE c"
    and "is_tap_record c (key_record k True t 0) (act s)"
    and "fst (process_record c (key_record k True t 1) (act s)) = key_record k True t 1"
  shows "let n = tap_decision t t' s;
             s' = action_tapping_process c (key_record k False t' 0)
                    (action_tapping_process c (key_record k True t 0) s)
         in act s' = snd (process_record c (key_record k False t' n)
                      (snd (process_record c (key_record k True t n) (act s)))) \<and>
            waiting_content (waiting s') = []"
proof -
  define s1 where "s1 = s\<lparr>tapping_key := key_record k True t 0\<rparr>"
  have press: "action_tapping_process c (key_record k True t 0) s = s1"
    using assms by (simp add: press_tap_key s1_def)
  have s1: "tapping_key s1 = key_record k True t 0" "act s1 = act s" "waiting_wf (waiting s1)"
    "waiting_content (waiting s1) = []" "g_tapping_term s1 = g_tapping_term s"
    using assms(1) by (simp_all add: s1_def idle_def)
  show ?thesis
    using release_within [OF s1(1) assms(2,3) s1(3,4), of c] release_after [OF s1(1) assms(2,3) s1(3,4), of c]
      assms(6) s1 by (cases "t' - t < g_tapping_term s") (simp_all add: tap_decision_def press Let_def)
qed

section \<open>Overflow\<close>

lemma clear_keyboard_clears:
  assumes "util_wf s"
  shows "real_mods (clear_keyboard c s) = 0" "util_held (clear_keyboard c s) = {}"
proof -
  have wf: "util_wf (clear_mods s)" using assms by (simp add: util_wf_def clear_mods_def nkro_def)
  show "real_mods (clear_keyboard c s) = 0"
    by (simp add: clear_keyboard_def clear_mods_def)
  have "util_held (clear_keys (clear_mods s)) = {}" by (rule util_key_ops(6) [OF wf])
  then show "util_held (clear_keyboard c s) = {}"
    by (simp add: clear_keyboard_def clear_keyboard_but_mods_def clear_keyboard_but_mods_and_keys_def
        util_held_def clear_weak_mods_def clear_macro_mods_def nkro_def)
qed

text \<open>
  C27. When an event has to wait and seven events are waiting already, everything is cleared: the
  tapping key, the waiting events, and the keys and modifiers of the report.  No key stays pressed,
  and the events that were waiting are lost.
\<close>

theorem waiting_overflow_clears:
  assumes "waiting_wf (waiting s)" and "length (waiting_content (waiting s)) = 7"
    and "process_tapping c r s = (False, r', s')" and "\<not> IS_NOEVENT (event r')" and "util_wf (act s')"
  shows "let t = action_tapping_process c r s
    in tapping_key t = empty_record \<and> waiting_content (waiting t) = [] \<and>
       real_mods (act t) = 0 \<and> util_held (act t) = {}"
proof -
  have slots: "same_slots (waiting s') (waiting s)"
    using process_tapping_slots [of c r s] assms(3) by simp
  then have wf: "waiting_wf (waiting s')" using same_slots_wf assms(1) by simp
  have "length (waiting_content (waiting s')) = WAITING_BUFFER_SIZE - 1"
    using same_slots_events [OF slots assms(1)] assms(2) map_eq_imp_length_eq
    by (fastforce simp: WAITING_BUFFER_SIZE_def)
  then have "waiting_buffer_put r' (waiting s') = (False, waiting s')" by (rule wq.enq_full [OF wf])
  then have "action_tapping_process c r s = s'\<lparr>act := clear_keyboard c (act s'),
      waiting := waiting_buffer_clear (waiting s'), tapping_key := empty_record\<rparr>"
    using assms(3,4) wq.content_clear [OF wf] wq.wf_clear [OF wf]
    by (simp add: action_tapping_process_def waiting_buffer_enq_def process_waiting_done)
  then show ?thesis
    using wq.content_clear [OF wf] by (simp add: Let_def clear_keyboard_clears [OF assms(5)])
qed

section \<open>Nested keys with a permissive hold\<close>

text \<open>
  A front element that is declined stays in the buffer; one that is consumed leaves it.
\<close>

lemma front_of_content:
  assumes "waiting_wf w" "waiting_content w = r # rs"
  shows "waiting_buffer_front w = r" "waiting_content (waiting_buffer_next w) = rs"
    "waiting_buffer_tail w \<noteq> waiting_buffer_head w"
  using wq.front_pop [OF assms(1)] waiting_content_empty [OF assms(1)] assms(2) by auto

lemma process_waiting_declined:
  assumes "waiting_wf (waiting s)" "waiting_content (waiting s) = r # rs"
    and "process_tapping c r s = (False, r, s')" "waiting s' = waiting s"
  shows "process_waiting c s = s'"
proof -
  note front = front_of_content [OF assms(1,2)]
  have "(waiting_buffer (waiting s))[waiting_buffer_tail (waiting s) := r] = waiting_buffer (waiting s)"
    using front(1) by (metis list_update_id waiting_buffer_front_def)
  then have "(waiting s')\<lparr>waiting_buffer := (waiting_buffer (waiting s'))
      [waiting_buffer_tail (waiting s') := r]\<rparr> = waiting s'"
    unfolding assms(4) by simp
  then have f: "process_front c s = (False, s')"
    by (simp add: process_front_def front(1) assms(3) Let_def)
  show ?thesis
    using front(3) assms(1) by (simp add: process_waiting.simps [of c s] f)
qed

lemma process_waiting_consumed:
  assumes "waiting_wf (waiting s)" "waiting_content (waiting s) = r # rs"
    and "process_tapping c r s = (True, r', s')" "waiting s' = waiting s"
  obtains w where "waiting_wf w" "waiting_content w = rs"
    "process_waiting c s = process_waiting c (s'\<lparr>waiting := w\<rparr>)"
proof -
  note front = front_of_content [OF assms(1,2)]
  define w' where "w' = (waiting s)\<lparr>waiting_buffer :=
    (waiting_buffer (waiting s))[waiting_buffer_tail (waiting s) := r']\<rparr>"
  have wf: "waiting_wf w'" using assms(1) by (simp add: w'_def waiting_wf_def)
  have next_eq: "waiting_content (waiting_buffer_next w') = rs"
  proof -
    have "waiting_content (waiting_buffer_next w') = waiting_content (waiting_buffer_next (waiting s))"
    proof -
      have idx: "waiting_indices (waiting_buffer_next w') = waiting_indices (waiting_buffer_next (waiting s))"
        by (simp add: w'_def waiting_indices_def waiting_buffer_next_def)
      have content: "waiting_content w = map (\<lambda>i. waiting_buffer w ! i) (waiting_indices w)"
        if "waiting_wf w" for w
        using that by (simp add: waiting_content_def ring_list_def waiting_indices_def waiting_wf_def)
      have "waiting_buffer_tail (waiting s) \<notin> set (waiting_indices (waiting_buffer_next (waiting s)))"
      proof
        assume "waiting_buffer_tail (waiting s) \<in> set (waiting_indices (waiting_buffer_next (waiting s)))"
        then obtain k where k: "k < ring_count 8 (waiting_buffer_head (waiting s)) (Suc (waiting_buffer_tail (waiting s)) mod 8)"
          "(Suc (waiting_buffer_tail (waiting s)) mod 8 + k) mod 8 = waiting_buffer_tail (waiting s)"
          by (auto simp: waiting_indices_def waiting_buffer_next_def WAITING_BUFFER_SIZE_def)
        have ht: "waiting_buffer_head (waiting s) < 8" "waiting_buffer_tail (waiting s) < 8"
          using assms(1) by (simp_all add: waiting_wf_def WAITING_BUFFER_SIZE_def)
        have "Suc k < 8"
          using k(1) mod_8_closer [OF ht] front(3)
            ring_count_less [of 8 "waiting_buffer_head (waiting s)" "waiting_buffer_tail (waiting s)"]
          by simp
        then have "(waiting_buffer_tail (waiting s) + Suc k) mod 8 \<noteq> waiting_buffer_tail (waiting s)"
          using ht(2) by (intro add_mod_neq) simp_all
        with k(2) show False by (simp add: mod_simps)
      qed
      then have "map (\<lambda>i. waiting_buffer (waiting_buffer_next w') ! i) (waiting_indices (waiting_buffer_next (waiting s))) =
          map (\<lambda>i. waiting_buffer (waiting_buffer_next (waiting s)) ! i)
            (waiting_indices (waiting_buffer_next (waiting s)))"
      proof (intro map_cong refl)
        fix i assume "i \<in> set (waiting_indices (waiting_buffer_next (waiting s)))"
        with \<open>waiting_buffer_tail (waiting s) \<notin> _\<close> have "i \<noteq> waiting_buffer_tail (waiting s)" by metis
        then show "waiting_buffer (waiting_buffer_next w') ! i =
            waiting_buffer (waiting_buffer_next (waiting s)) ! i"
          by (simp add: w'_def waiting_buffer_next_def)
      qed
      moreover have "waiting_wf (waiting_buffer_next w')" "waiting_wf (waiting_buffer_next (waiting s))"
        using wf assms(1) by (simp_all add: waiting_wf_def waiting_buffer_next_def WAITING_BUFFER_SIZE_def)
      ultimately show ?thesis using idx content by simp
    qed
    with front(2) show ?thesis by simp
  qed
  have f: "process_front c s = (True, s'\<lparr>waiting := w'\<rparr>)"
    by (simp add: process_front_def front(1) assms(3,4) w'_def Let_def)
  have "process_waiting c s = process_waiting c (s'\<lparr>waiting := waiting_buffer_next w'\<rparr>)"
    using front(3) assms(1) by (simp add: process_waiting.simps [of c s] f pop_front_def)
  moreover have "waiting_wf (waiting_buffer_next w')"
    using wf by (simp add: waiting_wf_def waiting_buffer_next_def WAITING_BUFFER_SIZE_def)
  ultimately show ?thesis using that next_eq by blast
qed

lemma typed_content:
  assumes "waiting_wf w"
  shows "waiting_buffer_typed e w \<longleftrightarrow>
    (\<exists>b \<in> event ` set (waiting_content w). key e = key b \<and> pressed e \<noteq> pressed b)"
  using assms by (auto simp: waiting_buffer_typed_def list_ex_iff Let_def waiting_content_def ring_list_def
      waiting_indices_def waiting_wf_def)

text \<open>
  The state while the tapping key \<open>k\<close>, pressed at \<open>t\<close>, is undecided and has been interrupted.
\<close>

definition interrupted_record :: "keypos_t \<Rightarrow> u16 \<Rightarrow> keyrecord_t" where
  "interrupted_record k t = (key_record k True t 0)\<lparr>tap_interrupted := True\<rparr>"

lemma undecided_press:
  assumes key: "tapping_key s = key_record k True t 0 \<or> tapping_key s = interrupted_record k t"
    and real: "real_event k t" "real_event j u" and within: "u - t < g_tapping_term s"
    and other: "\<not> HOLD_ON_OTHER_KEY_PRESS c"
  shows "process_tapping c (key_record j True u 0) s =
    (False, key_record j True u 0, s\<lparr>tapping_key := interrupted_record k t\<rparr>)"
proof -
  have "\<not> permissive_hold c (key_record j True u 0) s" "\<not> IS_RELEASED (event (key_record j True u 0))"
    by (simp_all add: permissive_hold_def IS_RELEASED_def)
  moreover have "IS_TAPPING_PRESSED s" "tap_count (tapping_key s) = 0"
    "WITHIN_TAPPING_TERM \<lparr>key = j, pressed = True, time = u\<rparr> s"
    "(tapping_key s)\<lparr>tap_interrupted := True\<rparr> = interrupted_record k t"
    using key real within
    by (auto simp: IS_TAPPING_PRESSED_def IS_TAPPING_def WITHIN_TAPPING_TERM_def TIMER_DIFF_16_def
        interrupted_record_def key_record_def)
  ultimately show ?thesis using other
    by (simp add: process_tapping_def tapping_undecided_def)
qed

text \<open>
  C6. With \<^verbatim>\<open>PERMISSIVE_HOLD\<close>, a key that is pressed and released within the tapping term of a
  tap-or-hold key decides for the hold at once: first the tapping key is processed as held, then the
  press and the release of the other key, in this order, and nothing is left waiting.
\<close>

theorem permissive_hold_nested:
  assumes "idle s" and "PERMISSIVE_HOLD c" and "\<not> HOLD_ON_OTHER_KEY_PRESS c" and "\<not> SWAP_HANDS_ENABLE c"
    and "real_event k t" and "real_event j t1" and "real_event j t2" and "j \<noteq> k"
    and "t1 - t < g_tapping_term s" and "t2 - t < g_tapping_term s"
    and "is_tap_record c (key_record k True t 0) (act s)"
    and "held_act = snd (process_record c (interrupted_record k t) (act s))"
    and "\<not> is_tap_record c (key_record j True t1 0) held_act"
  shows "let s' = action_tapping_process c (key_record j False t2 0)
                    (action_tapping_process c (key_record j True t1 0)
                      (action_tapping_process c (key_record k True t 0) s))
    in act s' = snd (process_record c (key_record j False t2 0)
                  (snd (process_record c (key_record j True t1 0) held_act))) \<and>
       waiting_content (waiting s') = []"
proof -
  let ?T = "key_record k True t 0" and ?A = "key_record j True t1 0" and ?B = "key_record j False t2 0"
  define s1 where "s1 = s\<lparr>tapping_key := ?T\<rparr>"
  have step1: "action_tapping_process c ?T s = s1"
    using assms(1,4,11) by (simp add: press_tap_key s1_def)
  have w: "waiting_wf (waiting s)" "waiting_content (waiting s) = []" using assms(1) by (simp_all add: idle_def)
  define s2 where "s2 = s\<lparr>tapping_key := interrupted_record k t, waiting := snd (waiting_buffer_put ?A (waiting s))\<rparr>"
  note put1 = put_empty [OF w, of ?A]
  have w2: "waiting_wf (waiting s2)" "waiting_content (waiting s2) = [?A]"
    using put1 by (simp_all add: s2_def)
  have "process_tapping c ?A s1 = (False, ?A, s1\<lparr>tapping_key := interrupted_record k t\<rparr>)"
    using assms by (intro undecided_press) (simp_all add: s1_def)
  moreover have "process_tapping c ?A s2 = (False, ?A, s2)"
  proof -
    have "process_tapping c ?A s2 = (False, ?A, s2\<lparr>tapping_key := interrupted_record k t\<rparr>)"
      using assms by (intro undecided_press) (simp_all add: s2_def)
    then show ?thesis by (simp add: s2_def)
  qed
  then have "process_waiting c s2 = s2" using w2 by (intro process_waiting_declined) simp_all
  ultimately have step2: "action_tapping_process c ?A s1 = s2"
    using put1(1) assms(6) by (cases "waiting_buffer_put ?A (waiting s)")
      (simp add: action_tapping_process_def waiting_buffer_enq_def s1_def s2_def)
  obtain r0 where hold: "process_record c (interrupted_record k t) (act s) = (r0, held_act)"
    using assms(12) by (metis prod.collapse)
  define s3 where "s3 = s2\<lparr>act := held_act, tapping_key := empty_record\<rparr>"
  have "waiting_buffer_typed (event ?B) (waiting s2)"
    using w2 by (simp add: typed_content)
  then have perm: "permissive_hold c ?B s2"
    using assms(2,7) by (simp add: permissive_hold_def IS_RELEASED_def)
  have p3: "process_tapping c ?B s2 = (False, ?B, s3)"
  proof -
    have "IS_TAPPING_PRESSED s2" "tap_count (tapping_key s2) = 0" "\<not> IS_TAPPING_RECORD ?B s2"
      "WITHIN_TAPPING_TERM (event ?B) s2"
      using assms by (simp_all add: IS_TAPPING_PRESSED_def IS_TAPPING_def WITHIN_TAPPING_TERM_def
          TIMER_DIFF_16_def IS_TAPPING_RECORD_def s2_def interrupted_record_def)
    moreover have "end_as_hold c s2 = s3"
      using hold by (simp add: end_as_hold_def run_tapping_key_def run_record_def s3_def s2_def)
    ultimately show ?thesis using perm by (simp add: process_tapping_def tapping_undecided_def)
  qed
  define s4 where "s4 = s3\<lparr>waiting := snd (waiting_buffer_put ?B (waiting s3))\<rparr>"
  have room: "length (waiting_content (waiting s3)) < WAITING_BUFFER_SIZE - 1"
    using w2 by (simp add: s3_def WAITING_BUFFER_SIZE_def)
  have w4: "fst (waiting_buffer_put ?B (waiting s3))" "waiting_wf (waiting s4)"
    "waiting_content (waiting s4) = [?A, ?B]"
    using wq.enq_room [OF _ room, of ?B] wq.wf_enq [of "waiting s3" ?B] w2 by (simp_all add: s4_def s3_def)
  obtain r1 a1 where a1: "process_record c ?A held_act = (r1, a1)" by fastforce
  obtain r2 a2 where a2: "process_record c ?B a1 = (r2, a2)" by fastforce
  have key: "tapping_key s4 = empty_record" "act s4 = held_act" by (simp_all add: s4_def s3_def)
  have pA: "process_tapping c ?A s4 = (True, r1, s4\<lparr>act := a1\<rparr>)"
    using not_tapping_empty [OF key(1)] a1 assms(13)
    by (simp add: process_tapping_def not_tapping_def run_record_def key(2))
  obtain v where v: "waiting_wf v" "waiting_content v = [?B]"
    "process_waiting c s4 = process_waiting c (s4\<lparr>act := a1, waiting := v\<rparr>)"
    using process_waiting_consumed [OF w4(2,3) pA] by auto
  have pB: "process_tapping c ?B (s4\<lparr>act := a1, waiting := v\<rparr>) = (True, r2, s4\<lparr>act := a2, waiting := v\<rparr>)"
    using not_tapping_empty [of "s4\<lparr>act := a1, waiting := v\<rparr>"] key(1) a2
    by (simp add: process_tapping_def not_tapping_def run_record_def)
  note single = process_waiting_single [OF _ _ pB]
  have "action_tapping_process c ?B s2 = process_waiting c s4"
    using w4(1) assms(7) p3 by (cases "waiting_buffer_put ?B (waiting s3)")
      (simp add: action_tapping_process_def waiting_buffer_enq_def s4_def)
  then show ?thesis
    using single v by (simp add: step1 step2 a1 a2 Let_def)
qed

section \<open>A mod-tap key\<close>

text \<open>What a tap and a hold of the action \<open>a\<close> do, by the tap count of their records.\<close>

definition mod_tap_down :: "'s config \<Rightarrow> action_t \<Rightarrow> bool \<Rightarrow> 'a util_st_scheme \<Rightarrow> 'a util_st_scheme" where
  "mod_tap_down c a tapped s =
     (if tapped then register_code c (key_code a) s else register_mods c (action_mods a) s)"

definition mod_tap_up :: "'s config \<Rightarrow> action_t \<Rightarrow> bool \<Rightarrow> 'a util_st_scheme \<Rightarrow> 'a util_st_scheme" where
  "mod_tap_up c a tapped s =
     (if tapped then unregister_code c (key_code a) (wait_ms (tap_delay c (key_code a)) s)
      else unregister_mods c (action_mods a) s)"

definition is_mod_tap :: "action_t \<Rightarrow> bool" where
  "is_mod_tap a \<longleftrightarrow> (kind_id a = ACT_LMODS_TAP \<or> kind_id a = ACT_RMODS_TAP) \<and>
     1 < key_code a \<and> key_code a \<le> KC_RIGHT_GUI"

lemma is_mod_tap_simps:
  assumes "is_mod_tap a"
  shows "layer_tap_code a \<noteq> MODS_ONESHOT" "layer_tap_code a \<noteq> MODS_TAP_TOGGLE" "\<not> is_layer_action a"
    "is_tap_action a" "layer_tap_code a = key_code a"
  using assms
  by (auto simp: is_mod_tap_def is_layer_action_def is_tap_action_def Let_def
      layer_tap_code_def key_code_def)

lemma mod_tap_press_record:
  assumes "plain_build c" "real_event k t" "\<not> is_oneshot_layer_active s" "caching c s"
    and a: "layer_switch_get_action c k s = a" "is_mod_tap a"
  shows "process_record c (key_record k True t n) s =
    (key_record k True t n, mod_tap_down c a (n \<noteq> 0) (remember_layer c k s))"
proof (rule plain_process_record [OF assms(1) _ assms(3)])
  show "record_action c (key_record k True t n) s = (a, remember_layer c k s)"
    using assms(4) a by (simp add: record_action_press)
  show "action_switch c a (key_record k True t n) False (remember_layer c k s) =
    (key_record k True t n, False, mod_tap_down c a (n \<noteq> 0) (remember_layer c k s))"
    using is_mod_tap_simps [OF a(2)] a(2)
    by (auto simp: action_switch_def is_mod_tap_def Let_def act_mods_tap_def mod_tap_press_def
        mod_tap_down_def)
qed (use assms is_mod_tap_simps [OF a(2)] in simp_all)

lemma mod_tap_release_record:
  assumes "plain_build c" "real_event k t" "\<not> is_oneshot_layer_active s" "caching c s"
    and a: "action_for_key c (keymap_config s) (read_source_layers_cache c k (source_layers_cache s)) k = a"
      "is_mod_tap a"
  shows "process_record c (key_record k False t n) s =
    (key_record k False t n, mod_tap_up c a (n \<noteq> 0) s)"
proof (rule plain_process_record [OF assms(1) _ assms(3)])
  show "record_action c (key_record k False t n) s = (a, s)"
    using assms(4) a by (simp add: record_action_release)
  show "action_switch c a (key_record k False t n) False s =
    (key_record k False t n, False, mod_tap_up c a (n \<noteq> 0) s)"
    using is_mod_tap_simps [OF a(2)] a(2)
    by (auto simp: action_switch_def is_mod_tap_def Let_def act_mods_tap_def mod_tap_release_def
        mod_tap_up_def)
qed (use assms is_mod_tap_simps [OF a(2)] in simp_all)

lemma mod_tap_down_frame [simp]:
  "util_st.more (mod_tap_down c a b s) = util_st.more s"
  "oneshot_layer_data (mod_tap_down c a b s) = oneshot_layer_data s"
  "keymap_config (mod_tap_down c a b s) = keymap_config s"
  by (simp_all add: mod_tap_down_def)

text \<open>
  C5. A mod-tap key pressed at time \<open>t\<close> and released at \<open>t'\<close>, with nothing in between: if the release
  comes within the tapping term, its keycode is registered and unregistered, and otherwise its
  modifiers are, whatever the layers.
\<close>

theorem mod_tap_sends_key_or_mods:
  assumes "plain_build c" and "idle s" and "real_event k t" and "real_event k t'"
    and "\<not> is_oneshot_layer_active (act s)" and "caching c (act s)" and "matrix_key c k"
    and "layer_switch_get_action c k (act s) = a" and "is_mod_tap a"
  shows "let tapped = (t' - t < g_tapping_term s);
             s' = action_tapping_process c (key_record k False t' 0)
                    (action_tapping_process c (key_record k True t 0) s)
         in act s' = mod_tap_up c a tapped (mod_tap_down c a tapped (remember_layer c k (act s)))"
proof -
  define u where "u = (\<lambda>b. mod_tap_down c a b (remember_layer c k (act s)))"
  note press = mod_tap_press_record [OF assms(1,3,5,6,8,9)]
  have u: "\<not> is_oneshot_layer_active (u b)" "caching c (u b)"
    "action_for_key c (keymap_config (u b)) (read_source_layers_cache c k (source_layers_cache (u b))) k = a" for b
  proof -
    have more: "util_st.more (u b) = util_st.more (remember_layer c k (act s))" by (simp add: u_def)
    show "\<not> is_oneshot_layer_active (u b)"
      using assms(5) by (simp add: u_def is_oneshot_layer_active_def get_oneshot_layer_state_def)
    show "caching c (u b)"
      unfolding caching_of_more [OF more] by (rule remember_layer_simps(1) [OF assms(6,7)])
    show "action_for_key c (keymap_config (u b)) (read_source_layers_cache c k (source_layers_cache (u b))) k = a"
      using layer_fields_of_more(3) [OF more] remember_layer_simps(2) [OF assms(6,7,7)] assms(8)
      by (simp add: u_def layer_switch_get_action_def)
  qed
  note release = mod_tap_release_record [OF assms(1,4) u assms(9)]
  have "is_tap_record c (key_record k True t 0) (act s)"
    using is_mod_tap_simps(4) [OF assms(9)] assms(8) by (simp add: is_tap_record_def)
  moreover have "\<not> SWAP_HANDS_ENABLE c" using assms(1) by (simp add: plain_build_def)
  ultimately show ?thesis
    using tap_or_hold [OF assms(2,3,4)] press release
    by (auto simp: Let_def tap_decision_def u_def)
qed

text \<open>The state at power-on.\<close>

definition tapping_init :: "'s config \<Rightarrow> unit tapping_st" where
  "tapping_init c =
     \<lparr>act = action_init c, tapping_key = empty_record, waiting = waiting_init,
      g_tapping_term = of_nat (TAPPING_TERM c)\<rparr>"

lemma waiting_init_simps [simp]: "waiting_wf waiting_init" "waiting_content waiting_init = []"
  by (simp_all add: waiting_wf_def waiting_content_def waiting_init_def WAITING_BUFFER_SIZE_def
      ring_list_def ring_count_def)

lemma tapping_init_simps [simp]:
  "idle (tapping_init c)" "act (tapping_init c) = action_init c"
  by (simp_all add: tapping_init_def idle_def IS_TAPPING_def empty_record_def)

lemma caching_init [simp]: "\<not> STRICT_LAYER_RELEASE c \<Longrightarrow> caching c (action_init c)"
  by (simp add: caching_def cache_wf_def action_init_def layer_init_def layer_st.defs)

lemma oneshot_init [simp]: "\<not> is_oneshot_layer_active (action_init c)"
  by (simp add: is_oneshot_layer_active_def get_oneshot_layer_state_def)

theorem mod_tap_sends_key_or_mods_witness:
  "let c = default_config (\<lambda>_ _. 0x6204); k = \<lparr>col = 0, row = 0\<rparr>;
       s' = action_tapping_process c (key_record k False 60 0)
              (action_tapping_process c (key_record k True 10 0) (tapping_init c))
   in act s' = mod_tap_up c 0x2204 True (mod_tap_down c 0x2204 True (remember_layer c k (action_init c)))"
proof -
  define c :: "action_st config" where "c = default_config (\<lambda>_ _. 0x6204)"
  define k :: keypos_t where "k = \<lparr>col = 0, row = 0\<rparr>"
  have cfg: "mod_config (keymap_config_of_raw 0) m = m" "keycode_config (keymap_config_of_raw 0) x = x" for m x
    by (simp_all add: mod_config_def mod_config_swaps_def keycode_config_def keymap_config_of_raw_def)
  have "action_for_keycode c (keymap_config_of_raw 0) 0x6204 = 0x2204"
    by (simp add: action_for_keycode_def cfg between_def ACTION_MODS_TAP_KEY_def ACTION_def)
  then have a: "layer_switch_get_action c k (action_init c) = 0x2204"
    by (simp add: layer_switch_get_action_def action_for_key_def c_def)
  have "is_mod_tap 0x2204" by (simp add: is_mod_tap_def word_unat_eq_iff word_less_nat_alt word_le_nat_alt
      unat_kind_id key_code_def field_unat)
  moreover have "plain_build c" "matrix_key c k" "real_event k 10" "real_event k 60"
    by (simp_all add: plain_build_def c_def matrix_key_def k_def real_event_def)
  moreover have "(60 :: u16) - 10 < g_tapping_term (tapping_init c)"
    by (simp add: tapping_init_def c_def)
  ultimately show ?thesis
    using mod_tap_sends_key_or_mods [of c "tapping_init c" k 10 60 "0x2204"] a
    by (simp add: Let_def c_def k_def)
qed

lemma ready_init [simp]: "ready (action_init c)"
  by (auto simp: ready_def action_init_def layer_init_def layer_st.defs util_wf_def synced_def nkro_def
      keymap_config_of_raw_def keys_distinct_def slot_empty)

lemma unremapped [simp]:
  "mod_config (keymap_config_of_raw 0) m = m" "keycode_config (keymap_config_of_raw 0) x = x"
  by (simp_all add: mod_config_def mod_config_swaps_def keycode_config_def keymap_config_of_raw_def)

lemma mod_tap_hold_record:
  assumes "plain_build c" "real_event k t" "\<not> is_oneshot_layer_active s" "caching c s"
    and a: "layer_switch_get_action c k s = a" "is_mod_tap a"
  shows "process_record c (interrupted_record k t) s =
    (interrupted_record k t, register_mods c (action_mods a) (remember_layer c k s))"
proof (rule plain_process_record [OF assms(1) _ assms(3)])
  show "record_action c (interrupted_record k t) s = (a, remember_layer c k s)"
    using assms(4) a by (simp add: record_action_press interrupted_record_def)
  show "action_switch c a (interrupted_record k t) False (remember_layer c k s) =
    (interrupted_record k t, False, register_mods c (action_mods a) (remember_layer c k s))"
    using is_mod_tap_simps [OF a(2)] a(2)
    by (auto simp: action_switch_def is_mod_tap_def Let_def act_mods_tap_def mod_tap_press_def
        interrupted_record_def)
qed (use assms is_mod_tap_simps [OF a(2)] in \<open>simp_all add: interrupted_record_def\<close>)

text \<open>A keymap for the witnesses: a left shift that taps A in the first column, and B elsewhere.\<close>

definition demo_config :: "action_st config" where
  "demo_config = (default_config (\<lambda>_ p. if col p = 0 then 0x6204 else KC_B))\<lparr>PERMISSIVE_HOLD := True\<rparr>"

lemma demo_action:
  "action_for_key demo_config (keymap_config_of_raw 0) l p = (if col p = 0 then 0x2204 else KC_B)"
  by (simp add: action_for_key_def action_for_keycode_def between_def ACTION_KEY_def ACTION_def
      ACTION_MODS_TAP_KEY_def demo_config_def)

lemma demo_actions: "is_mod_tap 0x2204" "is_tap_action 0x2204" "\<not> is_tap_action KC_B"
  by (simp_all add: is_mod_tap_def is_tap_action_def word_unat_eq_iff word_less_nat_alt word_le_nat_alt
      unat_kind_id key_code_def layer_tap_code_def field_unat)

lemma demo_config_simps [simp]:
  "PERMISSIVE_HOLD demo_config" "\<not> HOLD_ON_OTHER_KEY_PRESS demo_config"
  "\<not> SWAP_HANDS_ENABLE demo_config" "\<not> STRICT_LAYER_RELEASE demo_config"
  "TAPPING_TERM demo_config = 200" "plain_build demo_config"
  by (simp_all add: demo_config_def plain_build_def)

lemma layer_switch_action:
  "keymap_config s = keymap_config_of_raw 0 \<Longrightarrow>
   layer_switch_get_action demo_config k s = (if col k = 0 then 0x2204 else KC_B)"
  by (simp add: layer_switch_get_action_def demo_action)

theorem permissive_hold_nested_witness:
  "let k = \<lparr>col = 0, row = 0\<rparr>; j = \<lparr>col = 1, row = 0\<rparr>;
       h = register_mods demo_config (action_mods 0x2204) (remember_layer demo_config k (action_init demo_config));
       s' = action_tapping_process demo_config (key_record j False 30 0)
              (action_tapping_process demo_config (key_record j True 20 0)
                (action_tapping_process demo_config (key_record k True 10 0) (tapping_init demo_config)))
   in act s' = snd (process_record demo_config (key_record j False 30 0)
                 (snd (process_record demo_config (key_record j True 20 0) h)))"
proof -
  let ?k = "\<lparr>col = 0, row = 0\<rparr> :: keypos_t" and ?j = "\<lparr>col = 1, row = 0\<rparr> :: keypos_t"
  define h where "h = register_mods demo_config (action_mods 0x2204)
    (remember_layer demo_config ?k (action_init demo_config))"
  have "process_record demo_config (interrupted_record ?k 10) (action_init demo_config) =
      (interrupted_record ?k 10, h)"
    unfolding h_def
    by (rule mod_tap_hold_record) (simp_all add: real_event_def layer_switch_action demo_actions)
  moreover have "keymap_config h = keymap_config_of_raw 0" by (simp add: h_def)
  moreover have "(20 :: u16) - 10 < g_tapping_term (tapping_init demo_config)"
    "(30 :: u16) - 10 < g_tapping_term (tapping_init demo_config)"
    by (simp_all add: tapping_init_def)
  ultimately show ?thesis
    using permissive_hold_nested [of "tapping_init demo_config" demo_config ?k 10 ?j 20 30 h]
    by (simp add: Let_def h_def real_event_def is_tap_record_def layer_switch_action demo_actions)
qed

text \<open>Seven presses are waiting for the decision on the first key when an eighth comes.\<close>

theorem waiting_overflow_clears_witness:
  "\<exists>s r. waiting_wf (waiting s) \<and> length (waiting_content (waiting s)) = 7 \<and>
     real_mods (act s) = 1 \<and> real_mods (act (action_tapping_process demo_config r s)) = 0"
proof -
  let ?k = "\<lparr>col = 0, row = 0\<rparr> :: keypos_t" and ?j = "\<lparr>col = 1, row = 0\<rparr> :: keypos_t"
  define w where "w = \<lparr>waiting_buffer = replicate 8 (key_record ?j True 20 0),
    waiting_buffer_head = 7, waiting_buffer_tail = 0\<rparr>"
  define s where "s = (tapping_init demo_config)\<lparr>act := (action_init demo_config)\<lparr>real_mods := 1\<rparr>,
    tapping_key := key_record ?k True 10 0, waiting := w\<rparr>"
  have w: "waiting_wf (waiting s)" "length (waiting_content (waiting s)) = 7"
    by (simp_all add: s_def w_def waiting_wf_def WAITING_BUFFER_SIZE_def waiting_content_def ring_count_def)
  have p: "process_tapping demo_config (key_record ?j True 20 0) s =
      (False, key_record ?j True 20 0, s\<lparr>tapping_key := interrupted_record ?k 10\<rparr>)"
    by (rule undecided_press) (simp_all add: s_def real_event_def tapping_init_def)
  have "util_wf (act s)"
    using ready_init [of demo_config] by (simp add: s_def ready_def util_wf_def nkro_def)
  then have "real_mods (act (action_tapping_process demo_config (key_record ?j True 20 0) s)) = 0"
    using waiting_overflow_clears [OF w p] by (simp add: Let_def real_event_def)
  then show ?thesis using w by (intro exI [of _ s] exI [of _ "key_record ?j True 20 0"]) (simp add: s_def)
qed

section \<open>Typing\<close>

text \<open>
  A keyboard whose keys, with the layers as they are, are all plain keys or modifiers.
\<close>

definition basic_action :: "action_t \<Rightarrow> bool" where
  "basic_action a \<longleftrightarrow> kind_id a = ACT_LMODS \<and> key_mods a = 0"

definition cached_action :: "'s config \<Rightarrow> keypos_t \<Rightarrow> 'a layer_st_scheme \<Rightarrow> action_t" where
  "cached_action c k s =
     action_for_key c (keymap_config s) (read_source_layers_cache c k (source_layers_cache s)) k"

definition typing :: "'s config \<Rightarrow> 'a action_st_scheme \<Rightarrow> bool" where
  "typing c s \<longleftrightarrow> ready s \<and> caching c s \<and> \<not> is_oneshot_layer_active s \<and>
     (\<forall>k. matrix_key c k \<longrightarrow> cached_action c k s = layer_switch_get_action c k s \<and>
        basic_action (layer_switch_get_action c k s))"

definition typing_build :: "'a action_st_scheme config \<Rightarrow> bool" where
  "typing_build c \<longleftrightarrow> plain_build c \<and> pre_process_record_quantum c = (\<lambda>_ s. (True, s)) \<and>
     ONESHOT_TIMEOUT c = 0 \<and> \<not> LOCKING_SUPPORT_ENABLE c"

definition key_call :: "'s config \<Rightarrow> 'a layer_st_scheme \<Rightarrow> keyevent_t \<Rightarrow> code_call" where
  "key_call c s e =
     (let code = key_code (layer_switch_get_action c (key e) s)
      in if pressed e then Register code else Unregister code)"

lemma basic_action_simps:
  assumes "basic_action a"
  shows "\<not> is_tap_action a" "\<not> is_layer_action a"
    "act_mods c a True s = register_code c (key_code a) s"
    "act_mods c a False s = unregister_code c (key_code a) s"
  using assms by (auto simp: basic_action_def is_tap_action_def is_layer_action_def act_mods_def
      action_mods_def mods_key_press_def mods_key_release_def)

text \<open>What the layers decide depends on fields that typing keeps.\<close>

lemma layer_switch_of_fields:
  assumes "layer_state s = layer_state t" "default_layer_state s = default_layer_state t"
    "keymap_config s = keymap_config t"
  shows "layer_switch_get_action c k s = layer_switch_get_action c k t"
  using assms by (simp add: layer_switch_get_action_def layer_switch_get_layer_def)

lemma typing_of_fields:
  assumes "typing c s" "util_st.more t = util_st.more s" "keymap_config t = keymap_config s"
    "oneshot_layer_data t = oneshot_layer_data s" "ready t"
  shows "typing c t" "layer_switch_get_action c k t = layer_switch_get_action c k s"
proof -
  note more = layer_fields_of_more [OF assms(2)]
  have ls: "layer_switch_get_action c k t = layer_switch_get_action c k s" for k
    using more assms(3) by (intro layer_switch_of_fields) simp_all
  have ca: "cached_action c k t = cached_action c k s" for k
    using more assms(3) by (simp add: cached_action_def)
  have "caching c t" using assms(1) caching_of_more [OF assms(2), of c] by (simp add: typing_def)
  moreover have "\<not> is_oneshot_layer_active t"
    using assms(1,4) by (simp add: typing_def is_oneshot_layer_active_def get_oneshot_layer_state_def)
  ultimately show "typing c t" using assms(1,5) by (simp add: typing_def ls ca)
  show "layer_switch_get_action c k t = layer_switch_get_action c k s" by (rule ls)
qed

lemma ready_of_fields:
  assumes "ready s" "host_driver t = host_driver s" "keyboard_report t = keyboard_report s"
    "nkro t = nkro s" "effects t = effects s"
  shows "ready t"
  using assms by (simp add: ready_def util_wf_def synced_def util_held_def split: option.splits)

lemma ready_clear_weak:
  assumes "ready s"
  shows "ready (clear_weak_mods s)" "keyboard_view (clear_weak_mods s) = keyboard_view s"
    "nkro (clear_weak_mods s) = nkro s" "util_st.more (clear_weak_mods s) = util_st.more s"
    "keymap_config (clear_weak_mods s) = keymap_config s"
    "oneshot_layer_data (clear_weak_mods s) = oneshot_layer_data s"
  by (rule ready_of_fields [OF assms])
    (simp_all add: clear_weak_mods_def nkro_def keyboard_view_def util_held_def)

lemma ready_remember:
  assumes "ready s"
  shows "ready (remember_layer c k s)" "keyboard_view (remember_layer c k s) = keyboard_view s"
    "nkro (remember_layer c k s) = nkro s"
  by (rule ready_of_fields [OF assms])
    (simp_all add: remember_layer_def nkro_def keyboard_view_def util_held_def)

lemma typing_remember:
  assumes "typing c s" "matrix_key c k"
  shows "typing c (remember_layer c k s)"
    "layer_switch_get_action c j (remember_layer c k s) = layer_switch_get_action c j s"
proof -
  have c: "caching c s" and r: "ready s" using assms(1) by (simp_all add: typing_def)
  have ls: "layer_switch_get_action c j (remember_layer c k s) = layer_switch_get_action c j s" for j
    by (intro layer_switch_of_fields) simp_all
  have ca: "cached_action c j (remember_layer c k s) =
      (if j = k then layer_switch_get_action c k s else cached_action c j s)" if "matrix_key c j" for j
    using remember_layer_simps(2) [OF c assms(2) that]
    by (simp add: cached_action_def layer_switch_get_action_def)
  show "typing c (remember_layer c k s)"
    using assms(1) remember_layer_simps(1) [OF c assms(2)] ready_remember(1) [OF r]
    by (auto simp: typing_def ls ca is_oneshot_layer_active_def get_oneshot_layer_state_def)
  show "layer_switch_get_action c j (remember_layer c k s) = layer_switch_get_action c j s" by (rule ls)
qed

lemma typing_record:
  assumes "typing_build c" "typing c s" "matrix_key c k" "real_event k t"
  shows "process_record c (key_record k p t 0) s =
    (key_record k p t 0,
     code_step c (if p then remember_layer c k s else s) (key_call c s \<lparr>key = k, pressed = p, time = t\<rparr>))"
proof -
  have plain: "plain_build c" using assms(1) by (simp add: typing_build_def)
  have c: "caching c s" and osl: "\<not> is_oneshot_layer_active s"
    and basic: "basic_action (layer_switch_get_action c k s)"
    and ca: "cached_action c k s = layer_switch_get_action c k s"
    using assms(2,3) by (simp_all add: typing_def)
  note b = basic_action_simps [OF basic]
  have rec: "record_action c (key_record k p t 0) s =
      (layer_switch_get_action c k s, if p then remember_layer c k s else s)"
    using record_action_press [OF c] record_action_release [OF c] ca
    by (cases p) (simp_all add: cached_action_def)
  show ?thesis
  proof (rule plain_process_record [OF plain _ osl rec])
    show "action_switch c (layer_switch_get_action c k s) (key_record k p t 0) False
        (if p then remember_layer c k s else s) =
      (key_record k p t 0, False,
       code_step c (if p then remember_layer c k s else s) (key_call c s \<lparr>key = k, pressed = p, time = t\<rparr>))"
      using basic by (simp add: action_switch_def Let_def basic_action_def key_call_def code_step_def
          basic_action_simps(3,4) [OF basic])
  qed (use assms b in simp_all)
qed

lemma code_step_fields:
  "util_st.more (code_step c s e) = util_st.more s" "keymap_config (code_step c s e) = keymap_config s"
  "oneshot_layer_data (code_step c s e) = oneshot_layer_data s"
  by (cases e; simp add: code_step_def)+

lemma typing_exec:
  assumes build: "typing_build c" and idle: "idle s" and ty: "typing c (act s)"
    and k: "matrix_key c (key e)" "real_event (key e) (time e)"
  shows "idle (action_exec c e s)" "typing c (act (action_exec c e s))"
    "keyboard_view (act (action_exec c e s)) =
       keyboard_step (nkro (act s)) (keyboard_view (act s)) (key_call c (act s) e)"
    "nkro (act (action_exec c e s)) = nkro (act s)"
    "key_call c (act (action_exec c e s)) = key_call c (act s)"
proof -
  obtain pos p t where e: "e = \<lparr>key = pos, pressed = p, time = t\<rparr>" by (cases e)
  have pos: "matrix_key c pos" "real_event pos t" using k by (simp_all add: e)
  define a where "a = (if p then clear_weak_mods (act s) else act s)"
  have ra: "ready (act s)" using ty by (simp add: typing_def)
  have a: "typing c a" "layer_switch_get_action c j a = layer_switch_get_action c j (act s)"
    "keyboard_view a = keyboard_view (act s)" "nkro a = nkro (act s)" for j
    using ready_clear_weak [OF ra] ty
      typing_of_fields [OF ty, of "clear_weak_mods (act s)"] by (simp_all add: a_def)
  define b where "b = (if p then remember_layer c pos a else a)"
  have rb: "ready a" using a(1) by (simp add: typing_def)
  have b: "typing c b" "layer_switch_get_action c j b = layer_switch_get_action c j (act s)"
    "keyboard_view b = keyboard_view (act s)" "nkro b = nkro (act s)" for j
    using typing_remember [OF a(1) pos(1)] a by (simp_all add: b_def ready_remember [OF rb])
  define t' where "t' = code_step c b (key_call c a e)"
  have run: "process_record c (key_record pos p t 0) a = (key_record pos p t 0, t')"
    using typing_record [OF build a(1) pos] by (simp add: t'_def b_def e)
  have nt: "\<not> is_tap_record c (key_record pos p t 0) a"
    using a(1) pos(1) by (simp add: is_tap_record_def typing_def basic_action_simps)
  have proc: "process_tapping c (key_record pos p t 0) (s\<lparr>act := a\<rparr>) = (True, key_record pos p t 0, s\<lparr>act := t'\<rparr>)"
    using idle nt run
    by (simp add: process_tapping_def IS_TAPPING_PRESSED_def IS_TAPPING_RELEASED_def IS_TAPPING_def
        idle_def not_tapping_def run_record_def)
  have exec: "action_exec c e s = s\<lparr>act := t'\<rparr>"
  proof -
    have "action_exec c e s = action_tapping_process c (key_record pos p t 0) (s\<lparr>act := a\<rparr>)"
      using build pos(2) by (simp add: action_exec_def e typing_build_def plain_build_def a_def
          oneshot_timeouts_def key_record_def Let_def)
    also have "\<dots> = s\<lparr>act := t'\<rparr>"
      using idle by (simp add: action_tapping_process_once [OF proc] idle_def)
    finally show ?thesis .
  qed
  have call: "key_call c a = key_call c (act s)" by (rule ext) (simp add: key_call_def a(2))
  have "ready b" using b(1) by (simp add: typing_def)
  then have sim: "ready t'" "keyboard_view t' = keyboard_step (nkro b) (keyboard_view b) (key_call c a e)"
    using code_step_simulates [of b c "key_call c a e"] build by (simp_all add: t'_def typing_build_def)
  have ty': "typing c t'" "layer_switch_get_action c j t' = layer_switch_get_action c j (act s)" for j
    using typing_of_fields [OF b(1) _ _ _ sim(1)] b(2) by (simp_all add: t'_def code_step_fields)
  show "idle (action_exec c e s)" using idle by (simp add: exec idle_def IS_TAPPING_def)
  show "typing c (act (action_exec c e s))" using ty'(1) by (simp add: exec)
  show "keyboard_view (act (action_exec c e s)) =
       keyboard_step (nkro (act s)) (keyboard_view (act s)) (key_call c (act s) e)"
    using sim(2) by (simp add: exec b call)
  show "nkro (act (action_exec c e s)) = nkro (act s)" by (simp add: exec t'_def b)
  show "key_call c (act (action_exec c e s)) = key_call c (act s)"
    by (rule ext) (simp add: exec key_call_def ty'(2))
qed

lemma typing_execs:
  "typing_build c \<Longrightarrow> idle s \<Longrightarrow> typing c (act s) \<Longrightarrow>
   list_all (\<lambda>e. matrix_key c (key e) \<and> real_event (key e) (time e)) es \<Longrightarrow>
   typing c (act (fold (action_exec c) es s)) \<and>
   keyboard_view (act (fold (action_exec c) es s)) =
     foldl (keyboard_step (nkro (act s))) (keyboard_view (act s)) (map (key_call c (act s)) es)"
  by (induction es arbitrary: s) (simp_all add: typing_exec)


lemma cached_layer_init:
  assumes "matrix_key c k"
  shows "read_source_layers_cache c k (source_layers_cache (action_init c)) = 0"
proof (rule bit_word_eqI)
  fix n
  have "key_number c k div 8 < (MATRIX_ROWS c * MATRIX_COLS c + 7) div 8"
    using matrix_key_number(2) [OF assms] by simp
  then show "bit (read_source_layers_cache c k (source_layers_cache (action_init c))) n = bit 0 n"
    by (auto simp: bit_read_cache action_init_def layer_init_def layer_st.defs MAX_LAYER_BITS_def)
qed

lemma switch_from_one_layer: "n > 0 \<Longrightarrow> switch_from c cfg 1 k n = 0"
proof (induction n)
  case (Suc n)
  have "\<not> bit (1 :: u32) n" if "0 < n" using that by (simp add: bit_1_iff)
  with Suc show ?case by (cases n) (auto simp: and_bitmask_eq_0)
qed simp

lemma layer_switch_init: "layer_switch_get_layer c k (action_init c) = 0"
  by (simp add: layer_switch_get_layer_def MAX_LAYER_def switch_from_one_layer del: switch_from.simps)


end
