(* ===== verification/Switches_To_Host.thy ===== *)
theory Switches_To_Host
  imports Keyboard Action_Tapping
begin

text \<open>
  The components together, from the matrix to the report: the tasks of \<open>Keyboard\<close> execute their events
  with \<^verbatim>\<open>action_exec\<close> on a keyboard whose keys are plain keys and modifiers, in a build with a report for
  any number of keys.
\<close>

section \<open>Pseudo events of an idle keyboard\<close>

lemma tick_idle:
  assumes "typing_build c" "idle s"
  shows "action_exec c (tick_event n) s = s"
proof -
  have pr: "process_record c \<lparr>event = tick_event n, tap_interrupted = False, tap_count = 0, rec_keycode = 0\<rparr> a =
      (\<lparr>event = tick_event n, tap_interrupted = False, tap_count = 0, rec_keycode = 0\<rparr>, a)" for a
    by (subst process_record.simps) simp
  have np: "\<not> pressed (tick_event n)" by (simp add: tick_event_def)
  have proc: "process_tapping c \<lparr>event = tick_event n, tap_interrupted = False, tap_count = 0, rec_keycode = 0\<rparr> s =
      (True, \<lparr>event = tick_event n, tap_interrupted = False, tap_count = 0, rec_keycode = 0\<rparr>, s)"
    using assms(2)
    by (simp add: process_tapping_def IS_TAPPING_PRESSED_def IS_TAPPING_RELEASED_def idle_def not_tapping_def
        run_record_def pr np)
  then show ?thesis
    using assms action_tapping_process_once [OF proc]
    by (simp add: np action_exec_def typing_build_def oneshot_timeouts_def idle_def Let_def)
qed

section \<open>What a reference keyboard holds\<close>

text \<open>The code of every key of the matrix is that of a plain key or of a modifier, and no two keys share one.\<close>

definition plain_codes :: "'s config \<Rightarrow> (keypos_t \<Rightarrow> u8) \<Rightarrow> bool" where
  "plain_codes c code \<longleftrightarrow>
     (\<forall>k. matrix_key c k \<longrightarrow> IS_KEY (code k) \<or> IS_MOD (code k)) \<and> inj_on code {k. matrix_key c k}"

definition keys_down :: "(keypos_t \<Rightarrow> u8) \<Rightarrow> keypos_t set \<Rightarrow> u8 set" where
  "keys_down code P = {code k | k. k \<in> P \<and> IS_KEY (code k)}"

definition mods_down :: "(keypos_t \<Rightarrow> u8) \<Rightarrow> keypos_t set \<Rightarrow> u8 \<Rightarrow> bool" where
  "mods_down code P mods \<longleftrightarrow> (\<forall>j < 8. bit mods j \<longleftrightarrow> (\<exists>k \<in> P. code k = KC_LEFT_CTRL + of_nat j))"

lemma mod_code:
  assumes "IS_MOD (k :: u8)"
  shows "\<exists>j < 8. k = KC_LEFT_CTRL + of_nat j \<and> MOD_BIT k = bitmask j"
proof -
  define j where "j = unat k - 224"
  have k: "224 \<le> unat k" "unat k \<le> 231" using assms by (simp_all add: IS_MOD_def word_le_nat_alt)
  then have j: "j < 8" "unat k = 224 + j" by (auto simp: j_def)
  then have e: "k = KC_LEFT_CTRL + of_nat j"
    by (simp add: word_unat_eq_iff unat_word_ariths unat_of_nat take_bit_eq_mod)
  have "unat (k AND 7) = j" using key_col [of k] j by presburger
  then show ?thesis using j(1) e by (auto simp: MOD_BIT_def bitmask_def)
qed

lemma mod_code_inject:
  "i < 8 \<Longrightarrow> j < 8 \<Longrightarrow> (KC_LEFT_CTRL + of_nat i :: u8) = KC_LEFT_CTRL + of_nat j \<longleftrightarrow> i = j"
  by (auto simp: word_of_nat_eq_iff take_bit_eq_mod)

lemma key_not_mod: "IS_KEY (k :: u8) \<Longrightarrow> \<not> IS_MOD k"
  by (auto simp: IS_KEY_def IS_MOD_def word_le_nat_alt)

lemma mod_not_key: "j < 8 \<Longrightarrow> \<not> IS_KEY (KC_LEFT_CTRL + of_nat j :: u8)"
  by (simp add: IS_KEY_def word_le_nat_alt unat_word_ariths unat_of_nat take_bit_eq_mod)

text \<open>One event on the reference keyboard.\<close>

lemma keyboard_step_key:
  assumes "IS_KEY k"
  shows "keyboard_step True (K, mods) (Register k) = (insert k K, mods)"
    "keyboard_step True (K, mods) (Unregister k) = (K - {k}, mods)"
proof -
  have "unat k \<le> 164" "k \<noteq> 0" using assms by (auto simp: IS_KEY_def word_le_nat_alt)
  then show "keyboard_step True (K, mods) (Register k) = (insert k K, mods)"
    using assms key_not_mod [OF assms] by (simp add: keyboard_step_def held_step_def KEYBOARD_REPORT_BITS_def)
  show "keyboard_step True (K, mods) (Unregister k) = (K - {k}, mods)"
    using assms key_not_mod [OF assms] by (simp add: keyboard_step_def)
qed

lemma keyboard_step_mod:
  assumes "IS_MOD k"
  shows "keyboard_step True (K, mods) (Register k) = (K, mods OR MOD_BIT k)"
    "keyboard_step True (K, mods) (Unregister k) = (K, mods AND NOT (MOD_BIT k))"
  using assms key_not_mod by (auto simp: keyboard_step_def)

lemma keys_down_step:
  assumes "plain_codes c code" "P \<subseteq> {k. matrix_key c k}" "matrix_key c k" "IS_KEY (code k)"
  shows "keys_down code (insert k P) = insert (code k) (keys_down code P)"
    "keys_down code (P - {k}) = keys_down code P - {code k}"
    "mods_down code (insert k P) mods = mods_down code P mods"
    "mods_down code (P - {k}) mods = mods_down code P mods"
proof -
  have inj: "code j = code k \<longleftrightarrow> j = k" if "j \<in> P" for j
    using assms that by (auto simp: plain_codes_def inj_on_def)
  show "keys_down code (insert k P) = insert (code k) (keys_down code P)"
    using assms(4) by (auto simp: keys_down_def)
  show "keys_down code (P - {k}) = keys_down code P - {code k}"
    using inj by (auto simp: keys_down_def)
  have "code k \<noteq> KC_LEFT_CTRL + of_nat j" if "j < 8" for j using mod_not_key [OF that] assms(4) by auto
  then show "mods_down code (insert k P) mods = mods_down code P mods"
    "mods_down code (P - {k}) mods = mods_down code P mods"
    by (auto simp: mods_down_def)
qed

lemma mods_down_step:
  assumes "plain_codes c code" "P \<subseteq> {k. matrix_key c k}" "matrix_key c k" "IS_MOD (code k)"
  shows "keys_down code (insert k P) = keys_down code P" "keys_down code (P - {k}) = keys_down code P"
    "mods_down code P mods \<Longrightarrow> mods_down code (insert k P) (mods OR MOD_BIT (code k))"
    "mods_down code P mods \<Longrightarrow> mods_down code (P - {k}) (mods AND NOT (MOD_BIT (code k)))"
proof -
  have nk: "\<not> IS_KEY (code k)" using key_not_mod assms(4) by blast
  then show "keys_down code (insert k P) = keys_down code P" "keys_down code (P - {k}) = keys_down code P"
    by (auto simp: keys_down_def)
  obtain i where i: "i < 8" "code k = KC_LEFT_CTRL + of_nat i" "MOD_BIT (code k) = bitmask i"
    using mod_code [OF assms(4)] by blast
  have k: "code k = KC_LEFT_CTRL + of_nat j \<longleftrightarrow> j = i" if "j < 8" for j
    using mod_code_inject [OF i(1) that] i(2) by auto
  have inj: "code l = code k \<longleftrightarrow> l = k" if "l \<in> P" for l
    using assms that by (auto simp: plain_codes_def inj_on_def)
  show "mods_down code (insert k P) (mods OR MOD_BIT (code k))" if "mods_down code P mods"
    using that k i(1) by (auto simp: mods_down_def i(3) bit_or_bitmask)
  have "(\<exists>l \<in> P - {k}. code l = KC_LEFT_CTRL + of_nat j) \<longleftrightarrow>
      (\<exists>l \<in> P. code l = KC_LEFT_CTRL + of_nat j) \<and> j \<noteq> i" if "j < 8" for j
    using inj k [OF that] i(2) by auto
  then show "mods_down code (P - {k}) (mods AND NOT (MOD_BIT (code k)))" if "mods_down code P mods"
    using that by (auto simp: mods_down_def i(3) bit_and_not_bitmask)
qed

definition code_of_event :: "(keypos_t \<Rightarrow> u8) \<Rightarrow> keyevent_t \<Rightarrow> code_call" where
  "code_of_event code e = (if pressed e then Register (code (key e)) else Unregister (code (key e)))"

lemma reference_follows_switches:
  assumes "plain_codes c code"
  shows "P \<subseteq> {k. matrix_key c k} \<Longrightarrow> list_all (\<lambda>e. matrix_key c (key e)) es \<Longrightarrow> switch_run P es = Some P' \<Longrightarrow>
    mods_down code P mods \<Longrightarrow>
    \<exists>mods'. foldl (keyboard_step True) (keys_down code P, mods) (map (code_of_event code) es) =
      (keys_down code P', mods') \<and> mods_down code P' mods'"
proof (induction es arbitrary: P mods)
  case (Cons e es)
  define Q where "Q = (if pressed e then insert (key e) P else P - {key e})"
  have k: "matrix_key c (key e)" and run: "switch_run Q es = Some P'"
    using Cons.prems by (auto simp: Q_def split: if_splits)
  have Q: "Q \<subseteq> {k. matrix_key c k}" using Cons.prems(1) k by (auto simp: Q_def)
  have "\<exists>m. keyboard_step True (keys_down code P, mods) (code_of_event code e) = (keys_down code Q, m) \<and>
      mods_down code Q m"
  proof (cases "IS_KEY (code (key e))")
    case True
    then show ?thesis
      using keys_down_step [OF assms Cons.prems(1) k True] keyboard_step_key [OF True] Cons.prems(4)
      by (simp add: Q_def code_of_event_def)
  next
    case False
    then have m: "IS_MOD (code (key e))" using assms k by (auto simp: plain_codes_def)
    then show ?thesis
      using mods_down_step [OF assms Cons.prems(1) k m] keyboard_step_mod [OF m] Cons.prems(4)
      by (simp add: Q_def code_of_event_def)
  qed
  then obtain m where m: "keyboard_step True (keys_down code P, mods) (code_of_event code e) = (keys_down code Q, m)"
    "mods_down code Q m" by blast
  from Cons.IH [OF Q _ run m(2)] Cons.prems(2) m(1) show ?case by simp
qed simp

section \<open>The events of a board\<close>

lemma board_event_cases:
  assumes "board_event (MATRIX_ROWS c) (MATRIX_COLS c) e" "MATRIX_ROWS c \<le> 255" "MATRIX_COLS c \<le> 32"
    "MATRIX_ROWS c * MATRIX_COLS c \<le> 256"
  shows "if IS_NOEVENT e then \<exists>n. e = tick_event n else matrix_key c (key e) \<and> real_event (key e) (time e)"
proof (cases "\<exists>n. e = tick_event n")
  case False
  then obtain r k where rk: "r < MATRIX_ROWS c" "k < MATRIX_COLS c" "key e = key_at r k" "time e \<noteq> 0"
    using assms(1) by (auto simp: board_event_def)
  have u: "unat (row (key e)) = r" "unat (col (key e)) = k"
    using rk assms(2,3) by (simp_all add: key_at_def unat_of_nat take_bit_eq_mod)
  then have "row (key e) \<noteq> 255" using rk(1) assms(2) by auto
  then show ?thesis using rk u assms(4) by (auto simp: IS_NOEVENT_def matrix_key_def real_event_def)
qed auto

lemma board_execs:
  assumes "typing_build c" "MATRIX_ROWS c \<le> 255" "MATRIX_COLS c \<le> 32" "MATRIX_ROWS c * MATRIX_COLS c \<le> 256"
  shows "idle s \<Longrightarrow> typing c (act s) \<Longrightarrow> list_all (board_event (MATRIX_ROWS c) (MATRIX_COLS c)) es \<Longrightarrow>
    fold (action_exec c) es s = fold (action_exec c) (real_events es) s \<and>
    list_all (\<lambda>e. matrix_key c (key e) \<and> real_event (key e) (time e)) (real_events es)"
proof (induction es arbitrary: s)
  case (Cons e es)
  note e = board_event_cases [of c e, OF _ assms(2-4)]
  show ?case
  proof (cases "IS_NOEVENT e")
    case True
    then have "action_exec c e s = s" using e Cons.prems tick_idle [OF assms(1)] by auto
    then show ?thesis using Cons True by (simp add: real_events_def)
  next
    case False
    then have k: "matrix_key c (key e)" "real_event (key e) (time e)" using e Cons.prems by auto
    then show ?thesis using Cons False typing_exec [OF assms(1) Cons.prems(1,2) k] by (simp add: real_events_def)
  qed
qed (simp add: real_events_def)

section \<open>From the switches to the report\<close>

lemma pending_card: "card (pending rows cols m prev) \<le> rows * cols"
proof -
  have "pending rows cols m prev \<subseteq> {..<rows} \<times> {..<cols}" by (auto simp: pending_def)
  then have "card (pending rows cols m prev) \<le> card ({..<rows} \<times> {..<cols})" by (intro card_mono) auto
  then show ?thesis by (simp add: card_cartesian_product)
qed

lemma keyboard_run_append:
  "keyboard_run rows cols kps exec t (xs @ ys) st =
   keyboard_run rows cols kps exec t ys (keyboard_run rows cols kps exec t xs st)"
  by (simp add: keyboard_run_def)

lemma keys_of_clear: "keys_of rows cols (replicate rows 0) = {}"
  by (auto simp: keys_of_def)



end
