(* ===== verification/Deferred_Exec.thy ===== *)
theory Deferred_Exec
  imports C_Prelude
begin

text \<open>
  Deferred calls, \<^verbatim>\<open>quantum/deferred_exec.c\<close>: a table of \<^verbatim>\<open>MAX_DEFERRED_EXECUTORS\<close> slots, each with a token, the time
  to trigger and the callback.  A free slot has the token 0.  The table is a list, its length the number of slots.
  What a callback does is the function \<open>call\<close> of its name, the time it was due and its argument on the whole
  state, so that it may defer, extend and cancel calls itself; \<open>env\<close> is the rest of the firmware.
\<close>

section \<open>The table\<close>

record ('cb, 'arg) deferred_executor_t =
  token :: u8
  trigger_time :: u32
  callback :: "'cb option"
  cb_arg :: "'arg option"

record ('cb, 'arg, 'x) deferred_st =
  current_token :: u8
  last_deferred_exec_check :: u32
  executors :: "('cb, 'arg) deferred_executor_t list"
  timer_now :: u32
  env :: 'x

abbreviation INVALID_DEFERRED_TOKEN :: u8 where "INVALID_DEFERRED_TOKEN \<equiv> 0"

definition free_executor :: "('cb, 'arg) deferred_executor_t" where
  "free_executor = \<lparr>token = INVALID_DEFERRED_TOKEN, trigger_time = 0, callback = None, cb_arg = None\<rparr>"

text \<open>The loops that look for the entry with a given token.\<close>

fun find_token :: "u8 \<Rightarrow> ('cb, 'arg) deferred_executor_t list \<Rightarrow> nat option" where
  "find_token t [] = None"
| "find_token t (e # es) = (if token e = t then Some 0 else map_option Suc (find_token t es))"

definition token_can_be_used :: "('cb, 'arg) deferred_executor_t list \<Rightarrow> u8 \<Rightarrow> bool" where
  "token_can_be_used es t \<longleftrightarrow> t \<noteq> INVALID_DEFERRED_TOKEN \<and> find_token t es = None"

lemma distance_grows: "(cur :: u8) + 1 \<noteq> first \<Longrightarrow> unat (cur + 1 - first) = Suc (unat (cur - first))"
proof -
  assume "cur + 1 \<noteq> first"
  then have "1 + (cur - first) \<noteq> 0" by (metis add.commute add_diff_eq diff_add_eq eq_iff_diff_eq_0)
  moreover have "cur + 1 - first = 1 + (cur - first)" by simp
  ultimately show ?thesis using unatSuc [of "cur - first"] by metis
qed

lemma distance_bound: "unat (t :: u8) < 256"
  using unsigned_less [of t] by simp

text \<open>The loop of \<^verbatim>\<open>allocate_token\<close>; the result is the token and the new \<^verbatim>\<open>current_token\<close>.\<close>

function allocate_loop :: "u8 \<Rightarrow> ('cb, 'arg) deferred_executor_t list \<Rightarrow> u8 \<Rightarrow> u8 \<times> u8" where
  "allocate_loop first es cur =
     (if token_can_be_used es cur then (cur, cur)
      else if cur + 1 = first then (INVALID_DEFERRED_TOKEN, cur + 1)
      else allocate_loop first es (cur + 1))"
  by pat_completeness auto

termination
proof (relation "measure (\<lambda>(first, es, cur). 256 - unat (cur - first))", goal_cases)
  case (2 first es cur)
  then show ?case using distance_grows [of cur first] distance_bound [of "cur - first"] by simp
qed simp

declare allocate_loop.simps [simp del]

definition allocate_token :: "('cb, 'arg, 'x) deferred_st \<Rightarrow> u8 \<times> ('cb, 'arg, 'x) deferred_st" where
  "allocate_token s =
     (let first = current_token s + 1; (t, cur) = allocate_loop first (executors s) first
      in (t, s\<lparr>current_token := cur\<rparr>))"

section \<open>The operations\<close>

definition defer_exec ::
    "u32 \<Rightarrow> 'cb option \<Rightarrow> 'arg option \<Rightarrow> ('cb, 'arg, 'x) deferred_st \<Rightarrow> u8 \<times> ('cb, 'arg, 'x) deferred_st" where
  "defer_exec delay_ms cb arg s =
     (if delay_ms = 0 \<or> cb = None then (INVALID_DEFERRED_TOKEN, s)
      else case find_token INVALID_DEFERRED_TOKEN (executors s) of
             None \<Rightarrow> (INVALID_DEFERRED_TOKEN, s)
           | Some i \<Rightarrow>
               (let (t, s) = allocate_token s
                in if t = INVALID_DEFERRED_TOKEN then (0, s)
                   else (current_token s,
                         s\<lparr>executors := (executors s)[i := \<lparr>token = current_token s, trigger_time = timer_now s + delay_ms,
                                                           callback = cb, cb_arg = arg\<rparr>]\<rparr>)))"

definition extend_deferred_exec ::
    "u8 \<Rightarrow> u32 \<Rightarrow> ('cb, 'arg, 'x) deferred_st \<Rightarrow> bool \<times> ('cb, 'arg, 'x) deferred_st" where
  "extend_deferred_exec t delay_ms s =
     (if delay_ms = 0 \<or> t = INVALID_DEFERRED_TOKEN then (False, s)
      else case find_token t (executors s) of
             None \<Rightarrow> (False, s)
           | Some i \<Rightarrow>
               (True, s\<lparr>executors := (executors s)[i := (executors s ! i)\<lparr>trigger_time := timer_now s + delay_ms\<rparr>]\<rparr>))"

definition cancel_deferred_exec :: "u8 \<Rightarrow> ('cb, 'arg, 'x) deferred_st \<Rightarrow> bool \<times> ('cb, 'arg, 'x) deferred_st" where
  "cancel_deferred_exec t s =
     (if t = INVALID_DEFERRED_TOKEN then (False, s)
      else case find_token t (executors s) of
             None \<Rightarrow> (False, s)
           | Some i \<Rightarrow> (True, s\<lparr>executors := (executors s)[i := free_executor]\<rparr>))"

text \<open>
  The body of the task's loop.  What a callback returns and does to the state is \<open>call\<close>; the call of a null pointer
  is the result \<open>None\<close>.  The loop keeps the pointer to the slot across the call.
\<close>

type_synonym ('cb, 'arg, 'x) deferred_call =
  "'cb \<Rightarrow> u32 \<Rightarrow> 'arg option \<Rightarrow> ('cb, 'arg, 'x) deferred_st \<Rightarrow> u32 \<times> ('cb, 'arg, 'x) deferred_st"

definition is_due :: "u32 \<Rightarrow> ('cb, 'arg) deferred_executor_t \<Rightarrow> bool" where
  "is_due now e \<longleftrightarrow> token e \<noteq> INVALID_DEFERRED_TOKEN \<and> sint (TIMER_DIFF_32 (trigger_time e) now) \<le> 0"

definition run_executor ::
    "('cb, 'arg, 'x) deferred_call \<Rightarrow> u32 \<Rightarrow> ('cb, 'arg, 'x) deferred_st option \<Rightarrow> nat \<Rightarrow>
     ('cb, 'arg, 'x) deferred_st option" where
  "run_executor call now os i =
     (case os of None \<Rightarrow> None
      | Some s \<Rightarrow>
          (let e = executors s ! i
           in if is_due now e
              then case callback e of None \<Rightarrow> None
                   | Some cb \<Rightarrow>
                       (let (delay_ms, s) = call cb (trigger_time e) (cb_arg e) s; e = executors s ! i
                        in Some (s\<lparr>executors := (executors s)
                             [i := (if delay_ms > 0 then e\<lparr>trigger_time := trigger_time e + delay_ms\<rparr> else free_executor)]\<rparr>))
              else Some s))"

definition deferred_exec_task ::
    "('cb, 'arg, 'x) deferred_call \<Rightarrow> ('cb, 'arg, 'x) deferred_st \<Rightarrow> ('cb, 'arg, 'x) deferred_st option" where
  "deferred_exec_task call s =
     (let now = timer_now s
      in if sint (TIMER_DIFF_32 now (last_deferred_exec_check s)) > 0
         then foldl (run_executor call now) (Some (s\<lparr>last_deferred_exec_check := now\<rparr>)) [0..<length (executors s)]
         else Some s)"

section \<open>Tokens\<close>

lemma find_token_None: "find_token t es = None \<longleftrightarrow> t \<notin> token ` set es"
  by (induction es) auto

lemma find_token_Some: "find_token t es = Some i \<Longrightarrow> i < length es \<and> token (es ! i) = t \<and> (\<forall>j < i. token (es ! j) \<noteq> t)"
proof (induction es arbitrary: i)
  case (Cons e es)
  then show ?case by (cases i) (auto split: if_splits simp: less_Suc_eq_0_disj)
qed simp

lemma usable_iff: "token_can_be_used es t \<longleftrightarrow> t \<noteq> 0 \<and> t \<notin> token ` set es"
  by (simp add: token_can_be_used_def find_token_None)

text \<open>The search visits every token from where it starts to where it ends.\<close>

lemma allocate_loop_result:
  "allocate_loop first es cur = (t, cur') \<Longrightarrow>
   (token_can_be_used es t \<and> cur' = t) \<or>
   (t = 0 \<and> cur' = first \<and> (\<forall>k. unat (cur - first) \<le> unat (k - first) \<longrightarrow> \<not> token_can_be_used es k))"
proof (induction first es cur rule: allocate_loop.induct)
  case (1 first es cur)
  show ?case
  proof (cases "token_can_be_used es cur")
    case True
    then show ?thesis using "1.prems" by (auto simp: allocate_loop.simps [of first es cur])
  next
    case used: False
    show ?thesis
    proof (cases "cur + 1 = first")
      case True
      then have t: "t = 0" "cur' = first" using "1.prems" used by (simp_all add: allocate_loop.simps [of first es cur])
      have "cur - first = - 1" using True by (metis add_diff_cancel_left' diff_add_cancel minus_diff_eq)
      then have "unat (cur - first) = 255" by (simp add: unsigned_minus_1_eq_mask mask_eq_exp_minus_1)
      have "k = cur" if "unat (cur - first) \<le> unat (k - first)" for k
      proof -
        have "unat (k - first) = unat (cur - first)"
          using that \<open>unat (cur - first) = 255\<close> distance_bound [of "k - first"] by simp
        then show ?thesis by (simp add: word_unat_eq_iff [symmetric])
      qed
      then show ?thesis using t used by auto
    next
      case False
      then have "allocate_loop first es (cur + 1) = (t, cur')" using "1.prems" used by (simp add: allocate_loop.simps [of first es cur])
      note IH = "1.IH" [OF used False this]
      have "\<not> token_can_be_used es k" if "\<forall>k. unat (cur + 1 - first) \<le> unat (k - first) \<longrightarrow> \<not> token_can_be_used es k"
        "unat (cur - first) \<le> unat (k - first)" for k
      proof (cases "unat (cur - first) = unat (k - first)")
        case True
        then show ?thesis using used by (simp add: word_unat_eq_iff [symmetric])
      next
        case False
        then show ?thesis using that distance_grows [OF \<open>cur + 1 \<noteq> first\<close>] by simp
      qed
      then show ?thesis using IH by blast
    qed
  qed
qed

lemma some_token_usable:
  assumes "length es \<le> 255" "0 \<in> token ` set es"
  shows "\<exists>k. token_can_be_used es k"
proof (rule ccontr)
  assume "\<nexists>k. token_can_be_used es k"
  then have "k \<in> token ` set es" for k
    using assms(2) by (cases "k = 0") (force simp: usable_iff)+
  then have "UNIV \<subseteq> token ` set es" by blast
  then have "card (UNIV :: u8 set) \<le> card (token ` set es)" by (intro card_mono) auto
  also have "\<dots> \<le> length es" using card_image_le [of "set es" token] card_length [of es] by simp
  finally show False using assms(1) by (simp add: card_word)
qed

lemma allocate_token_result:
  assumes "allocate_token s = (t, s')" "length (executors s) \<le> 255" "0 \<in> token ` set (executors s)"
  shows "t \<noteq> 0 \<and> t \<notin> token ` set (executors s) \<and> s' = s\<lparr>current_token := t\<rparr>"
proof -
  obtain cur where l: "allocate_loop (current_token s + 1) (executors s) (current_token s + 1) = (t, cur)"
    "s' = s\<lparr>current_token := cur\<rparr>"
    using assms(1) by (auto simp: allocate_token_def Let_def split: prod.splits)
  show ?thesis
    using allocate_loop_result [OF l(1)] some_token_usable [OF assms(2,3)] l(2) by (auto simp: usable_iff)
qed

section \<open>No null pointer is called\<close>

text \<open>
  In a good table two slots in use have different tokens, and every slot in use has a callback.
\<close>

definition table_ok :: "('cb, 'arg) deferred_executor_t list \<Rightarrow> bool" where
  "table_ok es \<longleftrightarrow>
     (\<forall>i < length es. token (es ! i) \<noteq> 0 \<longrightarrow>
        callback (es ! i) \<noteq> None \<and> (\<forall>j < length es. token (es ! j) = token (es ! i) \<longrightarrow> j = i))"

lemma table_ok_update:
  assumes "table_ok es" "token e \<noteq> 0 \<Longrightarrow> callback e \<noteq> None"
    "\<And>j. token e \<noteq> 0 \<Longrightarrow> j < length es \<Longrightarrow> j \<noteq> i \<Longrightarrow> token (es ! j) \<noteq> token e"
  shows "table_ok (es[i := e])"
proof (cases "i < length es")
  case True
  then show ?thesis using assms unfolding table_ok_def
    by (simp add: nth_list_update) (metis option.exhaust)
next
  case False
  then show ?thesis using assms(1) by (simp add: list_update_beyond)
qed

lemma table_ok_same_token:
  assumes "table_ok es" "token e = token (es ! i)" "callback e = callback (es ! i)" "i < length es"
  shows "table_ok (es[i := e])"
  using assms by (intro table_ok_update) (auto simp: table_ok_def)

lemma free_executor_simps [simp]: "token free_executor = 0" "callback free_executor = None"
  by (simp_all add: free_executor_def)

lemma table_ok_free: "table_ok es \<Longrightarrow> table_ok (es[i := free_executor])"
  by (intro table_ok_update) auto

lemma table_ok_empty: "table_ok (replicate n free_executor)"
  by (simp add: table_ok_def)

lemma allocate_token_frame:
  "allocate_token s = (t, s') \<Longrightarrow> executors s' = executors s \<and> timer_now s' = timer_now s \<and> env s' = env s \<and>
    (t \<noteq> 0 \<longrightarrow> current_token s' = t \<and> t \<notin> token ` set (executors s))"
  using allocate_loop_result [of "current_token s + 1" "executors s" "current_token s + 1"]
  by (auto simp: allocate_token_def Let_def usable_iff split: prod.splits)

lemma defer_exec_table:
  "let es = executors s; s' = snd (defer_exec d cb a s)
   in executors s' = es \<or>
      (\<exists>i t. executors s' = es[i := \<lparr>token = t, trigger_time = timer_now s + d, callback = cb, cb_arg = a\<rparr>] \<and>
         t \<notin> token ` set es \<and> cb \<noteq> None)"
proof (cases "allocate_token s")
  case (Pair t s')
  then show ?thesis using allocate_token_frame [OF Pair] by (auto simp: defer_exec_def Let_def split: option.split)
qed

lemma defer_exec_ok: "table_ok (executors s) \<Longrightarrow> table_ok (executors (snd (defer_exec d cb a s)))"
  using defer_exec_table [of s d cb a] by (auto simp: Let_def intro!: table_ok_update)

lemma extend_deferred_exec_ok: "table_ok (executors s) \<Longrightarrow> table_ok (executors (snd (extend_deferred_exec t d s)))"
  by (auto simp: extend_deferred_exec_def dest!: find_token_Some intro!: table_ok_same_token split: option.split)

lemma cancel_deferred_exec_ok: "table_ok (executors s) \<Longrightarrow> table_ok (executors (snd (cancel_deferred_exec t s)))"
  by (simp add: cancel_deferred_exec_def table_ok_free split: option.split)

lemma deferred_lengths [simp]:
  "length (executors (snd (defer_exec d cb a s))) = length (executors s)"
  "length (executors (snd (extend_deferred_exec t d s))) = length (executors s)"
  "length (executors (snd (cancel_deferred_exec t s))) = length (executors s)"
  using defer_exec_table [of s d cb a]
  by (auto simp: Let_def extend_deferred_exec_def cancel_deferred_exec_def split: option.split)

text \<open>The contract of the callbacks, under which the task is safe.\<close>

locale deferred_callbacks =
  fixes call :: "('cb, 'arg, 'x) deferred_call"
  assumes call_ok: "table_ok (executors s) \<Longrightarrow> table_ok (executors (snd (call cb t a s)))"
    and call_length: "length (executors (snd (call cb t a s))) = length (executors s)"
begin

lemma run_executor_ok:
  assumes "table_ok (executors s)" "i < length (executors s)"
  shows "\<exists>s'. run_executor call now (Some s) i = Some s' \<and> table_ok (executors s') \<and>
    length (executors s') = length (executors s)"
proof (cases "is_due now (executors s ! i)")
  case True
  then obtain cb where cb: "callback (executors s ! i) = Some cb"
    using assms by (auto simp: table_ok_def is_due_def)
  obtain d s1 where s1: "call cb (trigger_time (executors s ! i)) (cb_arg (executors s ! i)) s = (d, s1)" by fastforce
  have "table_ok (executors s1)" "length (executors s1) = length (executors s)"
    using call_ok [OF assms(1)] call_length s1 by (metis snd_conv)+
  then show ?thesis using True cb s1 assms(2)
    by (auto simp: run_executor_def Let_def intro: table_ok_same_token table_ok_free)
qed (use assms in \<open>simp add: run_executor_def Let_def\<close>)

lemma run_executors_ok:
  assumes "table_ok (executors s)" "n \<le> length (executors s)"
  shows "\<exists>s'. foldl (run_executor call now) (Some s) [0..<n] = Some s' \<and> table_ok (executors s') \<and>
    length (executors s') = length (executors s)"
  using assms(2)
proof (induction n)
  case (Suc n)
  then show ?case using run_executor_ok by fastforce
qed (simp add: assms)

lemma deferred_exec_task_ok:
  assumes "table_ok (executors s)"
  shows "\<exists>s'. deferred_exec_task call s = Some s' \<and> table_ok (executors s') \<and>
    length (executors s') = length (executors s)"
  using run_executors_ok [of "s\<lparr>last_deferred_exec_check := timer_now s\<rparr>"] assms
  by (auto simp: deferred_exec_task_def Let_def)

end

section \<open>Programs that use the table\<close>

text \<open>
  The main program and the callbacks call the operations, let time pass and work on the rest of the firmware; a
  callback is the script of what it does, which may depend on everything it can see, and the delay it returns.
\<close>

datatype ('cb, 'arg, 'x) deferred_op =
    Defer u32 "'cb option" "'arg option"
  | Extend u8 u32
  | Cancel u8
  | Wait u32
  | Work "'x \<Rightarrow> 'x"

fun run_op :: "('cb, 'arg, 'x) deferred_op \<Rightarrow> ('cb, 'arg, 'x) deferred_st \<Rightarrow> ('cb, 'arg, 'x) deferred_st" where
  "run_op (Defer d cb a) s = snd (defer_exec d cb a s)"
| "run_op (Extend t d) s = snd (extend_deferred_exec t d s)"
| "run_op (Cancel t) s = snd (cancel_deferred_exec t s)"
| "run_op (Wait d) s = s\<lparr>timer_now := timer_now s + d\<rparr>"
| "run_op (Work f) s = s\<lparr>env := f (env s)\<rparr>"

definition script_call ::
    "('cb \<Rightarrow> u32 \<Rightarrow> 'arg option \<Rightarrow> ('cb, 'arg, 'x) deferred_st \<Rightarrow> u32 \<times> ('cb, 'arg, 'x) deferred_op list) \<Rightarrow>
     ('cb, 'arg, 'x) deferred_call" where
  "script_call script cb t a s = (fst (script cb t a s), fold run_op (snd (script cb t a s)) s)"

lemma run_op_ok: "table_ok (executors s) \<Longrightarrow> table_ok (executors (run_op x s))"
  by (cases x) (simp_all add: defer_exec_ok extend_deferred_exec_ok cancel_deferred_exec_ok)

lemma run_op_length: "length (executors (run_op x s)) = length (executors s)"
  by (cases x) simp_all

lemma run_ops_ok: "table_ok (executors s) \<Longrightarrow> table_ok (executors (fold run_op xs s))"
  by (induction xs arbitrary: s) (simp_all add: run_op_ok)

lemma run_ops_length: "length (executors (fold run_op xs s)) = length (executors s)"
  by (induction xs arbitrary: s) (simp_all add: run_op_length)

interpretation scripts: deferred_callbacks "script_call script"
  by unfold_locales (simp_all add: script_call_def run_ops_ok run_ops_length)

definition deferred_round ::
    "('cb \<Rightarrow> u32 \<Rightarrow> 'arg option \<Rightarrow> ('cb, 'arg, 'x) deferred_st \<Rightarrow> u32 \<times> ('cb, 'arg, 'x) deferred_op list) \<Rightarrow>
     ('cb, 'arg, 'x) deferred_st option \<Rightarrow> ('cb, 'arg, 'x) deferred_op list \<Rightarrow> ('cb, 'arg, 'x) deferred_st option" where
  "deferred_round script os xs =
     (case os of None \<Rightarrow> None | Some s \<Rightarrow> deferred_exec_task (script_call script) (fold run_op xs s))"

text \<open>
  C30. Deferred calls are safe.  However the main program defers, extends and cancels calls between the runs of the task,
  and whatever the callbacks do to the table in turn, the task never calls a null pointer, every slot in use has a
  callback, and no two slots share a token.
\<close>

theorem deferred_calls_safe:
  "\<exists>s'. foldl (deferred_round script)
      (Some \<lparr>current_token = 0, last_deferred_exec_check = 0, executors = replicate n free_executor, timer_now = t, env = x\<rparr>)
      rounds = Some s' \<and> table_ok (executors s') \<and> length (executors s') = n"
proof -
  have "\<exists>s'. foldl (deferred_round script) (Some s) rounds = Some s' \<and> table_ok (executors s') \<and>
      length (executors s') = length (executors s)" if "table_ok (executors s)" for s
    using that
  proof (induction rounds arbitrary: s)
    case (Cons xs rounds)
    obtain s1 where s1: "deferred_exec_task (script_call script) (fold run_op xs s) = Some s1" "table_ok (executors s1)"
      "length (executors s1) = length (executors s)"
      using scripts.deferred_exec_task_ok [OF run_ops_ok [OF Cons.prems]] run_ops_length by metis
    then show ?case using Cons.IH [of s1] by (simp add: deferred_round_def)
  qed simp
  from this [of "\<lparr>current_token = 0, last_deferred_exec_check = 0, executors = replicate n free_executor,
      timer_now = t, env = x\<rparr>"]
  show ?thesis by (simp add: table_ok_empty)
qed

section \<open>What the operations do\<close>

lemma find_token_after:
  assumes "i < length es" "token e = t" "t \<notin> token ` set es"
  shows "find_token t (es[i := e]) = Some i"
  using assms
proof (induction es arbitrary: i)
  case (Cons x es)
  then show ?case by (cases i) auto
qed simp

text \<open>
  A call that is deferred gets a fresh token.  If a slot is free, and the table has fewer than 256 slots, the first free
  slot takes the call and no other slot changes; the token is neither 0 nor in use, and cancelling with it frees
  exactly this slot.  Without a free slot, with no delay or with no callback the token is 0 and the table stays as it is.
\<close>

theorem defer_exec_fresh:
  assumes "length (executors s) \<le> 255" "defer_exec d cb a s = (t, s')"
  shows "case if d = 0 \<or> cb = None then None else find_token 0 (executors s) of
      None \<Rightarrow> t = 0 \<and> s' = s
    | Some i \<Rightarrow> t \<noteq> 0 \<and> t \<notin> token ` set (executors s) \<and>
        executors s' = (executors s)[i := \<lparr>token = t, trigger_time = timer_now s + d, callback = cb, cb_arg = a\<rparr>] \<and>
        cancel_deferred_exec t s' = (True, s'\<lparr>executors := (executors s)[i := free_executor]\<rparr>)"
proof (cases "if d = 0 \<or> cb = None then None else find_token 0 (executors s)")
  case None
  then show ?thesis using assms(2) by (auto simp: defer_exec_def split: if_splits)
next
  case (Some i)
  obtain t1 s1 where t1: "allocate_token s = (t1, s1)" by fastforce
  have i: "d \<noteq> 0" "cb \<noteq> None" "find_token 0 (executors s) = Some i" "i < length (executors s)"
    "0 \<in> token ` set (executors s)"
    using Some find_token_Some [of 0 "executors s" i] by (auto split: if_splits)
  note f = allocate_token_result [OF t1 assms(1) i(5)]
  then have "t = t1" "executors s' = (executors s)[i := \<lparr>token = t, trigger_time = timer_now s + d, callback = cb, cb_arg = a\<rparr>]"
    using assms(2) t1 i by (auto simp: defer_exec_def Let_def)
  then show ?thesis using Some f i(4) by (simp add: cancel_deferred_exec_def find_token_after)
qed

lemma defer_exec_fresh_witness:
  "let s = \<lparr>current_token = 255, last_deferred_exec_check = 0,
            executors = [\<lparr>token = 1, trigger_time = 12, callback = Some (), cb_arg = None\<rparr>, free_executor],
            timer_now = 10, env = ()\<rparr>
   in case defer_exec 5 (Some ()) (None :: nat option) s of (t, s') \<Rightarrow>
        t \<noteq> 0 \<and> t \<noteq> 1 \<and> trigger_time (executors s' ! 1) = 15"
proof -
  let ?s = "\<lparr>current_token = 255, last_deferred_exec_check = 0, executors =
    [\<lparr>token = 1, trigger_time = 12, callback = Some (), cb_arg = None\<rparr>, free_executor], timer_now = 10, env = ()\<rparr>
    :: (unit, nat, unit) deferred_st"
  obtain t s' where d: "defer_exec 5 (Some ()) None ?s = (t, s')" by fastforce
  show ?thesis using defer_exec_fresh [OF _ d] d by (simp add: Let_def)
qed

text \<open>What a slot becomes when its call is due and returns the given delay.\<close>

definition rearm :: "u32 \<Rightarrow> ('cb, 'arg) deferred_executor_t \<Rightarrow> ('cb, 'arg) deferred_executor_t" where
  "rearm d e = (if d > 0 then e\<lparr>trigger_time := trigger_time e + d\<rparr> else free_executor)"

text \<open>A callback that leaves the table alone: its result and its effect on the rest of the firmware.\<close>

definition plain_call ::
    "('cb \<Rightarrow> u32 \<Rightarrow> 'arg option \<Rightarrow> u32) \<Rightarrow> ('cb \<Rightarrow> u32 \<Rightarrow> 'arg option \<Rightarrow> 'x \<Rightarrow> 'x) \<Rightarrow> ('cb, 'arg, 'x) deferred_call" where
  "plain_call delay eff cb t a s = (delay cb t a, s\<lparr>env := eff cb t a (env s)\<rparr>)"

definition call_of :: "('cb \<Rightarrow> u32 \<Rightarrow> 'arg option \<Rightarrow> 'b) \<Rightarrow> ('cb, 'arg) deferred_executor_t \<Rightarrow> 'b" where
  "call_of f e = f (the (callback e)) (trigger_time e) (cb_arg e)"

lemma run_plain:
  assumes "table_ok es" "n \<le> length es"
  shows "foldl (run_executor (plain_call delay eff) now) (Some (s\<lparr>executors := es\<rparr>)) [0..<n] =
    Some (s\<lparr>executors := map (\<lambda>e. if is_due now e then rearm (call_of delay e) e else e) (take n es) @ drop n es,
            env := fold (call_of eff) (filter (is_due now) (take n es)) (env s)\<rparr>)"
  using assms(2)
proof (induction n)
  case (Suc n)
  have n: "n < length es" "take (Suc n) es = take n es @ [es ! n]" "drop n es = es ! n # drop (Suc n) es"
    using Suc.prems by (simp_all add: take_Suc_conv_app_nth Cons_nth_drop_Suc)
  have cb: "is_due now (es ! n) \<Longrightarrow> \<exists>cb. callback (es ! n) = Some cb"
    using assms(1) n(1) by (auto simp: table_ok_def is_due_def)
  show ?case using Suc n cb
    by (auto simp: run_executor_def Let_def plain_call_def call_of_def rearm_def nth_append list_update_append)
qed simp

text \<open>
  C31. Every call that is due runs once.  With callbacks that leave the table alone, the task runs the calls that are due, each once
  and in the order of their slots, with the time they were due at; a call that returns a delay is due again that much
  later, counted from when it was due, and the slot of one that returns 0 is free.  The task does nothing until the
  millisecond has changed.
\<close>

theorem due_calls_run_once:
  assumes "table_ok (executors s)"
  shows "deferred_exec_task (plain_call delay eff) s = Some (
    let now = timer_now s; es = executors s
    in if sint (now - last_deferred_exec_check s) > 0
       then s\<lparr>last_deferred_exec_check := now,
              executors := map (\<lambda>e. if is_due now e then rearm (call_of delay e) e else e) es,
              env := fold (call_of eff) (filter (is_due now) es) (env s)\<rparr>
       else s)"
  using run_plain [OF assms order_refl, of delay eff "timer_now s" "s\<lparr>last_deferred_exec_check := timer_now s\<rparr>"]
  by (simp add: deferred_exec_task_def Let_def TIMER_DIFF_32_def)

lemma due_calls_run_once_witness:
  "deferred_exec_task (plain_call (\<lambda>cb t a. 10 * cb) (\<lambda>cb t a log. log @ [(cb, t)]))
     \<lparr>current_token = 2, last_deferred_exec_check = 99,
      executors = [\<lparr>token = 1, trigger_time = 100, callback = Some 0, cb_arg = None :: unit option\<rparr>,
                   \<lparr>token = 2, trigger_time = 90, callback = Some 4, cb_arg = None\<rparr>], timer_now = 100, env = []\<rparr> =
   Some \<lparr>current_token = 2, last_deferred_exec_check = 100,
      executors = [free_executor, \<lparr>token = 2, trigger_time = 130, callback = Some 4, cb_arg = None\<rparr>],
      timer_now = 100, env = [(0, 100), (4, 90)]\<rparr>"
proof -
  let ?s = "\<lparr>current_token = 2, last_deferred_exec_check = 99,
    executors = [\<lparr>token = 1, trigger_time = 100, callback = Some 0, cb_arg = None :: unit option\<rparr>,
                 \<lparr>token = 2, trigger_time = 90, callback = Some 4, cb_arg = None\<rparr>], timer_now = 100,
    env = [] :: (u32 \<times> u32) list\<rparr>"
  have ok: "table_ok (executors ?s)" by (simp add: table_ok_def less_2_cases_iff All_less_Suc2 numeral_2_eq_2)
  show ?thesis
    by (subst due_calls_run_once [OF ok, simplified])
      (simp add: Let_def is_due_def TIMER_DIFF_32_def call_of_def rearm_def)
qed

text \<open>
  A callback that cancels itself and defers another call gets its own slot for it, and the task then frees that slot,
  or moves the trigger time of the new call: the call that was deferred is lost.
\<close>

lemma deferred_in_callback_is_lost:
  assumes "executors s = [\<lparr>token = 1, trigger_time = timer_now s, callback = Some cb, cb_arg = None\<rparr>]"
    "current_token s = 1" "sint (timer_now s - last_deferred_exec_check s) > 0"
  shows "deferred_exec_task (script_call (\<lambda>_ _ _ _. (0, [Cancel 1, Defer 5 (Some cb') None]))) s =
    Some (s\<lparr>last_deferred_exec_check := timer_now s, executors := [free_executor], current_token := 2\<rparr>)"
  using assms
  by (simp add: deferred_exec_task_def run_executor_def script_call_def is_due_def TIMER_DIFF_32_def Let_def
      cancel_deferred_exec_def defer_exec_def allocate_token_def allocate_loop.simps token_can_be_used_def)

end
