(* ===== verification/Encoder.thy ===== *)
theory Encoder
  imports C_Prelude "HOL-Library.Signed_Division"
begin

text \<open>
  Rotary encoders, \<^verbatim>\<open>quantum/encoder.c\<close>: the decoding of the two pads of every encoder into detents, and the
  replay of the other half's counters on a split keyboard.  The signed bytes \<^verbatim>\<open>encoder_pulses\<close> are words read with
  \<open>sint\<close>.  What the callback does with a detent is the function \<open>update_kb\<close> on the rest of the firmware.
\<close>

section \<open>The decoder\<close>

record 's encoders =
  encoder_resolutions :: "u8 list"
  DIRECTION_FLIP :: bool
  ENCODER_DEFAULT_POS :: "u8 option"
  this_hand :: nat
  that_hand :: nat
  encoder_update_kb :: "u8 \<Rightarrow> bool \<Rightarrow> 's \<Rightarrow> 's"

record 's encoder_st =
  encoder_state :: "u8 list"
  encoder_pulses :: "u8 list"
  encoder_value :: "u8 list"
  enc_world :: 's

abbreviation NUMBER_OF_ENCODERS :: "'s encoders \<Rightarrow> nat" where
  "NUMBER_OF_ENCODERS b \<equiv> length (encoder_resolutions b)"

definition ENCODER_CLOCKWISE :: "'s encoders \<Rightarrow> bool" where "ENCODER_CLOCKWISE b \<longleftrightarrow> \<not> DIRECTION_FLIP b"

definition ENCODER_COUNTER_CLOCKWISE :: "'s encoders \<Rightarrow> bool" where "ENCODER_COUNTER_CLOCKWISE b \<longleftrightarrow> DIRECTION_FLIP b"

definition encoder_LUT :: "int list" where
  "encoder_LUT = [0, -1, 1, 0, 1, 0, 0, -1, -1, 0, 0, 1, 0, 1, -1, 0]"

text \<open>The two pads of an encoder as they are read, as the low bits of its state.\<close>

definition read_pads :: "bool \<times> bool \<Rightarrow> u8" where
  "read_pads ab = (if fst ab then 1 else 0) OR (if snd ab then 2 else 0)"

definition encoder_init :: "'s encoders \<Rightarrow> (nat \<Rightarrow> bool \<times> bool) \<Rightarrow> nat \<Rightarrow> 's \<Rightarrow> 's encoder_st" where
  "encoder_init b pads hands w =
     \<lparr>encoder_state = map (\<lambda>i. read_pads (pads i)) [0..<NUMBER_OF_ENCODERS b],
      encoder_pulses = replicate (NUMBER_OF_ENCODERS b) 0,
      encoder_value = replicate (NUMBER_OF_ENCODERS b * hands) 0, enc_world = w\<rparr>"

text \<open>One detent: the counter moves and the callback gets the direction.\<close>

definition encoder_turn :: "'s encoders \<Rightarrow> nat \<Rightarrow> bool \<Rightarrow> 's encoder_st \<Rightarrow> 's encoder_st" where
  "encoder_turn b index up s =
     (let v = encoder_value s ! index
      in s\<lparr>encoder_value := (encoder_value s)[index := if up then v + 1 else v - 1],
           enc_world := encoder_update_kb b (of_nat index)
             (if up then ENCODER_COUNTER_CLOCKWISE b else ENCODER_CLOCKWISE b) (enc_world s)\<rparr>)"

definition encoder_update :: "'s encoders \<Rightarrow> nat \<Rightarrow> u8 \<Rightarrow> 's encoder_st \<Rightarrow> bool \<times> 's encoder_st" where
  "encoder_update b i state s =
     (let resolution = uint (encoder_resolutions b ! i); index = i + this_hand b;
          pulses = encoder_pulses s ! i + of_int (encoder_LUT ! unat (state AND 15));
          (changed, s) = (if sint pulses \<ge> resolution then (True, encoder_turn b index True s) else (False, s));
          (changed, s) = (if sint pulses \<le> - resolution then (True, encoder_turn b index False s) else (changed, s));
          pulses = of_int (sint pulses smod resolution);
          pulses = (if ENCODER_DEFAULT_POS b = Some (state AND 3) then 0 else pulses)
      in (changed, s\<lparr>encoder_pulses := (encoder_pulses s)[i := pulses]\<rparr>))"

definition encoder_read_one ::
    "'s encoders \<Rightarrow> (nat \<Rightarrow> bool \<times> bool) \<Rightarrow> bool \<times> 's encoder_st \<Rightarrow> nat \<Rightarrow> bool \<times> 's encoder_st" where
  "encoder_read_one b pads cs i =
     (let (changed, s) = cs; state = push_bit 2 (encoder_state s ! i) OR read_pads (pads i);
          (ch, s) = encoder_update b i state (s\<lparr>encoder_state := (encoder_state s)[i := state]\<rparr>)
      in (changed \<or> ch, s))"

definition encoder_read :: "'s encoders \<Rightarrow> (nat \<Rightarrow> bool \<times> bool) \<Rightarrow> 's encoder_st \<Rightarrow> bool \<times> 's encoder_st" where
  "encoder_read b pads s = foldl (encoder_read_one b pads) (False, s) [0..<NUMBER_OF_ENCODERS b]"

subsection \<open>The other half\<close>

definition encoder_state_raw :: "'s encoders \<Rightarrow> 's encoder_st \<Rightarrow> u8 list" where
  "encoder_state_raw b s = take (NUMBER_OF_ENCODERS b) (drop (this_hand b) (encoder_value s))"

lemma sint_of_int8: "- 128 \<le> k \<Longrightarrow> k < 128 \<Longrightarrow> sint (of_int k :: u8) = k"
  by (simp add: sint_sbintrunc' signed_take_bit_int_eq_self)

lemma sint8_bounds: "- 128 \<le> sint (d :: u8)" "sint d < 128"
  using sint_ge [of d] sint_lt [of d] by simp_all

lemma sint_add8:
  assumes "- 128 \<le> sint (d :: u8) + k" "sint d + k < 128"
  shows "sint (d + of_int k) = sint d + k"
proof -
  have "d + of_int k = of_int (sint d + k)" by simp
  then show ?thesis using sint_of_int8 [OF assms] by simp
qed

lemma sint_pred: "sint (d :: u8) > 0 \<Longrightarrow> sint (d - 1) = sint d - 1"
  using sint_add8 [of d "- 1"] sint8_bounds [of d] by simp

lemma sint_succ: "sint (d :: u8) < 0 \<Longrightarrow> sint (d + 1) = sint d + 1"
  using sint_add8 [of d 1] sint8_bounds [of d] by simp

function raw_up :: "'s encoders \<Rightarrow> nat \<Rightarrow> u8 \<Rightarrow> bool \<times> 's encoder_st \<Rightarrow> u8 \<times> bool \<times> 's encoder_st" where
  "raw_up b index delta (changed, s) =
     (if sint delta > 0 then raw_up b index (delta - 1) (True, encoder_turn b index True s) else (delta, changed, s))"
  by pat_completeness auto
termination by (relation "measure (\<lambda>(b, index, delta, cs). nat (sint delta))") (auto simp: sint_pred)

function raw_down :: "'s encoders \<Rightarrow> nat \<Rightarrow> u8 \<Rightarrow> bool \<times> 's encoder_st \<Rightarrow> u8 \<times> bool \<times> 's encoder_st" where
  "raw_down b index delta (changed, s) =
     (if sint delta < 0 then raw_down b index (delta + 1) (True, encoder_turn b index False s) else (delta, changed, s))"
  by pat_completeness auto
termination by (relation "measure (\<lambda>(b, index, delta, cs). nat (- sint delta))") (auto simp: sint_succ)

declare raw_up.simps [simp del] raw_down.simps [simp del]

definition raw_one :: "'s encoders \<Rightarrow> u8 list \<Rightarrow> bool \<times> 's encoder_st \<Rightarrow> nat \<Rightarrow> bool \<times> 's encoder_st" where
  "raw_one b slave_state cs i =
     (let (changed, s) = cs; index = i + that_hand b;
          (delta, changed, s) = raw_up b index (slave_state ! i - encoder_value s ! index) (changed, s);
          (delta, changed, s) = raw_down b index delta (changed, s)
      in (changed, s))"

definition encoder_update_raw :: "'s encoders \<Rightarrow> ('s \<Rightarrow> 's) \<Rightarrow> u8 list \<Rightarrow> 's encoder_st \<Rightarrow> 's encoder_st" where
  "encoder_update_raw b activity slave_state s =
     (let (changed, s) = foldl (raw_one b slave_state) (False, s) [0..<NUMBER_OF_ENCODERS b]
      in if changed then s\<lparr>enc_world := activity (enc_world s)\<rparr> else s)"

section \<open>The decoder follows the shaft\<close>

text \<open>
  A shaft at position \<open>n\<close> shows the pads of the Gray code of \<open>n mod 4\<close>.  The encoder \<open>k\<close> has seen the shaft go to \<open>n\<close> when
  its state ends in these pads, and its counter and pulses account for the way from \<open>n0\<close>.
\<close>

definition shaft_pads :: "int \<Rightarrow> bool \<times> bool" where
  "shaft_pads n = (n mod 4 = 1 \<or> n mod 4 = 2, n mod 4 = 2 \<or> n mod 4 = 3)"

lemma mask_3_15: "(3 :: u8) = mask 2" "(15 :: u8) = mask 4"
  by (simp_all add: mask_eq_exp_minus_1)

lemma push_low_bits: "push_bit 2 state AND 15 = push_bit 2 (state AND 3 :: u8)" "push_bit 2 state AND 3 = (0 :: u8)"
  unfolding mask_3_15 by (auto simp: bit_eq_iff bit_simps)

lemma LUT_step:
  assumes "m = n \<or> m = n + 1 \<or> m = n - 1" "state AND 3 = read_pads (shaft_pads n)"
  shows "encoder_LUT ! unat ((push_bit 2 state OR read_pads (shaft_pads m)) AND 15 :: u8) = n - m"
proof -
  have "(push_bit 2 state OR read_pads (shaft_pads m)) AND 15 =
      push_bit 2 (state AND 3) OR (read_pads (shaft_pads m) AND 15)"
    by (simp only: bit.conj_disj_distrib2 push_low_bits)
  also have "\<dots> = push_bit 2 (read_pads (shaft_pads n)) OR read_pads (shaft_pads m)"
    by (simp add: assms(2) read_pads_def)
  finally have st: "(push_bit 2 state OR read_pads (shaft_pads m)) AND 15 =
      push_bit 2 (read_pads (shaft_pads n)) OR read_pads (shaft_pads m)" .
  have "n mod 4 = 0 \<or> n mod 4 = 1 \<or> n mod 4 = 2 \<or> n mod 4 = 3" by presburger
  moreover have "m mod 4 = (n mod 4 + (m - n)) mod 4" by (simp add: mod_add_left_eq)
  ultimately show ?thesis unfolding st
    using assms(1) by (elim disjE) (simp_all add: shaft_pads_def read_pads_def encoder_LUT_def)
qed

lemma state_low_bits: "(push_bit 2 state OR read_pads p) AND 3 = read_pads (p :: bool \<times> bool)"
  by (simp only: bit.conj_disj_distrib2 push_low_bits) (simp add: read_pads_def)

lemma smod_wrap:
  assumes "\<bar>p\<bar> < r" "\<bar>d\<bar> \<le> (1 :: int)"
  shows "(p + d) smod r = (if \<bar>p + d\<bar> = r then 0 else p + d)"
proof (cases "p + d \<ge> 0")
  case True
  then have "(p + d) smod r = (p + d) mod r" using assms by (simp add: smod_int_alt_def sgn_if)
  then show ?thesis using assms True by (cases "p + d = r") (auto simp: abs_if split: if_splits)
next
  case False
  then have "(p + d) smod r = - ((- (p + d)) mod r)" using assms by (simp add: smod_int_alt_def sgn_if)
  then show ?thesis using assms False by (cases "- (p + d) = r") (auto simp: abs_if mod_pos_pos_trivial split: if_splits)
qed

text \<open>The callbacks are logged; the turns of an encoder are its counter-clockwise less its clockwise calls.\<close>

definition log_turn :: "u8 \<Rightarrow> bool \<Rightarrow> (u8 \<times> bool) list \<Rightarrow> (u8 \<times> bool) list" where
  "log_turn i cw log = log @ [(i, cw)]"

definition turns :: "'s encoders \<Rightarrow> nat \<Rightarrow> (u8 \<times> bool) list \<Rightarrow> int" where
  "turns b i log =
     int (count_list log (of_nat i, ENCODER_COUNTER_CLOCKWISE b)) - int (count_list log (of_nat i, ENCODER_CLOCKWISE b))"

lemma directions_differ [simp]: "ENCODER_COUNTER_CLOCKWISE b \<noteq> ENCODER_CLOCKWISE b"
  by (simp add: ENCODER_CLOCKWISE_def ENCODER_COUNTER_CLOCKWISE_def)

lemma turns_log:
  assumes "encoder_update_kb b = log_turn" "i < 256" "j < 256"
  shows "turns b j (enc_world (encoder_turn b i up s)) =
    turns b j (enc_world s) + (if i \<noteq> j then 0 else if up then 1 else - 1)"
proof -
  have "(of_nat i :: u8) = of_nat j \<longleftrightarrow> i = j"
    using assms(2,3) by (simp add: word_of_nat_eq_iff take_bit_eq_mod)
  then show ?thesis by (auto simp: turns_def encoder_turn_def Let_def assms(1) log_turn_def
        ENCODER_CLOCKWISE_def ENCODER_COUNTER_CLOCKWISE_def)
qed

lemma encoder_turn_frame [simp]:
  "encoder_state (encoder_turn b i up s) = encoder_state s" "encoder_pulses (encoder_turn b i up s) = encoder_pulses s"
  "length (encoder_value (encoder_turn b i up s)) = length (encoder_value s)"
  by (simp_all add: encoder_turn_def Let_def)

lemma encoder_turn_value:
  "i < length (encoder_value s) \<Longrightarrow>
   encoder_value (encoder_turn b i up s) ! j =
     (if j = i then (if up then encoder_value s ! i + 1 else encoder_value s ! i - 1) else encoder_value s ! j)"
  by (simp add: encoder_turn_def Let_def nth_list_update)

definition follows :: "'s encoders \<Rightarrow> nat \<Rightarrow> int \<Rightarrow> int \<Rightarrow> (u8 \<times> bool) list encoder_st \<Rightarrow> bool" where
  "follows b k n0 n s \<longleftrightarrow>
     length (encoder_state s) = NUMBER_OF_ENCODERS b \<and> length (encoder_pulses s) = NUMBER_OF_ENCODERS b \<and>
     this_hand b + NUMBER_OF_ENCODERS b \<le> length (encoder_value s) \<and>
     encoder_state s ! k AND 3 = read_pads (shaft_pads n) \<and>
     \<bar>sint (encoder_pulses s ! k)\<bar> < uint (encoder_resolutions b ! k) \<and>
     n0 - n = uint (encoder_resolutions b ! k) * turns b (k + this_hand b) (enc_world s) + sint (encoder_pulses s ! k) \<and>
     encoder_value s ! (k + this_hand b) = of_int (turns b (k + this_hand b) (enc_world s))"

lemma encoder_read_one_follows:
  assumes "follows b k n0 n s" "m = n \<or> m = n + 1 \<or> m = n - 1" "pads k = shaft_pads m" "k < NUMBER_OF_ENCODERS b"
    and b: "encoder_update_kb b = log_turn" "ENCODER_DEFAULT_POS b = None" "this_hand b + NUMBER_OF_ENCODERS b \<le> 256"
      "uint (encoder_resolutions b ! k) \<le> 127"
  shows "follows b k n0 m (snd (encoder_read_one b pads (ch, s) k))"
proof -
  define r where "r = uint (encoder_resolutions b ! k)"
  define p where "p = encoder_pulses s ! k"
  define st where "st = push_bit 2 (encoder_state s ! k) OR read_pads (pads k)"
  define pulses where "pulses = p + of_int (encoder_LUT ! unat (st AND 15))"
  note f = assms(1) [unfolded follows_def, folded r_def p_def]
  have d: "encoder_LUT ! unat (st AND 15) = n - m" "\<bar>n - m\<bar> \<le> 1"
    using LUT_step [OF assms(2)] f assms(2,3) by (auto simp: st_def)
  have r: "\<bar>sint p\<bar> < r" "r \<le> 127" using f b(4) by (auto simp: r_def)
  have sp: "sint pulses = sint p + (n - m)" unfolding pulses_def d(1) using d(2) r by (intro sint_add8) auto
  define q where "q = (if \<bar>sint p + (n - m)\<bar> = r then 0 else sint p + (n - m))"
  have q: "sint pulses smod r = q" unfolding sp q_def using smod_wrap [OF r(1) d(2)] .
  have qr: "\<bar>q\<bar> < r" using r d(2) by (auto simp: q_def abs_if split: if_splits)
  then have sq: "sint (of_int q :: u8) = q" "\<bar>q\<bar> < r" using r(2) by (auto intro!: sint_of_int8)
  have low: "st AND 3 = read_pads (shaft_pads m)" by (simp add: st_def state_low_bits assms(3))
  let ?s = "s\<lparr>encoder_state := (encoder_state s)[k := st]\<rparr>" and ?i = "k + this_hand b"
  have i: "?i < length (encoder_value s)" "?i < 256" "k < length (encoder_state s)" "k < length (encoder_pulses s)"
    using f assms(4) b(3) by auto
  let ?done = "\<lambda>s'. s'\<lparr>encoder_pulses := (encoder_pulses s')[k := of_int q]\<rparr>"
  consider "sint p + (n - m) = r" | "sint p + (n - m) = - r" | "\<bar>sint p + (n - m)\<bar> < r"
    using r(1) d(2) by fastforce
  then show ?thesis
  proof cases
    case 1
    then have "snd (encoder_read_one b pads (ch, s) k) = ?done (encoder_turn b ?i True ?s)"
      using r(1) by (simp add: encoder_read_one_def encoder_update_def Let_def b(2) sp 1 q [unfolded sp 1]
          flip: st_def p_def r_def pulses_def)
    then show ?thesis using f i low sq 1 r(1)
      by (simp add: follows_def turns_log [OF b(1)] encoder_turn_value q_def algebra_simps flip: r_def)
  next
    case 2
    then have "snd (encoder_read_one b pads (ch, s) k) = ?done (encoder_turn b ?i False ?s)"
      using r(1) by (simp add: encoder_read_one_def encoder_update_def Let_def b(2) sp 2 q_def smod_int_alt_def
          flip: st_def p_def r_def pulses_def)
    then show ?thesis using f i low sq 2 r(1)
      by (simp add: follows_def turns_log [OF b(1)] encoder_turn_value q_def algebra_simps flip: r_def)
  next
    case 3
    then have "snd (encoder_read_one b pads (ch, s) k) = ?done ?s"
      by (simp add: encoder_read_one_def encoder_update_def Let_def b(2) sp q [unfolded sp]
          flip: st_def p_def r_def pulses_def)
    then show ?thesis using f i low sq 3
      by (simp add: follows_def q_def algebra_simps flip: r_def)
  qed
qed

lemma encoder_read_other:
  assumes "follows b k n0 n s" "j \<noteq> k" "j < NUMBER_OF_ENCODERS b" "k < NUMBER_OF_ENCODERS b"
    and b: "encoder_update_kb b = log_turn" "this_hand b + NUMBER_OF_ENCODERS b \<le> 256"
  shows "follows b k n0 n (snd (encoder_read_one b pads (ch, s) j))"
  using assms
  by (simp add: follows_def encoder_read_one_def encoder_update_def Let_def turns_log encoder_turn_value split: prod.split)

lemma encoder_reads_follow:
  assumes "follows b k n0 n s" "m = n \<or> m = n + 1 \<or> m = n - 1" "pads k = shaft_pads m" "k < NUMBER_OF_ENCODERS b"
    and b: "encoder_update_kb b = log_turn" "ENCODER_DEFAULT_POS b = None" "this_hand b + NUMBER_OF_ENCODERS b \<le> 256"
      "uint (encoder_resolutions b ! k) \<le> 127"
  shows "follows b k n0 m (snd (encoder_read b pads s))"
proof -
  have "j \<le> NUMBER_OF_ENCODERS b \<Longrightarrow>
      follows b k n0 (if k < j then m else n) (snd (foldl (encoder_read_one b pads) (False, s) [0..<j]))" for j
  proof (induction j)
    case (Suc j)
    obtain ch s' where s': "foldl (encoder_read_one b pads) (False, s) [0..<j] = (ch, s')" by fastforce
    then have IH: "follows b k n0 (if k < j then m else n) s'" using Suc by simp
    show ?case
    proof (cases "j = k")
      case True
      then show ?thesis using encoder_read_one_follows [where pads = pads, OF _ assms(2-4) b] IH s' by simp
    next
      case False
      then show ?thesis using encoder_read_other [OF IH False _ assms(4) b(1,3)] Suc.prems s' by (simp add: less_Suc_eq)
    qed
  qed (simp add: assms(1))
  from this [of "NUMBER_OF_ENCODERS b"] show ?thesis using assms(4) by (simp add: encoder_read_def)
qed

lemma encoder_init_follows:
  assumes "pads k = shaft_pads n" "k < NUMBER_OF_ENCODERS b" "encoder_resolutions b ! k \<noteq> 0"
    "this_hand b + NUMBER_OF_ENCODERS b \<le> NUMBER_OF_ENCODERS b * hands"
  shows "follows b k n n (encoder_init b pads hands [])"
proof -
  have "uint (encoder_resolutions b ! k) > 0" using assms(3) by (simp add: order_less_le uint_0_iff)
  moreover have "read_pads p AND 3 = read_pads p" for p by (auto simp: read_pads_def)
  ultimately show ?thesis using assms by (simp add: follows_def encoder_init_def turns_def)
qed

text \<open>The positions of the shaft at the reads: it moves by at most one step from read to read.\<close>

fun steady_shaft :: "int \<Rightarrow> int list \<Rightarrow> bool" where
  "steady_shaft n [] \<longleftrightarrow> True"
| "steady_shaft n (m # ms) \<longleftrightarrow> (m = n \<or> m = n + 1 \<or> m = n - 1) \<and> steady_shaft m ms"

text \<open>
  C32. The encoder follows its shaft.  If the shaft moves by at most one step of the Gray code between two reads, in
  whatever way it goes to and fro, the callbacks of this encoder and its counter account for all of the way,
  with a rest of less than a detent in the pulses; so no detent is lost and none is reported twice.
\<close>

theorem encoder_follows_shaft:
  assumes "steady_shaft n0 (map snd reads)" "k < NUMBER_OF_ENCODERS b" "pads0 k = shaft_pads n0"
    "\<forall>(pads, n) \<in> set reads. pads k = shaft_pads n"
    and b: "encoder_update_kb b = log_turn" "ENCODER_DEFAULT_POS b = None" "this_hand b + NUMBER_OF_ENCODERS b \<le> 256"
      "this_hand b + NUMBER_OF_ENCODERS b \<le> NUMBER_OF_ENCODERS b * hands"
      "r = uint (encoder_resolutions b ! k)" "0 < r" "r \<le> 127"
    and s: "s = foldl (\<lambda>s (pads, n). snd (encoder_read b pads s)) (encoder_init b pads0 hands []) reads"
  shows "let t = turns b (k + this_hand b) (enc_world s); p = sint (encoder_pulses s ! k)
    in n0 - last (n0 # map snd reads) = r * t + p \<and> \<bar>p\<bar> < r \<and> encoder_value s ! (k + this_hand b) = of_int t"
proof -
  have run: "follows b k n0 (last (n # map snd reads)) (foldl (\<lambda>s (pads, n). snd (encoder_read b pads s)) s reads)"
    if "follows b k n0 n s" "steady_shaft n (map snd reads)" "\<forall>(pads, n) \<in> set reads. pads k = shaft_pads n" for n s reads
    using that
  proof (induction reads arbitrary: n s)
    case (Cons x reads)
    obtain pads m where x: "x = (pads, m)" by fastforce
    have "follows b k n0 m (snd (encoder_read b pads s))"
      using Cons.prems b(5,7) by (intro encoder_reads_follow [OF Cons.prems(1) _ _ assms(2) b(1-3)]) (auto simp: x)
    from Cons.IH [OF this] show ?case using Cons.prems by (simp add: x)
  qed simp
  have "encoder_resolutions b ! k \<noteq> 0" using b(5,6) by auto
  from run [OF encoder_init_follows [where pads = pads0, OF assms(3,2) this b(4)] assms(1,4)]
  show ?thesis unfolding s [symmetric] by (simp add: follows_def Let_def b(5))
qed

lemma encoder_follows_shaft_witness:
  "let b = \<lparr>encoder_resolutions = [4], DIRECTION_FLIP = False, ENCODER_DEFAULT_POS = None, this_hand = 0,
            that_hand = 1, encoder_update_kb = log_turn\<rparr>;
       reads = map (\<lambda>n. (\<lambda>_. shaft_pads n, n)) [1, 2, 1, 2, 3, 4, 5];
       s = foldl (\<lambda>s (pads, n). snd (encoder_read b pads s)) (encoder_init b (\<lambda>_. shaft_pads 0) 1 []) reads
   in 4 * turns b 0 (enc_world s) + sint (encoder_pulses s ! 0) = - 5"
proof -
  define b :: "(u8 \<times> bool) list encoders" where "b = \<lparr>encoder_resolutions = [4], DIRECTION_FLIP = False,
    ENCODER_DEFAULT_POS = None, this_hand = 0, that_hand = 1, encoder_update_kb = log_turn\<rparr>"
  define reads :: "((nat \<Rightarrow> bool \<times> bool) \<times> int) list" where
    "reads = map (\<lambda>n. (\<lambda>_. shaft_pads n, n)) [1, 2, 1, 2, 3, 4, 5]"
  define s where "s = foldl (\<lambda>s (pads, n). snd (encoder_read b pads s)) (encoder_init b (\<lambda>_. shaft_pads 0) 1 []) reads"
  have reads: "steady_shaft 0 (map snd reads)" "\<forall>(pads, n) \<in> set reads. pads 0 = shaft_pads n" "last (0 # map snd reads) = 5"
    by (simp_all add: reads_def)
  have "let t = turns b (0 + this_hand b) (enc_world s); p = sint (encoder_pulses s ! 0)
    in 0 - last (0 # map snd reads) = 4 * t + p \<and> \<bar>p\<bar> < 4 \<and> encoder_value s ! (0 + this_hand b) = of_int t"
    by (rule encoder_follows_shaft [OF reads(1) _ _ reads(2) _ _ _ _ _ _ _ s_def]) (simp_all add: b_def)
  then show ?thesis using reads(3)
    unfolding Let_def b_def [symmetric] reads_def [symmetric] s_def [symmetric]
    by (simp add: b_def)
qed

section \<open>The other half is replayed\<close>

lemma raw_up_turns:
  "sint delta \<ge> 0 \<Longrightarrow> raw_up b i delta (ch, s) =
    (0, ch \<or> delta \<noteq> 0, ((encoder_turn b i True) ^^ nat (sint delta)) s)"
proof (induction b i delta "(ch, s)" arbitrary: ch s rule: raw_up.induct)
  case (1 b i delta ch s)
  show ?case
  proof (cases "sint delta > 0")
    case True
    then obtain k where k: "nat (sint delta) = Suc k" "nat (sint (delta - 1)) = k"
      using sint_pred [of delta] by (cases "nat (sint delta)") auto
    have "raw_up b i (delta - 1) (True, encoder_turn b i True s) =
        (0, True \<or> delta - 1 \<noteq> 0, ((encoder_turn b i True) ^^ nat (sint (delta - 1))) (encoder_turn b i True s))"
      using 1(1) [OF True] True sint_pred by simp
    then show ?thesis unfolding k using True by (subst raw_up.simps) (auto simp: funpow_swap1)
  next
    case False
    then have "sint delta = 0" using "1.prems" by simp
    moreover have "delta = of_int (sint delta)" by simp
    ultimately have "delta = 0" by simp
    then show ?thesis by (simp add: raw_up.simps)
  qed
qed

lemma raw_down_turns:
  "sint delta \<le> 0 \<Longrightarrow> raw_down b i delta (ch, s) =
    (0, ch \<or> delta \<noteq> 0, ((encoder_turn b i False) ^^ nat (- sint delta)) s)"
proof (induction b i delta "(ch, s)" arbitrary: ch s rule: raw_down.induct)
  case (1 b i delta ch s)
  show ?case
  proof (cases "sint delta < 0")
    case True
    then obtain k where k: "nat (- sint delta) = Suc k" "nat (- sint (delta + 1)) = k"
      using sint_succ [of delta] by (cases "nat (- sint delta)") auto
    have "raw_down b i (delta + 1) (True, encoder_turn b i False s) =
        (0, True \<or> delta + 1 \<noteq> 0, ((encoder_turn b i False) ^^ nat (- sint (delta + 1))) (encoder_turn b i False s))"
      using 1(1) [OF True] True sint_succ by simp
    then show ?thesis unfolding k using True by (subst raw_down.simps) (auto simp: funpow_swap1)
  next
    case False
    then have "sint delta = 0" using "1.prems" by simp
    moreover have "delta = of_int (sint delta)" by simp
    ultimately have "delta = 0" by simp
    then show ?thesis by (simp add: raw_down.simps)
  qed
qed

lemma turns_effect:
  assumes "i < length (encoder_value s)" "i < 256" "encoder_update_kb b = log_turn"
  shows "let s' = ((encoder_turn b i up) ^^ n) s
    in length (encoder_value s') = length (encoder_value s) \<and>
       (\<forall>j. encoder_value s' ! j = (if j = i then encoder_value s ! i + (if up then of_nat n else - of_nat n) else encoder_value s ! j)) \<and>
       enc_world s' = enc_world s @ replicate n (of_nat i, if up then ENCODER_COUNTER_CLOCKWISE b else ENCODER_CLOCKWISE b)"
proof (induction n)
  case (Suc n)
  then show ?case using assms
    by (auto simp: Let_def encoder_turn_value) (auto simp: encoder_turn_def Let_def log_turn_def replicate_append_same)
qed simp

text \<open>The calls that a signed distance makes.\<close>

definition replay :: "'s encoders \<Rightarrow> nat \<Rightarrow> u8 \<Rightarrow> (u8 \<times> bool) list" where
  "replay b i delta =
     (if sint delta \<ge> 0 then replicate (nat (sint delta)) (of_nat i, ENCODER_COUNTER_CLOCKWISE b)
      else replicate (nat (- sint delta)) (of_nat i, ENCODER_CLOCKWISE b))"

lemma raw_one_replays:
  assumes "i + that_hand b < length (encoder_value s)" "i + that_hand b < 256" "encoder_update_kb b = log_turn"
  shows "\<exists>s'. raw_one b slave (ch, s) i = (ch \<or> slave ! i \<noteq> encoder_value s ! (i + that_hand b), s') \<and>
    encoder_value s' = (encoder_value s)[i + that_hand b := slave ! i] \<and>
    enc_world s' = enc_world s @ replay b (i + that_hand b) (slave ! i - encoder_value s ! (i + that_hand b))"
proof -
  let ?j = "i + that_hand b" and ?d = "slave ! i - encoder_value s ! (i + that_hand b)"
  have word: "of_nat (nat (sint ?d)) = ?d" if "sint ?d \<ge> 0" using that by (simp add: of_nat_nat)
  have word': "of_nat (nat (- sint ?d)) = - ?d" if "sint ?d < 0"
    using that by (simp add: of_nat_nat)
  show ?thesis
  proof (cases "sint ?d \<ge> 0")
    case True
    let ?s = "((encoder_turn b ?j True) ^^ nat (sint ?d)) s"
    have "raw_one b slave (ch, s) i = (ch \<or> ?d \<noteq> 0, ?s)"
      by (simp add: raw_one_def raw_up_turns [OF True] raw_down.simps Let_def)
    moreover have "encoder_value ?s = (encoder_value s)[?j := slave ! i]"
      using turns_effect [OF assms, where up = True and n = "nat (sint ?d)"] word [OF True]
      by (auto intro!: nth_equalityI simp: Let_def nth_list_update)
    ultimately show ?thesis using turns_effect [OF assms, where up = True and n = "nat (sint ?d)"] True by (auto simp: Let_def replay_def)
  next
    case False
    let ?s = "((encoder_turn b ?j False) ^^ nat (- sint ?d)) s"
    have "raw_one b slave (ch, s) i = (ch \<or> ?d \<noteq> 0, ?s)"
      using False by (simp add: raw_one_def raw_down_turns raw_up.simps Let_def)
    moreover have "encoder_value ?s = (encoder_value s)[?j := slave ! i]"
      using turns_effect [OF assms, where up = False and n = "nat (- sint ?d)"] word' False
      by (auto intro!: nth_equalityI simp: Let_def nth_list_update)
    ultimately show ?thesis using turns_effect [OF assms, where up = False and n = "nat (- sint ?d)"] False by (auto simp: Let_def replay_def)
  qed
qed

text \<open>
  The other half's encoders are replayed.  After an exchange with the other half the counters of its encoders
  are those it has sent, no other counter changes, and for every encoder the callbacks are called as many times as
  it has turned since the last exchange, in its direction; the activity is noted if any encoder has turned.
\<close>

theorem other_half_is_replayed:
  assumes "that_hand b + NUMBER_OF_ENCODERS b \<le> length (encoder_value s)" "length (encoder_value s) \<le> 256"
    "encoder_update_kb b = log_turn" "length slave = NUMBER_OF_ENCODERS b"
  shows "let s' = encoder_update_raw b activity slave s; n = NUMBER_OF_ENCODERS b; h = that_hand b;
      old = take n (drop h (encoder_value s)); calls = concat (map (\<lambda>i. replay b (i + h) (slave ! i - old ! i)) [0..<n])
    in encoder_value s' = take h (encoder_value s) @ slave @ drop (h + n) (encoder_value s) \<and>
       enc_world s' = (if slave \<noteq> old then activity (enc_world s @ calls) else enc_world s @ calls)"
proof -
  let ?n = "NUMBER_OF_ENCODERS b" and ?h = "that_hand b" and ?v = "encoder_value s"
  have loop: "j \<le> ?n \<Longrightarrow> \<exists>s'. foldl (raw_one b slave) (False, s) [0..<j] = (\<exists>i < j. slave ! i \<noteq> ?v ! (i + ?h), s') \<and>
      encoder_value s' = take ?h ?v @ take j slave @ drop (?h + j) ?v \<and>
      enc_world s' = enc_world s @ concat (map (\<lambda>i. replay b (i + ?h) (slave ! i - ?v ! (i + ?h))) [0..<j])" for j
  proof (induction j)
    case (Suc j)
    then obtain s1 where s1: "foldl (raw_one b slave) (False, s) [0..<j] = (\<exists>i < j. slave ! i \<noteq> ?v ! (i + ?h), s1)"
      "encoder_value s1 = take ?h ?v @ take j slave @ drop (?h + j) ?v"
      "enc_world s1 = enc_world s @ concat (map (\<lambda>i. replay b (i + ?h) (slave ! i - ?v ! (i + ?h))) [0..<j])" by auto
    have j: "j + ?h < length (encoder_value s1)" "j + ?h < 256" "encoder_value s1 ! (j + ?h) = ?v ! (j + ?h)"
      "(encoder_value s1)[j + ?h := slave ! j] = take ?h ?v @ take (Suc j) slave @ drop (?h + Suc j) ?v"
      using assms Suc.prems s1(2)
      by (auto intro!: nth_equalityI simp: nth_append nth_list_update min_def not_less_eq less_Suc_eq add.commute [of j])
    then show ?case using raw_one_replays [OF j(1,2) assms(3), of slave "\<exists>i < j. slave ! i \<noteq> ?v ! (i + ?h)"] s1
      by (auto simp: less_Suc_eq)
  qed simp
  have "slave \<noteq> take ?n (drop ?h ?v) \<longleftrightarrow> (\<exists>i < ?n. slave ! i \<noteq> ?v ! (i + ?h))"
    using assms by (auto simp: list_eq_iff_nth_eq add.commute)
  moreover have "concat (map (\<lambda>i. replay b (i + ?h) (slave ! i - take ?n (drop ?h ?v) ! i)) [0..<?n]) =
      concat (map (\<lambda>i. replay b (i + ?h) (slave ! i - ?v ! (i + ?h))) [0..<?n])"
    using assms by (intro arg_cong [of _ _ concat] map_cong) (auto simp: add.commute)
  ultimately show ?thesis using loop [OF order_refl] assms(4) by (auto simp: encoder_update_raw_def Let_def)
qed

lemma other_half_is_replayed_witness:
  "let b = \<lparr>encoder_resolutions = [4, 4], DIRECTION_FLIP = False, ENCODER_DEFAULT_POS = None, this_hand = 0,
            that_hand = 2, encoder_update_kb = log_turn\<rparr>;
       s = encoder_update_raw b (\<lambda>log. log) [2, 255] \<lparr>encoder_state = [0, 0], encoder_pulses = [0, 0],
             encoder_value = [7, 7, 0, 0], enc_world = []\<rparr>
   in encoder_value s = [7, 7, 2, 255] \<and> enc_world s = [(2, False), (2, False), (3, True)]"
proof -
  define b :: "(u8 \<times> bool) list encoders" where "b = \<lparr>encoder_resolutions = [4, 4], DIRECTION_FLIP = False,
    ENCODER_DEFAULT_POS = None, this_hand = 0, that_hand = 2, encoder_update_kb = log_turn\<rparr>"
  define s :: "(u8 \<times> bool) list encoder_st" where "s = \<lparr>encoder_state = [0, 0], encoder_pulses = [0, 0],
    encoder_value = [7, 7, 0, 0], enc_world = []\<rparr>"
  have "let s' = encoder_update_raw b (\<lambda>log. log) [2, 255] s; n = NUMBER_OF_ENCODERS b; h = that_hand b;
      old = take n (drop h (encoder_value s));
      calls = concat (map (\<lambda>i. replay b (i + h) ([2, 255] ! i - old ! i)) [0..<n])
    in encoder_value s' = take h (encoder_value s) @ [2, 255] @ drop (h + n) (encoder_value s) \<and>
       enc_world s' = (if [2, 255] \<noteq> old then (\<lambda>log. log) (enc_world s @ calls) else enc_world s @ calls)"
    by (rule other_half_is_replayed) (simp_all add: b_def s_def)
  moreover have "that_hand b = 2" "NUMBER_OF_ENCODERS b = 2" "encoder_value s = [7, 7, 0, 0]" "enc_world s = []"
    by (simp_all add: b_def s_def)
  moreover have "replay b 2 2 = [(2, False), (2, False)]" "replay b 3 255 = [(3, True)]"
    by (simp_all add: replay_def b_def ENCODER_CLOCKWISE_def ENCODER_COUNTER_CLOCKWISE_def numeral_2_eq_2)
  ultimately show ?thesis
    unfolding Let_def b_def [symmetric] s_def [symmetric] by (simp add: numeral_2_eq_2 numeral_3_eq_3 eval_nat_numeral)
qed

end
