(* ===== verification/Send_String.thy ===== *)
theory Send_String
  imports Action_Register
begin

text \<open>
  Strings as key strokes, \<^verbatim>\<open>quantum/send_string.c\<close>.  A string is the list of its bytes, the terminating
  \<^verbatim>\<open>NUL\<close> included; a read past its end, or past the end of a look-up table, is the result \<open>None\<close>.
  The look-up tables are weak symbols that a keymap may replace: they are the record \<open>luts\<close>, with the
  tables of the file in \<open>ascii_luts\<close>.  Builds without \<^verbatim>\<open>SENDSTRING_BELL\<close>.
\<close>

section \<open>The tables\<close>

record luts =
  to_shift :: "u8 list"
  to_altgr :: "u8 list"
  to_dead :: "u8 list"
  to_keycode :: "u8 list"

fun KCLUT_ENTRY :: "nat list \<Rightarrow> u8" where
  "KCLUT_ENTRY [] = 0"
| "KCLUT_ENTRY (b # bs) = (if b \<noteq> 0 then 1 else 0) OR push_bit 1 (KCLUT_ENTRY bs)"

definition ascii_to_shift_lut :: "u8 list" where
  "ascii_to_shift_lut = map KCLUT_ENTRY
    [[0, 0, 0, 0, 0, 0, 0, 0], [0, 0, 0, 0, 0, 0, 0, 0], [0, 0, 0, 0, 0, 0, 0, 0], [0, 0, 0, 0, 0, 0, 0, 0],
     [0, 1, 1, 1, 1, 1, 1, 0], [1, 1, 1, 1, 0, 0, 0, 0], [0, 0, 0, 0, 0, 0, 0, 0], [0, 0, 1, 0, 1, 0, 1, 1],
     [1, 1, 1, 1, 1, 1, 1, 1], [1, 1, 1, 1, 1, 1, 1, 1], [1, 1, 1, 1, 1, 1, 1, 1], [1, 1, 1, 0, 0, 0, 1, 1],
     [0, 0, 0, 0, 0, 0, 0, 0], [0, 0, 0, 0, 0, 0, 0, 0], [0, 0, 0, 0, 0, 0, 0, 0], [0, 0, 0, 1, 1, 1, 1, 0]]"

definition ascii_to_altgr_lut :: "u8 list" where "ascii_to_altgr_lut = replicate 16 (KCLUT_ENTRY [0, 0, 0, 0, 0, 0, 0, 0])"

definition ascii_to_dead_lut :: "u8 list" where "ascii_to_dead_lut = replicate 16 (KCLUT_ENTRY [0, 0, 0, 0, 0, 0, 0, 0])"

definition ascii_to_keycode_lut :: "u8 list" where
  "ascii_to_keycode_lut =
    [KC_NO, KC_NO, KC_NO, KC_NO, KC_NO, KC_NO, KC_NO, KC_NO,
     KC_BACKSPACE, KC_TAB, KC_ENTER, KC_NO, KC_NO, KC_NO, KC_NO, KC_NO,
     KC_NO, KC_NO, KC_NO, KC_NO, KC_NO, KC_NO, KC_NO, KC_NO,
     KC_NO, KC_NO, KC_NO, KC_ESCAPE, KC_NO, KC_NO, KC_NO, KC_NO,
     KC_SPACE, KC_1, KC_QUOTE, KC_3, KC_4, KC_5, KC_7, KC_QUOTE,
     KC_9, KC_0, KC_8, KC_EQUAL, KC_COMMA, KC_MINUS, KC_DOT, KC_SLASH,
     KC_0, KC_1, KC_2, KC_3, KC_4, KC_5, KC_6, KC_7,
     KC_8, KC_9, KC_SEMICOLON, KC_SEMICOLON, KC_COMMA, KC_EQUAL, KC_DOT, KC_SLASH,
     KC_2, KC_A, KC_B, KC_C, KC_D, KC_E, KC_F, KC_G,
     KC_H, KC_I, KC_J, KC_K, KC_L, KC_M, KC_N, KC_O,
     KC_P, KC_Q, KC_R, KC_S, KC_T, KC_U, KC_V, KC_W,
     KC_X, KC_Y, KC_Z, KC_LEFT_BRACKET, KC_BACKSLASH, KC_RIGHT_BRACKET, KC_6, KC_MINUS,
     KC_GRAVE, KC_A, KC_B, KC_C, KC_D, KC_E, KC_F, KC_G,
     KC_H, KC_I, KC_J, KC_K, KC_L, KC_M, KC_N, KC_O,
     KC_P, KC_Q, KC_R, KC_S, KC_T, KC_U, KC_V, KC_W,
     KC_X, KC_Y, KC_Z, KC_LEFT_BRACKET, KC_BACKSLASH, KC_RIGHT_BRACKET, KC_GRAVE, KC_DELETE]"

definition ascii_luts :: luts where
  "ascii_luts = \<lparr>to_shift = ascii_to_shift_lut, to_altgr = ascii_to_altgr_lut, to_dead = ascii_to_dead_lut,
                 to_keycode = ascii_to_keycode_lut\<rparr>"

definition PGM_LOADBIT :: "u8 list \<Rightarrow> nat \<Rightarrow> bool" where
  "PGM_LOADBIT mem pos \<longleftrightarrow> drop_bit (pos mod 8) (mem ! (pos div 8)) AND 1 \<noteq> 0"

section \<open>Characters\<close>

definition send_char :: "luts \<Rightarrow> 's config \<Rightarrow> u8 \<Rightarrow> 'a util_st_scheme \<Rightarrow> 'a util_st_scheme option" where
  "send_char l c ascii_code s =
     (if 128 \<le> ascii_code then None
      else let i = unat ascii_code; keycode = to_keycode l ! i; is_shifted = PGM_LOADBIT (to_shift l) i;
               is_altgred = PGM_LOADBIT (to_altgr l) i; is_dead = PGM_LOADBIT (to_dead l) i;
               s = (if is_shifted then register_code c KC_LEFT_SHIFT s else s);
               s = (if is_altgred then register_code c KC_RIGHT_ALT s else s);
               s = tap_code c keycode s;
               s = (if is_altgred then unregister_code c KC_RIGHT_ALT s else s);
               s = (if is_shifted then unregister_code c KC_LEFT_SHIFT s else s)
           in Some (if is_dead then tap_code c KC_SPACE s else s))"

definition send_nibble :: "luts \<Rightarrow> 's config \<Rightarrow> u8 \<Rightarrow> 'a util_st_scheme \<Rightarrow> 'a util_st_scheme option" where
  "send_nibble l c number s =
     (if number AND 0xF \<le> 9 then send_char l c (number + 0x30) s else send_char l c (number - 10 + 0x61) s)"

definition send_byte :: "luts \<Rightarrow> 's config \<Rightarrow> u8 \<Rightarrow> 'a util_st_scheme \<Rightarrow> 'a util_st_scheme option" where
  "send_byte l c number s =
     Option.bind (send_nibble l c (drop_bit 4 number) s) (send_nibble l c (number AND 0xF))"

definition send_word :: "luts \<Rightarrow> 's config \<Rightarrow> u16 \<Rightarrow> 'a util_st_scheme \<Rightarrow> 'a util_st_scheme option" where
  "send_word l c number s =
     Option.bind (send_byte l c (ucast (drop_bit 8 number)) s) (send_byte l c (ucast (number AND 0xFF)))"

definition send_dword :: "luts \<Rightarrow> 's config \<Rightarrow> u32 \<Rightarrow> 'a util_st_scheme \<Rightarrow> 'a util_st_scheme option" where
  "send_dword l c number s =
     Option.bind (send_word l c (ucast (drop_bit 16 number)) s) (send_word l c (ucast (number AND 0xFFFF)))"

text \<open>The key that \<^verbatim>\<open>tap_random_base64\<close> draws is an argument.\<close>

definition tap_random_base64 :: "luts \<Rightarrow> 's config \<Rightarrow> u8 \<Rightarrow> 'a util_st_scheme \<Rightarrow> 'a util_st_scheme option" where
  "tap_random_base64 l c random s =
     (let k = random mod 64
      in if k \<le> 25 then send_char l c (k + 0x41) s
         else if k \<le> 51 then send_char l c (k - 26 + 0x61) s
         else if k = 52 then send_char l c 0x30 s
         else if k \<le> 61 then send_char l c (k - 53 + 0x31) s
         else if k = 62 then send_char l c 0x2B s
         else send_char l c 0x2F s)"

section \<open>Strings\<close>

definition SS_QMK_PREFIX :: u8 where "SS_QMK_PREFIX = 1"
definition SS_TAP_CODE :: u8 where "SS_TAP_CODE = 1"
definition SS_DOWN_CODE :: u8 where "SS_DOWN_CODE = 2"
definition SS_UP_CODE :: u8 where "SS_UP_CODE = 3"
definition SS_DELAY_CODE :: u8 where "SS_DELAY_CODE = 4"

definition isdigit :: "u8 \<Rightarrow> bool" where "isdigit k \<longleftrightarrow> 0x30 \<le> k \<and> k \<le> 0x39"

text \<open>
  The digits of a delay, from the byte after the code: the milliseconds and the string behind the byte that ends them.
  An overflow of the \<^verbatim>\<open>int\<close> is undefined behaviour, hence \<open>None\<close>.
\<close>

fun read_delay :: "nat \<Rightarrow> u8 list \<Rightarrow> (nat \<times> u8 list) option" where
  "read_delay ms [] = None"
| "read_delay ms (k # str) =
     (if isdigit k
      then let ms = ms * 10 + unat (k - 0x30) in if ms < 2 ^ 31 then read_delay ms str else None
      else Some (ms, str))"

text \<open>One round of the loop: the string behind what it has sent.\<close>

fun send_item :: "luts \<Rightarrow> 's config \<Rightarrow> u8 list \<Rightarrow> 'a util_st_scheme \<Rightarrow> (u8 list \<times> 'a util_st_scheme) option" where
  "send_item l c [] s = None"
| "send_item l c (ascii_code # str) s =
     (if ascii_code = SS_QMK_PREFIX
      then case str of [] \<Rightarrow> None
           | code # str \<Rightarrow>
               if code = SS_TAP_CODE
               then case str of [] \<Rightarrow> None | keycode # str \<Rightarrow> Some (str, tap_code c keycode s)
               else if code = SS_DOWN_CODE
               then case str of [] \<Rightarrow> None | keycode # str \<Rightarrow> Some (str, register_code c keycode s)
               else if code = SS_UP_CODE
               then case str of [] \<Rightarrow> None | keycode # str \<Rightarrow> Some (str, unregister_code c keycode s)
               else if code = SS_DELAY_CODE
               then map_option (\<lambda>(ms, str). (str, wait_steps ms s)) (read_delay 0 str)
               else Some (str, s)
      else map_option (Pair str) (send_char l c ascii_code s))"

lemma read_delay_shorter: "read_delay ms str = Some (n, str') \<Longrightarrow> length str' < length str"
  by (induction ms str rule: read_delay.induct) (auto simp: Let_def split: if_splits)

lemma send_item_shorter: "send_item l c str s = Some (str', s') \<Longrightarrow> length str' < length str"
  by (cases str) (auto split: if_splits list.splits dest!: read_delay_shorter)

function send_string_with_delay ::
    "luts \<Rightarrow> 's config \<Rightarrow> u8 \<Rightarrow> u8 list \<Rightarrow> 'a util_st_scheme \<Rightarrow> 'a util_st_scheme option" where
  "send_string_with_delay l c interval str s =
     (if str = [] then None
      else if hd str = 0 then Some s
      else case send_item l c str s of None \<Rightarrow> None
           | Some (str, s) \<Rightarrow> send_string_with_delay l c interval str (wait_steps (unat interval) s))"
  by pat_completeness auto
termination by (relation "measure (\<lambda>(l, c, i, str, s). length str)") (auto dest: send_item_shorter)

declare send_string_with_delay.simps [simp del]

definition send_string :: "luts \<Rightarrow> 's config \<Rightarrow> u8 list \<Rightarrow> 'a util_st_scheme \<Rightarrow> 'a util_st_scheme option" where
  "send_string l c str s = send_string_with_delay l c 0 str s"

section \<open>What the host types\<close>

text \<open>
  The reference: a host with the US layout.  It has the keys that were down in the last report; every key that
  comes down types its character, with the upper one if the report has a shift.
\<close>

definition us_letters :: "(u8 \<times> u8 \<times> u8) list" where
  "us_letters = map (\<lambda>i. (KC_A + of_nat i, 97 + of_nat i, 65 + of_nat i)) [0..<26]"

definition us_others :: "(u8 \<times> u8 \<times> u8) list" where
  "us_others =
    [(KC_1, 49, 33), (KC_2, 50, 64), (KC_3, 51, 35), (KC_4, 52, 36), (KC_5, 53, 37), (KC_6, 54, 94), (KC_7, 55, 38),
     (KC_8, 56, 42), (KC_9, 57, 40), (KC_0, 48, 41), (KC_MINUS, 45, 95), (KC_EQUAL, 61, 43), (KC_LEFT_BRACKET, 91, 123),
     (KC_RIGHT_BRACKET, 93, 125), (KC_BACKSLASH, 92, 124), (KC_SEMICOLON, 59, 58), (KC_QUOTE, 39, 34), (KC_GRAVE, 96, 126),
     (KC_COMMA, 44, 60), (KC_DOT, 46, 62), (KC_SLASH, 47, 63), (KC_SPACE, 32, 32), (KC_ENTER, 10, 10), (KC_TAB, 9, 9),
     (KC_BACKSPACE, 8, 8), (KC_DELETE, 127, 127), (KC_ESCAPE, 27, 27)]"

definition us_char :: "bool \<Rightarrow> u8 \<Rightarrow> u8 option" where
  "us_char shifted k = map_option (if shifted then snd else fst) (map_of (us_letters @ us_others) k)"

definition us_typable :: "u8 list" where
  "us_typable = [8, 9, 10, 27] @ map of_nat [32..<128]"

definition report_modifiers :: "bool \<Rightarrow> report \<Rightarrow> u8" where
  "report_modifiers n r = (if n then r ! 1 else r ! 0)"

definition host_step :: "bool \<Rightarrow> u8 set \<times> u8 option list \<Rightarrow> effect \<Rightarrow> u8 set \<times> u8 option list" where
  "host_step n ho e =
     (case e of
        Keyboard_report r \<Rightarrow>
          (let m = report_modifiers n r
           in (held n r, snd ho @ map (us_char (bit m 1 \<or> bit m 5)) (sorted_list_of_set (held n r - fst ho))))
      | _ \<Rightarrow> ho)"

lemma zero_lut: "i < 128 \<Longrightarrow> \<not> PGM_LOADBIT (replicate 16 0) i"
  by (simp add: PGM_LOADBIT_def)

lemma no_altgr_no_dead:
  "i < 128 \<Longrightarrow> \<not> PGM_LOADBIT ascii_to_altgr_lut i" "i < 128 \<Longrightarrow> \<not> PGM_LOADBIT ascii_to_dead_lut i"
  using zero_lut by (simp_all add: ascii_to_altgr_lut_def ascii_to_dead_lut_def)

lemma typable_keys: "list_all (\<lambda>c. c < 128 \<and> IS_KEY (ascii_to_keycode_lut ! unat c)) us_typable"
  by code_simp

lemma typable_chars:
  "list_all (\<lambda>c. us_char (PGM_LOADBIT ascii_to_shift_lut (unat c)) (ascii_to_keycode_lut ! unat c) = Some c) us_typable"
  by code_simp

subsection \<open>Single reports\<close>

definition at_rest :: "u8 \<Rightarrow> 'a util_st_scheme \<Rightarrow> bool" where
  "at_rest m s \<longleftrightarrow> host_driver s \<and> util_wf s \<and> real_mods s = m \<and> weak_mods s = 0 \<and> macro_mods s = 0 \<and>
     suppressed_mods s = 0 \<and> weak_override_mods s = 0 \<and> oneshot_mods s = 0"

text \<open>One report of the held keys \<open>H\<close> and the modifiers \<open>m\<close> is sent.\<close>

definition reports :: "'a util_st_scheme \<Rightarrow> 'a util_st_scheme \<Rightarrow> u8 set \<Rightarrow> u8 \<Rightarrow> bool" where
  "reports s s' H m \<longleftrightarrow> at_rest m s' \<and> util_held s' = H \<and> nkro s' = nkro s \<and>
     (\<exists>r. effects s' = effects s @ [Keyboard_report r] \<and> held (nkro s) r = H \<and> report_modifiers (nkro s) r = m)"

lemma send_at_rest:
  assumes "at_rest m s"
  shows "reports s (send_keyboard_report c s) (util_held s) m"
proof -
  let ?r = "wire_report (nkro s) m (keyboard_report s)"
  have wf: "host_driver s" "report_wf (keyboard_report s)" "util_wf s" using assms by (simp_all add: at_rest_def util_wf_def)
  have "effective_mods c s = m" "\<not> oneshot_spent c s"
    using assms by (simp_all add: effective_mods_def at_rest_def live_oneshot_mods_def oneshot_spent_def)
  then have send: "send_keyboard_report c s = s\<lparr>keyboard_report := ?r, effects := effects s @ [Keyboard_report ?r]\<rparr>"
    by (simp add: send_report_sends [OF wf(1,2)] Let_def)
  have "held (nkro s) ?r = util_held s" using wire_report_held [OF wf(2)] by (simp add: util_held_def)
  moreover have "report_modifiers (nkro s) ?r = m" using wf(2) by (simp add: report_modifiers_def wire_report_def report_wf_def)
  moreover have "at_rest m (send_keyboard_report c s)" "util_held (send_keyboard_report c s) = util_held s"
    using assms send by (simp_all add: at_rest_def del: util_send) (metis send util_send)+
  ultimately show ?thesis using send by (simp add: reports_def nkro_def)
qed

lemma reports_cong: "nkro s = nkro t \<Longrightarrow> effects s = effects t \<Longrightarrow> reports s s' H m = reports t s' H m"
  by (simp add: reports_def)

lemma key_ops_effects [simp]:
  "effects (add_key k s) = effects s" "effects (del_key k s) = effects s"
  "effects (add_mods m s) = effects s" "effects (del_mods m s) = effects s"
  by (simp_all add: add_key_def del_key_def add_mods_def del_mods_def)

lemma at_rest_key_ops:
  assumes "at_rest m s"
  shows "at_rest m (add_key k s)" "at_rest m (del_key k s)" "at_rest (m OR n) (add_mods n s)"
    "at_rest (m AND NOT n) (del_mods n s)"
  using assms util_key_ops(1,3) [of s k] by (auto simp: at_rest_def)
    (simp_all add: add_key_def del_key_def add_mods_def del_mods_def)

lemma press_key:
  assumes "at_rest m s" "\<not> LOCKING_SUPPORT_ENABLE c" "IS_KEY k" "util_held s = {}"
  shows "reports s (register_code c k s) {k} m"
proof -
  have wf: "util_wf s" using assms(1) by (simp add: at_rest_def)
  have "unat k < 240" using assms(3) by (simp add: IS_KEY_def word_le_nat_alt)
  then have H: "util_held (add_key k s) = {k}"
    using util_key_ops(2) [OF wf] assms(4) key_nonzero [OF assms(3)]
    by (simp add: held_step_def KEYBOARD_REPORT_BITS_def KEYBOARD_REPORT_KEYS_def)
  have "\<not> is_key_pressed (nkro s) (keyboard_report s) k" using assms(4) by (auto simp: util_held_def held_def)
  then have "register_code c k s = send_keyboard_report c (add_key k s)"
    using assms(2,3) key_nonzero [OF assms(3)] by (simp add: register_code_def Let_def)
  then show ?thesis using send_at_rest [OF at_rest_key_ops(1) [OF assms(1), of k], where c = c] H
    by (simp add: reports_cong [of s "add_key k s"])
qed

lemma release_key:
  assumes "at_rest m s" "\<not> LOCKING_SUPPORT_ENABLE c" "IS_KEY k" "util_held s = {k}"
  shows "reports s (unregister_code c k s) {} m"
proof -
  have "util_held (del_key k s) = {}" using util_key_ops(4) [of s k] assms(1,4) by (simp add: at_rest_def)
  moreover have "unregister_code c k s = send_keyboard_report c (del_key k s)"
    using assms(2,3) key_nonzero [OF assms(3)] by (simp add: unregister_code_def)
  ultimately show ?thesis using send_at_rest [OF at_rest_key_ops(2) [OF assms(1), of k], where c = c]
    by (simp add: reports_cong [of s "del_key k s"])
qed

lemma left_shift [simp]:
  "IS_MOD (KC_LEFT_SHIFT :: u8)" "\<not> IS_KEY (KC_LEFT_SHIFT :: u8)" "MOD_BIT KC_LEFT_SHIFT = 2"
  by (simp_all add: IS_MOD_def IS_KEY_def MOD_BIT_def word_le_nat_alt)

lemma press_shift:
  assumes "at_rest 0 s" "\<not> LOCKING_SUPPORT_ENABLE c"
  shows "reports s (register_code c KC_LEFT_SHIFT s) (util_held s) 2"
  using send_at_rest [OF at_rest_key_ops(3) [OF assms(1), of 2], where c = c] assms(2)
  by (simp add: register_code_def reports_cong [of s "add_mods 2 s"])

lemma release_shift:
  assumes "at_rest 2 s" "\<not> LOCKING_SUPPORT_ENABLE c"
  shows "reports s (unregister_code c KC_LEFT_SHIFT s) (util_held s) 0"
  using send_at_rest [OF at_rest_key_ops(4) [OF assms(1), of 2], where c = c] assms(2)
  by (simp add: unregister_code_def reports_cong [of s "del_mods 2 s"])

subsection \<open>Strokes\<close>

text \<open>From a state without keys held to another, with modifiers \<open>m\<close> then and an output that the host has typed.\<close>

definition types :: "'a util_st_scheme \<Rightarrow> 'a util_st_scheme \<Rightarrow> u8 \<Rightarrow> u8 option list \<Rightarrow> bool" where
  "types s s' m out \<longleftrightarrow> at_rest m s' \<and> util_held s' = {} \<and> nkro s' = nkro s \<and>
     (\<exists>es. effects s' = effects s @ es \<and> (\<forall>o1. foldl (host_step (nkro s)) ({}, o1) es = ({}, o1 @ out)))"

lemma types_refl: "at_rest m s \<Longrightarrow> util_held s = {} \<Longrightarrow> types s s m []"
  by (simp add: types_def)

lemma types_trans: "types s t m out \<Longrightarrow> types t u n out' \<Longrightarrow> types s u n (out @ out')"
  by (force simp: types_def)

lemma reports_no_keys: "reports s s' {} m \<Longrightarrow> types s s' m []"
  by (auto simp: types_def reports_def host_step_def Let_def)

lemma waits_at_rest:
  "at_rest m (wait_steps d s) = at_rest m s" "util_held (wait_steps d s) = util_held s" "nkro (wait_steps d s) = nkro s"
  "effects (wait_steps d s) = effects s @ replicate d (Waited 1)"
proof -
  have one: "at_rest m (wait_ms 1 s) = at_rest m s" "util_held (wait_ms 1 s) = util_held s"
    "effects (wait_ms 1 s) = effects s @ [Waited 1]" for s :: "'a util_st_scheme"
    by (simp_all add: at_rest_def util_held_def util_wf_def) (simp_all add: wait_ms_def emit_def)
  show "at_rest m (wait_steps d s) = at_rest m s" "util_held (wait_steps d s) = util_held s" "nkro (wait_steps d s) = nkro s"
    "effects (wait_steps d s) = effects s @ replicate d (Waited 1)"
    by (induction d) (simp_all add: wait_steps_def one [simplified] replicate_append_same)
qed

lemma host_waits [simp]: "foldl (host_step n) ho (replicate d (Waited x)) = ho"
  by (induction d) (simp_all add: host_step_def)

lemma types_wait: "at_rest m s \<Longrightarrow> util_held s = {} \<Longrightarrow> types s (wait_steps d s) m []"
  by (simp add: types_def waits_at_rest)

lemma tap_types:
  assumes "at_rest m s" "\<not> LOCKING_SUPPORT_ENABLE c" "IS_KEY k" "util_held s = {}"
  shows "types s (tap_code c k s) m [us_char (bit m 1 \<or> bit m 5) k]"
proof -
  define d where "d = unat (if k = KC_CAPS_LOCK then TAP_HOLD_CAPS_DELAY c else TAP_CODE_DELAY c)"
  let ?s1 = "register_code c k s" and ?s2 = "wait_steps d (register_code c k s)"
  have p: "reports s ?s1 {k} m" by (rule press_key [OF assms])
  then have "at_rest m ?s2" "util_held ?s2 = {k}" by (simp_all add: waits_at_rest reports_def)
  then have r: "reports ?s2 (unregister_code c k ?s2) {} m" using release_key assms(2,3) by blast
  have tap: "tap_code c k s = unregister_code c k ?s2"
    by (simp add: tap_code_def tap_code_delay_def wait_steps_def d_def)
  show ?thesis using p r unfolding tap types_def
    by (auto simp: reports_def waits_at_rest host_step_def Let_def)
qed

text \<open>What a table must give for a character.\<close>

definition types_as :: "luts \<Rightarrow> u8 \<Rightarrow> u8 \<Rightarrow> bool" where
  "types_as l a k \<longleftrightarrow> a < 128 \<and> IS_KEY (to_keycode l ! unat a) \<and> \<not> PGM_LOADBIT (to_altgr l) (unat a) \<and>
     \<not> PGM_LOADBIT (to_dead l) (unat a) \<and>
     us_char (PGM_LOADBIT (to_shift l) (unat a)) (to_keycode l ! unat a) = Some k"

lemma send_char_types:
  assumes "at_rest 0 s" "util_held s = {}" "\<not> LOCKING_SUPPORT_ENABLE c" "types_as l a k"
  shows "\<exists>s'. send_char l c a s = Some s' \<and> types s s' 0 [Some k]"
proof -
  let ?k = "to_keycode l ! unat a"
  have a: "\<not> 128 \<le> a" "IS_KEY ?k" using assms(4) by (simp_all add: types_as_def not_le)
  show ?thesis
  proof (cases "PGM_LOADBIT (to_shift l) (unat a)")
    case True
    let ?s1 = "register_code c KC_LEFT_SHIFT s" and ?s2 = "tap_code c ?k (register_code c KC_LEFT_SHIFT s)"
    have 1: "types s ?s1 2 []" using press_shift [OF assms(1,3)] assms(2) by (simp add: reports_no_keys)
    then have 2: "types ?s1 ?s2 2 [Some k]"
      using tap_types [where m = 2 and s = ?s1, OF _ assms(3) a(2)] assms(4) True
      by (simp add: types_def types_as_def bit_numeral_rec)
    then have 3: "types ?s2 (unregister_code c KC_LEFT_SHIFT ?s2) 0 []"
      using release_shift [OF _ assms(3)] by (metis reports_no_keys types_def)
    show ?thesis using types_trans [OF types_trans [OF 1 2] 3] a True assms(4)
      by (simp add: send_char_def types_as_def Let_def)
  next
    case False
    then show ?thesis using tap_types [OF assms(1,3) a(2) assms(2)] a assms(4)
      by (simp add: send_char_def types_as_def Let_def)
  qed
qed

lemma typable_types_as: "a \<in> set us_typable \<Longrightarrow> types_as ascii_luts a a"
proof -
  assume a: "a \<in> set us_typable"
  then have 1: "a < 128" "IS_KEY (ascii_to_keycode_lut ! unat a)" using typable_keys by (auto simp: list_all_iff)
  then have "unat a < 128" by (simp add: word_less_nat_alt)
  then show ?thesis using 1 a typable_chars no_altgr_no_dead by (simp add: types_as_def ascii_luts_def list_all_iff)
qed

lemma typable_plain: "a \<in> set us_typable \<Longrightarrow> a \<noteq> 0 \<and> a \<noteq> SS_QMK_PREFIX"
  by (auto simp: us_typable_def SS_QMK_PREFIX_def word_unat_eq_iff unat_of_nat)

lemma chars_type:
  "at_rest 0 s \<Longrightarrow> util_held s = {} \<Longrightarrow> \<not> LOCKING_SUPPORT_ENABLE c \<Longrightarrow> set cs \<subseteq> set us_typable \<Longrightarrow>
   \<exists>s'. send_string_with_delay ascii_luts c interval (cs @ rest) s = send_string_with_delay ascii_luts c interval rest s' \<and>
     types s s' 0 (map Some cs)"
proof (induction cs arbitrary: s)
  case Nil
  then show ?case by (auto intro: types_refl)
next
  case (Cons a cs)
  obtain s1 where s1: "send_char ascii_luts c a s = Some s1" "types s s1 0 [Some a]"
    using send_char_types [OF Cons.prems(1-3) typable_types_as] Cons.prems(4) by auto
  let ?s2 = "wait_steps (unat interval) s1"
  have r: "at_rest 0 s1" "util_held s1 = {}" using s1(2) by (simp_all add: types_def)
  then have 2: "types s ?s2 0 [Some a]" using types_trans [OF s1(2) types_wait] by fastforce
  obtain s' where s': "send_string_with_delay ascii_luts c interval (cs @ rest) ?s2 =
      send_string_with_delay ascii_luts c interval rest s'" "types ?s2 s' 0 (map Some cs)"
    using Cons.IH [of ?s2] r Cons.prems by (auto simp: waits_at_rest)
  have "send_string_with_delay ascii_luts c interval ((a # cs) @ rest) s =
      send_string_with_delay ascii_luts c interval (cs @ rest) ?s2"
    using typable_plain [of a] Cons.prems(4) s1(1) by (subst send_string_with_delay.simps) simp
  then show ?case using s' types_trans [OF 2 s'(2)] by auto
qed

text \<open>
  C9. Text is typed.  From a state without keys and modifiers, a string of printable characters, spaces, tabs, newlines,
  backspaces, escapes and deletes is sent, with any interval, as reports from which a host with the US layout reads
  exactly this text; afterwards no key and no modifier is left down.
\<close>

theorem text_is_typed:
  assumes "at_rest 0 s" "util_held s = {}" "\<not> LOCKING_SUPPORT_ENABLE c" "set cs \<subseteq> set us_typable"
  shows "\<exists>s' es. send_string_with_delay ascii_luts c interval (cs @ [0]) s = Some s' \<and> effects s' = effects s @ es \<and>
    foldl (host_step (nkro s)) ({}, []) es = ({}, map Some cs) \<and> at_rest 0 s' \<and> util_held s' = {}"
proof -
  obtain s' where s': "send_string_with_delay ascii_luts c interval (cs @ [0]) s = send_string_with_delay ascii_luts c interval [0] s'"
    "types s s' 0 (map Some cs)"
    using chars_type [OF assms, of interval "[0]"] by blast
  then show ?thesis by (auto simp: types_def send_string_with_delay.simps [of _ _ _ "[0]"])
qed

lemma at_rest_init: "at_rest 0 (layer_init c)" "util_held (layer_init c) = {}"
proof -
  have "ready (layer_init c)"
    by (auto simp: ready_def layer_init_def util_wf_def synced_def nkro_def keymap_config_of_raw_def
        keys_distinct_def slot_empty)
  then show "at_rest 0 (layer_init c)" by (simp add: at_rest_def ready_def layer_init_def)
  show "util_held (layer_init c) = {}" by (simp add: util_held_def layer_init_def held_empty)
qed

lemma text_is_typed_witness:
  "let c = default_config (\<lambda>_ _. 0) :: unit config; s = layer_init c
   in \<exists>s'. send_string_with_delay ascii_luts c 0 [72, 105, 33, 0] s = Some s' \<and>
        foldl (host_step (nkro s)) ({}, []) (effects s') = ({}, [Some 72, Some 105, Some 33])"
proof -
  define c :: "unit config" where "c = default_config (\<lambda>_ _. 0)"
  have "set [72, 105, 33 :: u8] \<subseteq> set us_typable"
    by (simp add: us_typable_def image_iff)
  moreover have "\<not> LOCKING_SUPPORT_ENABLE c" by (simp add: c_def)
  moreover have "effects (layer_init c) = []" by (simp add: layer_init_def)
  ultimately show ?thesis
    using text_is_typed [OF at_rest_init [of c], where cs = "[72, 105, 33]" and interval = 0 and c = c]
    unfolding Let_def c_def [symmetric] by auto
qed

section \<open>Macros as strings\<close>

text \<open>What the macros \<^verbatim>\<open>SS_TAP\<close>, \<^verbatim>\<open>SS_DOWN\<close>, \<^verbatim>\<open>SS_UP\<close> and \<^verbatim>\<open>SS_DELAY\<close> write, and what they mean.\<close>

datatype ss_item = Char u8 | Tap u8 | Down u8 | Up u8 | Delay nat

fun digits :: "nat \<Rightarrow> u8 list" where
  "digits n = (if n < 10 then [0x30 + of_nat n] else digits (n div 10) @ [0x30 + of_nat (n mod 10)])"

declare digits.simps [simp del]

fun ss_encode :: "ss_item \<Rightarrow> u8 list" where
  "ss_encode (Char a) = [a]"
| "ss_encode (Tap k) = [SS_QMK_PREFIX, SS_TAP_CODE, k]"
| "ss_encode (Down k) = [SS_QMK_PREFIX, SS_DOWN_CODE, k]"
| "ss_encode (Up k) = [SS_QMK_PREFIX, SS_UP_CODE, k]"
| "ss_encode (Delay n) = [SS_QMK_PREFIX, SS_DELAY_CODE] @ digits n @ [0x7C]"

fun ss_run :: "luts \<Rightarrow> 's config \<Rightarrow> ss_item \<Rightarrow> 'a util_st_scheme \<Rightarrow> 'a util_st_scheme" where
  "ss_run l c (Char a) s = the (send_char l c a s)"
| "ss_run l c (Tap k) s = tap_code c k s"
| "ss_run l c (Down k) s = register_code c k s"
| "ss_run l c (Up k) s = unregister_code c k s"
| "ss_run l c (Delay n) s = wait_steps n s"

definition ss_ok :: "ss_item \<Rightarrow> bool" where
  "ss_ok x = (case x of Char a \<Rightarrow> 1 < a \<and> a < 128 | Delay n \<Rightarrow> n < 2 ^ 31 | _ \<Rightarrow> True)"

lemma digit_char:
  assumes "n < 10"
  shows "isdigit (0x30 + of_nat n)" "unat ((0x30 + of_nat n :: u8) - 0x30) = n"
proof -
  have "unat (0x30 + of_nat n :: u8) = 48 + n" using assms by (simp add: unat_word_ariths unat_of_nat)
  then show "isdigit (0x30 + of_nat n)" using assms by (simp add: isdigit_def word_le_nat_alt)
  show "unat ((0x30 + of_nat n :: u8) - 0x30) = n" using assms by (simp add: unat_of_nat)
qed

lemma read_digits:
  "ms * 10 ^ length (digits n) + n < 2 ^ 31 \<Longrightarrow>
   read_delay ms (digits n @ rest) = read_delay (ms * 10 ^ length (digits n) + n) rest"
proof (induction n arbitrary: rest rule: digits.induct)
  case (1 n)
  show ?case
  proof (cases "n < 10")
    case True
    then show ?thesis using "1.prems" digit_char [OF True] by (simp add: digits.simps [of n] Let_def)
  next
    case False
    define q d where "q = n div 10" and "d = n mod 10"
    have n: "n = q * 10 + d" "d < 10" "digits n = digits q @ [0x30 + of_nat d]"
      using False by (simp_all add: q_def d_def digits.simps [of n])
    define v where "v = ms * 10 ^ length (digits q) + q"
    have v: "ms * 10 ^ length (digits n) + n = v * 10 + d" using n by (simp add: v_def algebra_simps)
    then have "v < 2 ^ 31" using "1.prems" by linarith
    have "read_delay ms (digits n @ rest) = read_delay v ((0x30 + of_nat d) # rest)"
      using "1.IH" [OF False, folded q_def, of "(0x30 + of_nat d) # rest"] \<open>v < 2 ^ 31\<close>
      by (simp only: n(3) append_assoc append_Cons append_Nil v_def)
    also have "\<dots> = read_delay (v * 10 + d) rest" using digit_char [OF n(2)] v "1.prems" by (simp add: Let_def)
    finally show ?thesis unfolding v .
  qed
qed

lemma send_item_encoded:
  "ss_ok x \<Longrightarrow> ss_encode x @ rest \<noteq> [] \<and> hd (ss_encode x @ rest) \<noteq> 0 \<and>
    send_item l c (ss_encode x @ rest) s = Some (rest, ss_run l c x s)"
proof (cases x)
  case (Char a)
  then show "ss_ok x \<Longrightarrow> ?thesis"
    by (auto simp: ss_ok_def SS_QMK_PREFIX_def send_char_def not_le Let_def)
next
  case (Delay n)
  show "ss_ok x \<Longrightarrow> ?thesis" using read_digits [of 0 n "0x7C # rest"]
    by (simp add: Delay ss_ok_def SS_QMK_PREFIX_def SS_TAP_CODE_def SS_DOWN_CODE_def SS_UP_CODE_def SS_DELAY_CODE_def
        isdigit_def)
qed (simp_all add: SS_QMK_PREFIX_def SS_TAP_CODE_def SS_DOWN_CODE_def SS_UP_CODE_def)

text \<open>
  A string of macros does what they say.  Whatever the tables, the string that the macros write for a sequence of characters,
  taps, presses, releases and delays is read back as exactly this sequence, with the interval waited after every
  item: no byte of a keycode and no digit is taken for a character, and the reading stops at the end of the string.
\<close>

theorem macros_are_read_back:
  "list_all ss_ok items \<Longrightarrow>
   send_string_with_delay l c interval (concat (map ss_encode items) @ [0]) s =
     Some (fold (\<lambda>x s. wait_steps (unat interval) (ss_run l c x s)) items s)"
proof (induction items arbitrary: s)
  case (Cons x items)
  then show ?case using send_item_encoded [of x "concat (map ss_encode items) @ [0]" l c s]
    by (subst send_string_with_delay.simps) simp
qed (simp add: send_string_with_delay.simps)

lemma macros_are_read_back_witness:
  "\<forall>(c :: 's config) (s :: 'a util_st_scheme). send_string ascii_luts c [1, 2, 0xE1, 97, 1, 3, 0xE1, 1, 4, 0x31, 0x35, 0x7C, 0] s =
    Some (wait_steps 15 (unregister_code c 0xE1 (the (send_char ascii_luts c 97 (register_code c 0xE1 s)))))"
proof (intro allI)
  fix c :: "'s config" and s :: "'a util_st_scheme"
  have d: "digits 15 = [0x31, 0x35]" by (simp add: digits.simps)
  show "send_string ascii_luts c [1, 2, 0xE1, 97, 1, 3, 0xE1, 1, 4, 0x31, 0x35, 0x7C, 0] s =
      Some (wait_steps 15 (unregister_code c 0xE1 (the (send_char ascii_luts c 97 (register_code c 0xE1 s)))))"
    using macros_are_read_back [of "[Down 0xE1, Char 97, Up 0xE1, Delay 15]" ascii_luts c 0 s]
    by (simp add: d ss_ok_def send_string_def SS_QMK_PREFIX_def SS_TAP_CODE_def SS_DOWN_CODE_def SS_UP_CODE_def
        SS_DELAY_CODE_def wait_steps_def [of 0])
qed

text \<open>
  A string that ends in the middle of a macro is read past its end: after a prefix the terminator is taken for the code,
  after a code for the keycode, and after the digits of a delay for the byte that ends them.
\<close>

theorem cut_macro_is_overread:
  assumes "list_all ss_ok items" "rest = [SS_QMK_PREFIX] \<or> rest = [SS_QMK_PREFIX, SS_TAP_CODE] \<or>
    rest = [SS_QMK_PREFIX, SS_DOWN_CODE] \<or> rest = [SS_QMK_PREFIX, SS_UP_CODE] \<or>
    (\<exists>n < 2 ^ 31. rest = [SS_QMK_PREFIX, SS_DELAY_CODE] @ digits n)"
  shows "send_string_with_delay l c interval (concat (map ss_encode items) @ rest @ [0]) s = None"
  using assms(1)
proof (induction items arbitrary: s)
  case (Cons x items)
  then show ?case using send_item_encoded [of x "concat (map ss_encode items) @ rest @ [0]" l c s]
    by (subst send_string_with_delay.simps) simp
next
  case Nil
  have "\<exists>s'. send_item l c (rest @ [0]) s = Some ([], s')" "rest \<noteq> []" "hd rest \<noteq> 0"
    using assms(2) read_digits [of 0 _ "[0]"]
    by (auto simp: SS_QMK_PREFIX_def SS_TAP_CODE_def SS_DOWN_CODE_def SS_UP_CODE_def SS_DELAY_CODE_def isdigit_def)
  then show ?case by (auto simp: send_string_with_delay.simps)
qed

lemma cut_macro_is_overread_witness:
  "\<forall>(c :: 's config) (s :: 'a util_st_scheme). send_string ascii_luts c [97, 1, 0] s = None"
proof (intro allI)
  fix c :: "'s config" and s :: "'a util_st_scheme"
  show "send_string ascii_luts c [97, 1, 0] s = None"
    using cut_macro_is_overread [of "[Char 97]" "[SS_QMK_PREFIX]" ascii_luts c 0 s]
    by (simp add: ss_ok_def send_string_def SS_QMK_PREFIX_def)
qed

end
