(* ===== verification/Eeprom.thy ===== *)
theory Eeprom
  imports C_Prelude
begin

text \<open>
  The EEPROM.  \<^verbatim>\<open>drivers/eeprom/eeprom_driver.c\<close> builds the accesses of one, two and four bytes from the two block
  functions of a driver; \<^verbatim>\<open>drivers/eeprom/eeprom_transient.c\<close> is the driver that keeps the bytes in memory.  The
  components that use the EEPROM see a function from addresses to bytes; the locale \<open>eeprom_blocks\<close> states when a driver
  keeps that promise, and the transient driver is shown to do so.  Addresses and sizes are 32-bit words, and multi-byte
  values are stored with the low byte first.
\<close>

section \<open>The contents as a function\<close>

type_synonym eeprom = "nat \<Rightarrow> u8"

definition put_bytes :: "u8 list \<Rightarrow> nat \<Rightarrow> eeprom \<Rightarrow> eeprom" where
  "put_bytes bs a e = (\<lambda>x. if a \<le> x \<and> x < a + length bs then bs ! (x - a) else e x)"

definition get_bytes :: "eeprom \<Rightarrow> nat \<Rightarrow> nat \<Rightarrow> u8 list" where
  "get_bytes e a n = map e [a..<a + n]"

fun word_of_bytes :: "u8 list \<Rightarrow> 'a::len word" where
  "word_of_bytes [] = 0"
| "word_of_bytes (b # bs) = ucast b OR push_bit 8 (word_of_bytes bs)"

fun bytes_of_word :: "nat \<Rightarrow> 'a::len word \<Rightarrow> u8 list" where
  "bytes_of_word 0 w = []"
| "bytes_of_word (Suc n) w = ucast w # bytes_of_word n (drop_bit 8 w)"

definition ee_get :: "nat \<Rightarrow> nat \<Rightarrow> eeprom \<Rightarrow> 'a::len word" where
  "ee_get n a e = word_of_bytes (get_bytes e a n)"

definition ee_put :: "nat \<Rightarrow> nat \<Rightarrow> 'a::len word \<Rightarrow> eeprom \<Rightarrow> eeprom" where
  "ee_put n a w e = put_bytes (bytes_of_word n w) a e"

lemma length_bytes_of_word [simp]: "length (bytes_of_word n w) = n"
  by (induction n arbitrary: w) auto

lemma length_get_bytes [simp]: "length (get_bytes e a n) = n"
  by (simp add: get_bytes_def)

lemma get_bytes_0 [simp]: "get_bytes e a 0 = []"
  by (simp add: get_bytes_def)

lemma get_put_bytes [simp]: "get_bytes (put_bytes bs a e) a (length bs) = bs"
  by (rule nth_equalityI) (simp_all add: get_bytes_def put_bytes_def)

lemma get_put_bytes_other: "b + n \<le> a \<or> a + length bs \<le> b \<Longrightarrow> get_bytes (put_bytes bs a e) b n = get_bytes e b n"
  by (auto simp: get_bytes_def put_bytes_def)

lemma put_get_bytes [simp]: "put_bytes (get_bytes e a n) a e = e"
  by (rule ext) (auto simp: get_bytes_def put_bytes_def)

lemma bit_word_of_bytes:
  "k < LENGTH('a) \<Longrightarrow> bit (word_of_bytes bs :: 'a::len word) k \<longleftrightarrow> k < 8 * length bs \<and> bit (bs ! (k div 8)) (k mod 8)"
proof (induction bs arbitrary: k)
  case (Cons b bs)
  show ?case
  proof (cases "k < 8")
    case True
    then show ?thesis using Cons.prems by (simp add: bit_or_iff bit_push_bit_iff bit_ucast_iff)
  next
    case False
    then have "\<not> bit b k" by (auto dest: bit_imp_le_length)
    moreover have "k div 8 = Suc ((k - 8) div 8)" "k mod 8 = (k - 8) mod 8" using False by (simp_all add: le_div_geq le_mod_geq)
    ultimately show ?thesis using False Cons.prems Cons.IH [of "k - 8"]
      by (auto simp: bit_or_iff bit_push_bit_iff bit_ucast_iff)
  qed
qed simp

lemma nth_bytes_of_word: "i < n \<Longrightarrow> bytes_of_word n w ! i = ucast (drop_bit (8 * i) w)"
  by (induction n arbitrary: w i) (auto simp: nth_Cons' algebra_simps)

lemma word_of_bytes_of_word:
  assumes "8 * n \<le> LENGTH('a)"
  shows "word_of_bytes (bytes_of_word n w) = (take_bit (8 * n) w :: 'a::len word)"
proof (rule bit_word_eqI)
  fix k assume k: "k < LENGTH('a)"
  have "bit w (8 * (k div 8) + k mod 8) = bit w k" by simp
  moreover have "k < 8 * n \<Longrightarrow> k div 8 < n" by (simp add: less_mult_imp_div_less mult.commute)
  moreover have "k mod 8 < LENGTH(8)" by simp
  ultimately show "bit (word_of_bytes (bytes_of_word n w) :: 'a word) k \<longleftrightarrow> bit (take_bit (8 * n) w) k"
    using k by (auto simp: bit_word_of_bytes bit_take_bit_iff nth_bytes_of_word bit_ucast_iff bit_drop_bit_eq)
qed

lemma bytes_of_word_of_bytes:
  assumes "8 * length bs \<le> LENGTH('a)"
  shows "bytes_of_word (length bs) (word_of_bytes bs :: 'a::len word) = bs"
proof (rule nth_equalityI)
  fix i assume "i < length (bytes_of_word (length bs) (word_of_bytes bs :: 'a word))"
  then have i: "i < length bs" by simp
  show "bytes_of_word (length bs) (word_of_bytes bs :: 'a word) ! i = bs ! i"
  proof (rule bit_word_eqI)
    fix k assume k: "k < LENGTH(8)"
    have "8 * i + k < LENGTH('a)" "8 * i + k < 8 * length bs" using i k assms by simp_all
    then show "bit (bytes_of_word (length bs) (word_of_bytes bs :: 'a word) ! i) k \<longleftrightarrow> bit (bs ! i) k"
      using i k by (simp add: nth_bytes_of_word bit_ucast_iff bit_drop_bit_eq bit_word_of_bytes)
  qed
qed simp

lemma ee_get_put [simp]: "8 * n \<le> LENGTH('a) \<Longrightarrow> ee_get n a (ee_put n a w e) = (take_bit (8 * n) w :: 'a::len word)"
  using get_put_bytes [of "bytes_of_word n w" a e] by (simp add: ee_get_def ee_put_def word_of_bytes_of_word)

lemma ee_get_put_other: "b + n \<le> a \<or> a + m \<le> b \<Longrightarrow> ee_get n b (ee_put m a w e) = ee_get n b e"
  by (simp add: ee_get_def ee_put_def get_put_bytes_other)

lemma ee_put_get [simp]: "8 * n \<le> LENGTH('a) \<Longrightarrow> ee_put n a (ee_get n a e :: 'a::len word) e = e"
  using bytes_of_word_of_bytes [of "get_bytes e a n", where 'a = 'a] by (simp add: ee_get_def ee_put_def)

section \<open>Accesses built from the block functions\<close>

text \<open>The two block functions of a driver on its state \<open>'m\<close>; \<open>None\<close> is an access outside its memory.\<close>

record 'm eeprom_driver =
  eeprom_read_block :: "'m \<Rightarrow> u32 \<Rightarrow> nat \<Rightarrow> u8 list option"
  eeprom_write_block :: "u8 list \<Rightarrow> u32 \<Rightarrow> 'm \<Rightarrow> 'm option"

definition eeprom_read_byte :: "'m eeprom_driver \<Rightarrow> 'm \<Rightarrow> u32 \<Rightarrow> u8 option" where
  "eeprom_read_byte d m addr = map_option word_of_bytes (eeprom_read_block d m addr 1)"

definition eeprom_read_word :: "'m eeprom_driver \<Rightarrow> 'm \<Rightarrow> u32 \<Rightarrow> u16 option" where
  "eeprom_read_word d m addr = map_option word_of_bytes (eeprom_read_block d m addr 2)"

definition eeprom_read_dword :: "'m eeprom_driver \<Rightarrow> 'm \<Rightarrow> u32 \<Rightarrow> u32 option" where
  "eeprom_read_dword d m addr = map_option word_of_bytes (eeprom_read_block d m addr 4)"

definition eeprom_write_byte :: "'m eeprom_driver \<Rightarrow> u32 \<Rightarrow> u8 \<Rightarrow> 'm \<Rightarrow> 'm option" where
  "eeprom_write_byte d addr v m = eeprom_write_block d (bytes_of_word 1 v) addr m"

definition eeprom_write_word :: "'m eeprom_driver \<Rightarrow> u32 \<Rightarrow> u16 \<Rightarrow> 'm \<Rightarrow> 'm option" where
  "eeprom_write_word d addr v m = eeprom_write_block d (bytes_of_word 2 v) addr m"

definition eeprom_write_dword :: "'m eeprom_driver \<Rightarrow> u32 \<Rightarrow> u32 \<Rightarrow> 'm \<Rightarrow> 'm option" where
  "eeprom_write_dword d addr v m = eeprom_write_block d (bytes_of_word 4 v) addr m"

definition eeprom_update_block :: "'m eeprom_driver \<Rightarrow> u8 list \<Rightarrow> u32 \<Rightarrow> 'm \<Rightarrow> 'm option" where
  "eeprom_update_block d buf addr m =
     Option.bind (eeprom_read_block d m addr (length buf))
       (\<lambda>read_buf. if buf \<noteq> read_buf then eeprom_write_block d buf addr m else Some m)"

definition eeprom_update_byte :: "'m eeprom_driver \<Rightarrow> u32 \<Rightarrow> u8 \<Rightarrow> 'm \<Rightarrow> 'm option" where
  "eeprom_update_byte d addr v m =
     Option.bind (eeprom_read_byte d m addr) (\<lambda>orig. if orig \<noteq> v then eeprom_write_byte d addr v m else Some m)"

definition eeprom_update_word :: "'m eeprom_driver \<Rightarrow> u32 \<Rightarrow> u16 \<Rightarrow> 'm \<Rightarrow> 'm option" where
  "eeprom_update_word d addr v m =
     Option.bind (eeprom_read_word d m addr) (\<lambda>orig. if orig \<noteq> v then eeprom_write_word d addr v m else Some m)"

definition eeprom_update_dword :: "'m eeprom_driver \<Rightarrow> u32 \<Rightarrow> u32 \<Rightarrow> 'm \<Rightarrow> 'm option" where
  "eeprom_update_dword d addr v m =
     Option.bind (eeprom_read_dword d m addr) (\<lambda>orig. if orig \<noteq> v then eeprom_write_dword d addr v m else Some m)"

section \<open>The contract of a driver\<close>

locale eeprom_blocks =
  fixes drv :: "'m eeprom_driver"
    and cells :: "'m \<Rightarrow> eeprom"
    and in_range :: "'m \<Rightarrow> u32 \<Rightarrow> nat \<Rightarrow> bool"
  assumes read_block: "in_range m a n \<Longrightarrow> eeprom_read_block drv m a n = Some (get_bytes (cells m) (unat a) n)"
    and write_block: "in_range m a (length bs) \<Longrightarrow>
      \<exists>m'. eeprom_write_block drv bs a m = Some m' \<and> cells m' = put_bytes bs (unat a) (cells m) \<and> in_range m' = in_range m"
begin

text \<open>That a result is the state whose contents are \<open>e\<close>, with the same memory.\<close>

definition yields :: "'m option \<Rightarrow> 'm \<Rightarrow> eeprom \<Rightarrow> bool" where
  "yields r m e \<longleftrightarrow> (\<exists>m'. r = Some m' \<and> cells m' = e \<and> in_range m' = in_range m)"

lemma read_value:
  "in_range m a 1 \<Longrightarrow> eeprom_read_byte drv m a = Some (ee_get 1 (unat a) (cells m))"
  "in_range m a 2 \<Longrightarrow> eeprom_read_word drv m a = Some (ee_get 2 (unat a) (cells m))"
  "in_range m a 4 \<Longrightarrow> eeprom_read_dword drv m a = Some (ee_get 4 (unat a) (cells m))"
  by (simp_all add: eeprom_read_byte_def eeprom_read_word_def eeprom_read_dword_def read_block ee_get_def)

lemma write_value:
  "in_range m a 1 \<Longrightarrow> yields (eeprom_write_byte drv a v m) m (ee_put 1 (unat a) v (cells m))"
  "in_range m a 2 \<Longrightarrow> yields (eeprom_write_word drv a w m) m (ee_put 2 (unat a) w (cells m))"
  "in_range m a 4 \<Longrightarrow> yields (eeprom_write_dword drv a x m) m (ee_put 4 (unat a) x (cells m))"
  using write_block [of m a "bytes_of_word 1 v"] write_block [of m a "bytes_of_word 2 w"] write_block [of m a "bytes_of_word 4 x"]
  by (simp_all add: eeprom_write_byte_def eeprom_write_word_def eeprom_write_dword_def ee_put_def yields_def)

lemma yields_same: "cells m = e \<Longrightarrow> yields (Some m) m e"
  by (simp add: yields_def)

lemma update_byte: "in_range m a 1 \<Longrightarrow> yields (eeprom_update_byte drv a v m) m (ee_put 1 (unat a) v (cells m))"
  using write_value(1) [of m a v] by (auto simp: eeprom_update_byte_def read_value intro!: yields_same)

lemma update_word: "in_range m a 2 \<Longrightarrow> yields (eeprom_update_word drv a v m) m (ee_put 2 (unat a) v (cells m))"
  using write_value(2) [of m a v] by (auto simp: eeprom_update_word_def read_value intro!: yields_same)

lemma update_dword: "in_range m a 4 \<Longrightarrow> yields (eeprom_update_dword drv a v m) m (ee_put 4 (unat a) v (cells m))"
  using write_value(3) [of m a v] by (auto simp: eeprom_update_dword_def read_value intro!: yields_same)

lemma update_block: "in_range m a (length bs) \<Longrightarrow> yields (eeprom_update_block drv bs a m) m (put_bytes bs (unat a) (cells m))"
  using write_block [of m a bs] put_get_bytes [of "cells m" "unat a" "length bs"]
  by (cases "bs = get_bytes (cells m) (unat a) (length bs)") (auto simp: eeprom_update_block_def read_block yields_def)

end

section \<open>The transient driver\<close>

text \<open>Its memory is a list of bytes; the sizes are \<^verbatim>\<open>size_t\<close> of 32 bits, whose arithmetic wraps.\<close>

definition clamp_length :: "u32 \<Rightarrow> u32 \<Rightarrow> u32 \<Rightarrow> u32" where
  "clamp_length TRANSIENT_EEPROM_SIZE offset len =
     (if offset + len > TRANSIENT_EEPROM_SIZE then TRANSIENT_EEPROM_SIZE - offset else len)"

text \<open>\<^verbatim>\<open>memcpy\<close> of \<open>n\<close> bytes between the memory and a buffer of \<open>len\<close> bytes.\<close>

definition transient_read :: "u8 list \<Rightarrow> u32 \<Rightarrow> nat \<Rightarrow> u8 list option" where
  "transient_read transientBuffer offset len =
     (let n = unat (clamp_length (of_nat (length transientBuffer)) offset (of_nat len))
      in if n = 0 then Some (replicate len 0)
         else if unat offset + n \<le> length transientBuffer \<and> n \<le> len
         then Some (take n (drop (unat offset) transientBuffer) @ replicate (len - n) 0)
         else None)"

definition transient_write :: "u8 list \<Rightarrow> u32 \<Rightarrow> u8 list \<Rightarrow> u8 list option" where
  "transient_write buf offset transientBuffer =
     (let n = unat (clamp_length (of_nat (length transientBuffer)) offset (of_nat (length buf)))
      in if n = 0 then Some transientBuffer
         else if unat offset + n \<le> length transientBuffer \<and> n \<le> length buf
         then Some (take (unat offset) transientBuffer @ take n buf @ drop (unat offset + n) transientBuffer)
         else None)"

definition transient_erase :: "u8 list \<Rightarrow> u8 list" where
  "transient_erase transientBuffer = replicate (length transientBuffer) 0"

definition transient_driver :: "u8 list eeprom_driver" where
  "transient_driver = \<lparr>eeprom_read_block = transient_read, eeprom_write_block = transient_write\<rparr>"

definition transient_cells :: "u8 list \<Rightarrow> eeprom" where
  "transient_cells m = (\<lambda>x. if x < length m then m ! x else 0)"

definition transient_range :: "u8 list \<Rightarrow> u32 \<Rightarrow> nat \<Rightarrow> bool" where
  "transient_range m a n \<longleftrightarrow> unat a + n \<le> length m \<and> length m < 2 ^ 31"

lemma clamp_in_range:
  assumes "transient_range m a n"
  shows "unat (clamp_length (of_nat (length m)) a (of_nat n)) = n"
proof -
  have b: "unat a + n \<le> length m" "length m < 2 ^ 31" using assms by (simp_all add: transient_range_def)
  have "unat (of_nat (length m) :: u32) = length m" "unat (of_nat n :: u32) = n"
    using b by (simp_all add: unat_of_nat take_bit_nat_eq_self)
  moreover from this have "unat (a + of_nat n) = unat a + n" using b by (subst unat_add_lem [THEN iffD1]) simp_all
  ultimately show ?thesis using b by (simp add: clamp_length_def word_less_nat_alt)
qed

interpretation transient: eeprom_blocks transient_driver transient_cells transient_range
proof unfold_locales
  fix m a n assume r: "transient_range m a n"
  then have "take n (drop (unat a) m) = get_bytes (transient_cells m) (unat a) n"
    by (intro nth_equalityI) (auto simp: transient_range_def get_bytes_def transient_cells_def)
  then show "eeprom_read_block transient_driver m a n = Some (get_bytes (transient_cells m) (unat a) n)"
    using r unfolding transient_driver_def transient_read_def eeprom_driver.simps clamp_in_range [OF r] Let_def
    by (cases "n = 0") (simp_all add: transient_range_def)
next
  fix m a and bs :: "u8 list"
  assume r: "transient_range m a (length bs)"
  let ?m = "take (unat a) m @ bs @ drop (unat a + length bs) m"
  have len: "length ?m = length m" using r by (simp add: transient_range_def)
  have "transient_cells ?m = put_bytes bs (unat a) (transient_cells m)"
    using r by (intro ext) (auto simp: transient_cells_def put_bytes_def transient_range_def nth_append)
  moreover have "transient_range ?m = transient_range m" by (intro ext) (simp add: transient_range_def len del: length_append)
  moreover have "eeprom_write_block transient_driver bs a m = Some ?m"
    using r unfolding transient_driver_def transient_write_def eeprom_driver.simps clamp_in_range [OF r] Let_def
    by (cases "bs = []") (simp_all add: transient_range_def)
  ultimately show "\<exists>m'. eeprom_write_block transient_driver bs a m = Some m' \<and>
      transient_cells m' = put_bytes bs (unat a) (transient_cells m) \<and> transient_range m' = transient_range m" by blast
qed

section \<open>What the accesses do\<close>

text \<open>
  An access of the transient driver in the range of its memory is the access of a function from addresses to bytes: a
  read returns the little-endian value, and an update, whether or not it finds the value already there, changes exactly
  the addressed bytes to it.
\<close>

theorem eeprom_update_refines:
  assumes "transient_range m a 2"
  shows "eeprom_read_word transient_driver m a = Some (ee_get 2 (unat a) (transient_cells m)) \<and>
    (\<exists>m'. eeprom_update_word transient_driver a v m = Some m' \<and> transient_cells m' = ee_put 2 (unat a) v (transient_cells m) \<and>
      eeprom_read_word transient_driver m' a = Some v)"
proof
  show "eeprom_read_word transient_driver m a = Some (ee_get 2 (unat a) (transient_cells m))"
    by (rule transient.read_value(2) [OF assms])
  obtain m' where m': "eeprom_update_word transient_driver a v m = Some m'"
    "transient_cells m' = ee_put 2 (unat a) v (transient_cells m)" "transient_range m' = transient_range m"
    using transient.update_word [OF assms, of v] by (auto simp: transient.yields_def)
  then show "\<exists>m'. eeprom_update_word transient_driver a v m = Some m' \<and> transient_cells m' = ee_put 2 (unat a) v (transient_cells m) \<and>
      eeprom_read_word transient_driver m' a = Some v"
    using assms transient.read_value(2) [of m' a] by (simp add: take_bit_word_eq_self)
qed

lemma eeprom_update_refines_witness:
  "\<exists>m'. eeprom_update_word transient_driver 1 0xFEE9 [7, 0, 0, 9] = Some m' \<and>
     eeprom_read_word transient_driver m' 1 = Some 0xFEE9"
  using eeprom_update_refines [of "[7, 0, 0, 9]" 1 "0xFEE9"] by (auto simp: transient_range_def)

text \<open>
  The clamping of the transient driver works for an access that starts inside the memory: what lies past its end reads
  as 0.  For an address past the end the clamped length wraps around, and the access leaves the memory whatever its length.
\<close>

theorem transient_read_clamps:
  assumes "length m < 2 ^ 31" "unat a + n < 2 ^ 32"
  shows "transient_read m a n = (if unat a \<le> length m then Some (get_bytes (transient_cells m) (unat a) n) else None)"
proof -
  have m: "unat (of_nat (length m) :: u32) = length m" and n: "unat (of_nat n :: u32) = n"
    using assms by (simp_all add: unat_of_nat take_bit_nat_eq_self)
  have sum: "unat (a + of_nat n) = unat a + n" using assms n by (subst unat_add_lem [THEN iffD1]) simp_all
  show ?thesis
  proof (cases "unat a \<le> length m")
    case True
    then have "unat (of_nat (length m) - a) = length m - unat a" using m by (subst unat_sub) (simp_all add: word_le_nat_alt)
    then have clamp: "unat (clamp_length (of_nat (length m)) a (of_nat n)) = min n (length m - unat a)"
      using True m n sum by (auto simp: clamp_length_def word_less_nat_alt)
    have "take (length m - unat a) (drop (unat a) m) = drop (unat a) m" by simp
    then have "take k (drop (unat a) m) @ replicate (n - k) 0 = get_bytes (transient_cells m) (unat a) n"
      if "k = min n (length m - unat a)" for k
      using that True by (intro nth_equalityI) (auto simp: get_bytes_def transient_cells_def nth_append)
    then show ?thesis using True unfolding transient_read_def clamp Let_def by force
  next
    case False
    have "of_nat (length m) - a \<noteq> 0" using False m by auto
    moreover have "unat a + unat (of_nat (length m) - a) > length m" using False by simp
    moreover have "clamp_length (of_nat (length m)) a (of_nat n) = of_nat (length m) - a"
      using False m n sum by (simp add: clamp_length_def word_less_nat_alt)
    ultimately show ?thesis using False by (simp add: transient_read_def Let_def unat_eq_zero)
  qed
qed

lemma transient_read_clamps_witness:
  "transient_read [1, 2, 3] 2 2 = Some [3, 0] \<and> transient_read [1, 2, 3] 4 1 = None"
  using transient_read_clamps [of "[1, 2, 3]" 2 2] transient_read_clamps [of "[1, 2, 3]" 4 1]
  by (simp add: get_bytes_def transient_cells_def upt_rec)

end
