(* ===== verification/Dynamic_Keymap.thy ===== *)
theory Dynamic_Keymap
  imports Send_String Eeprom
begin

text \<open>
  Keymaps and macros in the EEPROM, \<^verbatim>\<open>quantum/dynamic_keymap.c\<close>.  The EEPROM driver reads and writes single bytes: its
  contents are a function from addresses to bytes.  The configuration of the build is the record \<open>dynamic_keymap\<close>;
  the arithmetic on offsets is that of an \<^verbatim>\<open>int\<close> of 32 bits, which does not wrap for 16-bit operands.
\<close>

section \<open>The keymap\<close>

record dynamic_keymap =
  LAYER_COUNT :: nat
  DK_ROWS :: nat
  DK_COLS :: nat
  EEPROM_ADDR :: nat
  MACRO_COUNT :: nat
  MACRO_EEPROM_ADDR :: nat
  MACRO_EEPROM_SIZE :: nat

definition dynamic_keymap_key_to_eeprom_address :: "dynamic_keymap \<Rightarrow> nat \<Rightarrow> nat \<Rightarrow> nat \<Rightarrow> nat" where
  "dynamic_keymap_key_to_eeprom_address d layer r c =
     EEPROM_ADDR d + layer * DK_ROWS d * DK_COLS d * 2 + r * DK_COLS d * 2 + c * 2"

definition dynamic_keymap_get_keycode :: "dynamic_keymap \<Rightarrow> eeprom \<Rightarrow> nat \<Rightarrow> nat \<Rightarrow> nat \<Rightarrow> u16" where
  "dynamic_keymap_get_keycode d e layer r c =
     (let address = dynamic_keymap_key_to_eeprom_address d layer r c
      in push_bit 8 (ucast (e address)) OR ucast (e (address + 1)))"

definition dynamic_keymap_set_keycode :: "dynamic_keymap \<Rightarrow> nat \<Rightarrow> nat \<Rightarrow> nat \<Rightarrow> u16 \<Rightarrow> eeprom \<Rightarrow> eeprom" where
  "dynamic_keymap_set_keycode d layer r c keycode e =
     (let address = dynamic_keymap_key_to_eeprom_address d layer r c
      in e(address := ucast (drop_bit 8 keycode), address + 1 := ucast (keycode AND 0xFF)))"

definition dynamic_keymap_reset :: "dynamic_keymap \<Rightarrow> (nat \<Rightarrow> nat \<Rightarrow> nat \<Rightarrow> u16) \<Rightarrow> eeprom \<Rightarrow> eeprom" where
  "dynamic_keymap_reset d keymaps e =
     foldl (\<lambda>e layer. foldl (\<lambda>e r. foldl (\<lambda>e c. dynamic_keymap_set_keycode d layer r c (keymaps layer r c) e)
         e [0..<DK_COLS d]) e [0..<DK_ROWS d]) e [0..<LAYER_COUNT d]"

text \<open>The size of the keymaps is kept in a \<^verbatim>\<open>uint16_t\<close>.\<close>

definition keymap_size :: "dynamic_keymap \<Rightarrow> nat" where
  "keymap_size d = (LAYER_COUNT d * DK_ROWS d * DK_COLS d * 2) mod 2 ^ 16"

text \<open>The loops of the four buffer functions, over the area of \<open>area\<close> bytes at \<open>base\<close>.\<close>

definition get_buffer :: "nat \<Rightarrow> nat \<Rightarrow> eeprom \<Rightarrow> nat \<Rightarrow> nat \<Rightarrow> u8 list" where
  "get_buffer base area e offset len =
     map (\<lambda>i. if offset + i < area then e (base + offset + i) else 0) [0..<len]"

definition set_buffer :: "nat \<Rightarrow> nat \<Rightarrow> nat \<Rightarrow> u8 list \<Rightarrow> eeprom \<Rightarrow> eeprom" where
  "set_buffer base area offset source e =
     foldl (\<lambda>e i. if offset + i < area then e(base + offset + i := source ! i) else e) e [0..<length source]"

definition dynamic_keymap_get_buffer :: "dynamic_keymap \<Rightarrow> eeprom \<Rightarrow> nat \<Rightarrow> nat \<Rightarrow> u8 list" where
  "dynamic_keymap_get_buffer d = get_buffer (EEPROM_ADDR d) (keymap_size d)"

definition dynamic_keymap_set_buffer :: "dynamic_keymap \<Rightarrow> nat \<Rightarrow> u8 list \<Rightarrow> eeprom \<Rightarrow> eeprom" where
  "dynamic_keymap_set_buffer d = set_buffer (EEPROM_ADDR d) (keymap_size d)"

text \<open>This lookup replaces the one of \<^verbatim>\<open>quantum/keymap_common.c\<close>.\<close>

definition keymap_key_to_keycode :: "dynamic_keymap \<Rightarrow> eeprom \<Rightarrow> nat \<Rightarrow> keypos_t \<Rightarrow> u16" where
  "keymap_key_to_keycode d e layer k =
     (if layer < LAYER_COUNT d \<and> unat (row k) < DK_ROWS d \<and> unat (col k) < DK_COLS d
      then dynamic_keymap_get_keycode d e layer (unat (row k)) (unat (col k)) else KC_NO)"

section \<open>Macros\<close>

definition dynamic_keymap_macro_get_buffer :: "dynamic_keymap \<Rightarrow> eeprom \<Rightarrow> nat \<Rightarrow> nat \<Rightarrow> u8 list" where
  "dynamic_keymap_macro_get_buffer d = get_buffer (MACRO_EEPROM_ADDR d) (MACRO_EEPROM_SIZE d)"

definition dynamic_keymap_macro_set_buffer :: "dynamic_keymap \<Rightarrow> nat \<Rightarrow> u8 list \<Rightarrow> eeprom \<Rightarrow> eeprom" where
  "dynamic_keymap_macro_set_buffer d = set_buffer (MACRO_EEPROM_ADDR d) (MACRO_EEPROM_SIZE d)"

definition dynamic_keymap_macro_reset :: "dynamic_keymap \<Rightarrow> eeprom \<Rightarrow> eeprom" where
  "dynamic_keymap_macro_reset d e =
     foldl (\<lambda>e p. e(p := 0)) e [MACRO_EEPROM_ADDR d..<MACRO_EEPROM_ADDR d + MACRO_EEPROM_SIZE d]"

text \<open>The loop that skips the macros before the one asked for; \<open>None\<close> is the return at the end of the buffer.\<close>

fun skip_macros :: "eeprom \<Rightarrow> nat \<Rightarrow> nat \<Rightarrow> nat \<Rightarrow> nat option" where
  "skip_macros e 0 p left = Some p"
| "skip_macros e (Suc n) p 0 = None"
| "skip_macros e (Suc n) p (Suc left) = skip_macros e (if e p = 0 then n else Suc n) (p + 1) left"

text \<open>
  The endless loop that reads the strings to send, until a terminator; the strings are in the order they are sent.
  If the EEPROM had no zero byte from here on it would not end.
\<close>

partial_function (option) macro_strings :: "eeprom \<Rightarrow> nat \<Rightarrow> u8 list list option" where
  "macro_strings e p =
     (if e p = 0 then Some []
      else if e p = SS_TAP_CODE \<or> e p = SS_DOWN_CODE \<or> e p = SS_UP_CODE
      then if e (p + 1) = 0 then Some []
           else Option.bind (macro_strings e (p + 2)) (\<lambda>strs. Some ([SS_QMK_PREFIX, e p, e (p + 1), 0] # strs))
      else Option.bind (macro_strings e (p + 1)) (\<lambda>strs. Some ([e p, 0] # strs)))"

definition macro_to_send :: "dynamic_keymap \<Rightarrow> eeprom \<Rightarrow> nat \<Rightarrow> u8 list list option" where
  "macro_to_send d e i =
     (let p = MACRO_EEPROM_ADDR d
      in if i \<ge> MACRO_COUNT d then Some []
         else if e (p + MACRO_EEPROM_SIZE d - 1) \<noteq> 0 then Some []
         else case skip_macros e i p (MACRO_EEPROM_SIZE d) of None \<Rightarrow> Some [] | Some p \<Rightarrow> macro_strings e p)"

definition dynamic_keymap_macro_send ::
    "dynamic_keymap \<Rightarrow> luts \<Rightarrow> 's config \<Rightarrow> eeprom \<Rightarrow> nat \<Rightarrow> 'a util_st_scheme \<Rightarrow> 'a util_st_scheme option" where
  "dynamic_keymap_macro_send d l c e i s =
     Option.bind (macro_to_send d e i) (\<lambda>strs. foldl (\<lambda>os str. Option.bind os (send_string l c str)) (Some s) strs)"

section \<open>Keycodes\<close>

definition in_keymap :: "dynamic_keymap \<Rightarrow> nat \<Rightarrow> nat \<Rightarrow> nat \<Rightarrow> bool" where
  "in_keymap d l r c \<longleftrightarrow> l < LAYER_COUNT d \<and> r < DK_ROWS d \<and> c < DK_COLS d"

lemma address_index:
  "dynamic_keymap_key_to_eeprom_address d l r c = EEPROM_ADDR d + 2 * ((l * DK_ROWS d + r) * DK_COLS d + c)"
  by (simp add: dynamic_keymap_key_to_eeprom_address_def algebra_simps)

lemma pair_index_inject:
  "c < n \<Longrightarrow> c' < n \<Longrightarrow> a * n + c = a' * n + c' \<longleftrightarrow> a = a' \<and> c = (c' :: nat)"
  by (metis add.commute add_right_cancel div_mult_self3 gr_implies_not_zero div_less add_0 mod_mult_self3 mod_less)

lemma index_inject:
  assumes "in_keymap d l r c" "in_keymap d l' r' c'"
  shows "(l * DK_ROWS d + r) * DK_COLS d + c = (l' * DK_ROWS d + r') * DK_COLS d + c' \<longleftrightarrow> l = l' \<and> r = r' \<and> c = c'"
  using assms by (simp add: in_keymap_def pair_index_inject)

lemma pair_index_less: "a < m \<Longrightarrow> b < n \<Longrightarrow> a * n + b < m * (n :: nat)"
  by (metis Suc_leI add_less_cancel_left less_le_trans mult_Suc mult_le_mono1 add.commute)

lemma index_less: "in_keymap d l r c \<Longrightarrow> (l * DK_ROWS d + r) * DK_COLS d + c < LAYER_COUNT d * DK_ROWS d * DK_COLS d"
  by (simp add: in_keymap_def pair_index_less)

lemma two_bytes: "push_bit 8 (ucast (ucast (drop_bit 8 k) :: u8)) OR ucast (ucast (k AND 0xFF) :: u8) = (k :: u16)"
proof -
  have m: "(0xFF :: u16) = mask 8" by (simp add: mask_eq_exp_minus_1)
  show ?thesis unfolding m by (auto simp: bit_eq_iff bit_simps)
qed

lemma get_after_set:
  assumes "in_keymap d l r c" "in_keymap d l' r' c'"
  shows "dynamic_keymap_get_keycode d (dynamic_keymap_set_keycode d l r c k e) l' r' c' =
    (if (l', r', c') = (l, r, c) then k else dynamic_keymap_get_keycode d e l' r' c')"
proof -
  have "EEPROM_ADDR d + 2 * i + b = EEPROM_ADDR d + 2 * j + b' \<longleftrightarrow> i = j \<and> b = b'" if "b < 2" "b' < 2" for i j b b'
    using that by presburger
  note par = this [of 0 0] this [of 0 1] this [of 1 0] this [of 1 1]
  show ?thesis
  proof (cases "(l', r', c') = (l, r, c)")
    case True
    then show ?thesis by (simp add: dynamic_keymap_get_keycode_def dynamic_keymap_set_keycode_def Let_def two_bytes)
  next
    case False
    then have "(l * DK_ROWS d + r) * DK_COLS d + c \<noteq> (l' * DK_ROWS d + r') * DK_COLS d + c'"
      using index_inject [OF assms] by blast
    then show ?thesis using False par
      by (auto simp: dynamic_keymap_get_keycode_def dynamic_keymap_set_keycode_def Let_def address_index)
  qed
qed

lemma set_keycode_outside:
  assumes "in_keymap d l r c" "a < EEPROM_ADDR d \<or> EEPROM_ADDR d + LAYER_COUNT d * DK_ROWS d * DK_COLS d * 2 \<le> a"
  shows "dynamic_keymap_set_keycode d l r c k e a = e a"
  using index_less [OF assms(1)] assms(2)
  by (auto simp: dynamic_keymap_set_keycode_def Let_def address_index)

text \<open>The cells in the order of the three loops.\<close>

definition cells :: "dynamic_keymap \<Rightarrow> (nat \<times> nat \<times> nat) list" where
  "cells d = [(l, r, c). l \<leftarrow> [0..<LAYER_COUNT d], r \<leftarrow> [0..<DK_ROWS d], c \<leftarrow> [0..<DK_COLS d]]"

lemma foldl_concat: "foldl f e (concat xss) = foldl (foldl f) e xss"
  by (induction xss arbitrary: e) simp_all

lemma foldl_map: "foldl f e (map g xs) = foldl (\<lambda>e x. f e (g x)) e xs"
  by (induction xs arbitrary: e) simp_all

lemma reset_cells:
  "dynamic_keymap_reset d keymaps e =
   foldl (\<lambda>e (l, r, c). dynamic_keymap_set_keycode d l r c (keymaps l r c) e) e (cells d)"
  by (simp add: dynamic_keymap_reset_def cells_def foldl_concat foldl_map)

lemma set_cells: "set (cells d) = {(l, r, c). in_keymap d l r c}"
  by (auto simp: cells_def in_keymap_def image_iff)

lemma set_many:
  assumes "set xs \<subseteq> {(l, r, c). in_keymap d l r c}" "in_keymap d l r c"
  shows "dynamic_keymap_get_keycode d
      (foldl (\<lambda>e (l, r, c). dynamic_keymap_set_keycode d l r c (keymaps l r c) e) e xs) l r c =
    (if (l, r, c) \<in> set xs then keymaps l r c else dynamic_keymap_get_keycode d e l r c)"
  using assms
proof (induction xs rule: rev_induct)
  case (snoc x xs)
  obtain l1 r1 c1 where x: "x = (l1, r1, c1)" by (cases x)
  then have "in_keymap d l1 r1 c1" using snoc.prems(1) by simp
  from get_after_set [OF this assms(2)] show ?case using snoc by (auto simp: x)
qed simp

lemma set_many_outside:
  assumes "set xs \<subseteq> {(l, r, c). in_keymap d l r c}"
    "a < EEPROM_ADDR d \<or> EEPROM_ADDR d + LAYER_COUNT d * DK_ROWS d * DK_COLS d * 2 \<le> a"
  shows "foldl (\<lambda>e (l, r, c). dynamic_keymap_set_keycode d l r c (keymaps l r c) e) e xs a = e a"
  using assms(1)
proof (induction xs rule: rev_induct)
  case (snoc x xs)
  obtain l1 r1 c1 where x: "x = (l1, r1, c1)" by (cases x)
  then have "in_keymap d l1 r1 c1" using snoc.prems(1) by simp
  from set_keycode_outside [OF this assms(2)] show ?case using snoc by (simp add: x)
qed simp

text \<open>
  C33. The keymap in the EEPROM is a keymap.  After a reset every key of every layer has the keycode of the flash, and a keycode that
  is then set is what the key has and changes no other key; a position outside the keymap has no keycode, and
  no byte outside the area of the keymap is written.
\<close>

theorem eeprom_keymap_roundtrip:
  assumes "in_keymap d l r c"
  shows "let e' = dynamic_keymap_set_keycode d l r c k (dynamic_keymap_reset d keymaps e)
    in (\<forall>l' p. keymap_key_to_keycode d e' l' p =
          (let r' = unat (row p); c' = unat (col p)
           in if \<not> in_keymap d l' r' c' then KC_NO else if (l', r', c') = (l, r, c) then k else keymaps l' r' c')) \<and>
       (\<forall>a. a < EEPROM_ADDR d \<or> EEPROM_ADDR d + LAYER_COUNT d * DK_ROWS d * DK_COLS d * 2 \<le> a \<longrightarrow> e' a = e a)"
proof -
  have "keymap_key_to_keycode d (dynamic_keymap_set_keycode d l r c k (dynamic_keymap_reset d keymaps e)) l' p =
      (if \<not> in_keymap d l' (unat (row p)) (unat (col p)) then KC_NO
       else if (l', unat (row p), unat (col p)) = (l, r, c) then k else keymaps l' (unat (row p)) (unat (col p)))" for l' p
    using get_after_set [OF assms] set_many [of "cells d"]
    by (auto simp: keymap_key_to_keycode_def in_keymap_def [symmetric] reset_cells set_cells)
  then show ?thesis using set_keycode_outside [OF assms] set_many_outside [of "cells d"]
    by (simp add: Let_def reset_cells set_cells)
qed

lemma eeprom_keymap_roundtrip_witness:
  "let d = \<lparr>LAYER_COUNT = 2, DK_ROWS = 2, DK_COLS = 3, EEPROM_ADDR = 40, MACRO_COUNT = 1, MACRO_EEPROM_ADDR = 64,
            MACRO_EEPROM_SIZE = 100\<rparr>;
       e = dynamic_keymap_set_keycode d 1 0 2 0x5C01 (dynamic_keymap_reset d (\<lambda>l r c. 4) (\<lambda>_. 0))
   in keymap_key_to_keycode d e 1 \<lparr>col = 2, row = 0\<rparr> = 0x5C01 \<and> keymap_key_to_keycode d e 1 \<lparr>col = 1, row = 0\<rparr> = 4 \<and> e 64 = 0"
proof -
  define d where "d = \<lparr>LAYER_COUNT = 2, DK_ROWS = 2, DK_COLS = 3, EEPROM_ADDR = 40, MACRO_COUNT = 1,
    MACRO_EEPROM_ADDR = 64, MACRO_EEPROM_SIZE = 100\<rparr>"
  have "in_keymap d 1 0 2" by (simp add: in_keymap_def d_def)
  from eeprom_keymap_roundtrip [OF this, of "0x5C01" "\<lambda>l r c. 4" "\<lambda>_. 0"] show ?thesis
    unfolding Let_def d_def [symmetric] by (simp add: in_keymap_def d_def)
qed

section \<open>Buffers\<close>

lemma set_buffer_at:
  "set_buffer base area offset source e a =
    (if base + offset \<le> a \<and> a < base + offset + length source \<and> a < base + area then source ! (a - base - offset) else e a)"
proof -
  have "n \<le> length source \<Longrightarrow>
      foldl (\<lambda>e i. if offset + i < area then e(base + offset + i := source ! i) else e) e [0..<n] a =
      (if base + offset \<le> a \<and> a < base + offset + n \<and> a < base + area then source ! (a - base - offset) else e a)" for n
  proof (induction n)
    case (Suc n)
    then show ?case by (cases "a = base + offset + n") auto
  qed auto
  then show ?thesis by (simp add: set_buffer_def)
qed

text \<open>
  What the host writes is what it reads.  A buffer that the host writes at any offset, of the keymaps or of the macros, is what it
  reads back, cut off with zeros at the end of the area, and no byte outside the area is written.
\<close>

theorem buffers_roundtrip:
  "(let e' = dynamic_keymap_set_buffer d offset source e
    in dynamic_keymap_get_buffer d e' offset (length source) =
         take (keymap_size d - offset) source @ replicate (length source - (keymap_size d - offset)) 0 \<and>
       {a. e' a \<noteq> e a} \<subseteq> {EEPROM_ADDR d..<EEPROM_ADDR d + keymap_size d}) \<and>
   (let e' = dynamic_keymap_macro_set_buffer d offset source e
    in dynamic_keymap_macro_get_buffer d e' offset (length source) =
         take (MACRO_EEPROM_SIZE d - offset) source @ replicate (length source - (MACRO_EEPROM_SIZE d - offset)) 0 \<and>
       {a. e' a \<noteq> e a} \<subseteq> {MACRO_EEPROM_ADDR d..<MACRO_EEPROM_ADDR d + MACRO_EEPROM_SIZE d})"
proof -
  have "get_buffer base area (set_buffer base area offset source e) offset (length source) =
      take (area - offset) source @ replicate (length source - (area - offset)) 0" for base area
    by (rule nth_equalityI) (auto simp: get_buffer_def set_buffer_at nth_append min_def)
  moreover have "{a. set_buffer base area offset source e a \<noteq> e a} \<subseteq> {base..<base + area}" for base area
    by (auto simp: set_buffer_at split: if_splits)
  ultimately show ?thesis
    by (simp add: dynamic_keymap_set_buffer_def dynamic_keymap_get_buffer_def dynamic_keymap_macro_set_buffer_def
        dynamic_keymap_macro_get_buffer_def)
qed

section \<open>Stored macros\<close>

text \<open>The reference: the bytes of the buffer behind the first \<open>n\<close> terminators, and the strings in a macro.\<close>

fun drop_macros :: "nat \<Rightarrow> u8 list \<Rightarrow> u8 list" where
  "drop_macros 0 bs = bs"
| "drop_macros (Suc n) [] = []"
| "drop_macros (Suc n) (b # bs) = drop_macros (if b = 0 then n else Suc n) bs"

definition macro_of :: "nat \<Rightarrow> u8 list \<Rightarrow> u8 list" where
  "macro_of n bs = takeWhile (\<lambda>b. b \<noteq> 0) (drop_macros n bs)"

definition is_code :: "u8 \<Rightarrow> bool" where "is_code b \<longleftrightarrow> b = SS_TAP_CODE \<or> b = SS_DOWN_CODE \<or> b = SS_UP_CODE"

fun strings_of :: "u8 list \<Rightarrow> u8 list list" where
  "strings_of [] = []"
| "strings_of [b] = (if is_code b then [] else [[b, 0]])"
| "strings_of (b # k # bs) = (if is_code b then [SS_QMK_PREFIX, b, k, 0] # strings_of bs else [b, 0] # strings_of (k # bs))"

lemma macro_strings_of:
  "\<forall>i < length bs. e (p + i) = bs ! i \<and> bs ! i \<noteq> 0 \<Longrightarrow> e (p + length bs) = 0 \<Longrightarrow> macro_strings e p = Some (strings_of bs)"
proof (induction bs arbitrary: p rule: strings_of.induct)
  case 1
  then show ?case by (simp add: macro_strings.simps)
next
  case (2 b)
  then have "e p = b" "b \<noteq> 0" "e (p + 1) = 0" by auto
  then show ?case by (simp add: macro_strings.simps [of e p] macro_strings.simps [of e "Suc p"] is_code_def)
next
  case (3 b k bs)
  have e: "e p = b" "b \<noteq> 0" "e (p + 1) = k" "k \<noteq> 0" using "3.prems"(1) by force+
  show ?case
  proof (cases "is_code b")
    case True
    have "macro_strings e (p + 2) = Some (strings_of bs)"
      using "3.prems" by (intro "3.IH"(1) [OF True]) (auto simp: nth_Cons' dest: spec [of _ "Suc (Suc _)"])
    then show ?thesis using e True by (simp add: macro_strings.simps [of e p] is_code_def)
  next
    case False
    have "macro_strings e (p + 1) = Some (strings_of (k # bs))"
      using "3.prems" by (intro "3.IH"(2) [OF False]) (auto dest: spec [of _ "Suc _"])
    then show ?thesis using e False by (simp add: macro_strings.simps [of e p] is_code_def)
  qed
qed

lemma skip_macros_drop:
  "bs = map e [p..<p + left] \<Longrightarrow> skip_macros e n p left =
    (if n \<le> count_list bs 0 then Some (p + left - length (drop_macros n bs)) else None)"
proof (induction e n p left arbitrary: bs rule: skip_macros.induct)
  case (3 e n p left)
  then have "bs = e p # map e [Suc p..<Suc p + left]" by (simp add: upt_conv_Cons del: upt_Suc)
  then show ?case using 3 by simp
qed auto

lemma drop_macros_suffix: "\<exists>m. m \<le> length bs \<and> drop_macros n bs = drop m bs"
proof (induction n bs rule: drop_macros.induct)
  case (3 n b bs)
  then obtain m where "m \<le> length bs" "drop_macros (if b = 0 then n else Suc n) bs = drop m bs" by auto
  then show ?case by (intro exI [of _ "Suc m"]) simp
qed auto

lemma drop_macros_zero: "n \<le> count_list bs 0 \<Longrightarrow> count_list (drop_macros n bs) 0 = count_list bs 0 - n"
  by (induction n bs rule: drop_macros.induct) auto

lemma macro_start:
  assumes "bs = map e [base..<base + len]" "len > 0" "last bs = 0" "i \<le> count_list bs 0"
  shows "\<exists>p. skip_macros e i base len = Some p \<and>
    (if i < count_list bs 0 then macro_strings e p = Some (strings_of (macro_of i bs)) else p = base + len)"
proof -
  obtain m where m: "m \<le> length bs" "drop_macros i bs = drop m bs" using drop_macros_suffix by blast
  have len: "length bs = len" using assms(1) by simp
  then have skip: "skip_macros e i base len = Some (base + m)"
    using skip_macros_drop [OF assms(1), of i] assms(4) m by simp
  have z: "count_list (drop m bs) 0 = count_list bs 0 - i" using drop_macros_zero [OF assms(4)] m(2) by simp
  show ?thesis
  proof (cases "i < count_list bs 0")
    case True
    define ms where "ms = macro_of i bs"
    have ms: "ms = takeWhile (\<lambda>b. b \<noteq> 0) (drop m bs)" by (simp add: ms_def macro_of_def m(2))
    have "0 \<in> set (drop m bs)" using z True count_list_0_iff [of "drop m bs" 0] by (metis zero_less_diff not_less_zero)
    then have l: "length ms < length (drop m bs)" unfolding ms by (metis (mono_tags) takeWhile_eq_all_conv length_takeWhile_le le_neq_implies_less set_takeWhileD takeWhile_eq_take take_all_iff order_refl)
    have at: "e (base + m + j) = drop m bs ! j" if "j < length (drop m bs)" for j
      using that assms(1) by (simp add: add.assoc)
    have "e (base + m + j) = ms ! j \<and> ms ! j \<noteq> 0" if "j < length ms" for j
      using at [of j] that l nth_mem [OF that] by (auto simp: ms takeWhile_nth dest: set_takeWhileD)
    moreover have "e (base + m + length ms) = 0"
      using at [OF l] nth_length_takeWhile [OF l [unfolded ms]] by (simp add: ms)
    ultimately have "macro_strings e (base + m) = Some (strings_of ms)" by (intro macro_strings_of) auto
    then show ?thesis using skip True by (simp add: ms_def)
  next
    case False
    have "drop m bs = []"
    proof (rule ccontr)
      assume ne: "drop m bs \<noteq> []"
      then have "0 \<in> set (drop m bs)" using assms(3) by (metis last_drop last_in_set drop_eq_Nil not_le)
      then show False using z False by (simp add: count_list_0_iff)
    qed
    then have "m = len" using m(1) len by simp
    then show ?thesis using skip False by simp
  qed
qed

lemma macro_sent:
  assumes "i < MACRO_COUNT d" "MACRO_EEPROM_SIZE d > 0"
    and bs: "bs = dynamic_keymap_macro_get_buffer d e 0 (MACRO_EEPROM_SIZE d)" "last bs = 0"
  shows "macro_to_send d e i =
    (if i < count_list bs 0 then Some (strings_of (macro_of i bs))
     else if i = count_list bs 0 then macro_strings e (MACRO_EEPROM_ADDR d + MACRO_EEPROM_SIZE d)
     else Some [])"
proof -
  let ?p = "MACRO_EEPROM_ADDR d" and ?n = "MACRO_EEPROM_SIZE d"
  have bs': "bs = map e [?p..<?p + ?n]"
    unfolding bs(1) dynamic_keymap_macro_get_buffer_def get_buffer_def
    by (rule nth_equalityI) simp_all
  have "last bs = e (?p + ?n - 1)" using assms(2) by (simp add: bs' last_map last_conv_nth)
  then have "e (?p + ?n - 1) = 0" using bs(2) by simp
  then have send: "macro_to_send d e i = (case skip_macros e i ?p ?n of None \<Rightarrow> Some [] | Some p \<Rightarrow> macro_strings e p)"
    using assms(1) by (simp add: macro_to_send_def Let_def)
  show ?thesis
  proof (cases "i \<le> count_list bs 0")
    case True
    then show ?thesis using macro_start [OF bs' assms(2) bs(2) True] unfolding send by (auto split: if_splits)
  next
    case False
    then show ?thesis using skip_macros_drop [OF bs', of i] unfolding send by simp
  qed
qed

text \<open>
  A macro is what is stored between terminators.  If the last byte of the macro buffer is 0, sending macro \<open>i\<close> sends the
  strings of the bytes between the terminators \<open>i - 1\<close> and \<open>i\<close>, and nothing if there are fewer than \<open>i\<close> terminators.
  If there are exactly \<open>i\<close>, the bytes that are sent are those behind the end of the buffer.
\<close>

theorem stored_macro_is_sent:
  assumes "i < MACRO_COUNT d" "MACRO_EEPROM_SIZE d > 0"
    and bs: "bs = dynamic_keymap_macro_get_buffer d e 0 (MACRO_EEPROM_SIZE d)" "last bs = 0"
  shows "macro_to_send d e i =
    (if i < count_list bs 0 then Some (strings_of (macro_of i bs))
     else if i = count_list bs 0 then macro_strings e (MACRO_EEPROM_ADDR d + MACRO_EEPROM_SIZE d)
     else Some [])"
  using assms by (rule macro_sent)

lemma stored_macro_is_sent_witness:
  "let d = \<lparr>LAYER_COUNT = 1, DK_ROWS = 1, DK_COLS = 1, EEPROM_ADDR = 0, MACRO_COUNT = 4, MACRO_EEPROM_ADDR = 2,
            MACRO_EEPROM_SIZE = 6\<rparr>;
       e = (\<lambda>a. [9, 9, 97, 0, 1, 4, 98, 0] ! a) :: eeprom
   in macro_to_send d e 0 = Some [[97, 0]] \<and> macro_to_send d e 1 = Some [[1, 1, 4, 0], [98, 0]] \<and> macro_to_send d e 3 = Some []"
proof -
  define d where "d = \<lparr>LAYER_COUNT = 1, DK_ROWS = 1, DK_COLS = 1, EEPROM_ADDR = 0, MACRO_COUNT = 4,
    MACRO_EEPROM_ADDR = 2, MACRO_EEPROM_SIZE = 6\<rparr>"
  define e :: eeprom where "e = (\<lambda>a. [9, 9, 97, 0, 1, 4, 98, 0] ! a)"
  have bs: "[97, 0, 1, 4, 98, 0] = dynamic_keymap_macro_get_buffer d e 0 (MACRO_EEPROM_SIZE d)"
    by (simp add: d_def e_def dynamic_keymap_macro_get_buffer_def get_buffer_def upt_rec)
  have d: "MACRO_COUNT d = 4" "MACRO_EEPROM_SIZE d > 0" by (simp_all add: d_def)
  have n: "count_list [97, 0, 1, 4, 98, 0 :: u8] 0 = 2" by simp
  note send = stored_macro_is_sent [OF _ d(2) bs, unfolded n d(1)]
  have "macro_of 0 [97, 0, 1, 4, 98, 0] = [97]" "macro_of 1 [97, 0, 1, 4, 98, 0] = [1, 4, 98]"
    by (simp_all add: macro_of_def)
  moreover have "strings_of [97] = [[97, 0]]" "strings_of [1, 4, 98] = [[1, 1, 4, 0], [98, 0]]"
    by (simp_all add: is_code_def SS_QMK_PREFIX_def SS_TAP_CODE_def SS_DOWN_CODE_def SS_UP_CODE_def)
  ultimately show ?thesis
    unfolding Let_def d_def [symmetric] e_def [symmetric] using send [of 0] send [of 1] send [of 3] by simp
qed

lemma us_typable_no_code: "a \<in> set us_typable \<Longrightarrow> \<not> is_code a"
  by (auto simp: us_typable_def is_code_def SS_TAP_CODE_def SS_DOWN_CODE_def SS_UP_CODE_def word_unat_eq_iff unat_of_nat)

lemma typable_strings: "set cs \<subseteq> set us_typable \<Longrightarrow> strings_of cs = map (\<lambda>b. [b, 0]) cs"
proof (induction cs rule: strings_of.induct)
  case (2 b)
  then have "\<not> is_code b" using us_typable_no_code by simp
  then show ?case by simp
next
  case (3 b k bs)
  then have "\<not> is_code b" using us_typable_no_code by simp
  then show ?case using 3 by simp
qed simp

lemma send_chars_type:
  "at_rest 0 s \<Longrightarrow> util_held s = {} \<Longrightarrow> \<not> LOCKING_SUPPORT_ENABLE c \<Longrightarrow> set cs \<subseteq> set us_typable \<Longrightarrow>
   \<exists>s'. foldl (\<lambda>os str. Option.bind os (send_string ascii_luts c str)) (Some s) (map (\<lambda>b. [b, 0]) cs) = Some s' \<and>
     types s s' 0 (map Some cs)"
proof (induction cs arbitrary: s)
  case Nil
  then show ?case by (simp add: types_refl)
next
  case (Cons a cs)
  obtain s1 where s1: "send_string_with_delay ascii_luts c 0 [a, 0] s = send_string_with_delay ascii_luts c 0 [0] s1"
    "types s s1 0 [Some a]"
    using chars_type [OF Cons.prems(1-3), of "[a]" 0 "[0]"] Cons.prems(4) by auto
  then have "send_string ascii_luts c [a, 0] s = Some s1"
    by (simp add: send_string_def send_string_with_delay.simps [of _ _ _ "[0]"])
  moreover obtain s' where s': "foldl (\<lambda>os str. Option.bind os (send_string ascii_luts c str)) (Some s1) (map (\<lambda>b. [b, 0]) cs) = Some s'"
    "types s1 s' 0 (map Some cs)"
    using Cons.IH [of s1] s1(2) Cons.prems by (auto simp: types_def)
  ultimately show ?case using types_trans [OF s1(2) s'(2)] by auto
qed

text \<open>
  C10. From the EEPROM to the host.  A macro of text that is stored in the buffer is sent as reports from which a
  host with the US layout reads this text, and leaves no key and no modifier down.
\<close>

theorem stored_text_is_typed:
  assumes "i < MACRO_COUNT d" "MACRO_EEPROM_SIZE d > 0"
    and bs: "bs = dynamic_keymap_macro_get_buffer d e 0 (MACRO_EEPROM_SIZE d)" "last bs = 0" "i < count_list bs 0"
    and "cs = macro_of i bs" "set cs \<subseteq> set us_typable"
    and rest: "at_rest 0 s" "util_held s = {}" "\<not> LOCKING_SUPPORT_ENABLE c"
  shows "\<exists>s' es. dynamic_keymap_macro_send d ascii_luts c e i s = Some s' \<and> effects s' = effects s @ es \<and>
    foldl (host_step (nkro s)) ({}, []) es = ({}, map Some cs) \<and> at_rest 0 s' \<and> util_held s' = {}"
proof -
  have "macro_to_send d e i = Some (map (\<lambda>b. [b, 0]) cs)"
    using macro_sent [OF assms(1,2) bs(1,2)] bs(3) typable_strings [OF assms(7)] assms(6) by simp
  then show ?thesis using send_chars_type [OF rest assms(7)]
    by (auto simp: dynamic_keymap_macro_send_def types_def)
qed

lemma stored_text_is_typed_witness:
  "let d = \<lparr>LAYER_COUNT = 1, DK_ROWS = 1, DK_COLS = 1, EEPROM_ADDR = 0, MACRO_COUNT = 4, MACRO_EEPROM_ADDR = 2,
            MACRO_EEPROM_SIZE = 4\<rparr>;
       c = default_config (\<lambda>_ _. 0) :: unit config; s = layer_init c
   in \<exists>s'. dynamic_keymap_macro_send d ascii_luts c (\<lambda>a. [9, 9, 0, 72, 105, 0] ! a) 1 s = Some s' \<and>
        foldl (host_step (nkro s)) ({}, []) (effects s') = ({}, [Some 72, Some 105])"
proof -
  define d where "d = \<lparr>LAYER_COUNT = 1, DK_ROWS = 1, DK_COLS = 1, EEPROM_ADDR = 0, MACRO_COUNT = 4,
    MACRO_EEPROM_ADDR = 2, MACRO_EEPROM_SIZE = 4\<rparr>"
  define e :: eeprom where "e = (\<lambda>a. [9, 9, 0, 72, 105, 0] ! a)"
  define c :: "unit config" where "c = default_config (\<lambda>_ _. 0)"
  have bs: "[0, 72, 105, 0] = dynamic_keymap_macro_get_buffer d e 0 (MACRO_EEPROM_SIZE d)"
    by (simp add: d_def e_def dynamic_keymap_macro_get_buffer_def get_buffer_def upt_rec)
  have m: "macro_of (Suc 0) [0, 72, 105, 0] = [72, 105]" by (simp add: macro_of_def)
  have "set [72, 105 :: u8] \<subseteq> set us_typable" by (simp add: us_typable_def image_iff)
  moreover have "1 < MACRO_COUNT d" "MACRO_EEPROM_SIZE d > 0" by (simp_all add: d_def)
  moreover have "\<not> LOCKING_SUPPORT_ENABLE c" "effects (layer_init c) = []" by (simp_all add: c_def layer_init_def)
  ultimately show ?thesis
    using stored_text_is_typed [OF _ _ bs _ _ _ _ at_rest_init [of c], where i = 1 and c = c and cs = "[72, 105]"]
    unfolding Let_def d_def [symmetric] e_def [symmetric] c_def [symmetric] by (auto simp: m)
qed

end
