(* ===== verification/Dynamic_Macro.thy ===== *)
theory Dynamic_Macro
  imports Action
begin

text \<open>
  Macros that are recorded on the keyboard, \<^verbatim>\<open>quantum/process_keycode/process_dynamic_macro.c\<close>.  Two macros share one
  buffer: the first grows from its beginning, the second from its end.  The pointers into the buffer are indices,
  as integers, since they may stand one before it; an access outside the buffer is the result \<open>None\<close>.
  What the code calls is the record \<open>dm_calls\<close>: the user hooks, and \<^verbatim>\<open>process_record\<close>, which gets
  the pointer to a record of the buffer and works on the whole state.
\<close>

section \<open>The operations\<close>

record 'x dynamic_macro_st =
  macro_buffer :: "keyrecord_t list"
  macro_end :: int
  r_macro_end :: int
  macro_pointer :: int
  macro_id :: nat
  dm_world :: "'x action_st_scheme"

record ('s, 'x) dm_calls =
  dm_config :: "'s config"
  DYNAMIC_MACRO_NO_NESTING :: bool
  record_start_user :: "'x action_st_scheme \<Rightarrow> 'x action_st_scheme"
  play_user :: "int \<Rightarrow> 'x action_st_scheme \<Rightarrow> 'x action_st_scheme"
  record_key_user :: "int \<Rightarrow> keyrecord_t \<Rightarrow> 'x action_st_scheme \<Rightarrow> 'x action_st_scheme"
  record_end_user :: "int \<Rightarrow> 'x action_st_scheme \<Rightarrow> 'x action_st_scheme"
  dm_process :: "int \<Rightarrow> 'x dynamic_macro_st \<Rightarrow> 'x dynamic_macro_st option"

definition r_macro_buffer :: "'x dynamic_macro_st \<Rightarrow> int" where
  "r_macro_buffer s = int (length (macro_buffer s)) - 1"

definition in_buffer :: "int \<Rightarrow> 'x dynamic_macro_st \<Rightarrow> bool" where
  "in_buffer p s \<longleftrightarrow> 0 \<le> p \<and> p < int (length (macro_buffer s))"

definition record_at :: "int \<Rightarrow> 'x dynamic_macro_st \<Rightarrow> keyrecord_t" where
  "record_at p s = macro_buffer s ! nat p"

definition dm_initial :: "keyrecord_t list \<Rightarrow> 'x action_st_scheme \<Rightarrow> 'x dynamic_macro_st" where
  "dm_initial buffer w =
     \<lparr>macro_buffer = buffer, macro_end = 0, r_macro_end = int (length buffer) - 1, macro_pointer = 0, macro_id = 0, dm_world = w\<rparr>"

definition dynamic_macro_record_start :: "('s, 'x) dm_calls \<Rightarrow> int \<Rightarrow> 'x dynamic_macro_st \<Rightarrow> 'x dynamic_macro_st" where
  "dynamic_macro_record_start h buffer s =
     (let w = record_start_user h (dm_world s); w = clear_keyboard (dm_config h) w; w = layer_clear (dm_config h) w
      in s\<lparr>macro_pointer := buffer, dm_world := w\<rparr>)"

partial_function (option) play_loop ::
    "(int \<Rightarrow> 'x dynamic_macro_st \<Rightarrow> 'x dynamic_macro_st option) \<Rightarrow> int \<Rightarrow> int \<Rightarrow> int \<Rightarrow> 'x dynamic_macro_st \<Rightarrow>
     'x dynamic_macro_st option" where
  "play_loop process p e direction s =
     (if p = e then Some s
      else if in_buffer p s
      then Option.bind (process p s) (play_loop process (p + direction) e direction)
      else None)"

definition dynamic_macro_play :: "('s, 'x) dm_calls \<Rightarrow> int \<Rightarrow> int \<Rightarrow> int \<Rightarrow> 'x dynamic_macro_st \<Rightarrow> 'x dynamic_macro_st option" where
  "dynamic_macro_play h buffer e direction s =
     (let saved = layer_state (dm_world s); s = s\<lparr>dm_world := layer_clear (dm_config h) (clear_keyboard (dm_config h) (dm_world s))\<rparr>
      in map_option (\<lambda>s. s\<lparr>dm_world := play_user h direction ((clear_keyboard (dm_config h) (dm_world s))\<lparr>layer_state := saved\<rparr>)\<rparr>)
           (play_loop (dm_process h) buffer e direction s))"

definition dynamic_macro_record_key ::
    "('s, 'x) dm_calls \<Rightarrow> int \<Rightarrow> int \<Rightarrow> int \<Rightarrow> keyrecord_t \<Rightarrow> 'x dynamic_macro_st \<Rightarrow> 'x dynamic_macro_st option" where
  "dynamic_macro_record_key h buffer macro2_end direction r s =
     (if \<not> pressed (event r) \<and> macro_pointer s = buffer then Some s
      else if macro_pointer s - direction \<noteq> macro2_end
      then if in_buffer (macro_pointer s) s
           then Some (s\<lparr>macro_buffer := (macro_buffer s)[nat (macro_pointer s) := r],
                        macro_pointer := macro_pointer s + direction\<rparr>)
           else None
      else Some (s\<lparr>dm_world := record_key_user h direction r (dm_world s)\<rparr>))"

text \<open>The loop that drops the keys that are held at the end of the recording.\<close>

partial_function (option) trim_loop :: "int \<Rightarrow> int \<Rightarrow> int \<Rightarrow> 'x dynamic_macro_st \<Rightarrow> int option" where
  "trim_loop buffer p direction s =
     (if p = buffer then Some p
      else if \<not> in_buffer (p - direction) s then None
      else if pressed (event (record_at (p - direction) s)) then trim_loop buffer (p - direction) direction s
      else Some p)"

definition dynamic_macro_record_end ::
    "('s, 'x) dm_calls \<Rightarrow> int \<Rightarrow> int \<Rightarrow> 'x dynamic_macro_st \<Rightarrow> (int \<times> 'x dynamic_macro_st) option" where
  "dynamic_macro_record_end h buffer direction s =
     (let s = s\<lparr>dm_world := record_end_user h direction (dm_world s)\<rparr>
      in map_option (\<lambda>p. (p, s)) (trim_loop buffer (macro_pointer s) direction s))"

definition process_dynamic_macro ::
    "('s, 'x) dm_calls \<Rightarrow> u16 \<Rightarrow> keyrecord_t \<Rightarrow> 'x dynamic_macro_st \<Rightarrow> (bool \<times> 'x dynamic_macro_st) option" where
  "process_dynamic_macro h keycode r s =
     (if macro_id s = 0 then
        if pressed (event r) then Some (True, s)
        else if keycode = DYN_REC_START1
        then Some (False, (dynamic_macro_record_start h 0 s)\<lparr>macro_id := 1\<rparr>)
        else if keycode = DYN_REC_START2
        then Some (False, (dynamic_macro_record_start h (r_macro_buffer s) s)\<lparr>macro_id := 2\<rparr>)
        else if keycode = DYN_MACRO_PLAY1
        then map_option (Pair False) (dynamic_macro_play h 0 (macro_end s) 1 s)
        else if keycode = DYN_MACRO_PLAY2
        then map_option (Pair False) (dynamic_macro_play h (r_macro_buffer s) (r_macro_end s) (- 1) s)
        else Some (True, s)
      else if keycode = DYN_REC_START1 \<or> keycode = DYN_REC_START2 \<or> keycode = DYN_REC_STOP then
        if pressed (event r) \<noteq> (keycode \<noteq> DYN_REC_STOP) then
          map_option (\<lambda>s. (False, s\<lparr>macro_id := 0\<rparr>))
            (if macro_id s = 1
             then map_option (\<lambda>(p, s). s\<lparr>macro_end := p\<rparr>) (dynamic_macro_record_end h 0 1 s)
             else if macro_id s = 2
             then map_option (\<lambda>(p, s). s\<lparr>r_macro_end := p\<rparr>) (dynamic_macro_record_end h (r_macro_buffer s) (- 1) s)
             else Some s)
        else Some (False, s)
      else if DYNAMIC_MACRO_NO_NESTING h \<and> (keycode = DYN_MACRO_PLAY1 \<or> keycode = DYN_MACRO_PLAY2) then Some (False, s)
      else map_option (Pair True)
             (if macro_id s = 1 then dynamic_macro_record_key h 0 (r_macro_end s) 1 r s
              else if macro_id s = 2 then dynamic_macro_record_key h (r_macro_buffer s) (macro_end s) (- 1) r s
              else Some s))"

section \<open>One side of the buffer\<close>

text \<open>The first \<open>n\<close> records of the macro that starts at \<open>b\<close> and grows in the direction \<open>d\<close>; what the end of the recording drops.\<close>

definition content :: "'x dynamic_macro_st \<Rightarrow> int \<Rightarrow> int \<Rightarrow> nat \<Rightarrow> keyrecord_t list" where
  "content s b d n = map (\<lambda>k. record_at (b + d * int k) s) [0..<n]"

definition trim :: "keyrecord_t list \<Rightarrow> keyrecord_t list" where
  "trim rs = rev (dropWhile (\<lambda>r. pressed (event r)) (rev rs))"

lemma trim_snoc: "trim (rs @ [r]) = (if pressed (event r) then trim rs else rs @ [r])"
  by (simp add: trim_def)

lemma length_trim: "length (trim rs) \<le> length rs"
  using length_dropWhile_le [of "\<lambda>r. pressed (event r)" "rev rs"] by (simp add: trim_def)

lemma trim_take: "trim rs = take (length (trim rs)) rs"
  by (induction rs rule: rev_induct) (auto simp: trim_snoc length_trim, simp add: trim_def)

lemma length_content [simp]: "length (content s b d n) = n"
  by (simp add: content_def)

lemma content_Suc: "content s b d (Suc n) = content s b d n @ [record_at (b + d * int n) s]"
  by (simp add: content_def)

lemma take_content: "m \<le> n \<Longrightarrow> take m (content s b d n) = content s b d m"
  by (simp add: content_def take_map min_def)

definition side_ok :: "'x dynamic_macro_st \<Rightarrow> int \<Rightarrow> int \<Rightarrow> nat \<Rightarrow> bool" where
  "side_ok s b d cap \<longleftrightarrow> (d = 1 \<or> d = - 1) \<and> (\<forall>k < cap. in_buffer (b + d * int k) s)"

lemma step_cancel: "d = 1 \<or> d = - 1 \<Longrightarrow> b + d * int n = b + d * int m \<longleftrightarrow> n = m"
  by auto

lemma trim_loop_trims:
  assumes "side_ok s b d n"
  shows "trim_loop b (b + d * int n) d s = Some (b + d * int (length (trim (content s b d n))))"
  using assms
proof (induction n)
  case 0
  then show ?case by (simp add: trim_loop.simps content_def trim_def)
next
  case (Suc n)
  have d: "d = 1 \<or> d = - 1" "in_buffer (b + d * int n) s" "b + d * int (Suc n) - d = b + d * int n"
    using Suc.prems by (auto simp: side_ok_def algebra_simps)
  have "side_ok s b d n" using Suc.prems by (auto simp: side_ok_def)
  note IH = Suc.IH [OF this]
  have ne: "b + d * int (Suc n) \<noteq> b" using d(1) by auto
  show ?case unfolding trim_loop.simps [of b "b + d * int (Suc n)"] d(3) using ne d(2) IH
    by (simp add: content_Suc trim_snoc)
qed

lemma play_loop_plays:
  assumes "process = (\<lambda>p s. Some (s\<lparr>dm_world := f (record_at p s) (dm_world s)\<rparr>))"
  shows "side_ok s p d n \<Longrightarrow> play_loop process p (p + d * int n) d s =
    Some (s\<lparr>dm_world := fold f (content s p d n) (dm_world s)\<rparr>)"
proof (induction n arbitrary: s p)
  case 0
  then show ?case by (simp add: play_loop.simps content_def)
next
  case (Suc n)
  let ?s = "s\<lparr>dm_world := f (record_at p s) (dm_world s)\<rparr>"
  have d: "d = 1 \<or> d = - 1" "in_buffer p s" using Suc.prems by (auto simp: side_ok_def dest: spec [of _ 0])
  have shift: "p + d * int (Suc k) = p + d + d * int k" for k by (simp add: algebra_simps)
  have "in_buffer (p + d + d * int k) ?s" if "k < n" for k
    using Suc.prems that shift [of k] unfolding side_ok_def by (auto simp: in_buffer_def dest!: spec [of _ "Suc k"])
  then have "side_ok ?s (p + d) d n" using d(1) by (simp add: side_ok_def)
  note IH = Suc.IH [OF this]
  have cont: "content s p d (Suc n) = record_at p s # content ?s (p + d) d n"
    by (simp add: content_def record_at_def map_upt_Suc algebra_simps del: upt_Suc)
  have "p + d * int (Suc n) \<noteq> p" using d(1) by auto
  then show ?case using d(2) IH by (subst play_loop.simps) (simp add: assms cont algebra_simps)
qed

lemma record_key_appends:
  assumes "side_ok s b d cap" "e2 = b + d * (int cap - 1)" "macro_pointer s = b + d * int n" "n \<le> cap"
  shows "\<exists>s'. dynamic_macro_record_key h b e2 d r s = Some s' \<and>
    (let m = (if \<not> pressed (event r) \<and> n = 0 \<or> n = cap then n else Suc n)
     in macro_pointer s' = b + d * int m \<and> m \<le> cap \<and>
        content s' b d m = (if m = n then content s b d n else content s b d n @ [r])) \<and>
    length (macro_buffer s') = length (macro_buffer s) \<and> macro_end s' = macro_end s \<and> r_macro_end s' = r_macro_end s \<and>
    macro_id s' = macro_id s \<and>
    (\<forall>p. (\<forall>k < cap. p \<noteq> b + d * int k) \<and> 0 \<le> p \<longrightarrow> record_at p s' = record_at p s)"
proof -
  have d: "d = 1 \<or> d = - 1" using assms(1) by (simp add: side_ok_def)
  have start: "macro_pointer s = b \<longleftrightarrow> n = 0" using d assms(3) by auto
  have full: "macro_pointer s - d = e2 \<longleftrightarrow> n = cap" using d assms(2,3) by auto
  show ?thesis
  proof (cases "\<not> pressed (event r) \<and> n = 0 \<or> n = cap")
    case True
    then show ?thesis using start full assms(3,4)
      by (auto simp: dynamic_macro_record_key_def content_def record_at_def)
  next
    case False
    let ?p = "b + d * int n"
    let ?s = "s\<lparr>macro_buffer := (macro_buffer s)[nat ?p := r], macro_pointer := ?p + d\<rparr>"
    have n: "n < cap" and ib: "in_buffer ?p s" using False assms(1,4) by (auto simp: side_ok_def)
    then have rec: "dynamic_macro_record_key h b e2 d r s = Some ?s"
      using False start full assms(3) by (auto simp: dynamic_macro_record_key_def)
    have other: "record_at q ?s = record_at q s" if "q \<noteq> ?p" "0 \<le> q" for q
      using that ib by (simp add: record_at_def in_buffer_def nat_eq_iff2 nth_list_update)
    have "record_at (b + d * int k) ?s = record_at (b + d * int k) s" if "k < n" for k
    proof (rule other)
      show "b + d * int k \<noteq> ?p" using that d by auto
      show "0 \<le> b + d * int k" using assms(1) that n by (auto simp: side_ok_def in_buffer_def)
    qed
    then have "content ?s b d n = content s b d n" by (simp add: content_def)
    moreover have "record_at ?p ?s = r" using ib by (simp add: record_at_def in_buffer_def nat_less_iff)
    ultimately show ?thesis using rec False n other by (auto simp: content_Suc algebra_simps)
  qed
qed

section \<open>The two macros\<close>

definition macro1 :: "'x dynamic_macro_st \<Rightarrow> keyrecord_t list" where
  "macro1 s = content s 0 1 (nat (macro_end s))"

definition macro2 :: "'x dynamic_macro_st \<Rightarrow> keyrecord_t list" where
  "macro2 s = content s (r_macro_buffer s) (- 1) (nat (r_macro_buffer s - r_macro_end s))"

definition dm_ok :: "'x dynamic_macro_st \<Rightarrow> bool" where
  "dm_ok s \<longleftrightarrow> 0 \<le> macro_end s \<and> macro_end s \<le> r_macro_end s + 1 \<and> r_macro_end s \<le> r_macro_buffer s \<and> macro_id s \<le> 2 \<and>
     (macro_id s = 1 \<longrightarrow> 0 \<le> macro_pointer s \<and> macro_pointer s \<le> r_macro_end s + 1) \<and>
     (macro_id s = 2 \<longrightarrow> macro_end s - 1 \<le> macro_pointer s \<and> macro_pointer s \<le> r_macro_buffer s)"

text \<open>The side that a macro may use: its base, direction and room, and the other macro's end.\<close>

definition base_of :: "nat \<Rightarrow> 'x dynamic_macro_st \<Rightarrow> int" where "base_of i s = (if i = 1 then 0 else r_macro_buffer s)"
definition dir_of :: "nat \<Rightarrow> int" where "dir_of i = (if i = 1 then 1 else - 1)"

definition room_of :: "nat \<Rightarrow> 'x dynamic_macro_st \<Rightarrow> nat" where
  "room_of i s = nat (if i = 1 then r_macro_end s + 1 else r_macro_buffer s - macro_end s + 1)"

definition macro_no :: "nat \<Rightarrow> 'x dynamic_macro_st \<Rightarrow> keyrecord_t list" where
  "macro_no i s = (if i = 1 then macro1 s else macro2 s)"

lemma side_of:
  assumes "dm_ok s" "i = 1 \<or> i = 2"
  shows "side_ok s (base_of i s) (dir_of i) (room_of i s)"
  using assms by (auto simp: side_ok_def base_of_def dir_of_def room_of_def dm_ok_def in_buffer_def r_macro_buffer_def)

lemma other_end:
  assumes "dm_ok s" "i = 1 \<or> i = 2"
  shows "base_of i s + dir_of i * (int (room_of i s) - 1) = (if i = 1 then r_macro_end s else macro_end s)"
  using assms by (auto simp: base_of_def dir_of_def room_of_def dm_ok_def)

definition dm_recording :: "nat \<Rightarrow> nat \<Rightarrow> 'x dynamic_macro_st \<Rightarrow> bool" where
  "dm_recording i n s \<longleftrightarrow> dm_ok s \<and> macro_id s = i \<and> (i = 1 \<or> i = 2) \<and>
     macro_pointer s = base_of i s + dir_of i * int n \<and> n \<le> room_of i s"

lemma recording_place: "dm_ok s \<Longrightarrow> macro_id s \<noteq> 0 \<Longrightarrow> \<exists>n. dm_recording (macro_id s) n s"
proof -
  assume ok: "dm_ok s" "macro_id s \<noteq> 0"
  then consider "macro_id s = 1" | "macro_id s = 2" by (fastforce simp: dm_ok_def)
  then show ?thesis
  proof cases
    case 1
    then show ?thesis using ok
      by (intro exI [of _ "nat (macro_pointer s)"]) (auto simp: dm_recording_def base_of_def dir_of_def room_of_def dm_ok_def)
  next
    case 2
    then show ?thesis using ok
      by (intro exI [of _ "nat (r_macro_buffer s - macro_pointer s)"])
        (auto simp: dm_recording_def base_of_def dir_of_def room_of_def dm_ok_def)
  qed
qed

text \<open>A key that is not one of the macro keys is recorded while there is room.\<close>

definition dm_key :: "u16 \<Rightarrow> bool" where
  "dm_key k \<longleftrightarrow> k = DYN_REC_START1 \<or> k = DYN_REC_START2 \<or> k = DYN_REC_STOP \<or> k = DYN_MACRO_PLAY1 \<or> k = DYN_MACRO_PLAY2"

definition same_macro :: "nat \<Rightarrow> 'x dynamic_macro_st \<Rightarrow> 'x dynamic_macro_st \<Rightarrow> bool" where
  "same_macro i s s' \<longleftrightarrow> length (macro_buffer s') = length (macro_buffer s) \<and> macro_end s' = macro_end s \<and>
     r_macro_end s' = r_macro_end s \<and> macro_no (3 - i) s' = macro_no (3 - i) s"

lemma same_macro_trans: "same_macro i s t \<Longrightarrow> same_macro i t u \<Longrightarrow> same_macro i s u"
  by (simp add: same_macro_def)

lemma same_macro_sides:
  "same_macro i s s' \<Longrightarrow> base_of j s' = base_of j s \<and> room_of j s' = room_of j s \<and> r_macro_buffer s' = r_macro_buffer s"
  by (simp add: same_macro_def base_of_def room_of_def r_macro_buffer_def)

lemma record_one:
  assumes "dm_recording i n s"
  shows "\<exists>s'. dynamic_macro_record_key h (base_of i s) (if i = 1 then r_macro_end s else macro_end s) (dir_of i) r s = Some s' \<and>
    (let m = (if \<not> pressed (event r) \<and> n = 0 \<or> n = room_of i s then n else Suc n)
     in dm_recording i m s' \<and> content s' (base_of i s) (dir_of i) m =
          (if m = n then content s (base_of i s) (dir_of i) n else content s (base_of i s) (dir_of i) n @ [r])) \<and>
    same_macro i s s'"
proof -
  have i: "i = 1 \<or> i = 2" and ok: "dm_ok s" using assms by (simp_all add: dm_recording_def)
  define m where "m = (if \<not> pressed (event r) \<and> n = 0 \<or> n = room_of i s then n else Suc n)"
  obtain s' where s': "dynamic_macro_record_key h (base_of i s) (if i = 1 then r_macro_end s else macro_end s) (dir_of i) r s = Some s'"
    "macro_pointer s' = base_of i s + dir_of i * int m" "m \<le> room_of i s"
    "content s' (base_of i s) (dir_of i) m =
       (if m = n then content s (base_of i s) (dir_of i) n else content s (base_of i s) (dir_of i) n @ [r])"
    "length (macro_buffer s') = length (macro_buffer s)" "macro_end s' = macro_end s" "r_macro_end s' = r_macro_end s"
    "macro_id s' = macro_id s"
    "\<And>p. (\<And>k. k < room_of i s \<Longrightarrow> p \<noteq> base_of i s + dir_of i * int k) \<Longrightarrow> 0 \<le> p \<Longrightarrow> record_at p s' = record_at p s"
    using record_key_appends [OF side_of [OF ok i] other_end [OF ok i, symmetric], of n h r] assms
    unfolding dm_recording_def Let_def m_def by blast
  have base: "r_macro_buffer s' = r_macro_buffer s" "\<And>j. base_of j s' = base_of j s" "\<And>j. room_of j s' = room_of j s"
    using s'(5-7) by (simp_all add: r_macro_buffer_def base_of_def room_of_def)
  have "macro_no (3 - i) s' = macro_no (3 - i) s"
    using i
  proof
    assume "i = 1"
    then show ?thesis using s'(6,7) ok base(1)
      by (auto simp: macro_no_def macro2_def content_def intro!: s'(9))
        (auto simp: base_of_def dir_of_def room_of_def dm_ok_def r_macro_buffer_def)
  next
    assume "i = 2"
    then show ?thesis using s'(6,7) ok base(1)
      by (auto simp: macro_no_def macro1_def content_def intro!: s'(9))
        (auto simp: base_of_def dir_of_def room_of_def dm_ok_def r_macro_buffer_def)
  qed
  then have same: "same_macro i s s'" using s'(5-7) by (simp add: same_macro_def)
  have "dm_ok s'" using i
  proof
    assume "i = 1"
    then show ?thesis using ok assms s'(2,3,6,7,8) base(1)
      by (simp add: dm_ok_def dm_recording_def base_of_def dir_of_def room_of_def) linarith
  next
    assume "i = 2"
    then show ?thesis using ok assms s'(2,3,6,7,8) base(1)
      by (simp add: dm_ok_def dm_recording_def base_of_def dir_of_def room_of_def) linarith
  qed
  then have "dm_recording i m s'" using s'(2,3,8) base assms by (simp add: dm_recording_def)
  then show ?thesis using s'(1,4) same unfolding Let_def m_def [symmetric] by blast
qed

definition dm_event :: "('s, 'x) dm_calls \<Rightarrow> 'x dynamic_macro_st option \<Rightarrow> u16 \<times> keyrecord_t \<Rightarrow> 'x dynamic_macro_st option" where
  "dm_event h os kr = Option.bind os (\<lambda>s. map_option snd (process_dynamic_macro h (fst kr) (snd kr) s))"

definition dm_run :: "('s, 'x) dm_calls \<Rightarrow> (u16 \<times> keyrecord_t) list \<Rightarrow> 'x dynamic_macro_st \<Rightarrow> 'x dynamic_macro_st option" where
  "dm_run h krs s = foldl (dm_event h) (Some s) krs"

definition recorded :: "keyrecord_t list \<Rightarrow> nat \<Rightarrow> keyrecord_t list" where
  "recorded rs cap = take cap (dropWhile (\<lambda>r. \<not> pressed (event r)) rs)"

lemma recorded_snoc:
  "recorded (rs @ [r]) cap =
    (if \<not> pressed (event r) \<and> recorded rs cap = [] \<or> length (recorded rs cap) = cap then recorded rs cap
     else recorded rs cap @ [r])"
proof (cases "\<forall>x \<in> set rs. \<not> pressed (event x)")
  case True
  then have "dropWhile (\<lambda>r. \<not> pressed (event r)) rs = []" by simp
  note none = this
  show ?thesis using True by (cases cap) (auto simp: recorded_def dropWhile_append2 none)
next
  case False
  then have ne: "dropWhile (\<lambda>r. \<not> pressed (event r)) rs \<noteq> []" by simp
  have "dropWhile (\<lambda>r. \<not> pressed (event r)) (rs @ [r]) = dropWhile (\<lambda>r. \<not> pressed (event r)) rs @ [r]"
    using False by (auto intro: dropWhile_append1)
  then show ?thesis using ne by (auto simp: recorded_def min_def split: if_splits)
qed

lemma ordinary_key_recorded:
  assumes "dm_recording i n s" "\<not> dm_key k"
  shows "dm_event h (Some s) (k, r) =
    dynamic_macro_record_key h (base_of i s) (if i = 1 then r_macro_end s else macro_end s) (dir_of i) r s"
proof -
  have "i = 1 \<or> i = 2" "macro_id s = i" using assms(1) by (simp_all add: dm_recording_def)
  then show ?thesis using assms(2)
    by (auto simp: dm_event_def process_dynamic_macro_def dm_key_def base_of_def dir_of_def option.map_comp o_def option.map_ident)
qed

lemma records_keys:
  assumes "dm_recording i 0 s" "list_all (\<lambda>(k, r). \<not> dm_key k) krs"
  shows "\<exists>s'. dm_run h krs s = Some s' \<and> dm_recording i (length (recorded (map snd krs) (room_of i s))) s' \<and>
    content s' (base_of i s) (dir_of i) (length (recorded (map snd krs) (room_of i s))) = recorded (map snd krs) (room_of i s) \<and>
    same_macro i s s'"
  using assms(2)
proof (induction krs rule: rev_induct)
  case Nil
  then show ?case using assms(1) by (simp add: dm_run_def recorded_def content_def same_macro_def)
next
  case (snoc kr krs)
  obtain k r where kr: "kr = (k, r)" by fastforce
  let ?rs = "recorded (map snd krs) (room_of i s)"
  obtain s1 where s1: "dm_run h krs s = Some s1" "dm_recording i (length ?rs) s1"
    "content s1 (base_of i s) (dir_of i) (length ?rs) = ?rs" "same_macro i s s1"
    using snoc by auto
  note sides = same_macro_sides [OF s1(4)]
  have k: "\<not> dm_key k" using snoc.prems by (simp add: kr)
  obtain s2 where s2: "dm_event h (Some s1) (k, r) = Some s2"
    "let m = (if \<not> pressed (event r) \<and> length ?rs = 0 \<or> length ?rs = room_of i s1 then length ?rs else Suc (length ?rs))
     in dm_recording i m s2 \<and> content s2 (base_of i s1) (dir_of i) m =
          (if m = length ?rs then content s1 (base_of i s1) (dir_of i) (length ?rs)
           else content s1 (base_of i s1) (dir_of i) (length ?rs) @ [r])"
    "same_macro i s1 s2"
    using record_one [OF s1(2), of h r] unfolding ordinary_key_recorded [OF s1(2) k] by blast
  have "dm_run h (krs @ [kr]) s = Some s2" using s1(1) s2(1) by (simp add: dm_run_def kr)
  then show ?case using s2(2) s1(3) sides same_macro_trans [OF s1(4) s2(3)]
    by (auto simp: Let_def kr recorded_snoc split: if_splits)
qed

section \<open>Recording and playing\<close>

text \<open>A call of \<^verbatim>\<open>process_record\<close> that does not change the macros: \<open>f\<close> is what it does to the firmware.\<close>

definition plain_process :: "('s, 'x) dm_calls \<Rightarrow> (keyrecord_t \<Rightarrow> 'x action_st_scheme \<Rightarrow> 'x action_st_scheme) \<Rightarrow> bool" where
  "plain_process h f \<longleftrightarrow> dm_process h = (\<lambda>p s. Some (s\<lparr>dm_world := f (record_at p s) (dm_world s)\<rparr>))"

definition start_key :: "nat \<Rightarrow> u16" where "start_key i = (if i = 1 then DYN_REC_START1 else DYN_REC_START2)"
definition play_key :: "nat \<Rightarrow> u16" where "play_key i = (if i = 1 then DYN_MACRO_PLAY1 else DYN_MACRO_PLAY2)"

lemma dm_world_fields [simp]:
  "dm_ok (s\<lparr>dm_world := w\<rparr>) = dm_ok s" "macro_no i (s\<lparr>dm_world := w\<rparr>) = macro_no i s" "base_of i (s\<lparr>dm_world := w\<rparr>) = base_of i s"
  "room_of i (s\<lparr>dm_world := w\<rparr>) = room_of i s" "content (s\<lparr>dm_world := w\<rparr>) b d n = content s b d n"
  "side_ok (s\<lparr>dm_world := w\<rparr>) b d n = side_ok s b d n" "r_macro_buffer (s\<lparr>dm_world := w\<rparr>) = r_macro_buffer s"
  "record_at p (s\<lparr>dm_world := w\<rparr>) = record_at p s" "in_buffer p (s\<lparr>dm_world := w\<rparr>) = in_buffer p s"
  by (simp_all add: dm_ok_def macro_no_def macro1_def macro2_def base_of_def room_of_def content_def side_ok_def
      r_macro_buffer_def record_at_def in_buffer_def)

lemma macro_no_content:
  "macro_no i s = content s (base_of i s) (dir_of i)
    (nat (if i = 1 then macro_end s else r_macro_buffer s - r_macro_end s))"
  by (simp add: macro_no_def macro1_def macro2_def base_of_def dir_of_def)

lemma starts_recording:
  assumes "dm_ok s" "macro_id s = 0" "i = 1 \<or> i = 2" "\<not> pressed (event r)"
  shows "\<exists>s'. dm_event h (Some s) (start_key i, r) = Some s' \<and> dm_recording i 0 s' \<and> same_macro i s s'"
  using assms
  by (auto simp: dm_event_def process_dynamic_macro_def start_key_def dynamic_macro_record_start_def Let_def dm_recording_def
      dm_ok_def base_of_def same_macro_def macro_no_def macro1_def macro2_def content_def record_at_def r_macro_buffer_def)

lemma stops_recording:
  assumes "dm_recording i n s" "pressed (event r)"
  shows "\<exists>s'. dm_event h (Some s) (DYN_REC_STOP, r) = Some s' \<and> dm_ok s' \<and> macro_id s' = 0 \<and>
    macro_no i s' = trim (content s (base_of i s) (dir_of i) n) \<and> macro_no (3 - i) s' = macro_no (3 - i) s \<and>
    length (macro_buffer s') = length (macro_buffer s)"
proof -
  have i: "i = 1 \<or> i = 2" and ok: "dm_ok s" and id: "macro_id s = i" and n: "n \<le> room_of i s"
    and ptr: "macro_pointer s = base_of i s + dir_of i * int n"
    using assms(1) by (simp_all add: dm_recording_def)
  let ?s = "s\<lparr>dm_world := record_end_user h (dir_of i) (dm_world s)\<rparr>"
  let ?t = "trim (content s (base_of i s) (dir_of i) n)"
  have "side_ok ?s (base_of i s) (dir_of i) n" using side_of [OF ok i] n by (auto simp: side_ok_def)
  from trim_loop_trims [OF this] have
    stop: "dynamic_macro_record_end h (base_of i s) (dir_of i) s = Some (base_of i s + dir_of i * int (length ?t), ?s)"
    by (simp add: dynamic_macro_record_end_def Let_def ptr)
  have t: "length ?t \<le> n" "content s (base_of i s) (dir_of i) (length ?t) = ?t"
    using length_trim [of "content s (base_of i s) (dir_of i) n"] trim_take [of "content s (base_of i s) (dir_of i) n"] take_content
    by (simp, metis length_content)
  show ?thesis
    using i
  proof
    assume 1: "i = 1"
    then have "dm_event h (Some s) (DYN_REC_STOP, r) = Some (?s\<lparr>macro_end := int (length ?t), macro_id := 0\<rparr>)"
      using stop id assms(2) by (simp add: dm_event_def process_dynamic_macro_def base_of_def dir_of_def)
    then show ?thesis using 1 ok t n
      by (auto simp: dm_ok_def macro_no_def macro1_def macro2_def content_def base_of_def dir_of_def room_of_def
          r_macro_buffer_def record_at_def)
  next
    assume 2: "i = 2"
    then have "dm_event h (Some s) (DYN_REC_STOP, r) =
        Some (?s\<lparr>r_macro_end := r_macro_buffer s - int (length ?t), macro_id := 0\<rparr>)"
      using stop id assms(2) by (simp add: dm_event_def process_dynamic_macro_def base_of_def dir_of_def)
    then show ?thesis using 2 ok t n
      by (auto simp: dm_ok_def macro_no_def macro1_def macro2_def content_def base_of_def dir_of_def room_of_def
          r_macro_buffer_def record_at_def)
  qed
qed

lemma plays_macro:
  assumes "dm_ok s" "macro_id s = 0" "i = 1 \<or> i = 2" "\<not> pressed (event r)" "plain_process h f"
  shows "dm_event h (Some s) (play_key i, r) = Some (s\<lparr>dm_world :=
    (let w = layer_clear (dm_config h) (clear_keyboard (dm_config h) (dm_world s)); w = fold f (macro_no i s) w
     in play_user h (dir_of i) ((clear_keyboard (dm_config h) w)\<lparr>layer_state := layer_state (dm_world s)\<rparr>))\<rparr>)"
proof -
  let ?n = "nat (if i = 1 then macro_end s else r_macro_buffer s - r_macro_end s)"
  let ?s = "s\<lparr>dm_world := layer_clear (dm_config h) (clear_keyboard (dm_config h) (dm_world s))\<rparr>"
  have "?n \<le> room_of i s" using assms(1,3) by (auto simp: room_of_def dm_ok_def)
  then have "side_ok ?s (base_of i s) (dir_of i) ?n" using side_of [OF assms(1,3)] by (auto simp: side_ok_def)
  note play = play_loop_plays [OF assms(5) [unfolded plain_process_def] this]
  have stop: "base_of i s + dir_of i * int ?n = (if i = 1 then macro_end s else r_macro_end s)"
    using assms(1,3) by (auto simp: base_of_def dir_of_def dm_ok_def)
  have "dynamic_macro_play h (base_of i s) (if i = 1 then macro_end s else r_macro_end s) (dir_of i) s = Some (s\<lparr>dm_world :=
    (let w = layer_clear (dm_config h) (clear_keyboard (dm_config h) (dm_world s)); w = fold f (macro_no i s) w
     in play_user h (dir_of i) ((clear_keyboard (dm_config h) w)\<lparr>layer_state := layer_state (dm_world s)\<rparr>))\<rparr>)"
    unfolding dynamic_macro_play_def Let_def stop [symmetric] play by (simp add: macro_no_content)
  then show ?thesis using assms(2-4)
    by (auto simp: dm_event_def process_dynamic_macro_def play_key_def base_of_def dir_of_def)
qed

text \<open>
  C11. What is recorded is played.  From any state in which no macro is being recorded: a start key, any sequence of other
  keys, and the stop key leave as the macro the records from the first press on, up to the room that the other macro leaves,
  without the presses at the end; the other macro stays as it was.  Its play key then processes exactly these
  records in their order, from a keyboard and layers that are cleared, and restores the layers.
\<close>

theorem recorded_macro_is_played:
  assumes "dm_ok s" "macro_id s = 0" "i = 1 \<or> i = 2" "plain_process h f" "list_all (\<lambda>(k, r). \<not> dm_key k) krs"
    and rs: "\<not> pressed (event r1)" "pressed (event r2)" "\<not> pressed (event r3)"
  shows "\<exists>s'. dm_run h ((start_key i, r1) # krs @ [(DYN_REC_STOP, r2)]) s = Some s' \<and> dm_ok s' \<and>
    macro_no i s' = trim (recorded (map snd krs) (room_of i s)) \<and> macro_no (3 - i) s' = macro_no (3 - i) s \<and>
    dm_run h [(play_key i, r3)] s' = Some (s'\<lparr>dm_world :=
      (let w = layer_clear (dm_config h) (clear_keyboard (dm_config h) (dm_world s')); w = fold f (macro_no i s') w
       in play_user h (dir_of i) ((clear_keyboard (dm_config h) w)\<lparr>layer_state := layer_state (dm_world s')\<rparr>))\<rparr>)"
proof -
  obtain s1 where s1: "dm_event h (Some s) (start_key i, r1) = Some s1" "dm_recording i 0 s1" "same_macro i s s1"
    using starts_recording [OF assms(1-3) rs(1)] by blast
  obtain s2 where s2: "dm_run h krs s1 = Some s2" "dm_recording i (length (recorded (map snd krs) (room_of i s1))) s2"
    "content s2 (base_of i s1) (dir_of i) (length (recorded (map snd krs) (room_of i s1))) = recorded (map snd krs) (room_of i s1)"
    "same_macro i s1 s2"
    using records_keys [OF s1(2) assms(5), of h] by blast
  note sides = same_macro_sides [OF s1(3)] same_macro_sides [OF s2(4)]
  obtain s3 where s3: "dm_event h (Some s2) (DYN_REC_STOP, r2) = Some s3" "dm_ok s3" "macro_id s3 = 0"
    "macro_no i s3 = trim (recorded (map snd krs) (room_of i s))" "macro_no (3 - i) s3 = macro_no (3 - i) s2"
    using stops_recording [OF s2(2) rs(2), of h] s2(3) sides by auto
  have "dm_run h ((start_key i, r1) # krs @ [(DYN_REC_STOP, r2)]) s = Some s3"
    using s1(1) s2(1) s3(1) by (simp add: dm_run_def)
  then show ?thesis
    using s3 s1(3) s2(4) plays_macro [OF s3(2,3) assms(3) rs(3) assms(4)] by (auto simp: dm_run_def same_macro_def)
qed

lemma any_event_ok:
  assumes "dm_ok s" "plain_process h f"
  shows "\<exists>s'. dm_event h (Some s) (k, r) = Some s' \<and> dm_ok s'"
proof (cases "macro_id s = 0")
  case True
  show ?thesis
  proof (cases "pressed (event r)")
    case False
    then show ?thesis
      using starts_recording [OF assms(1) True _ False, of 1 h] starts_recording [OF assms(1) True _ False, of 2 h]
        plays_macro [OF assms(1) True _ False assms(2), of 1] plays_macro [OF assms(1) True _ False assms(2), of 2]
        assms(1) True
      by (cases "k = DYN_REC_START1 \<or> k = DYN_REC_START2 \<or> k = DYN_MACRO_PLAY1 \<or> k = DYN_MACRO_PLAY2")
        (auto simp: start_key_def play_key_def dm_recording_def, simp add: dm_event_def process_dynamic_macro_def)
  qed (use True assms(1) in \<open>simp add: dm_event_def process_dynamic_macro_def\<close>)
next
  case False
  then obtain n where n: "dm_recording (macro_id s) n s" using recording_place [OF assms(1)] by blast
  then have id: "macro_id s = 1 \<or> macro_id s = 2" by (simp add: dm_recording_def)
  obtain s1 where s1: "dynamic_macro_record_key h (base_of (macro_id s) s)
      (if macro_id s = 1 then r_macro_end s else macro_end s) (dir_of (macro_id s)) r s = Some s1" "dm_ok s1"
    using record_one [OF n, of h r] by (auto simp: Let_def dm_recording_def)
  obtain s2 where s2: "dm_event h (Some s) (DYN_REC_STOP, r\<lparr>event := (event r)\<lparr>pressed := True\<rparr>\<rparr>) = Some s2" "dm_ok s2"
    using stops_recording [OF n, of "r\<lparr>event := (event r)\<lparr>pressed := True\<rparr>\<rparr>" h] by auto
  have stop: "dm_event h (Some s) (k, r) = Some s2"
    if "k = DYN_REC_START1 \<or> k = DYN_REC_START2 \<or> k = DYN_REC_STOP" "pressed (event r) \<noteq> (k \<noteq> DYN_REC_STOP)"
    using s2(1) that False by (auto simp: dm_event_def process_dynamic_macro_def)
  show ?thesis
  proof (cases "k = DYN_REC_START1 \<or> k = DYN_REC_START2 \<or> k = DYN_REC_STOP")
    case True
    show ?thesis
    proof (cases "pressed (event r) \<noteq> (k \<noteq> DYN_REC_STOP)")
      case stops: True
      then show ?thesis using stop [OF True stops] s2(2) by blast
    next
      case goes_on: False
      then have "dm_event h (Some s) (k, r) = Some s"
        using True False by (auto simp: dm_event_def process_dynamic_macro_def)
      then show ?thesis using assms(1) by blast
    qed
  next
    case ordinary: False
    then have "dm_event h (Some s) (k, r) = Some s \<or> dm_event h (Some s) (k, r) = Some s1"
      using s1(1) id False by (auto simp: dm_event_def process_dynamic_macro_def base_of_def dir_of_def)
    then show ?thesis using s1(2) assms(1) by auto
  qed
qed


text \<open>Calls of a build without user hooks, in which the processing of a record is noted.\<close>

definition plain_calls :: "action_st config \<Rightarrow> (action_st, unit) dm_calls" where
  "plain_calls c =
     \<lparr>dm_config = c, DYNAMIC_MACRO_NO_NESTING = False, record_start_user = \<lambda>w. w, play_user = \<lambda>d w. w,
      record_key_user = \<lambda>d r w. w, record_end_user = \<lambda>d w. w,
      dm_process = \<lambda>p s. Some (s\<lparr>dm_world := emit Post_processed (dm_world s)\<rparr>)\<rparr>"

lemma plain_calls_process: "plain_process (plain_calls c) (\<lambda>r. emit Post_processed)"
  by (simp add: plain_process_def plain_calls_def)


lemma recorded_macro_is_played_witness:
  "let h = plain_calls (default_config (\<lambda>_ _. 0)); w = action_init (default_config (\<lambda>_ _. 0) :: action_st config);
       up = empty_record; down = up\<lparr>event := empty_event\<lparr>pressed := True\<rparr>\<rparr>;
       s = dm_initial (replicate 4 up) w;
       keys = [(DYN_REC_START1, up), (KC_B, up), (KC_A, down), (KC_A, up), (KC_B, down), (DYN_REC_STOP, down)]
   in \<exists>s'. dm_run h keys s = Some s' \<and> macro_no 1 s' = [down, up] \<and> macro_no 2 s' = []"
proof -
  define h where "h = plain_calls (default_config (\<lambda>_ _. 0))"
  define w where "w = action_init (default_config (\<lambda>_ _. 0) :: action_st config)"
  define up where "up = empty_record"
  define down where "down = up\<lparr>event := empty_event\<lparr>pressed := True\<rparr>\<rparr>"
  define s where "s = dm_initial (replicate 4 up) w"
  have p: "\<not> pressed (event up)" "pressed (event down)" by (simp_all add: up_def down_def empty_record_def empty_event_def)
  have s: "dm_ok s" "macro_id s = 0" "room_of 1 s = 4" "macro_no 2 s = []"
    by (simp_all add: s_def dm_ok_def dm_initial_def r_macro_buffer_def room_of_def macro_no_def macro2_def content_def)
  have h: "plain_process h (\<lambda>r. emit Post_processed)"
    by (simp add: h_def plain_calls_process)
  have keys: "list_all (\<lambda>(k, r). \<not> dm_key k) [(KC_B, up), (KC_A, down), (KC_A, up), (KC_B, down)]" by (simp add: dm_key_def)
  have t: "trim (recorded [up, down, up, down] 4) = [down, up]" using p by (simp add: recorded_def trim_def)
  obtain s' where "dm_run h ((start_key 1, up) # [(KC_B, up), (KC_A, down), (KC_A, up), (KC_B, down)] @ [(DYN_REC_STOP, down)]) s = Some s'"
    "macro_no 1 s' = trim (recorded (map snd [(KC_B :: u16, up), (KC_A, down), (KC_A, up), (KC_B, down)]) (room_of 1 s))"
    "macro_no (3 - 1) s' = macro_no (3 - 1) s"
    using recorded_macro_is_played [OF s(1,2) _ h keys p(1,2) p(1), of 1] by auto
  then show ?thesis
    using s(3,4) t unfolding Let_def h_def [symmetric] w_def [symmetric] down_def [symmetric] up_def [symmetric] s_def [symmetric]
    by (intro exI [of _ s']) (simp add: start_key_def)
qed

end
