(* ===== verification/Code16.thy ===== *)
theory Code16
  imports Send_String
begin

text \<open>
  Keycodes with modifiers, \<^verbatim>\<open>quantum/quantum.c\<close>: \<^verbatim>\<open>register_code16\<close> and its relatives send the low byte of a keycode
  together with the modifiers in its high byte, which they hold as weak modifiers.
\<close>

section \<open>The operations\<close>

definition extract_mod_bits :: "u16 \<Rightarrow> u8" where
  "extract_mod_bits code =
     (if \<not> (QK_MODS \<le> code \<and> code \<le> QK_MODS_MAX) then 0
      else let bits = (\<lambda>mask k. if code AND mask \<noteq> 0 then MOD_BIT k else 0)
           in if code AND QK_RMODS_MIN \<noteq> 0
              then bits QK_LCTL KC_RIGHT_CTRL OR bits QK_LSFT KC_RIGHT_SHIFT OR bits QK_LALT KC_RIGHT_ALT
                     OR bits QK_LGUI KC_RIGHT_GUI
              else bits QK_LCTL KC_LEFT_CTRL OR bits QK_LSFT KC_LEFT_SHIFT OR bits QK_LALT KC_LEFT_ALT
                     OR bits QK_LGUI KC_LEFT_GUI)"

definition register_code16 :: "'s config \<Rightarrow> u16 \<Rightarrow> 'a util_st_scheme \<Rightarrow> 'a util_st_scheme" where
  "register_code16 c code s =
     (let m = extract_mod_bits code;
          s = (if IS_MOD code \<or> code = KC_NO then register_mods c m s else register_weak_mods c m s)
      in register_code c (ucast code) s)"

definition unregister_code16 :: "'s config \<Rightarrow> u16 \<Rightarrow> 'a util_st_scheme \<Rightarrow> 'a util_st_scheme" where
  "unregister_code16 c code s =
     (let m = extract_mod_bits code; s = unregister_code c (ucast code) s
      in if IS_MOD code \<or> code = KC_NO then unregister_mods c m s else unregister_weak_mods c m s)"

definition tap_code16 :: "'s config \<Rightarrow> u16 \<Rightarrow> 'a util_st_scheme \<Rightarrow> 'a util_st_scheme" where
  "tap_code16 c code s =
     (let s = register_code16 c code s;
          s = (if TAP_CODE_DELAY c > 0 then wait_ms (unat (TAP_CODE_DELAY c)) s else s)
      in unregister_code16 c code s)"

section \<open>What the host sees of a tap\<close>

text \<open>The keys and modifiers of the keyboard reports, in order.\<close>

fun views :: "bool \<Rightarrow> effect list \<Rightarrow> (u8 set \<times> u8) list" where
  "views n [] = []"
| "views n (Keyboard_report r # es) = (held n r, report_modifiers n r) # views n es"
| "views n (_ # es) = views n es"

lemma views_append [simp]: "views n (es @ fs) = views n es @ views n fs"
  by (induction n es rule: views.induct) auto

text \<open>
  A state in which only real modifiers \<open>m\<close> and weak modifiers \<open>w\<close> count, with the keys \<open>H\<close> held, reached from \<open>s\<close> by the
  reports \<open>vs\<close>.
\<close>

definition poised :: "u8 \<Rightarrow> u8 \<Rightarrow> 'a util_st_scheme \<Rightarrow> bool" where
  "poised m w s \<longleftrightarrow> host_driver s \<and> util_wf s \<and> real_mods s = m \<and> weak_mods s = w \<and> macro_mods s = 0 \<and>
     suppressed_mods s = 0 \<and> weak_override_mods s = 0 \<and> oneshot_mods s = 0"

definition shows_host :: "'a util_st_scheme \<Rightarrow> 'a util_st_scheme \<Rightarrow> u8 \<Rightarrow> u8 \<Rightarrow> u8 set \<Rightarrow> (u8 set \<times> u8) list \<Rightarrow> bool" where
  "shows_host s s' m w H vs \<longleftrightarrow> poised m w s' \<and> util_held s' = H \<and> nkro s' = nkro s \<and>
     (\<exists>es. effects s' = effects s @ es \<and> views (nkro s) es = vs)"

lemma at_rest_poised: "at_rest m s \<longleftrightarrow> poised m 0 s"
  by (simp add: at_rest_def poised_def)

lemma shows_refl: "poised m w s \<Longrightarrow> util_held s = H \<Longrightarrow> shows_host s s m w H []"
  by (simp add: shows_host_def)

lemma shows_trans: "shows_host s t m w H vs \<Longrightarrow> shows_host t u m' w' H' vs' \<Longrightarrow> shows_host s u m' w' H' (vs @ vs')"
  by (force simp: shows_host_def)

lemma shows_cong: "nkro s = nkro t \<Longrightarrow> effects s = effects t \<Longrightarrow> shows_host s s' m w H vs = shows_host t s' m w H vs"
  by (simp add: shows_host_def)

lemma send_poised:
  assumes "poised m w s"
  shows "shows_host s (send_keyboard_report c s) m w (util_held s) [(util_held s, m OR w)]"
proof -
  let ?r = "wire_report (nkro s) (m OR w) (keyboard_report s)"
  have wf: "host_driver s" "report_wf (keyboard_report s)" using assms by (simp_all add: poised_def util_wf_def)
  have "effective_mods c s = m OR w" "\<not> oneshot_spent c s"
    using assms by (simp_all add: effective_mods_def poised_def live_oneshot_mods_def oneshot_spent_def)
  then have send: "send_keyboard_report c s = s\<lparr>keyboard_report := ?r, effects := effects s @ [Keyboard_report ?r]\<rparr>"
    by (simp add: send_report_sends [OF wf] Let_def)
  have "held (nkro s) ?r = util_held s" using wire_report_held [OF wf(2)] by (simp add: util_held_def)
  moreover have "report_modifiers (nkro s) ?r = m OR w"
    using wf(2) by (simp add: report_modifiers_def wire_report_def report_wf_def)
  moreover have "poised m w (send_keyboard_report c s)"
    using assms send by (simp add: poised_def del: util_send) (metis send util_send(1))
  moreover have "effects (send_keyboard_report c s) = effects s @ [Keyboard_report ?r]" unfolding send by simp
  ultimately show ?thesis by (simp add: shows_host_def)
qed

lemma poised_ops:
  assumes "poised m w s"
  shows "poised m w (add_key k s)" "poised m w (del_key k s)" "poised (m OR n) w (add_mods n s)" "poised (m AND NOT n) w (del_mods n s)"
    "poised m (w OR n) (add_weak_mods n s)" "poised m (w AND NOT n) (del_weak_mods n s)"
  using assms util_key_ops(1,3) [of s k] by (auto simp: poised_def)
    (simp_all add: add_key_def del_key_def add_mods_def del_mods_def add_weak_mods_def del_weak_mods_def util_wf_def nkro_def)

lemma weak_ops [simp]:
  "nkro (add_weak_mods n s) = nkro s" "nkro (del_weak_mods n s) = nkro s" "effects (add_weak_mods n s) = effects s"
  "effects (del_weak_mods n s) = effects s" "util_held (add_weak_mods n s) = util_held s"
  "util_held (del_weak_mods n s) = util_held s"
  by (simp_all add: add_weak_mods_def del_weak_mods_def nkro_def util_held_def)

lemma key_down:
  assumes "poised m w s" "\<not> LOCKING_SUPPORT_ENABLE c" "IS_KEY k" "util_held s = {}"
  shows "shows_host s (register_code c k s) m w {k} [({k}, m OR w)]"
proof -
  have wf: "util_wf s" using assms(1) by (simp add: poised_def)
  have "unat k < 240" using assms(3) by (simp add: IS_KEY_def word_le_nat_alt)
  then have H: "util_held (add_key k s) = {k}"
    using util_key_ops(2) [OF wf] assms(4) key_nonzero [OF assms(3)]
    by (simp add: held_step_def KEYBOARD_REPORT_BITS_def KEYBOARD_REPORT_KEYS_def)
  have "\<not> is_key_pressed (nkro s) (keyboard_report s) k" using assms(4) by (auto simp: util_held_def held_def)
  then have "register_code c k s = send_keyboard_report c (add_key k s)"
    using assms(2,3) key_nonzero [OF assms(3)] by (simp add: register_code_def Let_def)
  then show ?thesis using send_poised [OF poised_ops(1) [OF assms(1), of k], where c = c] H
    by (simp add: shows_cong [of s "add_key k s"])
qed

lemma key_up:
  assumes "poised m w s" "\<not> LOCKING_SUPPORT_ENABLE c" "IS_KEY k" "util_held s = {k}"
  shows "shows_host s (unregister_code c k s) m w {} [({}, m OR w)]"
proof -
  have "util_held (del_key k s) = {}" using util_key_ops(4) [of s k] assms(1,4) by (simp add: poised_def)
  moreover have "unregister_code c k s = send_keyboard_report c (del_key k s)"
    using assms(2,3) key_nonzero [OF assms(3)] by (simp add: unregister_code_def)
  ultimately show ?thesis using send_poised [OF poised_ops(2) [OF assms(1), of k], where c = c]
    by (simp add: shows_cong [of s "del_key k s"])
qed

lemma weak_down:
  "poised m 0 s \<Longrightarrow> n \<noteq> 0 \<Longrightarrow> shows_host s (register_weak_mods c n s) m n (util_held s) [(util_held s, m OR n)]"
  using send_poised [OF poised_ops(5) [of m 0 s n], where c = c]
  by (simp add: register_weak_mods_def shows_cong [of s "add_weak_mods n s"])

lemma weak_up:
  "poised m n s \<Longrightarrow> n \<noteq> 0 \<Longrightarrow> shows_host s (unregister_weak_mods c n s) m 0 (util_held s) [(util_held s, m)]"
  using send_poised [OF poised_ops(6) [of m n s n], where c = c]
  by (simp add: unregister_weak_mods_def shows_cong [of s "del_weak_mods n s"])

lemma wait_shows: "poised m w s \<Longrightarrow> shows_host s (wait_ms d s) m w (util_held s) []"
  by (simp add: shows_host_def poised_def wait_ms_def emit_def util_wf_def util_held_def nkro_def)

text \<open>
  Tapping a keycode with modifiers in its high byte sends the modifiers, the key with them, the modifiers alone, and
  nothing, in this order, on top of the real modifiers \<open>m\<close> that are down, which it leaves as they were.
\<close>

theorem tap_code16_taps:
  assumes "at_rest m s" "util_held s = {}" "\<not> LOCKING_SUPPORT_ENABLE c"
    and "QK_MODS \<le> code" "IS_KEY (ucast code :: u8)" "extract_mod_bits code \<noteq> 0"
  shows "\<exists>es. effects (tap_code16 c code s) = effects s @ es \<and> at_rest m (tap_code16 c code s) \<and>
    util_held (tap_code16 c code s) = {} \<and>
    (let k = ucast code; w = extract_mod_bits code
     in views (nkro s) es = [({}, m OR w), ({k}, m OR w), ({}, m OR w), ({}, m)])"
proof -
  define w where "w = extract_mod_bits code"
  define k :: u8 where "k = ucast code"
  have plain: "\<not> (IS_MOD code \<or> code = KC_NO)" using assms(4) by (auto simp: IS_MOD_def word_le_nat_alt)
  have p: "poised m 0 s" using assms(1) by (simp add: at_rest_poised)
  note mods = weak_down [OF p, of w c]
  define s1 where "s1 = register_weak_mods c w s"
  have s1: "shows_host s s1 m w {} [({}, m OR w)]" using mods assms(2,6) by (simp add: s1_def w_def)
  then have p1: "poised m w s1" "util_held s1 = {}" by (simp_all add: shows_host_def)
  define s2 where "s2 = register_code c k s1"
  have s2: "shows_host s1 s2 m w {k} [({k}, m OR w)]" unfolding s2_def using p1 assms(3,5) by (intro key_down) (simp_all add: k_def)
  define s3 where "s3 = (if TAP_CODE_DELAY c > 0 then wait_ms (unat (TAP_CODE_DELAY c)) s2 else s2)"
  have s3: "shows_host s2 s3 m w {k} []"
    using s2 wait_shows [of m w s2] shows_refl [of m w s2] by (auto simp: s3_def shows_host_def)
  define s4 where "s4 = unregister_code c k s3"
  have s4: "shows_host s3 s4 m w {} [({}, m OR w)]" unfolding s4_def using s3 assms(3,5) by (intro key_up) (simp_all add: k_def shows_host_def)
  define s5 where "s5 = unregister_weak_mods c w s4"
  have s5: "shows_host s4 s5 m 0 {} [({}, m)]" using weak_up [of m w s4 c] s4 assms(6) by (simp add: s5_def w_def shows_host_def)
  have tap: "tap_code16 c code s = s5"
    using plain by (simp add: tap_code16_def register_code16_def unregister_code16_def Let_def w_def [symmetric] k_def [symmetric]
        s1_def [symmetric] s2_def [symmetric] s3_def [symmetric] s4_def [symmetric] s5_def [symmetric])
  have "shows_host s s5 m 0 {} ([({}, m OR w)] @ [({k}, m OR w)] @ [] @ [({}, m OR w)] @ [({}, m)])"
    by (intro shows_trans [OF s1] shows_trans [OF s2] shows_trans [OF s3] shows_trans [OF s4] s5)
  then show ?thesis unfolding tap w_def [symmetric] k_def [symmetric] Let_def by (auto simp: shows_host_def at_rest_poised)
qed

text \<open>The host of a layout: \<^verbatim>\<open>tap_code16\<close> of the keycode for \<open>!\<close>, left shift and 1.\<close>

lemma tap_code16_taps_witness:
  "let c = default_config (\<lambda>_ _. 0) :: unit config
   in \<exists>es. effects (tap_code16 c 0x21E (layer_init c)) = es \<and>
        views False es = [({}, 2), ({KC_1}, 2), ({}, 2), ({}, 0)]"
proof -
  define c :: "unit config" where "c = default_config (\<lambda>_ _. 0)"
  have m: "extract_mod_bits 0x21E = 2" by (simp add: extract_mod_bits_def MOD_BIT_def)
  have k: "IS_KEY (ucast (0x21E :: u16) :: u8)" "(ucast (0x21E :: u16) :: u8) = KC_1" by (simp_all add: IS_KEY_def)
  have "effects (layer_init c) = []" "\<not> nkro (layer_init c)" "\<not> LOCKING_SUPPORT_ENABLE c"
    by (simp_all add: layer_init_def nkro_def keymap_config_of_raw_def c_def)
  then show ?thesis
    using tap_code16_taps [OF at_rest_init [of c] _ _ k(1)] m k(2) unfolding Let_def c_def [symmetric] by force
qed

end
