(* ===== verification/Space_Cadet.thy ===== *)
theory Space_Cadet
  imports Code16
begin

text \<open>
  Space cadet, \<^verbatim>\<open>quantum/process_keycode/process_space_cadet.c\<close>: a modifier key that types a parenthesis when it is
  tapped.  The handler gets the keycode of an event and whether it is a press; it returns whether the processing goes on.
\<close>

section \<open>Space cadet\<close>

record cadet_st =
  sc_last :: u8
  sc_timer :: u16
  sc_mods :: u8

record cadet_config =
  MODIFIER_CARRYOVER :: bool
  CADET_TERM :: u16
  LSPO_KEYS :: "u8 \<times> u8 \<times> u8"
  RSPC_KEYS :: "u8 \<times> u8 \<times> u8"
  LCPO_KEYS :: "u8 \<times> u8 \<times> u8"
  RCPC_KEYS :: "u8 \<times> u8 \<times> u8"
  LAPO_KEYS :: "u8 \<times> u8 \<times> u8"
  RAPC_KEYS :: "u8 \<times> u8 \<times> u8"
  SFTENT_KEYS :: "u8 \<times> u8 \<times> u8"

definition default_cadet :: cadet_config where
  "default_cadet =
     \<lparr>MODIFIER_CARRYOVER = False, CADET_TERM = 200,
      LSPO_KEYS = (KC_LEFT_SHIFT, KC_LEFT_SHIFT, KC_9), RSPC_KEYS = (KC_RIGHT_SHIFT, KC_RIGHT_SHIFT, KC_0),
      LCPO_KEYS = (KC_LEFT_CTRL, KC_LEFT_SHIFT, KC_9), RCPC_KEYS = (KC_RIGHT_CTRL, KC_RIGHT_SHIFT, KC_0),
      LAPO_KEYS = (KC_LEFT_ALT, KC_LEFT_SHIFT, KC_9), RAPC_KEYS = (KC_RIGHT_ALT, KC_RIGHT_SHIFT, KC_0),
      SFTENT_KEYS = (KC_RIGHT_SHIFT, KC_TRANSPARENT, KC_ENTER)\<rparr>"

definition perform_space_cadet ::
    "cadet_config \<Rightarrow> 's config \<Rightarrow> bool \<Rightarrow> u8 \<times> u8 \<times> u8 \<Rightarrow> cadet_st \<times> 'a util_st_scheme \<Rightarrow> cadet_st \<times> 'a util_st_scheme" where
  "perform_space_cadet cc c down keys ts =
     (let (holdMod, tapMod, keycode) = keys; (t, s) = ts
      in if down then
           (let t = \<lparr>sc_last = holdMod, sc_timer = timer_read s,
                     sc_mods = (if MODIFIER_CARRYOVER cc then real_mods s else sc_mods t)\<rparr>
            in (t, if IS_MOD holdMod then register_mods c (MOD_BIT holdMod) s else s))
         else if sc_last t = holdMod \<and> TIMER_DIFF_16 (timer_read s) (sc_timer t) < CADET_TERM cc then
           (let s = (if holdMod \<noteq> tapMod
                     then let s = (if IS_MOD holdMod then unregister_mods c (MOD_BIT holdMod) s else s)
                          in if IS_MOD tapMod then register_mods c (MOD_BIT tapMod) s else s
                     else s);
                s = (if MODIFIER_CARRYOVER cc then set_weak_mods (sc_mods t) s else s);
                s = tap_code c keycode s;
                s = (if MODIFIER_CARRYOVER cc then clear_weak_mods s else s)
            in (t, if IS_MOD tapMod then unregister_mods c (MOD_BIT tapMod) s else s))
         else (t, if IS_MOD holdMod then unregister_mods c (MOD_BIT holdMod) s else s))"

definition process_space_cadet ::
    "cadet_config \<Rightarrow> 's config \<Rightarrow> u16 \<Rightarrow> bool \<Rightarrow> cadet_st \<times> 'a util_st_scheme \<Rightarrow> bool \<times> cadet_st \<times> 'a util_st_scheme" where
  "process_space_cadet cc c keycode down ts =
     (let perform = (\<lambda>keys. (False, perform_space_cadet cc c down keys ts))
      in if keycode = KC_LSPO then perform (LSPO_KEYS cc)
         else if keycode = KC_RSPC then perform (RSPC_KEYS cc)
         else if keycode = KC_LCPO then perform (LCPO_KEYS cc)
         else if keycode = KC_RCPC then perform (RCPC_KEYS cc)
         else if keycode = KC_LAPO then perform (LAPO_KEYS cc)
         else if keycode = KC_RAPC then perform (RAPC_KEYS cc)
         else if keycode = KC_SFTENT then perform (SFTENT_KEYS cc)
         else (True, (if down then (fst ts)\<lparr>sc_last := 0\<rparr> else fst ts), snd ts))"

section \<open>Space cadet: tap or hold\<close>

lemma timer_read_wait: "timer_read (wait_ms d s) = timer_read s + of_nat d"
proof -
  have "(ucast (x + of_nat d :: u32) :: u16) = ucast x + of_nat d" for x :: u32
  proof transfer
    fix x :: int and d :: nat
    have "(x mod 4294967296) mod 65536 = x mod 65536" by (rule mod_mod_cancel) simp
    then have "(x mod 4294967296 + int d) mod 65536 = (x + int d) mod 65536" by (metis mod_add_left_eq)
    then show "take_bit LENGTH(16) (take_bit LENGTH(32) (x + int d)) = take_bit LENGTH(16) (take_bit LENGTH(32) x + int d)"
      by (simp add: take_bit_eq_mod mod_mod_cancel)
  qed
  then show ?thesis by (simp add: wait_ms_def emit_def timer_read_def)
qed

definition cadet_keys :: "cadet_config \<Rightarrow> u16 \<Rightarrow> (u8 \<times> u8 \<times> u8) option" where
  "cadet_keys cc keycode =
     map_of [(KC_LSPO, LSPO_KEYS cc), (KC_RSPC, RSPC_KEYS cc), (KC_LCPO, LCPO_KEYS cc), (KC_RCPC, RCPC_KEYS cc),
       (KC_LAPO, LAPO_KEYS cc), (KC_RAPC, RAPC_KEYS cc), (KC_SFTENT, SFTENT_KEYS cc)] keycode"

lemma cadet_dispatch:
  "cadet_keys cc keycode = Some keys \<Longrightarrow>
   process_space_cadet cc c keycode down ts = (False, perform_space_cadet cc c down keys ts)"
  "cadet_keys cc keycode = None \<Longrightarrow>
   process_space_cadet cc c keycode down ts = (True, (if down then (fst ts)\<lparr>sc_last := 0\<rparr> else fst ts), snd ts)"
  by (auto simp: cadet_keys_def process_space_cadet_def Let_def split: if_splits)

lemma mods_down:
  "poised m 0 s \<Longrightarrow> n \<noteq> 0 \<Longrightarrow> shows_host s (register_mods c n s) (m OR n) 0 (util_held s) [(util_held s, m OR n)]"
  using send_poised [OF poised_ops(3) [of m 0 s n], where c = c]
  by (simp add: register_mods_def shows_cong [of s "add_mods n s"] util_held_def) (simp add: add_mods_def)

lemma mods_up:
  "poised m 0 s \<Longrightarrow> n \<noteq> 0 \<Longrightarrow>
   shows_host s (unregister_mods c n s) (m AND NOT n) 0 (util_held s) [(util_held s, m AND NOT n)]"
  using send_poised [OF poised_ops(4) [of m 0 s n], where c = c]
  by (simp add: unregister_mods_def shows_cong [of s "del_mods n s"] util_held_def) (simp add: del_mods_def)

lemma waits_shows: "poised m w s \<Longrightarrow> shows_host s ((wait_ms 1 ^^ d) s) m w (util_held s) []"
proof (induction d)
  case (Suc d)
  then have "shows_host s ((wait_ms 1 ^^ d) s) m w (util_held s) []" by simp
  from shows_trans [OF this wait_shows [of m w "(wait_ms 1 ^^ d) s" 1]] this show ?case by (simp add: shows_host_def)
qed (simp add: shows_refl)

lemma tap_shows:
  assumes "poised m w s" "\<not> LOCKING_SUPPORT_ENABLE c" "IS_KEY k" "util_held s = {}"
  shows "shows_host s (tap_code c k s) m w {} [({k}, m OR w), ({}, m OR w)]"
proof -
  define s1 where "s1 = register_code c k s"
  have s1: "shows_host s s1 m w {k} [({k}, m OR w)]" unfolding s1_def by (rule key_down [OF assms])
  define s2 where "s2 = (wait_ms 1 ^^ unat (if k = KC_CAPS_LOCK then TAP_HOLD_CAPS_DELAY c else TAP_CODE_DELAY c)) s1"
  have s2: "shows_host s1 s2 m w {k} []" unfolding s2_def using s1 waits_shows [of m w s1] by (simp add: shows_host_def)
  have s3: "shows_host s2 (unregister_code c k s2) m w {} [({}, m OR w)]"
    using s2 assms(2,3) by (intro key_up) (simp_all add: shows_host_def)
  have "tap_code c k s = unregister_code c k s2" by (simp add: tap_code_def tap_code_delay_def s1_def s2_def)
  then show ?thesis using shows_trans [OF s1 shows_trans [OF s2 s3]] by simp
qed

lemma cadet_release_tap:
  assumes "poised (m OR MOD_BIT hold) 0 s" "util_held s = {}" "\<not> LOCKING_SUPPORT_ENABLE c" "\<not> MODIFIER_CARRYOVER cc"
    and keys: "IS_MOD hold" "IS_MOD tapmod" "IS_KEY k" and free: "m AND (MOD_BIT hold OR MOD_BIT tapmod) = 0"
    and tap: "sc_last t = hold" "TIMER_DIFF_16 (timer_read s) (sc_timer t) < CADET_TERM cc"
  shows "\<exists>s'. perform_space_cadet cc c False (hold, tapmod, k) (t, s) = (t, s') \<and>
    shows_host s s' m 0 {} ((if hold = tapmod then [] else [({}, m), ({}, m OR MOD_BIT tapmod)]) @
      [({k}, m OR MOD_BIT tapmod), ({}, m OR MOD_BIT tapmod), ({}, m)])"
proof -
  let ?h = "MOD_BIT hold" and ?p = "MOD_BIT tapmod"
  have undo: "(m OR ?h) AND NOT ?h = m" "(m OR ?p) AND NOT ?p = m"
    using free by (auto simp: bit_eq_iff bit_and_iff bit_or_iff bit_not_iff)
  define s1 where "s1 = (if hold \<noteq> tapmod then register_mods c ?p (unregister_mods c ?h s) else s)"
  have s1: "shows_host s s1 (m OR ?p) 0 {} (if hold = tapmod then [] else [({}, m), ({}, m OR ?p)])"
  proof (cases "hold = tapmod")
    case True
    then show ?thesis using assms(1,2) by (simp add: s1_def shows_refl)
  next
    case False
    have u: "shows_host s (unregister_mods c ?h s) m 0 {} [({}, m)]"
      using mods_up [OF assms(1) MOD_BIT_nonzero, of c hold] assms(2) undo by simp
    then have "shows_host (unregister_mods c ?h s) (register_mods c ?p (unregister_mods c ?h s)) (m OR ?p) 0 {} [({}, m OR ?p)]"
      using mods_down [OF _ MOD_BIT_nonzero, of m "unregister_mods c ?h s" c tapmod] by (simp add: shows_host_def)
    from shows_trans [OF u this] show ?thesis using False by (simp add: s1_def)
  qed
  define s2 where "s2 = tap_code c k s1"
  have s2: "shows_host s1 s2 (m OR ?p) 0 {} [({k}, m OR ?p), ({}, m OR ?p)]"
    using tap_shows [of "m OR ?p" 0 s1 c k] s1 assms(3) keys(3) by (simp add: s2_def shows_host_def)
  have s3: "shows_host s2 (unregister_mods c ?p s2) m 0 {} [({}, m)]"
    using mods_up [OF _ MOD_BIT_nonzero, of "m OR ?p" s2 c tapmod] s2 undo by (simp add: shows_host_def)
  have "perform_space_cadet cc c False (hold, tapmod, k) (t, s) = (t, unregister_mods c ?p s2)"
    using tap keys(1,2) assms(4) by (simp add: perform_space_cadet_def Let_def s1_def s2_def)
  moreover have "shows_host s (unregister_mods c ?p s2) m 0 {} ((if hold = tapmod then [] else [({}, m), ({}, m OR ?p)]) @
      [({k}, m OR ?p), ({}, m OR ?p)] @ [({}, m)])"
    by (rule shows_trans [OF s1 shows_trans [OF s2 s3]])
  ultimately show ?thesis by auto
qed

text \<open>
  C35. A space cadet key is a modifier while it is held, and types its character when it is tapped: when it comes up within
  the term, counted modulo \<open>2^16\<close>, and no other key went down meanwhile.  In both cases the modifiers end as they were.
\<close>

definition cadet_stroke ::
    "cadet_config \<Rightarrow> 's config \<Rightarrow> u16 \<Rightarrow> nat \<Rightarrow> u16 option \<Rightarrow> cadet_st \<times> 'a util_st_scheme \<Rightarrow> 'a util_st_scheme" where
  "cadet_stroke cc c keycode d other ts =
     (let (t, s) = snd (process_space_cadet cc c keycode True ts); s = wait_ms d s;
          (t, s) = (case other of None \<Rightarrow> (t, s) | Some k \<Rightarrow> snd (process_space_cadet cc c k True (t, s)))
      in snd (snd (process_space_cadet cc c keycode False (t, s))))"

theorem space_cadet_tap_or_hold:
  assumes "at_rest m s" "util_held s = {}" "\<not> LOCKING_SUPPORT_ENABLE c" "\<not> MODIFIER_CARRYOVER cc"
    and "cadet_keys cc keycode = Some (hold, tapmod, k)" "IS_MOD hold" "IS_MOD tapmod" "IS_KEY k"
    and "m AND (MOD_BIT hold OR MOD_BIT tapmod) = 0" "pred_option (\<lambda>j. cadet_keys cc j = None) other"
  shows "\<exists>es. effects (cadet_stroke cc c keycode d other (t, s)) = effects s @ es \<and>
    at_rest m (cadet_stroke cc c keycode d other (t, s)) \<and> util_held (cadet_stroke cc c keycode d other (t, s)) = {} \<and>
    views (nkro s) es =
      (if other = None \<and> of_nat d < CADET_TERM cc
       then [({}, m OR MOD_BIT hold)] @ (if hold = tapmod then [] else [({}, m), ({}, m OR MOD_BIT tapmod)]) @
         [({k}, m OR MOD_BIT tapmod), ({}, m OR MOD_BIT tapmod), ({}, m)]
       else [({}, m OR MOD_BIT hold), ({}, m)])"
proof -
  let ?h = "MOD_BIT hold"
  have p: "poised m 0 s" using assms(1) by (simp add: at_rest_poised)
  define t1 where "t1 = \<lparr>sc_last = hold, sc_timer = timer_read s, sc_mods = sc_mods t\<rparr>"
  define s1 where "s1 = register_mods c ?h s"
  have press: "process_space_cadet cc c keycode True (t, s) = (False, t1, s1)"
    using assms(4,6) by (simp add: cadet_dispatch(1) [OF assms(5)] perform_space_cadet_def Let_def t1_def s1_def)
  have s1: "shows_host s s1 (m OR ?h) 0 {} [({}, m OR ?h)]"
    using mods_down [OF p MOD_BIT_nonzero, of c hold] assms(2) by (simp add: s1_def)
  define s2 where "s2 = wait_ms d s1"
  have s2: "shows_host s1 s2 (m OR ?h) 0 {} []" using s1 wait_shows [of "m OR ?h" 0 s1 d] by (simp add: s2_def shows_host_def)
  have "timer_read s1 = timer_read s" by (simp add: s1_def register_mods_def timer_read_def add_mods_def)
  then have time: "TIMER_DIFF_16 (timer_read s2) (sc_timer t1) = of_nat d"
    by (simp add: s2_def timer_read_wait t1_def TIMER_DIFF_16_def)
  show ?thesis
  proof (cases "other = None \<and> of_nat d < CADET_TERM cc")
    case True
    have "\<exists>s'. perform_space_cadet cc c False (hold, tapmod, k) (t1, s2) = (t1, s') \<and>
      shows_host s2 s' m 0 {} ((if hold = tapmod then [] else [({}, m), ({}, m OR MOD_BIT tapmod)]) @
        [({k}, m OR MOD_BIT tapmod), ({}, m OR MOD_BIT tapmod), ({}, m)])"
      using s2 True time by (intro cadet_release_tap assms) (simp_all add: shows_host_def t1_def)
    then obtain s' where s': "perform_space_cadet cc c False (hold, tapmod, k) (t1, s2) = (t1, s')"
      "shows_host s2 s' m 0 {} ((if hold = tapmod then [] else [({}, m), ({}, m OR MOD_BIT tapmod)]) @
        [({k}, m OR MOD_BIT tapmod), ({}, m OR MOD_BIT tapmod), ({}, m)])" by blast
    have "process_space_cadet cc c keycode False (t1, s2) = (False, t1, s')" by (simp add: cadet_dispatch(1) [OF assms(5)] s'(1))
    then have "cadet_stroke cc c keycode d other (t, s) = s'"
      using True by (simp add: cadet_stroke_def press s2_def [symmetric])
    then show ?thesis using shows_trans [OF s1 shows_trans [OF s2 s'(2)]] True by (auto simp: shows_host_def at_rest_poised)
  next
    case False
    define t2 where "t2 = (if other = None then t1 else t1\<lparr>sc_last := 0\<rparr>)"
    have undo: "(m OR ?h) AND NOT ?h = m" using assms(9) by (auto simp: bit_eq_iff bit_and_iff bit_or_iff bit_not_iff)
    have s3: "shows_host s2 (unregister_mods c ?h s2) m 0 {} [({}, m)]"
      using mods_up [OF _ MOD_BIT_nonzero, of "m OR ?h" s2 c hold] s2 undo by (simp add: shows_host_def)
    have "hold \<noteq> 0" using assms(6) by (auto simp: IS_MOD_def)
    then have "perform_space_cadet cc c False (hold, tapmod, k) (t2, s2) = (t2, unregister_mods c ?h s2)"
      using False time assms(6) by (auto simp: perform_space_cadet_def Let_def t2_def t1_def)
    then have "process_space_cadet cc c keycode False (t2, s2) = (False, t2, unregister_mods c ?h s2)"
      by (simp add: cadet_dispatch(1) [OF assms(5)])
    then have "cadet_stroke cc c keycode d other (t, s) = unregister_mods c ?h s2"
      using assms(10) by (cases other) (simp_all add: cadet_stroke_def press s2_def [symmetric] cadet_dispatch(2) t2_def)
    then show ?thesis using shows_trans [OF s1 shows_trans [OF s2 s3]] False by (auto simp: shows_host_def at_rest_poised)
  qed
qed

lemma space_cadet_tap_or_hold_witness:
  "let c = default_config (\<lambda>_ _. 0) :: unit config
   in \<exists>es. effects (cadet_stroke default_cadet c KC_LSPO 150 None (\<lparr>sc_last = 0, sc_timer = 0, sc_mods = 0\<rparr>, layer_init c)) = es \<and>
        views False es = [({}, 2), ({KC_9}, 2), ({}, 2), ({}, 0)]"
proof -
  define c :: "unit config" where "c = default_config (\<lambda>_ _. 0)"
  have k: "cadet_keys default_cadet KC_LSPO = Some (KC_LEFT_SHIFT, KC_LEFT_SHIFT, KC_9)" "IS_MOD (KC_LEFT_SHIFT :: u8)" "IS_KEY (KC_9 :: u8)"
    "MOD_BIT KC_LEFT_SHIFT = 2" "\<not> MODIFIER_CARRYOVER default_cadet" "CADET_TERM default_cadet = 200"
    by (simp_all add: cadet_keys_def default_cadet_def IS_MOD_def IS_KEY_def MOD_BIT_def)
  have "effects (layer_init c) = []" "\<not> nkro (layer_init c)" "\<not> LOCKING_SUPPORT_ENABLE c"
    by (simp_all add: layer_init_def nkro_def keymap_config_of_raw_def c_def)
  then show ?thesis
    using space_cadet_tap_or_hold [OF at_rest_init [of c] _ k(5) k(1,2,2,3), where d = 150 and other = None and c = c
        and t = "\<lparr>sc_last = 0, sc_timer = 0, sc_mods = 0\<rparr>"] k(4,6)
    unfolding Let_def c_def [symmetric] by simp
qed

end
