(* ===== verification/Grave_Esc.thy ===== *)
theory Grave_Esc
  imports Code16
begin

text \<open>
  Grave escape, \<^verbatim>\<open>quantum/process_keycode/process_grave_esc.c\<close>: one key for escape and, under shift or GUI, grave.  The
  handler gets the keycode of an event and whether it is a press; it returns whether the processing goes on.
\<close>

section \<open>Grave escape\<close>

record grave_config =
  ALT_OVERRIDE :: bool
  CTRL_OVERRIDE :: bool
  GUI_OVERRIDE :: bool
  SHIFT_OVERRIDE :: bool

definition MOD_MASK_CTRL :: u8 where "MOD_MASK_CTRL = MOD_BIT KC_LEFT_CTRL OR MOD_BIT KC_RIGHT_CTRL"
definition MOD_MASK_SHIFT :: u8 where "MOD_MASK_SHIFT = MOD_BIT KC_LEFT_SHIFT OR MOD_BIT KC_RIGHT_SHIFT"
definition MOD_MASK_ALT :: u8 where "MOD_MASK_ALT = MOD_BIT KC_LEFT_ALT OR MOD_BIT KC_RIGHT_ALT"
definition MOD_MASK_GUI :: u8 where "MOD_MASK_GUI = MOD_BIT KC_LEFT_GUI OR MOD_BIT KC_RIGHT_GUI"
definition MOD_MASK_SG :: u8 where "MOD_MASK_SG = MOD_MASK_SHIFT OR MOD_MASK_GUI"

definition process_grave_esc ::
    "grave_config \<Rightarrow> 's config \<Rightarrow> u16 \<Rightarrow> bool \<Rightarrow> bool \<times> 'a util_st_scheme \<Rightarrow> bool \<times> bool \<times> 'a util_st_scheme" where
  "process_grave_esc gc c keycode down gs =
     (let (grave_esc_was_shifted, s) = gs; mods = real_mods s; shifted = mods AND MOD_MASK_SG;
          shifted = (if ALT_OVERRIDE gc \<and> mods AND MOD_MASK_ALT \<noteq> 0 then 0 else shifted);
          shifted = (if CTRL_OVERRIDE gc \<and> mods AND MOD_MASK_CTRL \<noteq> 0 then 0 else shifted);
          shifted = (if GUI_OVERRIDE gc \<and> mods AND MOD_MASK_GUI \<noteq> 0 then 0 else shifted);
          shifted = (if SHIFT_OVERRIDE gc \<and> mods AND MOD_MASK_SHIFT \<noteq> 0 then 0 else shifted)
      in if keycode \<noteq> GRAVE_ESC then (True, gs)
         else if down
         then (False, shifted \<noteq> 0, send_keyboard_report c (add_key (if shifted \<noteq> 0 then KC_GRAVE else KC_ESCAPE) s))
         else (False, grave_esc_was_shifted,
               send_keyboard_report c (del_key (if grave_esc_was_shifted then KC_GRAVE else KC_ESCAPE) s)))"

section \<open>Grave escape releases what it pressed\<close>

text \<open>
  C33. Grave escape presses grave under shift or GUI, unless one of the configured overrides holds, and escape otherwise;
  whatever the modifiers are when it comes up, the key that it pressed is released.
\<close>

definition grave_shifted :: "grave_config \<Rightarrow> u8 \<Rightarrow> bool" where
  "grave_shifted gc m \<longleftrightarrow> m AND MOD_MASK_SG \<noteq> 0 \<and> \<not> (ALT_OVERRIDE gc \<and> m AND MOD_MASK_ALT \<noteq> 0) \<and>
     \<not> (CTRL_OVERRIDE gc \<and> m AND MOD_MASK_CTRL \<noteq> 0) \<and> \<not> (GUI_OVERRIDE gc \<and> m AND MOD_MASK_GUI \<noteq> 0) \<and>
     \<not> (SHIFT_OVERRIDE gc \<and> m AND MOD_MASK_SHIFT \<noteq> 0)"

lemma grave_esc_acts:
  "process_grave_esc gc c GRAVE_ESC True (b, s) =
     (False, grave_shifted gc (real_mods s),
      send_keyboard_report c (add_key (if grave_shifted gc (real_mods s) then KC_GRAVE else KC_ESCAPE) s))"
  "process_grave_esc gc c GRAVE_ESC False (b, s) = (False, b, send_keyboard_report c (del_key (if b then KC_GRAVE else KC_ESCAPE) s))"
  by (auto simp: process_grave_esc_def grave_shifted_def Let_def)

theorem grave_esc_releases_its_key:
  assumes "poised m w s" "util_held s = {}"
    and "process_grave_esc gc c GRAVE_ESC True (b, s) = (pass, b1, s1)"
    and "poised m' w' s2" "util_held s2 = util_held s1"
    and "process_grave_esc gc c GRAVE_ESC False (b1, s2) = (pass', b2, s3)"
  shows "\<not> pass \<and> shows_host s s1 m w {if grave_shifted gc m then KC_GRAVE else KC_ESCAPE}
      [({if grave_shifted gc m then KC_GRAVE else KC_ESCAPE}, m OR w)] \<and>
    \<not> pass' \<and> shows_host s2 s3 m' w' {} [({}, m' OR w')]"
proof -
  let ?k = "if grave_shifted gc m then KC_GRAVE else KC_ESCAPE :: u8"
  have m: "real_mods s = m" "util_wf s" using assms(1) by (simp_all add: poised_def)
  have s1: "pass = False" "b1 = grave_shifted gc m" "s1 = send_keyboard_report c (add_key ?k s)"
    using assms(3) unfolding grave_esc_acts m(1) by auto
  have k: "util_held (add_key ?k s) = {?k}"
    using util_key_ops(2) [OF m(2), of ?k] assms(2) by (simp add: held_step_def KEYBOARD_REPORT_BITS_def KEYBOARD_REPORT_KEYS_def)
  have down: "shows_host s s1 m w {?k} [({?k}, m OR w)]"
    using send_poised [OF poised_ops(1) [OF assms(1), of ?k], where c = c] k
    by (simp add: s1 shows_cong [of s "add_key ?k s"])
  have s3: "pass' = False" "s3 = send_keyboard_report c (del_key ?k s2)" using assms(6) unfolding grave_esc_acts s1(2) by auto
  have "util_held (del_key ?k s2) = {}"
    using util_key_ops(4) [of s2 ?k] assms(4,5) down by (simp add: poised_def shows_host_def)
  then have "shows_host s2 s3 m' w' {} [({}, m' OR w')]"
    using send_poised [OF poised_ops(2) [OF assms(4), of ?k], where c = c] by (simp add: s3 shows_cong [of s2 "del_key ?k s2"])
  then show ?thesis using s1 s3 down by blast
qed

lemma grave_esc_releases_its_key_witness:
  "let c = default_config (\<lambda>_ _. 0) :: unit config;
       gc = \<lparr>ALT_OVERRIDE = False, CTRL_OVERRIDE = False, GUI_OVERRIDE = False, SHIFT_OVERRIDE = False\<rparr>;
       s1 = snd (snd (process_grave_esc gc c GRAVE_ESC True (False, add_mods 2 (layer_init c))));
       s3 = snd (snd (process_grave_esc gc c GRAVE_ESC False (True, del_mods 2 s1)))
   in util_held s1 = {KC_GRAVE} \<and> util_held s3 = {}"
proof -
  define c :: "unit config" where "c = default_config (\<lambda>_ _. 0)"
  define gc where "gc = \<lparr>ALT_OVERRIDE = False, CTRL_OVERRIDE = False, GUI_OVERRIDE = False, SHIFT_OVERRIDE = False\<rparr>"
  let ?s = "add_mods 2 (layer_init c)"
  have p: "poised 2 0 ?s" "util_held ?s = {}"
    using poised_ops(3) [of 0 0 "layer_init c" 2] at_rest_init [of c] by (simp_all add: at_rest_poised add_mods_def util_held_def nkro_def)
  have sh: "grave_shifted gc 2"
    by (simp add: grave_shifted_def gc_def MOD_MASK_SG_def MOD_MASK_SHIFT_def MOD_MASK_GUI_def MOD_BIT_def)
  have m: "real_mods ?s = 2" using p(1) by (simp add: poised_def)
  define s1 where "s1 = send_keyboard_report c (add_key KC_GRAVE ?s)"
  have down: "process_grave_esc gc c GRAVE_ESC True (False, ?s) = (False, True, s1)"
    using sh unfolding grave_esc_acts m by (simp add: s1_def)
  have first: "poised 2 0 s1" "util_held s1 = {KC_GRAVE}"
    using send_poised [OF poised_ops(1) [OF p(1), of KC_GRAVE], of c] util_key_ops(2) [of ?s KC_GRAVE] p
    by (simp_all add: s1_def shows_host_def poised_def held_step_def KEYBOARD_REPORT_BITS_def KEYBOARD_REPORT_KEYS_def)
  have p2: "poised (2 AND NOT 2) 0 (del_mods 2 s1)" "util_held (del_mods 2 s1) = util_held s1"
    using poised_ops(4) [OF first(1), of 2] by (simp_all add: del_mods_def util_held_def nkro_def)
  obtain pass' b2 s3 where up: "process_grave_esc gc c GRAVE_ESC False (True, del_mods 2 s1) = (pass', b2, s3)"
    by (metis prod_cases3)
  show ?thesis
    using grave_esc_releases_its_key [OF p down p2 up] first(2) up down
    unfolding Let_def c_def [symmetric] gc_def [symmetric] by (simp add: shows_host_def)
qed

end
