(* ===== verification/Key_Lock.thy ===== *)
theory Key_Lock
  imports Keycode
begin

text \<open>
  Key lock, \<^verbatim>\<open>quantum/process_keycode/process_key_lock.c\<close>: the key after \<^verbatim>\<open>KC_LOCK\<close> stays down until it is pressed again.
\<close>

section \<open>Key lock\<close>

text \<open>The 256 bits of \<^verbatim>\<open>key_state\<close> are four words of 64 bits.\<close>

type_synonym u64 = "64 word"

record lock_st =
  key_state :: "u64 list"
  watching :: bool

definition BV_64 :: "nat \<Rightarrow> u64" where "BV_64 shift = push_bit shift 1"

definition GET_KEY_ARRAY :: "u16 \<Rightarrow> lock_st \<Rightarrow> u64" where
  "GET_KEY_ARRAY code t =
     (if code < 0x40 then key_state t ! 0 else if code < 0x80 then key_state t ! 1
      else if code < 0xC0 then key_state t ! 2 else key_state t ! 3)"

definition GET_CODE_INDEX :: "u16 \<Rightarrow> nat" where
  "GET_CODE_INDEX code =
     (if code < 0x40 then unat code else if code < 0x80 then unat (code - 0x40)
      else if code < 0xC0 then unat (code - 0x80) else unat (code - 0xC0))"

definition KEY_STATE :: "u16 \<Rightarrow> lock_st \<Rightarrow> bool" where
  "KEY_STATE code t \<longleftrightarrow> GET_KEY_ARRAY code t AND BV_64 (GET_CODE_INDEX code) = BV_64 (GET_CODE_INDEX code)"

definition SET_KEY_ARRAY_STATE :: "u16 \<Rightarrow> u64 \<Rightarrow> lock_st \<Rightarrow> lock_st" where
  "SET_KEY_ARRAY_STATE code v t =
     (if code \<le> 0x3F then t\<lparr>key_state := (key_state t)[0 := v]\<rparr>
      else if code \<le> 0x7F then t\<lparr>key_state := (key_state t)[1 := v]\<rparr>
      else if code \<le> 0xBF then t\<lparr>key_state := (key_state t)[2 := v]\<rparr>
      else if code \<le> 0xFF then t\<lparr>key_state := (key_state t)[3 := v]\<rparr> else t)"

definition SET_KEY_STATE :: "u16 \<Rightarrow> lock_st \<Rightarrow> lock_st" where
  "SET_KEY_STATE code t = SET_KEY_ARRAY_STATE code (GET_KEY_ARRAY code t OR BV_64 (GET_CODE_INDEX code)) t"

definition UNSET_KEY_STATE :: "u16 \<Rightarrow> lock_st \<Rightarrow> lock_st" where
  "UNSET_KEY_STATE code t = SET_KEY_ARRAY_STATE code (GET_KEY_ARRAY code t AND NOT (BV_64 (GET_CODE_INDEX code))) t"

definition IS_STANDARD_KEYCODE :: "u16 \<Rightarrow> bool" where "IS_STANDARD_KEYCODE code \<longleftrightarrow> code \<le> 0xFF"

definition translate_keycode :: "u16 \<Rightarrow> u16" where
  "translate_keycode keycode =
     (if QK_ONE_SHOT_MOD < keycode \<and> keycode \<le> QK_ONE_SHOT_MOD_MAX then keycode XOR QK_ONE_SHOT_MOD else keycode)"

text \<open>The result is the answer, the keycode the caller goes on with, and the state.\<close>

definition process_key_lock :: "u16 \<Rightarrow> bool \<Rightarrow> lock_st \<Rightarrow> bool \<times> u16 \<times> lock_st" where
  "process_key_lock keycode down t =
     (let k = translate_keycode keycode
      in if down then
           if \<not> (IS_STANDARD_KEYCODE k \<or> k = KC_LOCK) then (True, keycode, t\<lparr>watching := False\<rparr>)
           else if k = KC_LOCK then (False, keycode, t\<lparr>watching := \<not> watching t\<rparr>)
           else if IS_STANDARD_KEYCODE k then
             if watching t then (True, k, SET_KEY_STATE k (t\<lparr>watching := False\<rparr>))
             else if KEY_STATE k t then (False, keycode, UNSET_KEY_STATE k t)
             else (True, keycode, t)
           else (True, keycode, t)
         else (\<not> (IS_STANDARD_KEYCODE k \<and> KEY_STATE k t), keycode, t))"

section \<open>Key lock against a set of keys\<close>

lemma BV_64_bitmask: "BV_64 n = bitmask n"
  by (simp add: BV_64_def bitmask_def)

lemma and_bitmask_eq: "n < LENGTH('a) \<Longrightarrow> (w :: 'a::len word) AND bitmask n = bitmask n \<longleftrightarrow> bit w n"
  by (rule iffI, drule arg_cong [of _ _ "\<lambda>x. bit x n"]) (auto simp: bit_and_iff bit_bitmask intro!: bit_word_eqI)

lemma key_place:
  assumes "code \<le> 0xFF"
  shows "GET_KEY_ARRAY code t = key_state t ! (unat code div 64)" "GET_CODE_INDEX code = unat code mod 64"
    "SET_KEY_ARRAY_STATE code v t = t\<lparr>key_state := (key_state t)[unat code div 64 := v]\<rparr>"
proof -
  have c: "unat code \<le> 255" using assms by (simp add: word_le_nat_alt)
  consider "unat code < 64" | "64 \<le> unat code" "unat code < 128" | "128 \<le> unat code" "unat code < 192" | "192 \<le> unat code"
    by linarith
  then have cases: "GET_KEY_ARRAY code t = key_state t ! (unat code div 64) \<and> GET_CODE_INDEX code = unat code mod 64 \<and>
    SET_KEY_ARRAY_STATE code v t = t\<lparr>key_state := (key_state t)[unat code div 64 := v]\<rparr>"
  proof cases
    case 1
    then show ?thesis
      by (simp add: GET_KEY_ARRAY_def GET_CODE_INDEX_def SET_KEY_ARRAY_STATE_def word_less_nat_alt word_le_nat_alt)
  next
    case 2
    then have "unat code div 64 = 1" "unat code mod 64 = unat code - 64" by (simp_all add: div_nat_eqI mod_if)
    then show ?thesis using 2 by (simp add: GET_KEY_ARRAY_def GET_CODE_INDEX_def SET_KEY_ARRAY_STATE_def word_less_nat_alt
          word_le_nat_alt unat_sub)
  next
    case 3
    then have "unat code div 64 = 2" "unat code mod 64 = unat code - 128" by (simp_all add: div_nat_eqI mod_if)
    then show ?thesis using 3 by (simp add: GET_KEY_ARRAY_def GET_CODE_INDEX_def SET_KEY_ARRAY_STATE_def word_less_nat_alt
          word_le_nat_alt unat_sub)
  next
    case 4
    then have "unat code div 64 = 3" "unat code mod 64 = unat code - 192" using c by (simp_all add: div_nat_eqI mod_if)
    then show ?thesis using 4 c by (simp add: GET_KEY_ARRAY_def GET_CODE_INDEX_def SET_KEY_ARRAY_STATE_def word_less_nat_alt
          word_le_nat_alt unat_sub)
  qed
  then show "GET_KEY_ARRAY code t = key_state t ! (unat code div 64)" "GET_CODE_INDEX code = unat code mod 64"
    "SET_KEY_ARRAY_STATE code v t = t\<lparr>key_state := (key_state t)[unat code div 64 := v]\<rparr>" by simp_all
qed

definition lock_wf :: "lock_st \<Rightarrow> bool" where "lock_wf t \<longleftrightarrow> length (key_state t) = 4"

lemma KEY_STATE_bit: "k \<le> 0xFF \<Longrightarrow> KEY_STATE k t \<longleftrightarrow> bit (key_state t ! (unat k div 64)) (unat k mod 64)"
  by (simp add: KEY_STATE_def key_place BV_64_bitmask and_bitmask_eq)

lemma key_place_inj: "unat (j :: u16) div 64 = unat k div 64 \<Longrightarrow> unat j mod 64 = unat k mod 64 \<Longrightarrow> j = k"
  by (metis div_mult_mod_eq word_unat_eq_iff)

lemma lock_update:
  assumes "lock_wf t" "k \<le> 0xFF" "j \<le> 0xFF"
  shows "KEY_STATE j (SET_KEY_STATE k t) \<longleftrightarrow> j = k \<or> KEY_STATE j t"
    "KEY_STATE j (UNSET_KEY_STATE k t) \<longleftrightarrow> j \<noteq> k \<and> KEY_STATE j t"
proof -
  have "unat k div 64 < length (key_state t)" using assms(1,2) by (simp add: lock_wf_def word_le_nat_alt)
  then show "KEY_STATE j (SET_KEY_STATE k t) \<longleftrightarrow> j = k \<or> KEY_STATE j t"
    "KEY_STATE j (UNSET_KEY_STATE k t) \<longleftrightarrow> j \<noteq> k \<and> KEY_STATE j t"
    using assms(2,3) key_place_inj [of j k]
    by (auto simp: SET_KEY_STATE_def UNSET_KEY_STATE_def KEY_STATE_bit key_place BV_64_bitmask nth_list_update
        bit_or_bitmask bit_and_not_bitmask)
qed

lemma lock_wf_update: "lock_wf t \<Longrightarrow> k \<le> 0xFF \<Longrightarrow> lock_wf (SET_KEY_STATE k t) \<and> lock_wf (UNSET_KEY_STATE k t)"
  by (simp add: lock_wf_def SET_KEY_STATE_def UNSET_KEY_STATE_def key_place)

lemma lock_watching [simp]:
  "KEY_STATE k (t\<lparr>watching := b\<rparr>) = KEY_STATE k t" "lock_wf (t\<lparr>watching := b\<rparr>) = lock_wf t"
  by (simp_all add: KEY_STATE_def GET_KEY_ARRAY_def lock_wf_def)

text \<open>
  A run of events against what a user and the host see: the keys that are physically down, and those for which the last
  event that was let through is a press.
\<close>

definition lock_event :: "lock_st \<times> u16 set \<times> u16 set \<Rightarrow> u16 \<times> bool \<Rightarrow> lock_st \<times> u16 set \<times> u16 set" where
  "lock_event st e =
     (let (t, phys, host) = st; (keycode, down) = e; (pass, k, t) = process_key_lock keycode down t;
          change = (\<lambda>j A. if down then insert j A else A - {j})
      in (t, change keycode phys, if pass then change k host else host))"

definition lock_run :: "(u16 \<times> bool) list \<Rightarrow> lock_st \<times> u16 set \<times> u16 set" where
  "lock_run es = foldl lock_event (\<lparr>key_state = replicate 4 0, watching = False\<rparr>, {}, {}) es"

definition lock_inv :: "lock_st \<times> u16 set \<times> u16 set \<Rightarrow> bool" where
  "lock_inv st \<longleftrightarrow> (case st of (t, phys, host) \<Rightarrow> lock_wf t \<and> (\<forall>k. k \<le> 0xFF \<longrightarrow> (k \<in> host \<longleftrightarrow> k \<in> phys \<or> KEY_STATE k t)))"

lemma KC_LOCK_large: "\<not> KC_LOCK \<le> (0xFF :: u16)"
  by simp

lemma lock_event_inv:
  assumes "lock_inv st" "translate_keycode (fst e) = fst e"
  shows "lock_inv (lock_event st e)"
proof -
  obtain t phys host where st: "st = (t, phys, host)" by (cases st)
  obtain k down where e: "e = (k, down)" by (cases e)
  show ?thesis
  proof (cases "k \<le> 0xFF")
    case True
    then have "k \<noteq> KC_LOCK" using KC_LOCK_large by metis
    then show ?thesis using assms True
      by (auto simp: lock_inv_def lock_event_def process_key_lock_def st e IS_STANDARD_KEYCODE_def Let_def lock_update lock_wf_update)
  next
    case False
    then show ?thesis using assms
      by (auto simp: lock_inv_def lock_event_def process_key_lock_def st e IS_STANDARD_KEYCODE_def Let_def)
  qed
qed

text \<open>
  C17. What key lock promises.  After any sequence of presses and releases of keys that are not one-shot modifiers, the host
  has a key down exactly when it is physically down or locked.
\<close>

theorem key_lock_holds:
  assumes "list_all (\<lambda>(k, down). translate_keycode k = k) es" "k \<le> 0xFF"
  shows "case lock_run es of (t, phys, host) \<Rightarrow> k \<in> host \<longleftrightarrow> k \<in> phys \<or> KEY_STATE k t"
proof -
  have "lock_inv (lock_run es)"
    using assms(1)
  proof (induction es rule: rev_induct)
    case Nil
    have "\<not> KEY_STATE k \<lparr>key_state = replicate 4 0, watching = False\<rparr>" if "k \<le> 0xFF" for k :: u16
      using that by (simp add: KEY_STATE_bit word_le_nat_alt)
    then show ?case by (simp add: lock_run_def lock_inv_def lock_wf_def)
  next
    case (snoc e es)
    then show ?case using lock_event_inv [of "lock_run es" e] by (auto simp: lock_run_def)
  qed
  then show ?thesis using assms(2) by (auto simp: lock_inv_def)
qed

lemma key_lock_holds_witness:
  "let es = [(KC_LOCK, True), (KC_LOCK, False), (KC_A, True), (KC_A, False), (KC_B, True)]
   in KC_A \<in> snd (snd (lock_run es)) \<and> KC_A \<notin> fst (snd (lock_run es))"
proof -
  define es :: "(u16 \<times> bool) list" where
    "es = [(KC_LOCK, True), (KC_LOCK, False), (KC_A, True), (KC_A, False), (KC_B, True)]"
  have es: "list_all (\<lambda>(k, down). translate_keycode k = k) es" by (simp add: es_def translate_keycode_def)
  have "KEY_STATE KC_A (fst (lock_run es)) \<and> KC_A \<notin> fst (snd (lock_run es))"
    unfolding es_def by code_simp
  then show ?thesis using key_lock_holds [OF es, of KC_A] unfolding Let_def es_def [symmetric]
    by (auto simp: split_beta)
qed

text \<open>
  The translation of a one-shot modifier is not the keycode of the modifier, as its comment says, but the number of the
  modifier's mask.  Locking the one-shot left shift registers the keycode 2, which is none of the keyboard's, and the
  shift is never held.
\<close>

theorem key_lock_oneshot_mod:
  "let osm = QK_ONE_SHOT_MOD OR MOD_LSFT; (pass, k, t) = process_key_lock osm True \<lparr>key_state = replicate 4 0, watching = True\<rparr>
   in pass \<and> k = 2 \<and> k \<noteq> KC_LEFT_SHIFT \<and> KEY_STATE 2 t \<and> \<not> KEY_STATE KC_LEFT_SHIFT t"
  by code_simp

end
