(* ===== verification/Leader.thy ===== *)
theory Leader
  imports Keycode
begin

text \<open>
  The leader key, \<^verbatim>\<open>quantum/process_keycode/process_leader.c\<close>: the keys after it are recorded as a sequence.  The user's
  dictionary of sequences, which looks at the recorded keys, is code of the keymaps.
\<close>

section \<open>The leader key\<close>

text \<open>The weak hooks \<^verbatim>\<open>leader_start\<close> and \<^verbatim>\<open>leader_end\<close> are functions on the rest of the firmware.\<close>

record leader_st =
  leading :: bool
  leader_time :: u16
  leader_sequence :: "u16 list"
  leader_sequence_size :: u8

record 's leader_config =
  LEADER_TIMEOUT :: u16
  LEADER_NO_TIMEOUT :: bool
  STRICT_KEY_PROCESSING :: bool
  LEADER_PER_KEY_TIMING :: bool
  leader_start :: "'s \<Rightarrow> 's"
  leader_end :: "'s \<Rightarrow> 's"

definition qk_leader_start :: "'s leader_config \<Rightarrow> u16 \<Rightarrow> leader_st \<times> 's \<Rightarrow> leader_st \<times> 's" where
  "qk_leader_start lc now ts =
     (if leading (fst ts) then ts
      else (\<lparr>leading = True, leader_time = now, leader_sequence = replicate 5 0, leader_sequence_size = 0\<rparr>,
            leader_start lc (snd ts)))"

definition process_leader :: "'s leader_config \<Rightarrow> u16 \<Rightarrow> u16 \<Rightarrow> bool \<Rightarrow> leader_st \<times> 's \<Rightarrow> bool \<times> leader_st \<times> 's" where
  "process_leader lc now keycode down ts =
     (let (t, s) = ts
      in if \<not> down then (True, ts)
         else if leading t then
           if LEADER_NO_TIMEOUT lc \<or> TIMER_DIFF_16 now (leader_time t) < LEADER_TIMEOUT lc then
             (let keycode = (if \<not> STRICT_KEY_PROCESSING lc \<and>
                      (QK_MOD_TAP \<le> keycode \<and> keycode \<le> QK_MOD_TAP_MAX \<or> QK_LAYER_TAP \<le> keycode \<and> keycode \<le> QK_LAYER_TAP_MAX)
                    then keycode AND 0xFF else keycode);
                  n = leader_sequence_size t;
                  (t, s) = (if unat n < 5
                            then (t\<lparr>leader_sequence := (leader_sequence t)[unat n := keycode], leader_sequence_size := n + 1\<rparr>, s)
                            else (t\<lparr>leading := False\<rparr>, leader_end lc s))
              in (False, if LEADER_PER_KEY_TIMING lc then t\<lparr>leader_time := now\<rparr> else t, s))
           else (True, ts)
         else (True, if keycode = KC_LEAD then qk_leader_start lc now ts else ts))"

section \<open>The leader sequence\<close>

definition leader_code :: "'s leader_config \<Rightarrow> u16 \<Rightarrow> u16" where
  "leader_code lc k =
     (if \<not> STRICT_KEY_PROCESSING lc \<and> (QK_MOD_TAP \<le> k \<and> k \<le> QK_MOD_TAP_MAX \<or> QK_LAYER_TAP \<le> k \<and> k \<le> QK_LAYER_TAP_MAX)
      then k AND 0xFF else k)"

definition leader_run :: "'s leader_config \<Rightarrow> (u16 \<times> u16) list \<Rightarrow> leader_st \<times> 's \<Rightarrow> bool list \<times> leader_st \<times> 's" where
  "leader_run lc ks ts =
     foldl (\<lambda>(ps, ts) (now, k). let (p, ts) = process_leader lc now k True ts in (ps @ [p], ts)) ([], ts) ks"

lemma leader_key:
  assumes "leading t" "LEADER_NO_TIMEOUT lc \<or> TIMER_DIFF_16 now (leader_time t) < LEADER_TIMEOUT lc" "\<not> LEADER_PER_KEY_TIMING lc"
  shows "process_leader lc now k True (t, s) =
    (False, if unat (leader_sequence_size t) < 5
     then (t\<lparr>leader_sequence := (leader_sequence t)[unat (leader_sequence_size t) := leader_code lc k],
             leader_sequence_size := leader_sequence_size t + 1\<rparr>, s)
     else (t\<lparr>leading := False\<rparr>, leader_end lc s))"
  using assms by (auto simp: process_leader_def Let_def leader_code_def)

lemma leader_five:
  assumes "\<not> LEADER_PER_KEY_TIMING lc" "length ks \<le> 5"
    and "list_all (\<lambda>(now, k). LEADER_NO_TIMEOUT lc \<or> TIMER_DIFF_16 now start < LEADER_TIMEOUT lc) ks"
  shows "leader_run lc ks (\<lparr>leading = True, leader_time = start, leader_sequence = replicate 5 0, leader_sequence_size = 0\<rparr>, s) =
    (replicate (length ks) False,
     \<lparr>leading = True, leader_time = start, leader_sequence = map (leader_code lc \<circ> snd) ks @ replicate (5 - length ks) 0,
      leader_sequence_size = of_nat (length ks)\<rparr>, s)"
  using assms(2,3)
proof (induction ks rule: rev_induct)
  case Nil
  then show ?case by (simp add: leader_run_def)
next
  case (snoc nk ks)
  obtain now k where nk: "nk = (now, k)" by (cases nk)
  have n: "length ks < 5" "unat (of_nat (length ks) :: u8) = length ks"
    using snoc.prems by (simp_all add: unat_of_nat take_bit_nat_eq_self)
  have step: "(xs @ replicate (5 - length xs) 0)[length xs := a] = (xs @ [a]) @ replicate (4 - length xs) 0"
    if "length xs < 5" for xs and a :: u16
    using that by (simp add: list_update_append numeral_eq_Suc Suc_diff_le)
  show ?case
    using snoc n step [of "map (leader_code lc \<circ> snd) ks" "leader_code lc k"] assms(1)
    by (simp add: leader_run_def nk leader_key replicate_append_same comp_def)
qed

text \<open>
  The leader key records what follows it.  The next keys, up to five, are swallowed and stored in order; without the
  strict mode a tap key counts as its basic keycode.  A sixth one is swallowed too, is not stored, ends the sequence and
  calls \<^verbatim>\<open>leader_end\<close> once.
\<close>

theorem leader_records_sequence:
  assumes "\<not> LEADER_PER_KEY_TIMING lc" "length ks \<le> 6" "\<not> leading t"
    and "list_all (\<lambda>(now, k). LEADER_NO_TIMEOUT lc \<or> TIMER_DIFF_16 now start < LEADER_TIMEOUT lc) ks"
  shows "leader_run lc ((start, KC_LEAD) # ks) (t, s) =
    (True # replicate (length ks) False,
     \<lparr>leading = length ks \<le> 5, leader_time = start,
      leader_sequence = map (leader_code lc \<circ> snd) (take 5 ks) @ replicate (5 - length ks) 0,
      leader_sequence_size = of_nat (min 5 (length ks))\<rparr>,
     (if length ks \<le> 5 then leader_start lc s else leader_end lc (leader_start lc s)))"
proof -
  let ?t = "\<lparr>leading = True, leader_time = start, leader_sequence = replicate 5 0, leader_sequence_size = 0\<rparr>"
  have start: "process_leader lc start KC_LEAD True (t, s) = (True, ?t, leader_start lc s)"
    using assms(3) by (simp add: process_leader_def qk_leader_start_def)
  have shift: "leader_run lc (nk # ks) ts =
      (let (p, ts) = process_leader lc (fst nk) (snd nk) True ts; (ps, ts) = leader_run lc ks ts in (p # ps, ts))" for nk ks ts
  proof -
    have "foldl (\<lambda>(ps, ts) (now, k). let (p, ts) = process_leader lc now k True ts in (ps @ [p], ts)) (qs, ts) ks =
        (let (ps, ts) = leader_run lc ks ts in (qs @ ps, ts))" for qs ts
      by (induction ks rule: rev_induct) (auto simp: leader_run_def Let_def split: prod.splits)
    from this [of "[fst (process_leader lc (fst nk) (snd nk) True ts)]"] show ?thesis
      by (simp add: leader_run_def split_beta Let_def)
  qed
  show ?thesis
  proof (cases "length ks \<le> 5")
    case True
    then show ?thesis using leader_five [OF assms(1) True assms(4), of "leader_start lc s"] by (simp add: shift start)
  next
    case False
    then obtain ks5 nk where ks: "ks = ks5 @ [nk]" by (metis length_0_conv not_less_eq_eq le0 rev_exhaust)
    have five: "length ks5 = 5" using False assms(2) by (simp add: ks)
    have all: "list_all (\<lambda>(now, k). LEADER_NO_TIMEOUT lc \<or> TIMER_DIFF_16 now start < LEADER_TIMEOUT lc) ks5"
      "LEADER_NO_TIMEOUT lc \<or> TIMER_DIFF_16 (fst nk) start < LEADER_TIMEOUT lc" using assms(4) by (auto simp: ks)
    have six: "replicate 6 False = replicate 5 False @ [False]" by (simp add: numeral_eq_Suc)
    have "leader_run lc ks (?t, leader_start lc s) =
        (let (ps, ts) = leader_run lc ks5 (?t, leader_start lc s); (p, ts) = process_leader lc (fst nk) (snd nk) True ts
         in (ps @ [p], ts))"
      by (simp add: leader_run_def ks split_beta)
    also have "\<dots> = (replicate 6 False,
        \<lparr>leading = False, leader_time = start, leader_sequence = map (leader_code lc \<circ> snd) ks5, leader_sequence_size = 5\<rparr>,
        leader_end lc (leader_start lc s))"
      using leader_five [OF assms(1) _ all(1), of "leader_start lc s"] five all(2) assms(1) six
      by (simp add: leader_key)
    finally show ?thesis using five by (simp add: shift start ks)
  qed
qed

lemma leader_records_sequence_witness:
  "let lc = \<lparr>LEADER_TIMEOUT = 300, LEADER_NO_TIMEOUT = False, STRICT_KEY_PROCESSING = False, LEADER_PER_KEY_TIMING = False,
         leader_start = (\<lambda>n. n), leader_end = Suc\<rparr>;
       t = \<lparr>leading = False, leader_time = 0, leader_sequence = replicate 5 0, leader_sequence_size = 0\<rparr>
   in fst (snd (leader_run lc [(65500, KC_LEAD), (65530, 4), (20, QK_MOD_TAP OR 5)] (t, 0 :: nat))) =
        \<lparr>leading = True, leader_time = 65500, leader_sequence = [4, 5, 0, 0, 0], leader_sequence_size = 2\<rparr>"
proof -
  have zeros: "replicate 3 (0 :: u16) = [0, 0, 0]" by (simp add: numeral_eq_Suc)
  show ?thesis
    using leader_records_sequence [of "\<lparr>LEADER_TIMEOUT = 300, LEADER_NO_TIMEOUT = False, STRICT_KEY_PROCESSING = False,
        LEADER_PER_KEY_TIMING = False, leader_start = (\<lambda>n. n), leader_end = Suc\<rparr>" "[(65530, 4), (20, QK_MOD_TAP OR 5)]"
        "\<lparr>leading = False, leader_time = 0, leader_sequence = replicate 5 0, leader_sequence_size = 0\<rparr>" 65500 "0 :: nat"]
    by (simp add: TIMER_DIFF_16_def leader_code_def zeros)
qed

end
