(* ===== verification/Eeconfig.thy ===== *)
theory Eeconfig
  imports Eeprom Key_Store Action_Layer
begin

text \<open>
  The settings that are kept in the EEPROM, \<^verbatim>\<open>quantum/eeconfig.c\<close> and \<^verbatim>\<open>.h\<close>: a fixed place for each, and a
  magic number that says that they are valid.  The EEPROM is the function from addresses to bytes of \<open>Eeprom\<close>, which the
  accesses of a driver refine.  Code that other parts of a build add to the initialisation is in the record \<open>ee_build\<close>.
\<close>

section \<open>The places\<close>

definition EECONFIG_MAGIC_NUMBER :: u16 where "EECONFIG_MAGIC_NUMBER = 0xFEE9"
definition EECONFIG_MAGIC_NUMBER_OFF :: u16 where "EECONFIG_MAGIC_NUMBER_OFF = 0xFFFF"
definition EECONFIG_MAGIC :: nat where "EECONFIG_MAGIC = 0"
definition EECONFIG_DEBUG :: nat where "EECONFIG_DEBUG = 2"
definition EECONFIG_DEFAULT_LAYER :: nat where "EECONFIG_DEFAULT_LAYER = 3"
definition EECONFIG_KEYMAP_LOWER_BYTE :: nat where "EECONFIG_KEYMAP_LOWER_BYTE = 4"
definition EECONFIG_MOUSEKEY_ACCEL :: nat where "EECONFIG_MOUSEKEY_ACCEL = 5"
definition EECONFIG_BACKLIGHT :: nat where "EECONFIG_BACKLIGHT = 6"
definition EECONFIG_AUDIO :: nat where "EECONFIG_AUDIO = 7"
definition EECONFIG_RGBLIGHT :: nat where "EECONFIG_RGBLIGHT = 8"
definition EECONFIG_STENOMODE :: nat where "EECONFIG_STENOMODE = 13"
definition EECONFIG_HANDEDNESS :: nat where "EECONFIG_HANDEDNESS = 14"
definition EECONFIG_KEYBOARD :: nat where "EECONFIG_KEYBOARD = 15"
definition EECONFIG_USER :: nat where "EECONFIG_USER = 19"
definition EECONFIG_VELOCIKEY :: nat where "EECONFIG_VELOCIKEY = 23"
definition EECONFIG_HAPTIC :: nat where "EECONFIG_HAPTIC = 24"
definition EECONFIG_RGB_MATRIX :: nat where "EECONFIG_RGB_MATRIX = 28"
definition EECONFIG_RGB_MATRIX_EXTENDED :: nat where "EECONFIG_RGB_MATRIX_EXTENDED = 32"
definition EECONFIG_KEYMAP_UPPER_BYTE :: nat where "EECONFIG_KEYMAP_UPPER_BYTE = 34"
definition EECONFIG_SIZE :: nat where "EECONFIG_SIZE = 423"

lemmas ee_places =
  EECONFIG_MAGIC_def EECONFIG_DEBUG_def EECONFIG_DEFAULT_LAYER_def EECONFIG_KEYMAP_LOWER_BYTE_def EECONFIG_MOUSEKEY_ACCEL_def
  EECONFIG_BACKLIGHT_def EECONFIG_AUDIO_def EECONFIG_RGBLIGHT_def EECONFIG_STENOMODE_def EECONFIG_HANDEDNESS_def
  EECONFIG_KEYBOARD_def EECONFIG_USER_def EECONFIG_VELOCIKEY_def EECONFIG_HAPTIC_def EECONFIG_RGB_MATRIX_def
  EECONFIG_RGB_MATRIX_EXTENDED_def EECONFIG_KEYMAP_UPPER_BYTE_def

section \<open>Reading and updating\<close>

definition eeconfig_read_debug :: "eeprom \<Rightarrow> u8" where
  "eeconfig_read_debug e = ee_get 1 EECONFIG_DEBUG e"

definition eeconfig_update_debug :: "u8 \<Rightarrow> eeprom \<Rightarrow> eeprom" where
  "eeconfig_update_debug v e = ee_put 1 EECONFIG_DEBUG v e"

definition eeconfig_read_default_layer :: "eeprom \<Rightarrow> u8" where
  "eeconfig_read_default_layer e = ee_get 1 EECONFIG_DEFAULT_LAYER e"

definition eeconfig_update_default_layer :: "u8 \<Rightarrow> eeprom \<Rightarrow> eeprom" where
  "eeconfig_update_default_layer v e = ee_put 1 EECONFIG_DEFAULT_LAYER v e"

definition eeconfig_read_keymap :: "eeprom \<Rightarrow> u16" where
  "eeconfig_read_keymap e =
     ucast (ee_get 1 EECONFIG_KEYMAP_LOWER_BYTE e :: u8) OR push_bit 8 (ucast (ee_get 1 EECONFIG_KEYMAP_UPPER_BYTE e :: u8))"

definition eeconfig_update_keymap :: "u16 \<Rightarrow> eeprom \<Rightarrow> eeprom" where
  "eeconfig_update_keymap v e =
     ee_put 1 EECONFIG_KEYMAP_UPPER_BYTE (ucast (drop_bit 8 v AND 0xFF) :: u8)
       (ee_put 1 EECONFIG_KEYMAP_LOWER_BYTE (ucast (v AND 0xFF) :: u8) e)"

definition eeconfig_read_audio :: "eeprom \<Rightarrow> u8" where
  "eeconfig_read_audio e = ee_get 1 EECONFIG_AUDIO e"

definition eeconfig_update_audio :: "u8 \<Rightarrow> eeprom \<Rightarrow> eeprom" where
  "eeconfig_update_audio v e = ee_put 1 EECONFIG_AUDIO v e"

definition eeconfig_read_kb :: "eeprom \<Rightarrow> u32" where
  "eeconfig_read_kb e = ee_get 4 EECONFIG_KEYBOARD e"

definition eeconfig_update_kb :: "u32 \<Rightarrow> eeprom \<Rightarrow> eeprom" where
  "eeconfig_update_kb v e = ee_put 4 EECONFIG_KEYBOARD v e"

definition eeconfig_read_user :: "eeprom \<Rightarrow> u32" where
  "eeconfig_read_user e = ee_get 4 EECONFIG_USER e"

definition eeconfig_update_user :: "u32 \<Rightarrow> eeprom \<Rightarrow> eeprom" where
  "eeconfig_update_user v e = ee_put 4 EECONFIG_USER v e"

definition eeconfig_read_haptic :: "eeprom \<Rightarrow> u32" where
  "eeconfig_read_haptic e = ee_get 4 EECONFIG_HAPTIC e"

definition eeconfig_update_haptic :: "u32 \<Rightarrow> eeprom \<Rightarrow> eeprom" where
  "eeconfig_update_haptic v e = ee_put 4 EECONFIG_HAPTIC v e"

definition eeconfig_read_handedness :: "eeprom \<Rightarrow> bool" where
  "eeconfig_read_handedness e \<longleftrightarrow> (ee_get 1 EECONFIG_HANDEDNESS e :: u8) \<noteq> 0"

definition eeconfig_update_handedness :: "bool \<Rightarrow> eeprom \<Rightarrow> eeprom" where
  "eeconfig_update_handedness v e = ee_put 1 EECONFIG_HANDEDNESS (if v then 1 else 0 :: u8) e"

section \<open>Initialisation\<close>

text \<open>
  \<open>None\<close> is a feature that is not in the build: the erasure of \<^verbatim>\<open>EEPROM_DRIVER\<close>, the hand of \<^verbatim>\<open>INIT_EE_HANDS\<close>,
  the calls for haptic feedback, VIA (validity, \<^verbatim>\<open>via_eeprom_set_valid\<close>, \<^verbatim>\<open>eeconfig_init_via\<close>) and OpenRGB.
\<close>

record ee_build =
  eeprom_driver_erase :: "(eeprom \<Rightarrow> eeprom) option"
  INIT_EE_HANDS :: "bool option"
  haptic_reset :: "(eeprom \<Rightarrow> eeprom) option"
  via_eeprom :: "((eeprom \<Rightarrow> bool) \<times> (bool \<Rightarrow> eeprom \<Rightarrow> eeprom) \<times> (eeprom \<Rightarrow> eeprom)) option"
  eeconfig_init_openrgb_direct :: "(eeprom \<Rightarrow> eeprom) option"
  eeconfig_init_kb_hook :: "eeprom \<Rightarrow> eeprom"

definition optionally :: "('e \<Rightarrow> 'e) option \<Rightarrow> 'e \<Rightarrow> 'e" where
  "optionally f e = (case f of None \<Rightarrow> e | Some f \<Rightarrow> f e)"

definition eeconfig_init_user :: "eeprom \<Rightarrow> eeprom" where
  "eeconfig_init_user e = eeconfig_update_user 0 e"

definition eeconfig_init_kb :: "eeprom \<Rightarrow> eeprom" where
  "eeconfig_init_kb e = eeconfig_init_user (eeconfig_update_kb 0 e)"

definition eeconfig_init_quantum :: "ee_build \<Rightarrow> eeprom \<times> 'a layer_st_scheme \<Rightarrow> eeprom \<times> 'a layer_st_scheme" where
  "eeconfig_init_quantum b es =
     (let (e, s) = es;
          e = optionally (eeprom_driver_erase b) e;
          e = ee_put 2 EECONFIG_MAGIC EECONFIG_MAGIC_NUMBER e;
          e = ee_put 1 EECONFIG_DEBUG (0 :: u8) e;
          e = ee_put 1 EECONFIG_DEFAULT_LAYER (0 :: u8) e;
          s = s\<lparr>default_layer_state := 0\<rparr>;
          e = ee_put 1 EECONFIG_KEYMAP_LOWER_BYTE (0 :: u8) e;
          e = ee_put 1 EECONFIG_KEYMAP_UPPER_BYTE (0 :: u8) e;
          e = ee_put 1 EECONFIG_MOUSEKEY_ACCEL (0 :: u8) e;
          e = ee_put 1 EECONFIG_BACKLIGHT (0 :: u8) e;
          e = ee_put 1 EECONFIG_AUDIO (0xFF :: u8) e;
          e = ee_put 4 EECONFIG_RGBLIGHT (0 :: u32) e;
          e = ee_put 1 EECONFIG_STENOMODE (0 :: u8) e;
          e = ee_put 4 EECONFIG_HAPTIC (0 :: u32) e;
          e = ee_put 1 EECONFIG_VELOCIKEY (0 :: u8) e;
          e = ee_put 4 EECONFIG_RGB_MATRIX (0 :: u32) e;
          e = ee_put 2 EECONFIG_RGB_MATRIX_EXTENDED (0 :: u16) e;
          e = optionally (map_option (\<lambda>left. ee_put 1 EECONFIG_HANDEDNESS (if left then 1 else 0 :: u8)) (INIT_EE_HANDS b)) e;
          e = (case haptic_reset b of Some reset \<Rightarrow> reset e | None \<Rightarrow> ee_put 4 EECONFIG_HAPTIC (0 :: u32) e);
          e = optionally (map_option (\<lambda>(valid, set_valid, init_via) e. init_via (set_valid False e)) (via_eeprom b)) e;
          e = optionally (eeconfig_init_openrgb_direct b) e
      in (eeconfig_init_kb_hook b e, s))"

definition eeconfig_init :: "ee_build \<Rightarrow> eeprom \<times> 'a layer_st_scheme \<Rightarrow> eeprom \<times> 'a layer_st_scheme" where
  "eeconfig_init b es = eeconfig_init_quantum b es"

definition eeconfig_enable :: "eeprom \<Rightarrow> eeprom" where
  "eeconfig_enable e = ee_put 2 EECONFIG_MAGIC EECONFIG_MAGIC_NUMBER e"

definition eeconfig_disable :: "ee_build \<Rightarrow> eeprom \<Rightarrow> eeprom" where
  "eeconfig_disable b e = ee_put 2 EECONFIG_MAGIC EECONFIG_MAGIC_NUMBER_OFF (optionally (eeprom_driver_erase b) e)"

definition eeconfig_is_enabled :: "ee_build \<Rightarrow> eeprom \<Rightarrow> bool" where
  "eeconfig_is_enabled b e \<longleftrightarrow>
     ee_get 2 EECONFIG_MAGIC e = EECONFIG_MAGIC_NUMBER \<and> (case via_eeprom b of None \<Rightarrow> True | Some (valid, _) \<Rightarrow> valid e)"

definition eeconfig_is_disabled :: "ee_build \<Rightarrow> eeprom \<Rightarrow> bool" where
  "eeconfig_is_disabled b e \<longleftrightarrow>
     ee_get 2 EECONFIG_MAGIC e = EECONFIG_MAGIC_NUMBER_OFF \<or> (case via_eeprom b of None \<Rightarrow> False | Some (valid, _) \<Rightarrow> \<not> valid e)"

section \<open>The settings as a table\<close>

datatype setting = Debug | Default_layer | Keymap_config | Audio | Kb | User | Haptic | Handedness

fun read_setting :: "eeprom \<Rightarrow> setting \<Rightarrow> nat" where
  "read_setting e Debug = unat (eeconfig_read_debug e)"
| "read_setting e Default_layer = unat (eeconfig_read_default_layer e)"
| "read_setting e Keymap_config = unat (eeconfig_read_keymap e)"
| "read_setting e Audio = unat (eeconfig_read_audio e)"
| "read_setting e Kb = unat (eeconfig_read_kb e)"
| "read_setting e User = unat (eeconfig_read_user e)"
| "read_setting e Haptic = unat (eeconfig_read_haptic e)"
| "read_setting e Handedness = (if eeconfig_read_handedness e then 1 else 0)"

fun update_setting :: "setting \<Rightarrow> nat \<Rightarrow> eeprom \<Rightarrow> eeprom" where
  "update_setting Debug v e = eeconfig_update_debug (of_nat v) e"
| "update_setting Default_layer v e = eeconfig_update_default_layer (of_nat v) e"
| "update_setting Keymap_config v e = eeconfig_update_keymap (of_nat v) e"
| "update_setting Audio v e = eeconfig_update_audio (of_nat v) e"
| "update_setting Kb v e = eeconfig_update_kb (of_nat v) e"
| "update_setting User v e = eeconfig_update_user (of_nat v) e"
| "update_setting Haptic v e = eeconfig_update_haptic (of_nat v) e"
| "update_setting Handedness v e = eeconfig_update_handedness (v \<noteq> 0) e"

fun setting_bits :: "setting \<Rightarrow> nat" where
  "setting_bits Keymap_config = 16" | "setting_bits Kb = 32" | "setting_bits User = 32" | "setting_bits Haptic = 32"
| "setting_bits Handedness = 1" | "setting_bits _ = 8"

lemmas setting_defs = eeconfig_read_debug_def eeconfig_read_default_layer_def eeconfig_read_keymap_def eeconfig_read_audio_def
  eeconfig_read_kb_def eeconfig_read_user_def eeconfig_read_haptic_def eeconfig_read_handedness_def
  eeconfig_update_debug_def eeconfig_update_default_layer_def eeconfig_update_keymap_def eeconfig_update_audio_def
  eeconfig_update_kb_def eeconfig_update_user_def eeconfig_update_haptic_def eeconfig_update_handedness_def

lemma keymap_bytes:
  "ucast (ucast (v AND 0xFF) :: u8) OR push_bit 8 (ucast (ucast (drop_bit 8 v AND 0xFF) :: u8)) = (v :: u16)"
proof (rule bit_word_eqI)
  have m: "(0xFF :: u16) = mask 8" by (simp add: mask_eq_exp_minus_1)
  show "bit (ucast (ucast (v AND 0xFF) :: u8) OR push_bit 8 (ucast (ucast (drop_bit 8 v AND 0xFF) :: u8)) :: u16) k \<longleftrightarrow> bit v k"
    if "k < LENGTH(16)" for k
    unfolding m using that
    by (auto simp: bit_or_iff bit_push_bit_iff bit_ucast_iff bit_and_iff bit_drop_bit_eq bit_mask_iff)
qed

lemma setting_read_back:
  assumes "v < 2 ^ setting_bits k"
  shows "read_setting (update_setting k v e) k = v"
  using assms
  by (cases k) (simp_all add: setting_defs ee_get_put_other ee_places keymap_bytes unat_of_nat take_bit_nat_eq_self
      take_bit_word_eq_self)

lemma setting_other:
  "j \<noteq> k \<Longrightarrow> read_setting (update_setting k v e) j = read_setting e j"
  by (cases k; cases j) (simp_all add: setting_defs ee_get_put_other ee_places)

lemma setting_magic: "ee_get 2 EECONFIG_MAGIC (update_setting k v e) = ee_get 2 EECONFIG_MAGIC e"
  by (cases k) (simp_all add: setting_defs ee_get_put_other ee_places)

interpretation settings: key_store read_setting update_setting "\<lambda>_. True" "\<lambda>k v. v < 2 ^ setting_bits k" "\<lambda>_. True"
  by unfold_locales (simp_all add: setting_read_back setting_other)

definition save_settings :: "(setting \<times> nat) list \<Rightarrow> eeprom \<Rightarrow> eeprom" where
  "save_settings ws e = fold (\<lambda>(k, v). update_setting k v) ws e"

lemma save_settings_magic: "ee_get 2 EECONFIG_MAGIC (save_settings ws e) = ee_get 2 EECONFIG_MAGIC e"
  by (induction ws arbitrary: e) (auto simp: save_settings_def setting_magic)

text \<open>
  C19. The settings do not disturb each other: after any sequence of updates of any settings, each reads as the value of its
  last update, or as before if it was not updated, and the magic number that makes the settings valid is untouched.
\<close>

theorem settings_are_kept:
  assumes "\<forall>(k, v) \<in> set ws. v < 2 ^ setting_bits k"
  shows "read_setting (save_settings ws e) k = (case map_of (rev ws) k of Some v \<Rightarrow> v | None \<Rightarrow> read_setting e k) \<and>
    (ee_get 2 EECONFIG_MAGIC (save_settings ws e) = EECONFIG_MAGIC_NUMBER \<longleftrightarrow> ee_get 2 EECONFIG_MAGIC e = EECONFIG_MAGIC_NUMBER)"
  using settings.lookup_write_all [where m = e and ws = ws and j = k] assms
  by (simp add: save_settings_magic [unfolded save_settings_def] save_settings_def settings.write_all_def settings.valid_writes_def)

lemma settings_are_kept_witness:
  "read_setting (save_settings [(Keymap_config, 0x201), (User, 70000), (Keymap_config, 0x480)] (\<lambda>_. 9)) Keymap_config = 0x480"
  using settings_are_kept [of "[(Keymap_config, 0x201), (User, 70000), (Keymap_config, 0x480)]" "\<lambda>_. 9" Keymap_config] by simp

text \<open>
  C2. What the initialisation leaves: the settings are valid, every one of them reads as its default, audio as on, and the
  default layers are none.  After \<^verbatim>\<open>eeconfig_disable\<close> the settings are disabled and not enabled.
\<close>

definition plain_ee_build :: ee_build where
  "plain_ee_build = \<lparr>eeprom_driver_erase = None, INIT_EE_HANDS = None, haptic_reset = None, via_eeprom = None,
     eeconfig_init_openrgb_direct = None, eeconfig_init_kb_hook = eeconfig_init_kb\<rparr>"

lemma eeconfig_init_defaults:
  "let es = eeconfig_init plain_ee_build (e, s); off = eeconfig_disable plain_ee_build (fst es)
   in eeconfig_is_enabled plain_ee_build (fst es) \<and> \<not> eeconfig_is_disabled plain_ee_build (fst es) \<and>
      read_setting (fst es) k = (if k = Audio then 0xFF else if k = Handedness then read_setting e Handedness else 0) \<and>
      default_layer_state (snd es) = 0 \<and>
      eeconfig_is_disabled plain_ee_build off \<and> \<not> eeconfig_is_enabled plain_ee_build off"
  by (cases k) (simp_all add: Let_def eeconfig_init_def eeconfig_init_quantum_def plain_ee_build_def optionally_def eeconfig_init_kb_def
      eeconfig_init_user_def eeconfig_is_enabled_def eeconfig_is_disabled_def eeconfig_disable_def setting_defs ee_get_put_other
      ee_places EECONFIG_MAGIC_NUMBER_def EECONFIG_MAGIC_NUMBER_OFF_def)

end
