(* ===== verification/Magic.thy ===== *)
theory Magic
  imports Action_Register Eeconfig
begin

text \<open>
  The keys that change the magic configuration, \<^verbatim>\<open>quantum/process_keycode/process_magic.c\<close>, and the start of the firmware
  that reads the configuration back, \<^verbatim>\<open>quantum/bootmagic/magic.c\<close>.  The configuration is read from the EEPROM, changed, and
  written back.  The 16-bit word in the EEPROM has five bits that no flag uses; they are kept.
  Builds without \<^verbatim>\<open>AUDIO_ENABLE\<close>.
\<close>

section \<open>The handler\<close>

definition is_magic :: "u16 \<Rightarrow> bool" where
  "is_magic keycode \<longleftrightarrow>
     MAGIC_SWAP_CONTROL_CAPSLOCK \<le> keycode \<and> keycode \<le> MAGIC_TOGGLE_ALT_GUI \<or>
     MAGIC_SWAP_LCTL_LGUI \<le> keycode \<and> keycode \<le> MAGIC_EE_HANDS_RIGHT \<or> keycode = MAGIC_TOGGLE_GUI"

text \<open>The change of the flags, and whether the keyboard is cleared before it.\<close>

definition magic_flags :: "u16 \<Rightarrow> keymap_config_t \<Rightarrow> keymap_config_t" where
  "magic_flags keycode k =
     (if keycode = MAGIC_SWAP_CONTROL_CAPSLOCK then k\<lparr>swap_control_capslock := True\<rparr>
      else if keycode = MAGIC_CAPSLOCK_TO_CONTROL then k\<lparr>capslock_to_control := True\<rparr>
      else if keycode = MAGIC_SWAP_LALT_LGUI then k\<lparr>swap_lalt_lgui := True\<rparr>
      else if keycode = MAGIC_SWAP_RALT_RGUI then k\<lparr>swap_ralt_rgui := True\<rparr>
      else if keycode = MAGIC_SWAP_LCTL_LGUI then k\<lparr>swap_lctl_lgui := True\<rparr>
      else if keycode = MAGIC_SWAP_RCTL_RGUI then k\<lparr>swap_rctl_rgui := True\<rparr>
      else if keycode = MAGIC_NO_GUI then k\<lparr>no_gui := True\<rparr>
      else if keycode = MAGIC_SWAP_GRAVE_ESC then k\<lparr>swap_grave_esc := True\<rparr>
      else if keycode = MAGIC_SWAP_BACKSLASH_BACKSPACE then k\<lparr>swap_backslash_backspace := True\<rparr>
      else if keycode = MAGIC_HOST_NKRO then k\<lparr>cfg_nkro := True\<rparr>
      else if keycode = MAGIC_SWAP_ALT_GUI then k\<lparr>swap_lalt_lgui := True, swap_ralt_rgui := True\<rparr>
      else if keycode = MAGIC_SWAP_CTL_GUI then k\<lparr>swap_lctl_lgui := True, swap_rctl_rgui := True\<rparr>
      else if keycode = MAGIC_UNSWAP_CONTROL_CAPSLOCK then k\<lparr>swap_control_capslock := False\<rparr>
      else if keycode = MAGIC_UNCAPSLOCK_TO_CONTROL then k\<lparr>capslock_to_control := False\<rparr>
      else if keycode = MAGIC_UNSWAP_LALT_LGUI then k\<lparr>swap_lalt_lgui := False\<rparr>
      else if keycode = MAGIC_UNSWAP_RALT_RGUI then k\<lparr>swap_ralt_rgui := False\<rparr>
      else if keycode = MAGIC_UNSWAP_LCTL_LGUI then k\<lparr>swap_lctl_lgui := False\<rparr>
      else if keycode = MAGIC_UNSWAP_RCTL_RGUI then k\<lparr>swap_rctl_rgui := False\<rparr>
      else if keycode = MAGIC_UNNO_GUI then k\<lparr>no_gui := False\<rparr>
      else if keycode = MAGIC_UNSWAP_GRAVE_ESC then k\<lparr>swap_grave_esc := False\<rparr>
      else if keycode = MAGIC_UNSWAP_BACKSLASH_BACKSPACE then k\<lparr>swap_backslash_backspace := False\<rparr>
      else if keycode = MAGIC_UNHOST_NKRO then k\<lparr>cfg_nkro := False\<rparr>
      else if keycode = MAGIC_UNSWAP_ALT_GUI then k\<lparr>swap_lalt_lgui := False, swap_ralt_rgui := False\<rparr>
      else if keycode = MAGIC_UNSWAP_CTL_GUI then k\<lparr>swap_lctl_lgui := False, swap_rctl_rgui := False\<rparr>
      else if keycode = MAGIC_TOGGLE_ALT_GUI
      then k\<lparr>swap_lalt_lgui := \<not> swap_lalt_lgui k, swap_ralt_rgui := \<not> swap_lalt_lgui k\<rparr>
      else if keycode = MAGIC_TOGGLE_CTL_GUI
      then k\<lparr>swap_lctl_lgui := \<not> swap_lctl_lgui k, swap_rctl_rgui := \<not> swap_lctl_lgui k\<rparr>
      else if keycode = MAGIC_TOGGLE_NKRO then k\<lparr>cfg_nkro := \<not> cfg_nkro k\<rparr>
      else if keycode = MAGIC_TOGGLE_GUI then k\<lparr>no_gui := \<not> no_gui k\<rparr>
      else k)"

definition changes_nkro :: "u16 \<Rightarrow> bool" where
  "changes_nkro keycode \<longleftrightarrow> keycode = MAGIC_HOST_NKRO \<or> keycode = MAGIC_UNHOST_NKRO \<or> keycode = MAGIC_TOGGLE_NKRO"

definition process_magic ::
    "'s config \<Rightarrow> u16 \<Rightarrow> bool \<Rightarrow> eeprom \<times> 'a util_st_scheme \<Rightarrow> bool \<times> eeprom \<times> 'a util_st_scheme" where
  "process_magic c keycode down es =
     (let (e, s) = es
      in if down \<and> is_magic keycode then
           (let raw = eeconfig_read_keymap e; s = s\<lparr>keymap_config := keymap_config_of_raw raw\<rparr>;
                s = (if changes_nkro keycode then clear_keyboard c s else s);
                s = s\<lparr>keymap_config := magic_flags keycode (keymap_config s)\<rparr>;
                e = (if keycode = MAGIC_EE_HANDS_LEFT then eeconfig_update_handedness True e
                     else if keycode = MAGIC_EE_HANDS_RIGHT then eeconfig_update_handedness False e else e);
                e = eeconfig_update_keymap (raw AND 0xF800 OR keymap_config_raw (keymap_config s)) e
            in (False, e, clear_keyboard c s))
         else (True, es))"

section \<open>The start\<close>

text \<open>
  The result has the debug configuration in front.  The last statement of the C function calls \<^verbatim>\<open>layer_state_set_kb\<close> for
  its effects and drops the value; the hook has no effects in the model.
\<close>

definition magic ::
    "ee_build \<Rightarrow> 's config \<Rightarrow> (eeprom \<times> 'a layer_st_scheme \<Rightarrow> eeprom \<times> 'a layer_st_scheme) \<Rightarrow>
     eeprom \<times> 'a layer_st_scheme \<Rightarrow> u8 \<times> eeprom \<times> 'a layer_st_scheme" where
  "magic b c bootmagic es =
     (let (e, s) = (if \<not> eeconfig_is_enabled b (fst es) then eeconfig_init b es else es);
          debug_config = eeconfig_read_debug e;
          s = s\<lparr>keymap_config := keymap_config_of_raw (eeconfig_read_keymap e)\<rparr>;
          (e, s) = bootmagic (e, s);
          default_layer = ucast (eeconfig_read_default_layer e)
      in (debug_config, e, default_layer_set c default_layer s))"

section \<open>What a magic key does\<close>

lemma keymap_config_of_kept: "keymap_config_of_raw (w AND 0xF800 OR keymap_config_raw k) = k"
proof -
  have hi: "\<not> bit (0xF800 :: u16) n" if "n < 11" for n
    using that by (auto simp: less_Suc_eq numeral_eq_Suc)
  show ?thesis by (simp add: keymap_config_of_raw_def bit_or_iff bit_and_iff)
qed

lemma eeconfig_keymap [simp]: "eeconfig_read_keymap (eeconfig_update_keymap v e) = v"
  by (simp add: setting_defs ee_get_put_other ee_places keymap_bytes take_bit_word_eq_self)

lemma cleared:
  assumes "host_driver s" "report_wf (keyboard_report s)"
  shows "util_held (clear_keyboard c s) = {}" "real_mods (clear_keyboard c s) = 0" "synced (clear_keyboard c s)"
    "keymap_config (clear_keyboard c s) = keymap_config s"
    "host_driver (clear_keyboard c s)" "report_wf (keyboard_report (clear_keyboard c s))"
proof -
  let ?k = "clear_keys (clear_mods s)"
  have n: "nkro (clear_mods s) = nkro s" "nkro ?k = nkro s" by (simp_all add: clear_mods_def clear_keys_def nkro_def)
  have r: "keyboard_report (clear_mods s) = keyboard_report s" by (simp add: clear_mods_def)
  have k: "util_held ?k = {} \<and> report_wf (keyboard_report ?k) \<and> (nkro s \<or> keys_distinct (keyboard_report ?k))"
  proof (cases "nkro s")
    case True
    then show ?thesis using report_step_held [of "keyboard_report s" True ReleaseAll] assms(2)
      by (simp add: util_held_def n) (simp add: clear_keys_def n r report_step_def held_step_def)
  next
    case False
    have slots: "slot (clear_keys_from_report False (keyboard_report s)) i = 0" if "i < 6" for i
      using assms(2) that by (simp add: slot_def clear_keys_from_report_def report_wf_def nth_append KEYBOARD_REPORT_KEYS_def)
    then show ?thesis using False assms(2)
      by (simp add: util_held_def n) (auto simp: clear_keys_def n r held6_image keys_distinct_def clear_keys_from_report_def
          report_wf_def KEYBOARD_REPORT_KEYS_def)
  qed
  have wf: "util_wf ?k" "host_driver ?k" using k assms(1) n by (auto simp: util_wf_def) (simp_all add: clear_mods_def)
  show "real_mods (clear_keyboard c s) = 0" "keymap_config (clear_keyboard c s) = keymap_config s"
    "host_driver (clear_keyboard c s)"
    using assms(1) by (simp_all add: clear_keyboard_def clear_mods_def)
  let ?m = "clear_macro_mods (clear_weak_mods (host_consumer_send 0 (host_system_send 0 ?k)))"
  have m: "util_wf ?m" "util_held ?m = {}" "host_driver ?m" using wf k by (simp_all add: util_wf_def util_held_def)
  have cl: "clear_keyboard c s = send_keyboard_report c ?m"
    by (simp add: clear_keyboard_def clear_keyboard_but_mods_def clear_keyboard_but_mods_and_keys_def)
  show "util_held (clear_keyboard c s) = {}" "synced (clear_keyboard c s)" "report_wf (keyboard_report (clear_keyboard c s))"
    using m synced_send [OF m(3,1)] util_send(1) [of c ?m] unfolding cl by (simp_all add: util_wf_def)
qed

text \<open>The settings that a magic key leaves alone.\<close>

definition touched :: "u16 \<Rightarrow> setting \<Rightarrow> bool" where
  "touched keycode k \<longleftrightarrow> k = Keymap_config \<or> k = Handedness \<and> (keycode = MAGIC_EE_HANDS_LEFT \<or> keycode = MAGIC_EE_HANDS_RIGHT)"

lemma keymap_update_other: "k \<noteq> Keymap_config \<Longrightarrow> read_setting (eeconfig_update_keymap v e) k = read_setting e k"
  using setting_other [of k Keymap_config "unat v" e] by simp

lemma hands_update_other: "k \<noteq> Handedness \<Longrightarrow> read_setting (eeconfig_update_handedness v e) k = read_setting e k"
  using setting_other [of k Handedness "if v then 1 else 0" e] by (cases v) simp_all

lemma magic_number_kept:
  "ee_get 2 EECONFIG_MAGIC (eeconfig_update_keymap v e) = ee_get 2 EECONFIG_MAGIC e"
  "ee_get 2 EECONFIG_MAGIC (eeconfig_update_handedness b e) = ee_get 2 EECONFIG_MAGIC e"
  using setting_magic [of Keymap_config "unat v" e] setting_magic [of Handedness "if b then 1 else 0" e] by (cases b; simp)+

text \<open>
  C21. What a magic key sets survives a restart.  Pressing a magic key changes in the running configuration exactly the
  flags it names, writes them to the EEPROM without changing any other setting, and leaves the host with no key and no
  modifier held.  A firmware that starts with this EEPROM, in whatever state, runs with the same configuration.
\<close>

theorem magic_keys_persist:
  assumes "is_magic keycode" "host_driver s" "report_wf (keyboard_report s)"
    and "keymap_config s = keymap_config_of_raw (eeconfig_read_keymap e)" "eeconfig_is_enabled plain_ee_build e"
  shows "\<exists>e' s'. process_magic c keycode True (e, s) = (False, e', s') \<and>
    keymap_config s' = magic_flags keycode (keymap_config s) \<and>
    (\<forall>k. \<not> touched keycode k \<longrightarrow> read_setting e' k = read_setting e k) \<and>
    util_held s' = {} \<and> real_mods s' = 0 \<and> synced s' \<and>
    keymap_config (snd (snd (magic plain_ee_build c' id (e', s0)))) = keymap_config s'"
proof -
  let ?e = "if keycode = MAGIC_EE_HANDS_LEFT then eeconfig_update_handedness True e
    else if keycode = MAGIC_EE_HANDS_RIGHT then eeconfig_update_handedness False e else e"
  define s1 where "s1 = (if changes_nkro keycode then clear_keyboard c s else s)"
  define s2 where "s2 = s1\<lparr>keymap_config := magic_flags keycode (keymap_config s)\<rparr>"
  define e' where "e' = eeconfig_update_keymap (eeconfig_read_keymap e AND 0xF800 OR keymap_config_raw (keymap_config s2)) ?e"
  have s1: "host_driver s1" "report_wf (keyboard_report s1)" "keymap_config s1 = keymap_config s"
    using assms(2,3) cleared [OF assms(2,3), of c] by (simp_all add: s1_def)
  have "s\<lparr>keymap_config := keymap_config_of_raw (eeconfig_read_keymap e)\<rparr> = s" by (simp flip: assms(4))
  then have process: "process_magic c keycode True (e, s) = (False, e', clear_keyboard c s2)"
    unfolding process_magic_def Let_def prod.case
    by (simp only: assms(1) simp_thms if_True s1_def [symmetric] s1(3) s2_def [symmetric] e'_def)
  have s2: "host_driver s2" "report_wf (keyboard_report s2)" using s1 by (simp_all add: s2_def)
  note end_state = cleared [OF s2, of c]
  have other: "read_setting e' k = read_setting e k" if "\<not> touched keycode k" for k
    using that by (auto simp: e'_def touched_def keymap_update_other hands_update_other)
  have "eeconfig_is_enabled plain_ee_build e'"
    using assms(5) by (simp add: eeconfig_is_enabled_def plain_ee_build_def e'_def magic_number_kept)
  then have "keymap_config (snd (snd (magic plain_ee_build c' id (e', s0)))) = keymap_config s2"
    by (simp add: magic_def default_layer_set_def default_layer_state_set_def e'_def keymap_config_of_kept)
  then show ?thesis using process end_state other by (auto simp: s2_def)
qed

lemma magic_keys_persist_witness:
  "let c = default_config (\<lambda>_ _. 0) :: unit config;
       e = (\<lambda>a. if a = 0 then 0xE9 else if a = 1 then 0xFE else 0) :: eeprom
   in \<exists>e' s'. process_magic c MAGIC_TOGGLE_NKRO True (e, layer_init c) = (False, e', s') \<and>
        cfg_nkro (keymap_config s') \<and> cfg_nkro (keymap_config (snd (snd (magic plain_ee_build c id (e', layer_init c)))))"
proof -
  define c :: "unit config" where "c = default_config (\<lambda>_ _. 0)"
  define e :: eeprom where "e = (\<lambda>a. if a = 0 then 0xE9 else if a = 1 then 0xFE else 0)"
  have m: "is_magic MAGIC_TOGGLE_NKRO" by (simp add: is_magic_def)
  have s: "host_driver (layer_init c)" "report_wf (keyboard_report (layer_init c))"
    "keymap_config (layer_init c) = keymap_config_of_raw 0"
    by (simp_all add: layer_init_def)
  have e: "eeconfig_read_keymap e = 0" "eeconfig_is_enabled plain_ee_build e"
    by (simp_all add: e_def eeconfig_read_keymap_def eeconfig_is_enabled_def plain_ee_build_def ee_get_def get_bytes_def
        ee_places EECONFIG_MAGIC_NUMBER_def upt_rec)
  have flag: "cfg_nkro (magic_flags MAGIC_TOGGLE_NKRO (keymap_config_of_raw 0))"
    by (simp add: magic_flags_def keymap_config_of_raw_def)
  obtain e' s' where r: "process_magic c MAGIC_TOGGLE_NKRO True (e, layer_init c) = (False, e', s')"
    "keymap_config s' = magic_flags MAGIC_TOGGLE_NKRO (keymap_config_of_raw 0)"
    "keymap_config (snd (snd (magic plain_ee_build c id (e', layer_init c)))) = keymap_config s'"
    using magic_keys_persist [OF m s(1,2) _ e(2), where c = c and c' = c and ?s0.0 = "layer_init c"] s(3) e(1) by fastforce
  then have "cfg_nkro (keymap_config s')" using flag by (simp only:)
  then show ?thesis using r unfolding Let_def c_def [symmetric] e_def [symmetric] by (intro exI [of _ e'] exI [of _ s']) simp
qed

end
