(* ===== verification/Quantum.thy ===== *)
theory Quantum
  imports Space_Cadet Grave_Esc Key_Lock Leader Magic Action
begin

text \<open>
  The quantum layer, \<^verbatim>\<open>quantum/quantum.c\<close>: the keycode of an event, the chain of features that may take it, and the
  keycodes that act on the firmware itself.  The state of the features of this model extends the state of \<^verbatim>\<open>action.c\<close>,
  and \<open>quantum_config\<close> puts the chain into the hooks of \<open>process_record\<close>.  The features of the chain that are not
  modelled are five hooks at their places; a build without a feature skips it.
\<close>

section \<open>The keycode of an event\<close>

definition get_event_keycode :: "'s config \<Rightarrow> keyevent_t \<Rightarrow> bool \<Rightarrow> 'a layer_st_scheme \<Rightarrow> u16 \<times> 'a layer_st_scheme" where
  "get_event_keycode c e update_layer_cache s =
     (if \<not> STRICT_LAYER_RELEASE c \<and> \<not> disable_action_cache s then
        if pressed e \<and> update_layer_cache then
          (let layer = layer_switch_get_layer c (key e) s
           in (keymap_key_to_keycode c layer (key e),
               s\<lparr>source_layers_cache := update_source_layers_cache c (key e) layer (source_layers_cache s)\<rparr>))
        else (keymap_key_to_keycode c (read_source_layers_cache c (key e) (source_layers_cache s)) (key e), s)
      else (keymap_key_to_keycode c (layer_switch_get_layer c (key e) s) (key e), s))"

text \<open>The field \<open>rec_keycode\<close> is 0 in a build without combos.\<close>

definition get_record_keycode :: "'s config \<Rightarrow> keyrecord_t \<Rightarrow> bool \<Rightarrow> 'a layer_st_scheme \<Rightarrow> u16 \<times> 'a layer_st_scheme" where
  "get_record_keycode c r update_layer_cache s =
     (if rec_keycode r \<noteq> 0 then (rec_keycode r, s) else get_event_keycode c (event r) update_layer_cache s)"

section \<open>The state and the build\<close>

record quantum_st = action_st +
  q_lock :: lock_st
  q_leader :: leader_st
  q_cadet :: cadet_st
  q_grave :: bool
  q_eeprom :: eeprom
  debug_enable :: bool

record 's quantum_build =
  KEY_LOCK_ENABLE :: bool
  LEADER_ENABLE :: "'s leader_config option"
  SPACE_CADET_ENABLE :: "cadet_config option"
  MAGIC_KEYCODE_ENABLE :: bool
  GRAVE_ESC_ENABLE :: "grave_config option"
  NO_RESET :: bool
  NO_DEBUG :: bool
  NO_ACTION_ONESHOT :: bool
  q_ee_build :: ee_build
  process_combo :: "u16 \<Rightarrow> keyrecord_t \<Rightarrow> 's \<Rightarrow> bool \<times> 's"
  preprocess :: "u16 \<Rightarrow> keyrecord_t \<Rightarrow> 's \<Rightarrow> 's"
  after_key_lock :: "u16 \<Rightarrow> keyrecord_t \<Rightarrow> 's \<Rightarrow> bool \<times> 's"
  process_record_kb :: "u16 \<Rightarrow> keyrecord_t \<Rightarrow> 's \<Rightarrow> bool \<times> 's"
  after_record_kb :: "u16 \<Rightarrow> keyrecord_t \<Rightarrow> 's \<Rightarrow> bool \<times> 's"
  after_leader :: "u16 \<Rightarrow> keyrecord_t \<Rightarrow> 's \<Rightarrow> bool \<times> 's"
  after_grave_esc :: "u16 \<Rightarrow> keyrecord_t \<Rightarrow> 's \<Rightarrow> bool \<times> 's"
  process_action_kb :: "keyrecord_t \<Rightarrow> 's \<Rightarrow> bool \<times> 's"
  post_process_record_kb :: "u16 \<Rightarrow> keyrecord_t \<Rightarrow> 's \<Rightarrow> 's"
  shutdown_user :: "'s \<Rightarrow> 's"
  bootloader_jump :: "'s \<Rightarrow> 's"

section \<open>The chain\<close>

definition reset_keyboard :: "'x quantum_st_scheme quantum_build \<Rightarrow> 's config \<Rightarrow> 'x quantum_st_scheme \<Rightarrow> 'x quantum_st_scheme" where
  "reset_keyboard q c s = bootloader_jump q (wait_ms 250 (shutdown_user q (clear_keyboard c s)))"

text \<open>The handlers of the chain run in their order, as long as they let the event through.\<close>

fun run_chain :: "('s \<Rightarrow> bool \<times> 's) list \<Rightarrow> 's \<Rightarrow> bool \<times> 's" where
  "run_chain [] s = (True, s)"
| "run_chain (f # fs) s = (case f s of (pass, s) \<Rightarrow> if pass then run_chain fs s else (False, s))"

definition q_key_lock ::
    "'x quantum_st_scheme quantum_build \<Rightarrow> u16 \<Rightarrow> bool \<Rightarrow> 'x quantum_st_scheme \<Rightarrow> bool \<times> u16 \<times> 'x quantum_st_scheme" where
  "q_key_lock q keycode down s =
     (if KEY_LOCK_ENABLE q
      then case process_key_lock keycode down (q_lock s) of (pass, k, t) \<Rightarrow> (pass, k, s\<lparr>q_lock := t\<rparr>)
      else (True, keycode, s))"

definition q_process_leader ::
    "'x quantum_st_scheme quantum_build \<Rightarrow> u16 \<Rightarrow> bool \<Rightarrow> 'x quantum_st_scheme \<Rightarrow> bool \<times> 'x quantum_st_scheme" where
  "q_process_leader q keycode down s =
     (case LEADER_ENABLE q of None \<Rightarrow> (True, s)
      | Some lc \<Rightarrow> (case process_leader lc (timer_read s) keycode down (q_leader s, s) of (pass, t, s) \<Rightarrow> (pass, s\<lparr>q_leader := t\<rparr>)))"

definition q_space_cadet ::
    "'x quantum_st_scheme quantum_build \<Rightarrow> 's config \<Rightarrow> u16 \<Rightarrow> bool \<Rightarrow> 'x quantum_st_scheme \<Rightarrow> bool \<times> 'x quantum_st_scheme" where
  "q_space_cadet q c keycode down s =
     (case SPACE_CADET_ENABLE q of None \<Rightarrow> (True, s)
      | Some cc \<Rightarrow> (case process_space_cadet cc c keycode down (q_cadet s, s) of (pass, t, s) \<Rightarrow> (pass, s\<lparr>q_cadet := t\<rparr>)))"

definition q_magic ::
    "'x quantum_st_scheme quantum_build \<Rightarrow> 's config \<Rightarrow> u16 \<Rightarrow> bool \<Rightarrow> 'x quantum_st_scheme \<Rightarrow> bool \<times> 'x quantum_st_scheme" where
  "q_magic q c keycode down s =
     (if MAGIC_KEYCODE_ENABLE q
      then case process_magic c keycode down (q_eeprom s, s) of (pass, e, s) \<Rightarrow> (pass, s\<lparr>q_eeprom := e\<rparr>)
      else (True, s))"

definition q_grave_esc ::
    "'x quantum_st_scheme quantum_build \<Rightarrow> 's config \<Rightarrow> u16 \<Rightarrow> bool \<Rightarrow> 'x quantum_st_scheme \<Rightarrow> bool \<times> 'x quantum_st_scheme" where
  "q_grave_esc q c keycode down s =
     (case GRAVE_ESC_ENABLE q of None \<Rightarrow> (True, s)
      | Some gc \<Rightarrow> (case process_grave_esc gc c keycode down (q_grave s, s) of (pass, b, s) \<Rightarrow> (pass, s\<lparr>q_grave := b\<rparr>)))"

text \<open>The keycodes at the end of the chain; the flag tells whether the processing goes on.\<close>

definition quantum_keycodes ::
    "'x quantum_st_scheme quantum_build \<Rightarrow> 's config \<Rightarrow> u16 \<Rightarrow> 'x quantum_st_scheme \<Rightarrow> bool \<times> 'x quantum_st_scheme" where
  "quantum_keycodes q c keycode s =
     (if keycode = RESET \<and> \<not> NO_RESET q then (False, reset_keyboard q c s)
      else if keycode = DEBUG \<and> \<not> NO_DEBUG q then (False, s\<lparr>debug_enable := \<not> debug_enable s\<rparr>)
      else if keycode = EEPROM_RESET
      then (case eeconfig_init (q_ee_build q) (q_eeprom s, s) of (e, s) \<Rightarrow> (False, s\<lparr>q_eeprom := e\<rparr>))
      else if NO_ACTION_ONESHOT q then (True, s)
      else if keycode = ONESHOT_TOGGLE then (True, oneshot_toggle c s)
      else if keycode = ONESHOT_ENABLE then (True, oneshot_enable c s)
      else if keycode = ONESHOT_DISABLE then (True, oneshot_disable_op c s)
      else (True, s))"

definition quantum_process ::
    "'x quantum_st_scheme quantum_build \<Rightarrow> 's config \<Rightarrow> keyrecord_t \<Rightarrow> 'x quantum_st_scheme \<Rightarrow> bool \<times> 'x quantum_st_scheme" where
  "quantum_process q c r s =
     (let down = pressed (event r);
          (keycode, s) = get_record_keycode c r True s;
          s = preprocess q keycode r s;
          (pass, keycode, s) = q_key_lock q keycode down s
      in if \<not> pass then (False, s)
         else case run_chain
             [after_key_lock q keycode r, process_record_kb q keycode r, after_record_kb q keycode r,
              q_process_leader q keycode down, after_leader q keycode r, q_space_cadet q c keycode down,
              q_magic q c keycode down, q_grave_esc q c keycode down, after_grave_esc q keycode r] s
           of (pass, s) \<Rightarrow>
             if \<not> pass then (False, s)
             else case (if down then quantum_keycodes q c keycode s else (True, s)) of (pass, s) \<Rightarrow>
               if pass then process_action_kb q r s else (False, s))"

definition quantum_pre_process ::
    "'x quantum_st_scheme quantum_build \<Rightarrow> 's config \<Rightarrow> keyrecord_t \<Rightarrow> 'x quantum_st_scheme \<Rightarrow> bool \<times> 'x quantum_st_scheme" where
  "quantum_pre_process q c r s = (case get_record_keycode c r True s of (keycode, s) \<Rightarrow> process_combo q keycode r s)"

definition quantum_post_process ::
    "'x quantum_st_scheme quantum_build \<Rightarrow> 's config \<Rightarrow> keyrecord_t \<Rightarrow> 'x quantum_st_scheme \<Rightarrow> 'x quantum_st_scheme" where
  "quantum_post_process q c r s = (case get_record_keycode c r False s of (keycode, s) \<Rightarrow> post_process_record_kb q keycode r s)"

definition quantum_config ::
    "'x quantum_st_scheme quantum_build \<Rightarrow> 'x quantum_st_scheme config \<Rightarrow> 'x quantum_st_scheme config" where
  "quantum_config q c = c\<lparr>pre_process_record_quantum := quantum_pre_process q c, process_record_quantum := quantum_process q c,
     post_process_record_quantum := quantum_post_process q c\<rparr>"

section \<open>Layers\<close>

definition set_single_persistent_default_layer :: "'s config \<Rightarrow> u8 \<Rightarrow> eeprom \<times> 'a layer_st_scheme \<Rightarrow> eeprom \<times> 'a layer_st_scheme" where
  "set_single_persistent_default_layer c default_layer es =
     (eeconfig_update_default_layer (ucast (push_bit (unat default_layer) 1 :: u32)) (fst es),
      default_layer_set c (push_bit (unat default_layer) 1) (snd es))"

definition update_tri_layer_state :: "u32 \<Rightarrow> nat \<Rightarrow> nat \<Rightarrow> nat \<Rightarrow> u32" where
  "update_tri_layer_state state layer1 layer2 layer3 =
     (let mask12 = push_bit layer1 1 OR push_bit layer2 1; mask3 = push_bit layer3 1
      in if state AND mask12 = mask12 then state OR mask3 else state AND NOT mask3)"

definition update_tri_layer :: "'s config \<Rightarrow> nat \<Rightarrow> nat \<Rightarrow> nat \<Rightarrow> 'a layer_st_scheme \<Rightarrow> 'a layer_st_scheme" where
  "update_tri_layer c layer1 layer2 layer3 s =
     layer_state_set c (update_tri_layer_state (layer_state s) layer1 layer2 layer3) s"

section \<open>The keycode of a release\<close>

text \<open>
  The keycode that the chain sees for a release is the one it saw for the press, whatever layers are switched and whatever
  other keys are pressed and released in between.
\<close>

theorem release_keycode_is_press_keycode:
  assumes "caching c s" "matrix_key c (key ep)" "other_keys c (key ep) es"
    and "pressed ep" "\<not> pressed er" "key er = key ep"
  shows "fst (get_event_keycode c er b (layer_events c es (snd (get_event_keycode c ep True s)))) = fst (get_event_keycode c ep True s)"
proof -
  let ?layer = "layer_switch_get_layer c (key ep) s"
  define t where "t = s\<lparr>source_layers_cache := update_source_layers_cache c (key ep) ?layer (source_layers_cache s)\<rparr>"
  have press: "get_event_keycode c ep True s = (keymap_key_to_keycode c ?layer (key ep), t)"
    using assms(1,4) by (simp add: get_event_keycode_def caching_def Let_def t_def)
  have t: "caching c t" "read_source_layers_cache c (key ep) (source_layers_cache t) = ?layer"
    using assms(1,2) layer_switch_less [of c "key ep" s]
    by (simp_all add: t_def caching_def source_layers.wf_update source_layers.lookup_update)
  have "caching c (layer_events c es t)" "read_source_layers_cache c (key ep) (source_layers_cache (layer_events c es t)) = ?layer"
    using layer_events_cache [OF t(1) assms(2,3)] t(2) by simp_all
  then show ?thesis unfolding press using assms(5,6) by (simp add: get_event_keycode_def caching_def)
qed

lemma release_keycode_is_press_keycode_witness:
  "let c = default_config (\<lambda>l _. if l = 0 then KC_A else KC_B) :: unit config; k = \<lparr>col = 2, row = 1\<rparr>;
       ep = \<lparr>key = k, pressed = True, time = 5\<rparr>; er = \<lparr>key = k, pressed = False, time = 9\<rparr>;
       s = (layer_init c)\<lparr>layer_state := 2\<rparr>; es = [Layers 0 1, Press_key \<lparr>col = 3, row = 1\<rparr>]
   in fst (get_event_keycode c er False (layer_events c es (snd (get_event_keycode c ep True s)))) = fst (get_event_keycode c ep True s)"
proof -
  define c :: "unit config" where "c = default_config (\<lambda>l _. if l = 0 then KC_A else KC_B)"
  have "caching c ((layer_init c)\<lparr>layer_state := 2\<rparr>)"
    by (simp add: caching_def layer_init_def cache_wf_def c_def MAX_LAYER_BITS_def)
  moreover have "matrix_key c \<lparr>col = 2, row = 1\<rparr>" "other_keys c \<lparr>col = 2, row = 1\<rparr> [Layers 0 1, Press_key \<lparr>col = 3, row = 1\<rparr>]"
    by (simp_all add: matrix_key_def other_keys_def c_def)
  ultimately show ?thesis unfolding Let_def c_def [symmetric]
    by (intro release_keycode_is_press_keycode) simp_all
qed

section \<open>Key lock in the whole chain\<close>

lemma quantum_config_simps [simp]:
  "process_record_quantum (quantum_config q c) = quantum_process q c"
  "post_process_record_quantum (quantum_config q c) = quantum_post_process q c"
  by (simp_all add: quantum_config_def)

lemma release_reads_keycode: "\<not> pressed (event r) \<Longrightarrow> snd (get_record_keycode c r b s) = s"
  by (simp add: get_record_keycode_def get_event_keycode_def)

text \<open>
  C22. Key lock works through the whole of \<open>process_record\<close>: the release of a locked key leaves the firmware as it was, no
  report is sent and no action is run.  The next press of the key, when no key is to be locked, only unlocks it.
\<close>

theorem locked_key_is_masked:
  fixes c :: "'x quantum_st_scheme config" and s :: "'x quantum_st_scheme"
  assumes "KEY_LOCK_ENABLE q" "preprocess q = (\<lambda>_ _ s. s)" "\<not> IS_NOEVENT (event r)"
    and "get_record_keycode c r True s = (k, s1)" "translate_keycode k \<le> 0xFF" "KEY_STATE (translate_keycode k) (q_lock s)"
    and "\<not> is_oneshot_layer_active s" "\<not> watching (q_lock s)"
  shows "process_record (quantum_config q c) r s =
    (r, if pressed (event r) then s1\<lparr>q_lock := UNSET_KEY_STATE (translate_keycode k) (q_lock s)\<rparr> else s) \<and>
    keyboard_report s1 = keyboard_report s \<and> effects s1 = effects s"
proof -
  have s1: "q_lock s1 = q_lock s" "keyboard_report s1 = keyboard_report s" "effects s1 = effects s"
    "oneshot_layer_data s1 = oneshot_layer_data s" "\<not> pressed (event r) \<Longrightarrow> s1 = s"
    using assms(4) by (auto simp: get_record_keycode_def get_event_keycode_def Let_def split: if_splits)
  have "translate_keycode k \<noteq> KC_LOCK" using assms(5) KC_LOCK_large by metis
  then have "process_key_lock k (pressed (event r)) (q_lock s) =
      (False, k, if pressed (event r) then UNSET_KEY_STATE (translate_keycode k) (q_lock s) else q_lock s)"
    using assms(5,6,8) by (simp add: process_key_lock_def Let_def IS_STANDARD_KEYCODE_def)
  then have "quantum_process q c r s =
      (False, if pressed (event r) then s1\<lparr>q_lock := UNSET_KEY_STATE (translate_keycode k) (q_lock s)\<rparr> else s)"
    using assms(1,2,4) s1 by (simp add: quantum_process_def Let_def q_key_lock_def)
  moreover have "\<not> is_oneshot_layer_active (s1\<lparr>q_lock := x\<rparr>)" for x
    using assms(7) s1(4) by (simp add: is_oneshot_layer_active_def get_oneshot_layer_state_def)
  ultimately show ?thesis using assms(3,7) s1(2,3) by (simp add: process_record.simps)
qed

section \<open>Layers\<close>

lemma bit_tri_layer:
  assumes "layer1 < 32" "layer2 < 32" "layer3 < 32"
  shows "bit (update_tri_layer_state st layer1 layer2 layer3) n \<longleftrightarrow> (if n = layer3 then bit st layer1 \<and> bit st layer2 else bit st n)"
proof -
  have "st AND (bitmask layer1 OR bitmask layer2) = bitmask layer1 OR bitmask layer2 \<longleftrightarrow> bit st layer1 \<and> bit st layer2"
  proof
    assume st: "st AND (bitmask layer1 OR bitmask layer2) = bitmask layer1 OR bitmask layer2"
    have "bit (st AND (bitmask layer1 OR bitmask layer2)) j" if "j = layer1 \<or> j = layer2" for j
      unfolding st using that assms(1,2) by (auto simp: bit_or_iff bit_bitmask)
    then show "bit st layer1 \<and> bit st layer2" by (simp add: bit_and_iff)
  qed (auto intro!: bit_word_eqI simp: bit_and_iff bit_or_iff bit_bitmask)
  then show ?thesis
    unfolding update_tri_layer_state_def Let_def bitmask_def [symmetric]
    using assms(3) by (auto simp: bit_or_bitmask bit_and_not_bitmask)
qed

lemma tri_layer_idempotent:
  assumes "layer1 < 32" "layer2 < 32" "layer3 < 32" "layer3 \<noteq> layer1" "layer3 \<noteq> layer2"
  shows "update_tri_layer_state (update_tri_layer_state st layer1 layer2 layer3) layer1 layer2 layer3 =
    update_tri_layer_state st layer1 layer2 layer3"
  using assms(4,5) by (intro bit_word_eqI) (simp add: bit_tri_layer assms(1-3))

text \<open>
  What becomes of a persistent default layer at the next start.  The setting is a byte: the layers below 8 are the
  default layer again, and for a layer from 8 on no default layer is left.
\<close>

theorem persistent_default_layer_restart:
  assumes "eeconfig_is_enabled plain_ee_build e" "unat layer < 32"
  shows "let (e', s') = set_single_persistent_default_layer c layer (e, s);
      (debug, e'', s'') = magic plain_ee_build c' id (e', s0)
    in default_layer_state s' = default_layer_state_set_kb c (bitmask (unat layer)) \<and>
       default_layer_state s'' = default_layer_state_set_kb c' (if unat layer < 8 then bitmask (unat layer) else 0)"
proof -
  define v :: u8 where "v = ucast (push_bit (unat layer) 1 :: u32)"
  have "(ee_get 2 EECONFIG_MAGIC (eeconfig_update_default_layer v e) :: u16) = ee_get 2 EECONFIG_MAGIC e"
    using setting_magic [of Default_layer "unat v" e] by simp
  then have on: "eeconfig_is_enabled plain_ee_build (eeconfig_update_default_layer v e)"
    using assms(1) by (simp add: eeconfig_is_enabled_def plain_ee_build_def)
  have read: "eeconfig_read_default_layer (eeconfig_update_default_layer v e) = v"
    by (simp add: setting_defs take_bit_word_eq_self)
  have byte: "(ucast v :: u32) = (if unat layer < 8 then bitmask (unat layer) else 0)"
    by (rule bit_word_eqI) (auto simp: v_def bit_ucast_iff bit_bitmask bit_exp_iff)
  show ?thesis
    unfolding set_single_persistent_default_layer_def v_def [symmetric]
    by (simp add: magic_def on read byte default_layer_set_def default_layer_state_set_def) (simp add: bitmask_def)
qed

lemma persistent_default_layer_restart_witness:
  "let c = default_config (\<lambda>_ _. 0) :: unit config;
       e = (\<lambda>a. if a = 0 then 0xE9 else if a = 1 then 0xFE else 0) :: eeprom;
       (e', s') = set_single_persistent_default_layer c 9 (e, layer_init c);
       (debug, e'', s'') = magic plain_ee_build c id (e', layer_init c)
   in default_layer_state s' = 0x200 \<and> default_layer_state s'' = 0"
proof -
  define c :: "unit config" where "c = default_config (\<lambda>_ _. 0)"
  define e :: eeprom where "e = (\<lambda>a. if a = 0 then 0xE9 else if a = 1 then 0xFE else 0)"
  have e: "eeconfig_is_enabled plain_ee_build e"
    by (simp add: e_def eeconfig_is_enabled_def plain_ee_build_def ee_get_def get_bytes_def ee_places EECONFIG_MAGIC_NUMBER_def upt_rec)
  have "default_layer_state_set_kb c = (\<lambda>l. l)" by (simp add: c_def)
  then show ?thesis
    using persistent_default_layer_restart [OF e, of 9 c "layer_init c" c "layer_init c"]
    unfolding Let_def c_def [symmetric] e_def [symmetric] by (simp add: bitmask_def split_beta)
qed

section \<open>A build with key lock alone\<close>

definition key_lock_build :: "'s quantum_build" where
  "key_lock_build =
     \<lparr>KEY_LOCK_ENABLE = True, LEADER_ENABLE = None, SPACE_CADET_ENABLE = None, MAGIC_KEYCODE_ENABLE = False,
      GRAVE_ESC_ENABLE = None, NO_RESET = False, NO_DEBUG = False, NO_ACTION_ONESHOT = False, q_ee_build = plain_ee_build,
      process_combo = (\<lambda>_ _ s. (True, s)), preprocess = (\<lambda>_ _ s. s), after_key_lock = (\<lambda>_ _ s. (True, s)),
      process_record_kb = (\<lambda>_ _ s. (True, s)), after_record_kb = (\<lambda>_ _ s. (True, s)), after_leader = (\<lambda>_ _ s. (True, s)),
      after_grave_esc = (\<lambda>_ _ s. (True, s)), process_action_kb = (\<lambda>_ s. (True, s)), post_process_record_kb = (\<lambda>_ _ s. s),
      shutdown_user = (\<lambda>s. s), bootloader_jump = (\<lambda>s. s)\<rparr>"

definition quantum_init :: "'s config \<Rightarrow> quantum_st" where
  "quantum_init c = action_st.extend (action_init c)
     \<lparr>q_lock = \<lparr>key_state = replicate 4 0, watching = False\<rparr>,
      q_leader = \<lparr>leading = False, leader_time = 0, leader_sequence = replicate 5 0, leader_sequence_size = 0\<rparr>,
      q_cadet = \<lparr>sc_last = 0, sc_timer = 0, sc_mods = 0\<rparr>, q_grave = False, q_eeprom = (\<lambda>_. 0xFF), debug_enable = False\<rparr>"

lemma locked_key_is_masked_witness:
  "let c = default_config (\<lambda>_ _. KC_A) :: quantum_st config;
       s = (quantum_init c)\<lparr>q_lock := \<lparr>key_state = [0x10, 0, 0, 0], watching = False\<rparr>\<rparr>;
       r = empty_record\<lparr>event := \<lparr>key = \<lparr>col = 2, row = 1\<rparr>, pressed = False, time = 7\<rparr>\<rparr>
   in process_record (quantum_config key_lock_build c) r s = (r, s)"
proof -
  define c :: "quantum_st config" where "c = default_config (\<lambda>_ _. KC_A)"
  define s where "s = (quantum_init c)\<lparr>q_lock := \<lparr>key_state = [0x10, 0, 0, 0], watching = False\<rparr>\<rparr>"
  define r where "r = empty_record\<lparr>event := \<lparr>key = \<lparr>col = 2, row = 1\<rparr>, pressed = False, time = 7\<rparr>\<rparr>"
  have r: "\<not> IS_NOEVENT (event r)" "\<not> pressed (event r)" "rec_keycode r = 0"
    by (simp_all add: r_def IS_NOEVENT_def empty_record_def)
  have k: "get_record_keycode c r True s = (KC_A, s)"
    by (simp add: get_record_keycode_def get_event_keycode_def r Let_def c_def)
  have s: "KEY_STATE (translate_keycode KC_A) (q_lock s)" "\<not> watching (q_lock s)" "\<not> is_oneshot_layer_active s"
    "translate_keycode KC_A \<le> 0xFF"
    by (simp_all add: s_def translate_keycode_def KEY_STATE_bit quantum_init_def action_st.defs is_oneshot_layer_active_def
        get_oneshot_layer_state_def)
  have q: "KEY_LOCK_ENABLE key_lock_build" "preprocess key_lock_build = (\<lambda>_ _ s. s)"
    by (simp_all add: key_lock_build_def)
  show ?thesis
    using locked_key_is_masked [OF q r(1) k s(4,1,3,2)] r(2)
    unfolding Let_def c_def [symmetric] s_def [symmetric] r_def [symmetric] by simp
qed

end
