(* ===== verification/Numeric_Str.thy ===== *)
theory Numeric_Str
  imports C_Prelude
begin

text \<open>
  Numbers as decimal strings for displays, \<^verbatim>\<open>get_numeric_str\<close>, \<^verbatim>\<open>get_u8_str\<close> and \<^verbatim>\<open>get_u16_str\<close> of
  \<^verbatim>\<open>quantum/quantum.c\<close>.  A \<^verbatim>\<open>char\<close> is a byte.  The last two keep their last result in static variables.
\<close>

section \<open>The operations\<close>

definition numeric_step :: "nat \<Rightarrow> u8 \<Rightarrow> u8 list \<times> u32 \<Rightarrow> nat \<Rightarrow> u8 list \<times> u32" where
  "numeric_step buf_len pad bn i =
     (let (buf, n) = bn; ch = 48 + ucast (n mod 10)
      in (buf[buf_len - 2 - i := (if ch = 48 \<and> i = 0 then 48 else if n > 0 then ch else pad)], n div 10))"

definition get_numeric_str :: "u8 list \<Rightarrow> u32 \<Rightarrow> u8 \<Rightarrow> u8 list" where
  "get_numeric_str buf n pad =
     (let buf_len = length buf
      in fst (foldl (numeric_step buf_len pad) (buf[buf_len - 1 := 0], n) [0..<buf_len - 1]))"

record 'n str_cache =
  str_buf :: "u8 list"
  last_num :: 'n
  last_pad :: u8

definition get_u8_str :: "u8 \<Rightarrow> u8 \<Rightarrow> u8 str_cache \<Rightarrow> u8 list \<times> u8 str_cache" where
  "get_u8_str n pad s =
     (if last_num s = n \<and> last_pad s = pad then (str_buf s, s)
      else let buf = get_numeric_str (str_buf s) (ucast n) pad in (buf, \<lparr>str_buf = buf, last_num = n, last_pad = pad\<rparr>))"

definition get_u16_str :: "u16 \<Rightarrow> u8 \<Rightarrow> u16 str_cache \<Rightarrow> u8 list \<times> u16 str_cache" where
  "get_u16_str n pad s =
     (if last_num s = n \<and> last_pad s = pad then (str_buf s, s)
      else let buf = get_numeric_str (str_buf s) (ucast n) pad in (buf, \<lparr>str_buf = buf, last_num = n, last_pad = pad\<rparr>))"

definition u8_str_init :: "u8 str_cache" where "u8_str_init = \<lparr>str_buf = replicate 4 0, last_num = 0xFF, last_pad = 0\<rparr>"
definition u16_str_init :: "u16 str_cache" where "u16_str_init = \<lparr>str_buf = replicate 6 0, last_num = 0xFF, last_pad = 0\<rparr>"

section \<open>The characters from the last one on\<close>

definition num_char :: "u8 \<Rightarrow> nat \<Rightarrow> nat \<Rightarrow> u8" where
  "num_char pad n i =
     (if n div 10 ^ i mod 10 = 0 \<and> i = 0 then 48 else if n div 10 ^ i > 0 then 48 + of_nat (n div 10 ^ i mod 10) else pad)"

lemma num_digit_char:
  assumes "d < 10"
  shows "48 + of_nat d = (48 :: u8) \<longleftrightarrow> d = 0" "unat (48 + of_nat d :: u8) = 48 + d"
proof -
  have u: "unat (of_nat d :: u8) = d" using assms by (simp add: unat_of_nat take_bit_nat_eq_self)
  have "unat (48 + of_nat d :: u8) = unat (48 :: u8) + unat (of_nat d :: u8)" using u assms by (subst unat_add_lem [THEN iffD1]) simp_all
  then show v: "unat (48 + of_nat d :: u8) = 48 + d" using u by simp
  show "48 + of_nat d = (48 :: u8) \<longleftrightarrow> d = 0" using v by (cases "d = 0") (auto dest: arg_cong [of _ _ unat])
qed

lemma digit_zero: "d < 10 \<Longrightarrow> (of_nat d :: u8) = 0 \<longleftrightarrow> d = 0"
  using num_digit_char(1) [of d] by simp

lemma ucast_mod_10: "(ucast (w mod 10 :: u32) :: u8) = of_nat (unat w mod 10)"
proof -
  have "unat (w mod 10) = unat w mod 10" by (simp add: unat_mod)
  then show ?thesis by (metis of_nat_unat)
qed

lemma numeric_loop:
  assumes "k < length buf"
  shows "foldl (numeric_step (length buf) pad) (buf, w) [0..<k] =
    (map (\<lambda>j. if length buf - 1 \<le> j + k \<and> j < length buf - 1 then num_char pad (unat w) (length buf - 2 - j) else buf ! j)
       [0..<length buf], of_nat (unat w div 10 ^ k))"
  using assms
proof (induction k)
  case 0
  have none: "(length buf - 1 \<le> j + 0 \<and> j < length buf - 1) = False" for j by (metis add.right_neutral not_le)
  show ?case unfolding none by (simp add: map_nth)
next
  case (Suc k)
  let ?L = "length buf"
  let ?f = "\<lambda>k j. if ?L - 1 \<le> j + k \<and> j < ?L - 1 then num_char pad (unat w) (?L - 2 - j) else buf ! j"
  let ?n = "of_nat (unat w div 10 ^ k) :: u32"
  have "unat w div 10 ^ k \<le> unat w" by (rule div_le_dividend)
  moreover have "unat w < 2 ^ LENGTH(32)" by (rule unsigned_less)
  ultimately have small: "unat w div 10 ^ k < 2 ^ LENGTH(32)" by (rule le_less_trans)
  then have n: "unat ?n = unat w div 10 ^ k" by (simp add: unat_of_nat take_bit_nat_eq_self)
  have d: "unat ?n mod 10 < 10" by simp
  note ch = ucast_mod_10 [of ?n]
  have "(if 48 + ucast (?n mod 10) = (48 :: u8) \<and> k = 0 then 48 else if ?n > 0 then 48 + ucast (?n mod 10) else pad) =
      num_char pad (unat w) k"
    unfolding ch num_char_def n word_less_nat_alt using digit_zero [OF d [unfolded n]] digit_zero [of "unat w mod 10"] by auto
  moreover have "?n div 10 = of_nat (unat w div 10 ^ Suc k)"
    by (simp add: word_arith_nat_div [of ?n] n div_mult2_eq mult.commute [of 10])
  moreover have pos: "?L - Suc (Suc (?L - Suc (Suc k))) = k" using Suc.prems by arith
  moreover have "(map (?f k) [0..<?L])[?L - 2 - k := num_char pad (unat w) k] = map (?f (Suc k)) [0..<?L]"
    using Suc.prems pos by (intro nth_equalityI) (auto simp: nth_list_update)
  ultimately show ?case using Suc by (simp add: numeric_step_def Let_def)
qed

section \<open>What the strings say\<close>

definition decimal_value :: "u8 list \<Rightarrow> nat" where
  "decimal_value ds = foldl (\<lambda>v ch. 10 * v + (unat ch - 48)) 0 ds"

definition is_digits :: "u8 list \<Rightarrow> bool" where
  "is_digits ds \<longleftrightarrow> list_all (\<lambda>ch. 48 \<le> unat ch \<and> unat ch \<le> 57) ds"

lemma decimal_value_snoc: "decimal_value (ds @ [ch]) = 10 * decimal_value ds + (unat ch - 48)"
  by (simp add: decimal_value_def)

text \<open>The characters of the positions from \<open>i\<close> on, the last one first in the number and last in the string.\<close>

lemma num_chars_from:
  assumes "n div 10 ^ i < 10 ^ k" "0 < i \<or> 0 < k"
  shows "\<exists>ds. rev (map (num_char pad n) [i..<i + k]) = replicate (k - length ds) pad @ ds \<and> length ds \<le> k \<and> is_digits ds \<and>
    decimal_value ds = n div 10 ^ i \<and> (ds \<noteq> [] \<longrightarrow> hd ds = 48 \<longrightarrow> n = 0) \<and> (ds = [] \<longleftrightarrow> 0 < i \<and> n div 10 ^ i = 0)"
  using assms
proof (induction k arbitrary: i)
  case 0
  then show ?case by (auto simp: is_digits_def decimal_value_def)
next
  case (Suc k)
  let ?d = "n div 10 ^ i mod 10"
  have split: "rev (map (num_char pad n) [i..<i + Suc k]) = rev (map (num_char pad n) [Suc i..<Suc i + k]) @ [num_char pad n i]"
    by (simp add: upt_conv_Cons del: upt_Suc)
  have next_pos: "n div 10 ^ Suc i = n div 10 ^ i div 10" by (simp only: power_Suc mult.commute [of 10] div_mult2_eq)
  have "n div 10 ^ i < 10 ^ k * 10" using Suc.prems(1) by (simp only: power_Suc mult.commute)
  then have "n div 10 ^ Suc i < 10 ^ k" unfolding next_pos by (rule less_mult_imp_div_less)
  from Suc.IH [OF this disjI1 [OF zero_less_Suc]] obtain ds where
    ds: "rev (map (num_char pad n) [Suc i..<Suc i + k]) = replicate (k - length ds) pad @ ds" "length ds \<le> k" "is_digits ds"
      "decimal_value ds = n div 10 ^ Suc i" "ds \<noteq> [] \<longrightarrow> hd ds = 48 \<longrightarrow> n = 0" "ds = [] \<longleftrightarrow> 0 < Suc i \<and> n div 10 ^ Suc i = 0"
    by blast
  have digit: "unat (48 + of_nat ?d :: u8) = 48 + ?d" by (rule num_digit_char(2)) simp
  show ?case
  proof (cases "n div 10 ^ i = 0 \<and> 0 < i")
    case True
    then have "ds = []" "num_char pad n i = pad" using ds(6) unfolding next_pos by (simp_all add: num_char_def)
    then have "rev (map (num_char pad n) [i..<i + Suc k]) = replicate (Suc k - length []) pad @ []"
      unfolding split ds(1) by (simp add: replicate_append_same)
    then show ?thesis using True by (intro exI [of _ "[]"]) (simp add: is_digits_def decimal_value_def del: upt_Suc)
  next
    case False
    then have ch: "num_char pad n i = 48 + of_nat ?d" by (auto simp: num_char_def)
    have "rev (map (num_char pad n) [i..<i + Suc k]) = replicate (Suc k - length (ds @ [48 + of_nat ?d])) pad @ (ds @ [48 + of_nat ?d])"
      unfolding split ds(1) ch by simp
    moreover have "is_digits (ds @ [48 + of_nat ?d])" using ds(3) digit by (simp add: is_digits_def)
    moreover have "decimal_value (ds @ [48 + of_nat ?d]) = n div 10 ^ i"
      using ds(4) digit by (simp add: decimal_value_snoc next_pos del: power_Suc)
    moreover have "hd (ds @ [48 + of_nat ?d]) = 48 \<longrightarrow> n = 0"
    proof (cases "ds = []")
      case True
      then have "n div 10 ^ i < 10" using ds(6) by (simp add: next_pos div_eq_0_iff del: power_Suc)
      then show ?thesis using True False num_digit_char(1) [of ?d] by (cases "i = 0") auto
    qed (use ds(5) in simp)
    ultimately show ?thesis using ds(2) False by (intro exI [of _ "ds @ [48 + of_nat ?d]"]) (auto simp del: upt_Suc)
  qed
qed

lemma numeric_str_chars:
  assumes "2 \<le> length buf"
  shows "get_numeric_str buf w pad = rev (map (num_char pad (unat w)) [0..<length buf - 1]) @ [0]"
proof -
  have "get_numeric_str buf w pad = map (\<lambda>j. if j < length buf - 1 then num_char pad (unat w) (length buf - 2 - j)
      else buf[length buf - 1 := 0] ! j) [0..<length buf]"
    using assms numeric_loop [of "length buf - 1" "buf[length buf - 1 := 0]" pad w] by (simp add: get_numeric_str_def Let_def)
  also have "\<dots> = rev (map (num_char pad (unat w)) [0..<length buf - 1]) @ [0]"
  proof (rule nth_equalityI)
    fix i assume "i < length (map (\<lambda>j. if j < length buf - 1 then num_char pad (unat w) (length buf - 2 - j)
      else buf[length buf - 1 := 0] ! j) [0..<length buf])"
    then have "i < length buf - 1 \<or> i = length buf - 1" "i < length buf" by auto
    then show "map (\<lambda>j. if j < length buf - 1 then num_char pad (unat w) (length buf - 2 - j)
      else buf[length buf - 1 := 0] ! j) [0..<length buf] ! i = (rev (map (num_char pad (unat w)) [0..<length buf - 1]) @ [0]) ! i"
      using assms by (auto simp: nth_append rev_nth diff_diff_add)
  qed (use assms in simp)
  finally show ?thesis .
qed

text \<open>
  A number that fits into the buffer is rendered as its decimal digits, right-justified: padding, then digits without a
  leading zero whose value is the number, then the terminator.
\<close>

theorem numeric_str_is_decimal:
  assumes "2 \<le> length buf" "unat w < 10 ^ (length buf - 1)"
  shows "\<exists>ds. get_numeric_str buf w pad = replicate (length buf - 1 - length ds) pad @ ds @ [0] \<and> is_digits ds \<and> ds \<noteq> [] \<and>
    decimal_value ds = unat w \<and> (hd ds = 48 \<longrightarrow> unat w = 0)"
  using num_chars_from [of "unat w" 0 "length buf - 1" pad] assms by (auto simp: numeric_str_chars)

lemma numeric_str_is_decimal_witness:
  "get_numeric_str (replicate 6 0) 4070 32 = [32, 52, 48, 55, 48, 0] \<and>
   (\<exists>ds. get_numeric_str (replicate 6 0) 4070 32 = replicate (5 - length ds) 32 @ ds @ [0] \<and> decimal_value ds = 4070)"
proof
  show "get_numeric_str (replicate 6 0) 4070 32 = [32, 52, 48, 55, 48, 0]" by code_simp
  show "\<exists>ds. get_numeric_str (replicate 6 0) 4070 32 = replicate (5 - length ds) 32 @ ds @ [0] \<and> decimal_value ds = 4070"
    using numeric_str_is_decimal [of "replicate 6 0" 4070 32] by auto
qed

text \<open>
  The cache of \<^verbatim>\<open>get_u8_str\<close> starts as if 255 had been rendered with the padding 0, which it has not: this call gives an
  empty string.
\<close>

lemma u8_str_init_empty:
  "fst (get_u8_str 255 0 u8_str_init) = [0, 0, 0, 0]" "get_numeric_str [0, 0, 0, 0] 255 0 = [50, 53, 53, 0]"
  by code_simp+

end
