(* ===== verification/Tap_Dance.thy ===== *)
theory Tap_Dance
  imports Code16 Action_Layer
begin

text \<open>
  Tap dance, \<^verbatim>\<open>quantum/process_keycode/process_tap_dance.c\<close>: a key that does different things by the number of its taps.
  A table of the keymap gives for every dance the functions that its events call; they get the state of the dance and may
  change it and the firmware.  The pointer to the user data of a pair or of a dual role is an argument of its functions.
  Builds with one-shot keys and without \<^verbatim>\<open>TAPPING_TERM_PER_KEY\<close>.
\<close>

section \<open>The data\<close>

record td_state =
  td_count :: u8
  td_oneshot_mods :: u8
  td_weak_mods :: u8
  td_keycode :: u16
  td_interrupting_keycode :: u16
  td_timer :: u16
  td_interrupted :: bool
  td_pressed :: bool
  td_finished :: bool

type_synonym 'w td_fn = "td_state \<times> 'w \<Rightarrow> td_state \<times> 'w"

text \<open>\<open>None\<close> is the null pointer.\<close>

record 'w td_action =
  on_each_tap :: "'w td_fn option"
  on_dance_finished :: "'w td_fn option"
  on_reset :: "'w td_fn option"
  custom_tapping_term :: u16

record 'w td_st =
  td_states :: "td_state list"
  last_td :: u16
  highest_td :: int
  td_world :: 'w

definition td_idle :: td_state where
  "td_idle = \<lparr>td_count = 0, td_oneshot_mods = 0, td_weak_mods = 0, td_keycode = 0, td_interrupting_keycode = 0, td_timer = 0,
     td_interrupted = False, td_pressed = False, td_finished = False\<rparr>"

section \<open>Pairs and dual roles\<close>

definition pair_on_each_tap :: "'s config \<Rightarrow> u16 \<times> u16 \<Rightarrow> 'a util_st_scheme td_fn" where
  "pair_on_each_tap c pair ts =
     (let (t, w) = ts in if td_count t = 2 then (t\<lparr>td_finished := True\<rparr>, register_code16 c (snd pair) w) else ts)"

definition pair_finished :: "'s config \<Rightarrow> u16 \<times> u16 \<Rightarrow> 'a util_st_scheme td_fn" where
  "pair_finished c pair ts =
     (let (t, w) = ts
      in if td_count t = 1 then (t, register_code16 c (fst pair) w)
         else if td_count t = 2 then (t, register_code16 c (snd pair) w) else ts)"

definition pair_reset :: "'s config \<Rightarrow> u16 \<times> u16 \<Rightarrow> 'a util_st_scheme td_fn" where
  "pair_reset c pair ts =
     (let (t, w) = ts; w = wait_ms (unat (TAP_CODE_DELAY c)) w
      in if td_count t = 1 then (t, unregister_code16 c (fst pair) w)
         else if td_count t = 2 then (t, unregister_code16 c (snd pair) w) else (t, w))"

definition dual_role_on_each_tap :: "'s config \<Rightarrow> u8 \<Rightarrow> 'a layer_st_scheme td_fn" where
  "dual_role_on_each_tap c layer ts =
     (let (t, w) = ts in if td_count t = 2 then (t\<lparr>td_finished := True\<rparr>, layer_move c layer w) else ts)"

definition dual_role_finished ::
    "'s config \<Rightarrow> u16 \<Rightarrow> u8 \<Rightarrow> (u8 \<Rightarrow> 'a layer_st_scheme \<Rightarrow> 'a layer_st_scheme) \<Rightarrow> 'a layer_st_scheme td_fn" where
  "dual_role_finished c kc layer layer_function ts =
     (let (t, w) = ts
      in if td_count t = 1 then (t, register_code16 c kc w) else if td_count t = 2 then (t, layer_function layer w) else ts)"

definition dual_role_reset :: "'s config \<Rightarrow> u16 \<Rightarrow> 'a util_st_scheme td_fn" where
  "dual_role_reset c kc ts =
     (let (t, w) = ts
      in if td_count t = 1 then (t, unregister_code16 c kc (wait_ms (unat (TAP_CODE_DELAY c)) w)) else ts)"

definition ACTION_TAP_DANCE_DOUBLE :: "'s config \<Rightarrow> u16 \<Rightarrow> u16 \<Rightarrow> 'a util_st_scheme td_action" where
  "ACTION_TAP_DANCE_DOUBLE c kc1 kc2 =
     \<lparr>on_each_tap = Some (pair_on_each_tap c (kc1, kc2)), on_dance_finished = Some (pair_finished c (kc1, kc2)),
      on_reset = Some (pair_reset c (kc1, kc2)), custom_tapping_term = 0\<rparr>"

definition ACTION_TAP_DANCE_DUAL_ROLE :: "'s config \<Rightarrow> u16 \<Rightarrow> u8 \<Rightarrow> 'a layer_st_scheme td_action" where
  "ACTION_TAP_DANCE_DUAL_ROLE c kc layer =
     \<lparr>on_each_tap = Some (dual_role_on_each_tap c layer), on_dance_finished = Some (dual_role_finished c kc layer (layer_move c)),
      on_reset = Some (dual_role_reset c kc), custom_tapping_term = 0\<rparr>"

definition ACTION_TAP_DANCE_LAYER_TOGGLE :: "'s config \<Rightarrow> u16 \<Rightarrow> u8 \<Rightarrow> 'a layer_st_scheme td_action" where
  "ACTION_TAP_DANCE_LAYER_TOGGLE c kc layer =
     \<lparr>on_each_tap = None, on_dance_finished = Some (dual_role_finished c kc layer (layer_invert c)),
      on_reset = Some (dual_role_reset c kc), custom_tapping_term = 0\<rparr>"

section \<open>The operations\<close>

text \<open>The functions that take an action get its number in the table.\<close>

definition call_td_fn :: "'w td_fn option \<Rightarrow> nat \<Rightarrow> 'w td_st \<Rightarrow> 'w td_st" where
  "call_td_fn fn i s =
     (case fn of None \<Rightarrow> s
      | Some f \<Rightarrow> (let (t, w) = f (td_states s ! i, td_world s) in s\<lparr>td_states := (td_states s)[i := t], td_world := w\<rparr>))"

definition set_td :: "nat \<Rightarrow> (td_state \<Rightarrow> td_state) \<Rightarrow> 'w td_st \<Rightarrow> 'w td_st" where
  "set_td i f s = s\<lparr>td_states := (td_states s)[i := f (td_states s ! i)]\<rparr>"

definition action_on_each_tap :: "'w td_action list \<Rightarrow> nat \<Rightarrow> 'w td_st \<Rightarrow> 'w td_st" where
  "action_on_each_tap as i s = call_td_fn (on_each_tap (as ! i)) i s"

definition action_on_dance_finished ::
    "'s config \<Rightarrow> 'a util_st_scheme td_action list \<Rightarrow> nat \<Rightarrow> 'a util_st_scheme td_st \<Rightarrow> 'a util_st_scheme td_st" where
  "action_on_dance_finished c as i s =
     (if td_finished (td_states s ! i) then s
      else let s = set_td i (td_finished_update (\<lambda>_. True)) s; t = td_states s ! i;
               w = send_keyboard_report c (add_weak_mods (td_weak_mods t) (add_mods (td_oneshot_mods t) (td_world s)))
           in call_td_fn (on_dance_finished (as ! i)) i (s\<lparr>td_world := w\<rparr>))"

definition action_on_reset ::
    "'s config \<Rightarrow> 'a util_st_scheme td_action list \<Rightarrow> nat \<Rightarrow> 'a util_st_scheme td_st \<Rightarrow> 'a util_st_scheme td_st" where
  "action_on_reset c as i s =
     (let s = call_td_fn (on_reset (as ! i)) i s; t = td_states s ! i
      in s\<lparr>td_world := send_keyboard_report c (del_weak_mods (td_weak_mods t) (del_mods (td_oneshot_mods t) (td_world s)))\<rparr>)"

definition reset_tap_dance ::
    "'s config \<Rightarrow> 'a util_st_scheme td_action list \<Rightarrow> nat \<Rightarrow> 'a util_st_scheme td_st \<Rightarrow> 'a util_st_scheme td_st" where
  "reset_tap_dance c as i s =
     (if td_pressed (td_states s ! i) then s
      else let s = action_on_reset c as (unat (td_keycode (td_states s ! i) - QK_TAP_DANCE)) s;
               s = set_td i (\<lambda>t. t\<lparr>td_count := 0, td_interrupted := False, td_finished := False, td_interrupting_keycode := 0\<rparr>) s
           in s\<lparr>last_td := 0\<rparr>)"

definition interrupt_dance ::
    "'s config \<Rightarrow> 'a util_st_scheme td_action list \<Rightarrow> u16 \<Rightarrow> 'a util_st_scheme td_st \<Rightarrow> nat \<Rightarrow> 'a util_st_scheme td_st" where
  "interrupt_dance c as keycode s i =
     (if td_count (td_states s ! i) = 0 \<or> keycode = td_keycode (td_states s ! i) \<and> keycode = last_td s then s
      else let s = set_td i (\<lambda>t. t\<lparr>td_interrupted := True, td_interrupting_keycode := keycode\<rparr>) s;
               s = action_on_dance_finished c as i s; s = reset_tap_dance c as i s
           in s\<lparr>td_world := clear_weak_mods (td_world s)\<rparr>)"

definition preprocess_tap_dance ::
    "'s config \<Rightarrow> 'a util_st_scheme td_action list \<Rightarrow> u16 \<Rightarrow> bool \<Rightarrow> 'a util_st_scheme td_st \<Rightarrow> 'a util_st_scheme td_st" where
  "preprocess_tap_dance c as keycode down s =
     (if \<not> down \<or> highest_td s = - 1 then s
      else foldl (interrupt_dance c as keycode) s [0..<nat (highest_td s + 1)])"

text \<open>The result \<open>None\<close> is a keycode whose dance is not in the table, which the code reads behind its end.\<close>

definition process_tap_dance ::
    "'s config \<Rightarrow> 'a util_st_scheme td_action list \<Rightarrow> u16 \<Rightarrow> bool \<Rightarrow> 'a util_st_scheme td_st \<Rightarrow> (bool \<times> 'a util_st_scheme td_st) option" where
  "process_tap_dance c as keycode down s =
     (let idx = unat (keycode - QK_TAP_DANCE)
      in if \<not> (QK_TAP_DANCE \<le> keycode \<and> keycode \<le> QK_TAP_DANCE_MAX) then Some (True, s)
         else if length as \<le> idx then None
         else let s = (if int idx > highest_td s then s\<lparr>highest_td := int idx\<rparr> else s);
                  s = set_td idx (td_pressed_update (\<lambda>_. down)) s
              in if down then
                   (let w = td_world s;
                        s = set_td idx (\<lambda>t. t\<lparr>td_keycode := keycode, td_count := td_count t + 1, td_timer := timer_read w,
                              td_oneshot_mods := oneshot_mods w, td_weak_mods := real_mods w OR weak_mods w\<rparr>) s;
                        s = action_on_each_tap as idx s
                    in Some (True, s\<lparr>last_td := keycode\<rparr>))
                 else if td_count (td_states s ! idx) \<noteq> 0 \<and> td_finished (td_states s ! idx)
                 then Some (True, reset_tap_dance c as idx s) else Some (True, s))"

definition dance_times_out :: "'s config \<Rightarrow> 'a util_st_scheme td_action list \<Rightarrow> nat \<Rightarrow> 'a util_st_scheme td_st \<Rightarrow> bool" where
  "dance_times_out c as i s \<longleftrightarrow>
     (let t = td_states s ! i;
          term = (if custom_tapping_term (as ! i) > 0 then custom_tapping_term (as ! i) else of_nat (TAPPING_TERM c))
      in td_count t \<noteq> 0 \<and> TIMER_DIFF_16 (timer_read (td_world s)) (td_timer t) > term)"

text \<open>The counter of the loop is a byte, and \<^verbatim>\<open>highest_td\<close> may be 255.\<close>

partial_function (option) task_loop ::
    "'s config \<Rightarrow> 'a util_st_scheme td_action list \<Rightarrow> u8 \<Rightarrow> 'a util_st_scheme td_st \<Rightarrow> 'a util_st_scheme td_st option" where
  "task_loop c as i s =
     (if int (unat i) \<le> highest_td s
      then task_loop c as (i + 1)
        (if dance_times_out c as (unat i) s then reset_tap_dance c as (unat i) (action_on_dance_finished c as (unat i) s) else s)
      else Some s)"

definition tap_dance_task :: "'s config \<Rightarrow> 'a util_st_scheme td_action list \<Rightarrow> 'a util_st_scheme td_st \<Rightarrow> 'a util_st_scheme td_st option" where
  "tap_dance_task c as s = (if highest_td s = - 1 then Some s else task_loop c as 0 s)"

section \<open>The task and its counter\<close>

lemma call_td_fn_highest [simp]: "highest_td (call_td_fn fn i s) = highest_td s"
  by (simp add: call_td_fn_def Let_def split: option.splits prod.splits)

lemma set_td_highest [simp]: "highest_td (set_td i f s) = highest_td s"
  by (simp add: set_td_def)

lemma dance_ops_highest [simp]:
  "highest_td (action_on_dance_finished c as i s) = highest_td s" "highest_td (reset_tap_dance c as i s) = highest_td s"
  by (simp_all add: action_on_dance_finished_def reset_tap_dance_def action_on_reset_def Let_def)

lemma task_loop_ends:
  assumes "highest_td s < 255" "unat i \<le> nat (highest_td s + 1)"
  shows "\<exists>s'. task_loop c as i s = Some s'"
  using assms
proof (induction "nat (highest_td s + 1) - unat i" arbitrary: i s)
  case 0
  then have "nat (highest_td s + 1) \<le> unat i" by simp
  then have "\<not> int (unat i) \<le> highest_td s" by linarith
  then show ?case by (subst task_loop.simps) simp
next
  case (Suc n)
  let ?s = "if dance_times_out c as (unat i) s then reset_tap_dance c as (unat i) (action_on_dance_finished c as (unat i) s) else s"
  have "unat i < nat (highest_td s + 1)" using Suc.hyps(2) by simp
  then have le: "int (unat i) \<le> highest_td s" by linarith
  then have "unat i < 255" using Suc.prems(1) by linarith
  then have "unat i + unat (1 :: u8) < 2 ^ LENGTH(8)" by simp
  from unat_add_lem [THEN iffD1, OF this] have next_i: "unat (i + 1) = unat i + 1" by simp
  have "highest_td ?s = highest_td s" by simp
  then have "\<exists>s'. task_loop c as (i + 1) ?s = Some s'"
    using Suc.hyps(2) Suc.prems(1) next_i le by (intro Suc.hyps(1)) auto
  then show ?case using le by (subst task_loop.simps) simp
qed

lemma task_loop_never_ends: "task_loop c as i s = Some s' \<Longrightarrow> highest_td s \<noteq> 255"
proof (erule task_loop.raw_induct [where P = "\<lambda>c as i s s'. highest_td s \<noteq> 255", rotated])
  fix loop :: "'s config \<Rightarrow> 'a util_st_scheme td_action list \<Rightarrow> u8 \<Rightarrow> 'a util_st_scheme td_st \<Rightarrow> 'a util_st_scheme td_st option"
    and c as i s s'
  assume IH: "\<And>c as i s s'. loop c as i s = Some s' \<Longrightarrow> highest_td s \<noteq> 255"
    and run: "(if int (unat i) \<le> highest_td s
      then loop c as (i + 1)
        (if dance_times_out c as (unat i) s then reset_tap_dance c as (unat i) (action_on_dance_finished c as (unat i) s) else s)
      else Some s) = Some s'"
  have "unat i < 256" using unsigned_less [of i, where 'a = nat] by simp
  then have byte: "int (unat i) \<le> 255" by linarith
  have "highest_td (if dance_times_out c as (unat i) s
      then reset_tap_dance c as (unat i) (action_on_dance_finished c as (unat i) s) else s) = highest_td s" by simp
  then have "loop c as (i + 1) (if dance_times_out c as (unat i) s
      then reset_tap_dance c as (unat i) (action_on_dance_finished c as (unat i) s) else s) = Some s' \<Longrightarrow> highest_td s \<noteq> 255"
    by (metis IH)
  then show "highest_td s \<noteq> 255" using run byte by (auto simp del: if_split split: if_split_asm)
qed

text \<open>
  C36. When the task returns.  It returns unless the dance 255 has been used; from then on it never does, since the loop
  counts with a byte up to 255.
\<close>

theorem tap_dance_task_returns:
  assumes "- 1 \<le> highest_td s" "highest_td s \<le> 255"
  shows "tap_dance_task c as s = None \<longleftrightarrow> highest_td s = 255"
proof (cases "highest_td s = 255")
  case True
  then have "task_loop c as 0 s = None" using task_loop_never_ends [of c as 0 s] by (cases "task_loop c as 0 s") auto
  then show ?thesis using True by (simp add: tap_dance_task_def)
next
  case False
  then show ?thesis using assms task_loop_ends [of s 0 c as] by (auto simp: tap_dance_task_def)
qed

text \<open>The witness: a table of 256 dances without functions.\<close>

lemma tap_dance_task_returns_witness:
  "let c = default_config (\<lambda>_ _. 0) :: unit config;
       a = \<lparr>on_each_tap = None, on_dance_finished = None, on_reset = None, custom_tapping_term = 0\<rparr> :: layer_st td_action;
       s = \<lparr>td_states = replicate 256 td_idle, last_td = 0, highest_td = 255, td_world = layer_init c\<rparr>
   in tap_dance_task c (replicate 256 a) s = None \<and> tap_dance_task c (replicate 256 a) (s\<lparr>highest_td := 254\<rparr>) \<noteq> None"
  unfolding Let_def by (intro conjI) (subst tap_dance_task_returns; simp)+

section \<open>A pair of keys\<close>

text \<open>The events of a single dance, and other keys, time and the task.  The dance key is pressed and released in turn.\<close>

datatype td_event = Dance bool | Other u16 | Task | Passes nat

definition td_step ::
    "'s config \<Rightarrow> 'a util_st_scheme td_action list \<Rightarrow> 'a util_st_scheme td_st option \<Rightarrow> td_event \<Rightarrow> 'a util_st_scheme td_st option" where
  "td_step c as os e = Option.bind os (\<lambda>s.
     case e of
       Dance down \<Rightarrow> map_option snd (process_tap_dance c as QK_TAP_DANCE down (preprocess_tap_dance c as QK_TAP_DANCE down s))
     | Other k \<Rightarrow> Some (preprocess_tap_dance c as k True s)
     | Task \<Rightarrow> tap_dance_task c as s
     | Passes d \<Rightarrow> Some (s\<lparr>td_world := wait_ms d (td_world s)\<rparr>))"

fun td_in_turn :: "bool \<Rightarrow> td_event list \<Rightarrow> bool" where
  "td_in_turn down [] = True"
| "td_in_turn down (Dance d # es) = (d \<noteq> down \<and> td_in_turn d es)"
| "td_in_turn down (Other k # es) = (k \<noteq> QK_TAP_DANCE \<and> td_in_turn down es)"
| "td_in_turn down (e # es) = td_in_turn down es"

text \<open>Whether the dance key is down after the events.\<close>

fun dance_down :: "bool \<Rightarrow> td_event list \<Rightarrow> bool" where
  "dance_down down [] = down"
| "dance_down down (Dance d # es) = dance_down d es"
| "dance_down down (e # es) = dance_down down es"

definition still :: "'a util_st_scheme \<Rightarrow> u8 set \<Rightarrow> bool" where
  "still w H \<longleftrightarrow> poised 0 0 w \<and> util_held w = H"

lemma still_send: "still w H \<Longrightarrow> still (send_keyboard_report c w) H"
  using send_poised [of 0 0 w c] by (simp add: still_def shows_host_def)

lemma still_wait: "still w H \<Longrightarrow> still (wait_ms d w) H"
  using wait_shows [of 0 0 w d] by (simp add: still_def shows_host_def)

lemma still_no_mods [simp]: "add_mods 0 w = w" "add_weak_mods 0 w = w" "del_mods 0 w = w" "del_weak_mods 0 w = w"
  by (simp_all add: add_mods_def add_weak_mods_def del_mods_def del_weak_mods_def)

lemma still_clear_weak: "still w H \<Longrightarrow> still (clear_weak_mods w) H"
  by (simp add: still_def poised_def clear_weak_mods_def util_wf_def util_held_def nkro_def)

lemma still_mods: "still w H \<Longrightarrow> oneshot_mods w = 0 \<and> real_mods w = 0 \<and> weak_mods w = 0"
  by (simp add: still_def poised_def)

lemma basic_code16:
  assumes "kc \<le> 0xFF" "IS_KEY (ucast kc :: u8)" "\<not> LOCKING_SUPPORT_ENABLE c"
  shows "still w {} \<Longrightarrow> still (register_code16 c kc w) {ucast kc}" "still w {ucast kc} \<Longrightarrow> still (unregister_code16 c kc w) {}"
proof -
  have "\<not> QK_MODS \<le> kc" using assms(1) by (auto simp: word_le_nat_alt)
  then have m: "extract_mod_bits kc = 0" by (simp add: extract_mod_bits_def)
  show "still w {} \<Longrightarrow> still (register_code16 c kc w) {ucast kc}"
    using key_down [of 0 0 w c "ucast kc"] assms(2,3)
    by (simp add: register_code16_def m register_mods_def register_weak_mods_def still_def shows_host_def)
  show "still w {ucast kc} \<Longrightarrow> still (unregister_code16 c kc w) {}"
    using key_up [of 0 0 w c "ucast kc"] assms(2,3)
    by (simp add: unregister_code16_def m unregister_mods_def unregister_weak_mods_def Let_def still_def shows_host_def)
qed

text \<open>A pair between two events: what is held follows from the count of a finished dance.\<close>

definition pair_held :: "u16 \<Rightarrow> u16 \<Rightarrow> td_state \<Rightarrow> u8 set" where
  "pair_held kc1 kc2 t = (if td_finished t then {ucast (if td_count t = 1 then kc1 else kc2)} else {})"

definition pair_phase :: "td_state \<Rightarrow> u16 \<Rightarrow> int \<Rightarrow> bool" where
  "pair_phase t last_key highest \<longleftrightarrow>
     (td_count t = 0 \<or> td_count t = 1 \<or> td_count t = 2) \<and> (td_finished t \<longrightarrow> td_pressed t \<and> td_count t \<noteq> 0) \<and>
     (td_count t = 2 \<longrightarrow> td_finished t) \<and> (td_pressed t \<longrightarrow> td_count t \<noteq> 0) \<and>
     (td_count t \<noteq> 0 \<longrightarrow> td_keycode t = QK_TAP_DANCE \<and> last_key = QK_TAP_DANCE \<and> highest = 0) \<and>
     td_oneshot_mods t = 0 \<and> td_weak_mods t = 0 \<and> (highest = - 1 \<or> highest = 0)"

definition pair_state :: "u16 \<Rightarrow> u16 \<Rightarrow> bool \<Rightarrow> 'a util_st_scheme td_st \<Rightarrow> bool" where
  "pair_state kc1 kc2 down s \<longleftrightarrow> (\<exists>t. td_states s = [t] \<and> td_pressed t = down \<and> pair_phase t (last_td s) (highest_td s) \<and>
     still (td_world s) (pair_held kc1 kc2 t))"

lemma pair_stateE:
  assumes "pair_state kc1 kc2 down s"
  obtains t where "td_states s = [t]" "td_pressed t = down" "pair_phase t (last_td s) (highest_td s)" "still (td_world s) (pair_held kc1 kc2 t)"
  using assms by (auto simp: pair_state_def)

locale pair_dance =
  fixes c :: "'s config" and kc1 kc2 :: u16 and as :: "'a util_st_scheme td_action list"
  assumes keys: "kc1 \<le> 0xFF" "IS_KEY (ucast kc1 :: u8)" "kc2 \<le> 0xFF" "IS_KEY (ucast kc2 :: u8)"
    and plain: "\<not> LOCKING_SUPPORT_ENABLE c"
    and table: "as = [ACTION_TAP_DANCE_DOUBLE c kc1 kc2]"
begin

lemmas register1 = basic_code16 [OF keys(1,2) plain]
lemmas register2 = basic_code16 [OF keys(3,4) plain]

lemma finish:
  assumes "td_states s = [t]" "\<not> td_finished t" "td_count t = 1" "td_oneshot_mods t = 0" "td_weak_mods t = 0" "still (td_world s) {}"
  shows "\<exists>w. action_on_dance_finished c as 0 s = s\<lparr>td_states := [t\<lparr>td_finished := True\<rparr>], td_world := w\<rparr> \<and> still w {ucast kc1}"
proof -
  have "action_on_dance_finished c as 0 s =
      s\<lparr>td_states := [t\<lparr>td_finished := True\<rparr>], td_world := register_code16 c kc1 (send_keyboard_report c (td_world s))\<rparr>"
    using assms(1-5)
    by (simp add: action_on_dance_finished_def set_td_def call_td_fn_def table ACTION_TAP_DANCE_DOUBLE_def pair_finished_def Let_def)
  then show ?thesis using register1(1) [OF still_send [OF assms(6)]] by blast
qed

lemma reset:
  assumes "td_states s = [t]" "\<not> td_pressed t" "td_count t = 1 \<or> td_count t = 2" "td_keycode t = QK_TAP_DANCE"
    and "td_oneshot_mods t = 0" "td_weak_mods t = 0" "still (td_world s) {ucast (if td_count t = 1 then kc1 else kc2)}"
  shows "\<exists>w. reset_tap_dance c as 0 s = s\<lparr>td_states := [t\<lparr>td_count := 0, td_interrupted := False, td_finished := False,
      td_interrupting_keycode := 0\<rparr>], last_td := 0, td_world := w\<rparr> \<and> still w {}"
proof -
  let ?kc = "if td_count t = 1 then kc1 else kc2"
  let ?w = "unregister_code16 c ?kc (wait_ms (unat (TAP_CODE_DELAY c)) (td_world s))"
  have w: "still ?w {}" using assms(3,7) by (auto intro!: register1(2) register2(2) still_wait)
  have "call_td_fn (on_reset (as ! 0)) 0 s = s\<lparr>td_states := [t], td_world := ?w\<rparr>"
    using assms(1,3) by (auto simp: call_td_fn_def table ACTION_TAP_DANCE_DOUBLE_def pair_reset_def Let_def)
  then have "reset_tap_dance c as 0 s = s\<lparr>td_states := [t\<lparr>td_count := 0, td_interrupted := False, td_finished := False,
      td_interrupting_keycode := 0\<rparr>], last_td := 0, td_world := send_keyboard_report c ?w\<rparr>"
    using assms by (simp add: reset_tap_dance_def action_on_reset_def set_td_def Let_def)
  then show ?thesis using still_send [OF w] by blast
qed

lemma dance_ends:
  assumes "pair_state kc1 kc2 down s" "td_count (td_states s ! 0) \<noteq> 0"
  shows "pair_state kc1 kc2 down (reset_tap_dance c as 0 (action_on_dance_finished c as 0 s))"
proof -
  obtain t where t: "td_states s = [t]" and d: "td_pressed t = down" and p: "pair_phase t (last_td s) (highest_td s)"
    and w: "still (td_world s) (pair_held kc1 kc2 t)"
    using assms(1) by (rule pair_stateE)
  show ?thesis
  proof (cases "td_finished t")
    case True
    then have "td_pressed t" using p by (simp add: pair_phase_def)
    with True have "reset_tap_dance c as 0 (action_on_dance_finished c as 0 s) = s"
      using t by (simp add: action_on_dance_finished_def reset_tap_dance_def)
    then show ?thesis using assms(1) by simp
  next
    case False
    have q: "td_count t = 1" "td_oneshot_mods t = 0" "td_weak_mods t = 0" "td_keycode t = QK_TAP_DANCE" "last_td s = QK_TAP_DANCE"
      "highest_td s = 0"
      using p assms(2) t False by (auto simp: pair_phase_def)
    have "still (td_world s) {}" using w False by (simp add: pair_held_def)
    from finish [OF t False q(1-3) this] obtain w' where
      w': "action_on_dance_finished c as 0 s = s\<lparr>td_states := [t\<lparr>td_finished := True\<rparr>], td_world := w'\<rparr>" "still w' {ucast kc1}" by blast
    let ?s = "s\<lparr>td_states := [t\<lparr>td_finished := True\<rparr>], td_world := w'\<rparr>"
    show ?thesis
    proof (cases "td_pressed t")
      case True
      then have "reset_tap_dance c as 0 ?s = ?s" by (simp add: reset_tap_dance_def)
      then show ?thesis using w' q True d by (simp add: pair_state_def pair_phase_def pair_held_def)
    next
      case up: False
      have "\<exists>w. reset_tap_dance c as 0 ?s = ?s\<lparr>td_states := [t\<lparr>td_finished := True\<rparr>\<lparr>td_count := 0, td_interrupted := False,
          td_finished := False, td_interrupting_keycode := 0\<rparr>], last_td := 0, td_world := w\<rparr> \<and> still w {}"
        using q up w'(2) by (intro reset) simp_all
      then show ?thesis using q up d by (auto simp: w'(1) pair_state_def pair_phase_def pair_held_def)
    qed
  qed
qed

lemma interrupt:
  assumes "pair_state kc1 kc2 down s"
  shows "pair_state kc1 kc2 down (interrupt_dance c as k s 0)"
proof (cases "td_count (td_states s ! 0) = 0 \<or> k = td_keycode (td_states s ! 0) \<and> k = last_td s")
  case False
  let ?s = "set_td 0 (\<lambda>t. t\<lparr>td_interrupted := True, td_interrupting_keycode := k\<rparr>) s"
  obtain t where t: "td_states s = [t]" and d: "td_pressed t = down" and p: "pair_phase t (last_td s) (highest_td s)"
    and w: "still (td_world s) (pair_held kc1 kc2 t)"
    using assms by (rule pair_stateE)
  have "pair_held kc1 kc2 (t\<lparr>td_interrupted := True, td_interrupting_keycode := k\<rparr>) = pair_held kc1 kc2 t"
    by (simp add: pair_held_def)
  moreover have "pair_phase (t\<lparr>td_interrupted := True, td_interrupting_keycode := k\<rparr>) l h = pair_phase t l h" for l h
    by (simp add: pair_phase_def)
  ultimately have s: "pair_state kc1 kc2 down ?s" using t d p w by (simp add: pair_state_def set_td_def)
  have "td_count (td_states ?s ! 0) \<noteq> 0" using False t by (auto simp: set_td_def)
  from dance_ends [OF s this] have e: "pair_state kc1 kc2 down (reset_tap_dance c as 0 (action_on_dance_finished c as 0 ?s))" .
  have weak: "pair_state kc1 kc2 down u \<Longrightarrow> pair_state kc1 kc2 down (u\<lparr>td_world := clear_weak_mods (td_world u)\<rparr>)" for u :: "'a util_st_scheme td_st"
    by (auto simp: pair_state_def still_clear_weak)
  have "\<not> (td_count (td_states s ! 0) = 0 \<or> k = td_keycode (td_states s ! 0) \<and> k = last_td s)" using False by blast
  then show ?thesis using weak [OF e] by (simp only: interrupt_dance_def Let_def if_False)
qed (simp add: interrupt_dance_def assms)

lemma preprocess:
  assumes "pair_state kc1 kc2 down s"
  shows "pair_state kc1 kc2 down (preprocess_tap_dance c as k dn s)"
proof (cases "highest_td s = 0")
  case True
  then show ?thesis using interrupt [OF assms] assms by (simp add: preprocess_tap_dance_def)
next
  case False
  then show ?thesis using assms by (auto simp: preprocess_tap_dance_def pair_state_def pair_phase_def)
qed

lemma preprocess_own:
  assumes "pair_state kc1 kc2 down s"
  shows "preprocess_tap_dance c as QK_TAP_DANCE dn s = s"
proof (cases "highest_td s = 0")
  case True
  have "interrupt_dance c as QK_TAP_DANCE s 0 = s" using assms by (auto simp: interrupt_dance_def pair_state_def pair_phase_def)
  then show ?thesis using True by (simp add: preprocess_tap_dance_def)
next
  case False
  then show ?thesis using assms by (auto simp: preprocess_tap_dance_def pair_state_def pair_phase_def)
qed

lemma task:
  assumes "pair_state kc1 kc2 down s"
  shows "\<exists>s'. tap_dance_task c as s = Some s' \<and> pair_state kc1 kc2 down s'"
proof (cases "highest_td s = 0")
  case True
  let ?s = "if dance_times_out c as 0 s then reset_tap_dance c as 0 (action_on_dance_finished c as 0 s) else s"
  have s: "pair_state kc1 kc2 down ?s" using dance_ends [OF assms] assms by (auto simp: dance_times_out_def Let_def)
  have h: "highest_td ?s = 0" using True by simp
  have "task_loop c as 0 s = task_loop c as 1 ?s" using True by (subst task_loop.simps) simp
  also have "\<dots> = Some ?s" using h by (subst task_loop.simps) simp
  finally show ?thesis using s True by (simp add: tap_dance_task_def)
next
  case False
  then show ?thesis using assms by (auto simp: tap_dance_task_def pair_state_def pair_phase_def)
qed

lemma press:
  assumes "pair_state kc1 kc2 False s"
  shows "\<exists>s'. process_tap_dance c as QK_TAP_DANCE True s = Some (True, s') \<and> pair_state kc1 kc2 True s'"
proof -
  obtain t where t: "td_states s = [t]" and d: "\<not> td_pressed t" and p: "pair_phase t (last_td s) (highest_td s)"
    and w: "still (td_world s) (pair_held kc1 kc2 t)"
    using assms by (auto simp: pair_state_def)
  have up: "\<not> td_finished t" "td_count t = 0 \<or> td_count t = 1" "highest_td s = - 1 \<or> highest_td s = 0"
    using p d by (auto simp: pair_phase_def)
  have w: "still (td_world s) {}" using w up by (simp add: pair_held_def)
  note mods = still_mods [OF w]
  define t1 where "t1 = t\<lparr>td_pressed := True, td_keycode := QK_TAP_DANCE, td_count := td_count t + 1,
    td_timer := timer_read (td_world s), td_oneshot_mods := 0, td_weak_mods := 0\<rparr>"
  let ?t = "if td_count t = 1 then t1\<lparr>td_finished := True\<rparr> else t1"
  let ?w = "if td_count t = 1 then register_code16 c kc2 (td_world s) else td_world s"
  have "process_tap_dance c as QK_TAP_DANCE True s =
      Some (True, s\<lparr>highest_td := 0, td_states := [?t], td_world := ?w, last_td := QK_TAP_DANCE\<rparr>)"
    using up mods
    by (auto simp: process_tap_dance_def Let_def t set_td_def table action_on_each_tap_def call_td_fn_def ACTION_TAP_DANCE_DOUBLE_def
        pair_on_each_tap_def t1_def)
  moreover have "still ?w (pair_held kc1 kc2 ?t)"
    using up w register2(1) [OF w] by (auto simp: t1_def pair_held_def)
  moreover have "pair_phase ?t QK_TAP_DANCE 0" "td_pressed ?t" using up by (auto simp: t1_def pair_phase_def)
  ultimately show ?thesis by (simp add: pair_state_def)
qed

lemma release:
  assumes "pair_state kc1 kc2 down s"
  shows "\<exists>s'. process_tap_dance c as QK_TAP_DANCE False s = Some (True, s') \<and> pair_state kc1 kc2 False s'"
proof -
  obtain t where t: "td_states s = [t]" and d: "td_pressed t = down" and p: "pair_phase t (last_td s) (highest_td s)"
    and w: "still (td_world s) (pair_held kc1 kc2 t)"
    using assms(1) by (rule pair_stateE)
  define s1 where "s1 = s\<lparr>highest_td := 0, td_states := [t\<lparr>td_pressed := False\<rparr>]\<rparr>"
  have h: "highest_td s = - 1 \<or> highest_td s = 0" using p by (auto simp: pair_phase_def)
  have s1: "s1 = s\<lparr>td_states := [t\<lparr>td_pressed := False\<rparr>]\<rparr>" if "highest_td s = 0" using that by (cases s) (simp add: s1_def)
  have proc: "process_tap_dance c as QK_TAP_DANCE False s =
      (if td_count t \<noteq> 0 \<and> td_finished t then Some (True, reset_tap_dance c as 0 s1) else Some (True, s1))"
  proof (cases "highest_td s = 0")
    case True
    then show ?thesis by (simp add: process_tap_dance_def Let_def t set_td_def table s1)
  next
    case False
    then show ?thesis using h by (simp add: process_tap_dance_def Let_def t set_td_def table s1_def)
  qed
  show ?thesis
  proof (cases "td_count t \<noteq> 0 \<and> td_finished t")
    case True
    have "\<exists>w. reset_tap_dance c as 0 s1 = s1\<lparr>td_states := [t\<lparr>td_pressed := False\<rparr>\<lparr>td_count := 0, td_interrupted := False,
        td_finished := False, td_interrupting_keycode := 0\<rparr>], last_td := 0, td_world := w\<rparr> \<and> still w {}"
      using True p w by (intro reset) (auto simp: s1_def pair_phase_def pair_held_def)
    then obtain w' where w': "reset_tap_dance c as 0 s1 = s1\<lparr>td_states := [t\<lparr>td_pressed := False, td_count := 0, td_interrupted := False,
        td_finished := False, td_interrupting_keycode := 0\<rparr>], last_td := 0, td_world := w'\<rparr>" "still w' {}" by auto
    then show ?thesis using p True by (simp add: proc pair_state_def s1_def pair_phase_def pair_held_def)
  next
    case False
    have only: "process_tap_dance c as QK_TAP_DANCE False s = Some (True, s1)" using False by (subst proc) (rule if_not_P)
    have "\<not> td_finished t" using False p by (auto simp: pair_phase_def)
    then have "pair_phase (t\<lparr>td_pressed := False\<rparr>) (last_td s) 0" "pair_held kc1 kc2 (t\<lparr>td_pressed := False\<rparr>) = pair_held kc1 kc2 t"
      using p by (auto simp: pair_phase_def pair_held_def)
    then show ?thesis using w by (simp add: only) (simp add: pair_state_def s1_def)
  qed
qed

lemma passes: "pair_state kc1 kc2 down s \<Longrightarrow> pair_state kc1 kc2 down (s\<lparr>td_world := wait_ms d (td_world s)\<rparr>)"
  by (auto simp: pair_state_def still_wait)

lemma step:
  assumes "pair_state kc1 kc2 down s" "td_in_turn down (e # es)"
  shows "\<exists>s'. td_step c as (Some s) e = Some s' \<and> pair_state kc1 kc2 (dance_down down [e]) s' \<and> td_in_turn (dance_down down [e]) es"
proof (cases e)
  case (Dance d)
  then have "d = (\<not> down)" "td_in_turn d es" using assms(2) by auto
  then show ?thesis using press [of s] release [OF assms(1)] assms(1) Dance
    by (cases d) (auto simp: td_step_def preprocess_own [OF assms(1)])
next
  case (Other k)
  then show ?thesis using preprocess [OF assms(1), of k True] assms(2) by (simp add: td_step_def)
next
  case Task
  then show ?thesis using task [OF assms(1)] assms(2) by (auto simp: td_step_def)
next
  case (Passes d)
  then show ?thesis using passes [OF assms(1)] assms(2) by (simp add: td_step_def)
qed

lemma run:
  "pair_state kc1 kc2 down s \<Longrightarrow> td_in_turn down es \<Longrightarrow>
   \<exists>s'. foldl (td_step c as) (Some s) es = Some s' \<and> pair_state kc1 kc2 (dance_down down es) s'"
proof (induction es arbitrary: down s)
  case (Cons e es)
  obtain s' where s': "td_step c as (Some s) e = Some s'" "pair_state kc1 kc2 (dance_down down [e]) s'"
    "td_in_turn (dance_down down [e]) es"
    using step [OF Cons.prems] by blast
  have "dance_down down (e # es) = dance_down (dance_down down [e]) es" by (cases e) simp_all
  then show ?case using Cons.IH [OF s'(2,3)] s'(1) by simp
qed simp

end

text \<open>The contract, on a pair of letters with the default options.\<close>

interpretation letters: pair_dance "default_config f :: unit config" KC_A KC_B
    "[ACTION_TAP_DANCE_DOUBLE (default_config f :: unit config) KC_A KC_B]"
  for f
  by (rule pair_dance.intro) (simp_all add: default_config_def IS_KEY_def)

definition td_start :: "'a util_st_scheme \<Rightarrow> 'a util_st_scheme td_st" where
  "td_start w = \<lparr>td_states = [td_idle], last_td = 0, highest_td = - 1, td_world = w\<rparr>"

lemma td_start_pair: "still w {} \<Longrightarrow> pair_state kc1 kc2 False (td_start w)"
  by (simp add: td_start_def pair_state_def pair_phase_def pair_held_def td_idle_def)

text \<open>
  C12. A pair dance holds what its count says and never leaves a key down.  A keyboard with one dance of two plain keys
  takes presses and releases of the dance key in turn, any other presses, time and the task in any order; afterwards the
  dance key is up or down as the last event said, and the report holds one key of the pair exactly while a finished dance
  is held: the first after one tap, the second after two.  With the dance key up nothing is held.
\<close>

theorem pair_dance_never_stuck:
  assumes "kc1 \<le> 0xFF" "IS_KEY (ucast kc1 :: u8)" "kc2 \<le> 0xFF" "IS_KEY (ucast kc2 :: u8)" "\<not> LOCKING_SUPPORT_ENABLE c"
    and "still w {}" "td_in_turn False es"
  shows "\<exists>s t. foldl (td_step c [ACTION_TAP_DANCE_DOUBLE c kc1 kc2]) (Some (td_start w)) es = Some s \<and>
    td_states s = [t] \<and> td_pressed t = dance_down False es \<and>
    util_held (td_world s) = (if td_finished t then {ucast (if td_count t = 1 then kc1 else kc2)} else {}) \<and>
    (\<not> dance_down False es \<longrightarrow> util_held (td_world s) = {})"
proof -
  have "pair_dance c kc1 kc2 [ACTION_TAP_DANCE_DOUBLE c kc1 kc2]" using assms(1-5) by unfold_locales simp_all
  from pair_dance.run [OF this td_start_pair [OF assms(6)] assms(7)] obtain s where
    s: "foldl (td_step c [ACTION_TAP_DANCE_DOUBLE c kc1 kc2]) (Some (td_start w)) es = Some s"
      "pair_state kc1 kc2 (dance_down False es) s" by blast
  from s(2) obtain t where t: "td_states s = [t]" "td_pressed t = dance_down False es" "pair_phase t (last_td s) (highest_td s)"
    "still (td_world s) (pair_held kc1 kc2 t)" by (rule pair_stateE)
  then have "td_finished t \<longrightarrow> dance_down False es" by (simp add: pair_phase_def)
  then show ?thesis using s(1) t by (intro exI [of _ s] exI [of _ t]) (auto simp: still_def pair_held_def)
qed

text \<open>The witness: one tap of the letters' dance that the timeout finishes, and a second one begun.\<close>

lemma pair_dance_never_stuck_witness:
  "let c = default_config (\<lambda>_ _. 0) :: unit config; es = [Dance True, Passes 201, Task, Dance False, Passes 5, Dance True, Task]
   in \<exists>s t. foldl (td_step c [ACTION_TAP_DANCE_DOUBLE c KC_A KC_B]) (Some (td_start (layer_init c))) es = Some s \<and>
    td_states s = [t] \<and> td_pressed t = dance_down False es \<and>
    util_held (td_world s) = (if td_finished t then {if td_count t = 1 then KC_A else KC_B} else {}) \<and>
    (\<not> dance_down False es \<longrightarrow> util_held (td_world s) = {})"
proof -
  let ?c = "default_config (\<lambda>_ _. 0) :: unit config"
  have "still (layer_init ?c) {}"
    by (auto simp: still_def poised_def layer_init_def util_wf_def util_held_def nkro_def held_empty keys_distinct_def slot_empty)
  moreover have "\<not> LOCKING_SUPPORT_ENABLE ?c" by (simp add: default_config_def)
  moreover have "(KC_A :: u16) \<le> 0xFF" "(KC_B :: u16) \<le> 0xFF" "IS_KEY (ucast (KC_A :: u16) :: u8)" "IS_KEY (ucast (KC_B :: u16) :: u8)"
    by (simp_all add: IS_KEY_def)
  moreover have "(ucast (if b then KC_A else KC_B :: u16) :: u8) = (if b then KC_A else KC_B)" for b by simp
  moreover have "td_in_turn False [Dance True, Passes 201, Task, Dance False, Passes 5, Dance True, Task]" by simp
  ultimately show ?thesis unfolding Let_def
    using pair_dance_never_stuck [of KC_A KC_B ?c "layer_init ?c"
        "[Dance True, Passes 201, Task, Dance False, Passes 5, Dance True, Task]"]
    by (simp only: simp_thms)
qed

end
