(* ===== verification/Via.thy ===== *)
theory Via
  imports Dynamic_Keymap Quantum
begin

text \<open>
  The configuration of the keyboard by the host, \<^verbatim>\<open>quantum/via.c\<close>: what a keyboard keeps in the EEPROM for it, the
  requests that arrive over raw HID, and the keycodes of its keymaps.  The options of a build are the record \<open>via\<close>, which
  also holds the two functions a keyboard may override; the lighting of the core is left out, so a lighting request is
  unhandled unless the keyboard has its own.
\<close>

section \<open>The options\<close>

record via =
  VIA_EEPROM_MAGIC_ADDR :: nat
  VIA_EEPROM_LAYOUT_OPTIONS_SIZE :: nat
  VIA_EEPROM_LAYOUT_OPTIONS_DEFAULT :: u32
  VIA_EEPROM_ALLOW_RESET :: bool
  VIA_CUSTOM_LIGHTING_ENABLE :: bool
  QMK_BUILDDATE :: "u8 list"
  via_dk :: dynamic_keymap
  via_keymaps :: "nat \<Rightarrow> nat \<Rightarrow> nat \<Rightarrow> u16"
  via_init_kb :: "eeprom \<Rightarrow> eeprom"
  raw_hid_receive_kb :: "u8 list \<times> eeprom \<Rightarrow> u8 list \<times> eeprom"

definition VIA_EEPROM_LAYOUT_OPTIONS_ADDR :: "via \<Rightarrow> nat" where
  "VIA_EEPROM_LAYOUT_OPTIONS_ADDR v = VIA_EEPROM_MAGIC_ADDR v + 3"

definition VIA_PROTOCOL_VERSION :: u16 where "VIA_PROTOCOL_VERSION = 0x0009"

abbreviation id_get_protocol_version :: u8 where "id_get_protocol_version \<equiv> 0x01"
abbreviation id_get_keyboard_value :: u8 where "id_get_keyboard_value \<equiv> 0x02"
abbreviation id_set_keyboard_value :: u8 where "id_set_keyboard_value \<equiv> 0x03"
abbreviation id_dynamic_keymap_get_keycode :: u8 where "id_dynamic_keymap_get_keycode \<equiv> 0x04"
abbreviation id_dynamic_keymap_set_keycode :: u8 where "id_dynamic_keymap_set_keycode \<equiv> 0x05"
abbreviation id_dynamic_keymap_reset :: u8 where "id_dynamic_keymap_reset \<equiv> 0x06"
abbreviation id_lighting_set_value :: u8 where "id_lighting_set_value \<equiv> 0x07"
abbreviation id_lighting_get_value :: u8 where "id_lighting_get_value \<equiv> 0x08"
abbreviation id_lighting_save :: u8 where "id_lighting_save \<equiv> 0x09"
abbreviation id_eeprom_reset :: u8 where "id_eeprom_reset \<equiv> 0x0A"
abbreviation id_dynamic_keymap_macro_get_count :: u8 where "id_dynamic_keymap_macro_get_count \<equiv> 0x0C"
abbreviation id_dynamic_keymap_macro_get_buffer_size :: u8 where "id_dynamic_keymap_macro_get_buffer_size \<equiv> 0x0D"
abbreviation id_dynamic_keymap_macro_get_buffer :: u8 where "id_dynamic_keymap_macro_get_buffer \<equiv> 0x0E"
abbreviation id_dynamic_keymap_macro_set_buffer :: u8 where "id_dynamic_keymap_macro_set_buffer \<equiv> 0x0F"
abbreviation id_dynamic_keymap_macro_reset :: u8 where "id_dynamic_keymap_macro_reset \<equiv> 0x10"
abbreviation id_dynamic_keymap_get_layer_count :: u8 where "id_dynamic_keymap_get_layer_count \<equiv> 0x11"
abbreviation id_dynamic_keymap_get_buffer :: u8 where "id_dynamic_keymap_get_buffer \<equiv> 0x12"
abbreviation id_dynamic_keymap_set_buffer :: u8 where "id_dynamic_keymap_set_buffer \<equiv> 0x13"
abbreviation id_unhandled :: u8 where "id_unhandled \<equiv> 0xFF"

abbreviation id_uptime :: u8 where "id_uptime \<equiv> 0x01"
abbreviation id_layout_options :: u8 where "id_layout_options \<equiv> 0x02"
abbreviation id_switch_matrix_state :: u8 where "id_switch_matrix_state \<equiv> 0x03"

abbreviation FN_MO13 :: u16 where "FN_MO13 \<equiv> 0x5F10"
abbreviation FN_MO23 :: u16 where "FN_MO23 \<equiv> 0x5F11"
abbreviation MACRO00 :: u16 where "MACRO00 \<equiv> 0x5F12"
abbreviation MACRO15 :: u16 where "MACRO15 \<equiv> 0x5F21"

section \<open>The EEPROM\<close>

text \<open>The magic number is the date of the build in three bytes of two decimal digits.\<close>

definition date_byte :: "via \<Rightarrow> nat \<Rightarrow> u8" where
  "date_byte v i = push_bit 4 (QMK_BUILDDATE v ! i AND 0x0F) OR (QMK_BUILDDATE v ! (i + 1) AND 0x0F)"

definition via_magic :: "via \<Rightarrow> u8 list" where
  "via_magic v = [date_byte v 2, date_byte v 5, date_byte v 8]"

definition via_eeprom_is_valid :: "via \<Rightarrow> eeprom \<Rightarrow> bool" where
  "via_eeprom_is_valid v e \<longleftrightarrow>
     e (VIA_EEPROM_MAGIC_ADDR v + 0) = via_magic v ! 0 \<and> e (VIA_EEPROM_MAGIC_ADDR v + 1) = via_magic v ! 1 \<and>
     e (VIA_EEPROM_MAGIC_ADDR v + 2) = via_magic v ! 2"

definition via_eeprom_set_valid :: "via \<Rightarrow> bool \<Rightarrow> eeprom \<Rightarrow> eeprom" where
  "via_eeprom_set_valid v valid e =
     e(VIA_EEPROM_MAGIC_ADDR v + 0 := (if valid then via_magic v ! 0 else 0xFF),
       VIA_EEPROM_MAGIC_ADDR v + 1 := (if valid then via_magic v ! 1 else 0xFF),
       VIA_EEPROM_MAGIC_ADDR v + 2 := (if valid then via_magic v ! 2 else 0xFF))"

definition via_get_layout_options :: "via \<Rightarrow> eeprom \<Rightarrow> u32" where
  "via_get_layout_options v e =
     foldl (\<lambda>value i. push_bit 8 value OR ucast (e (VIA_EEPROM_LAYOUT_OPTIONS_ADDR v + i))) 0
       [0..<VIA_EEPROM_LAYOUT_OPTIONS_SIZE v]"

definition via_set_layout_options :: "via \<Rightarrow> u32 \<Rightarrow> eeprom \<Rightarrow> eeprom" where
  "via_set_layout_options v value e =
     snd (foldl (\<lambda>(value, e) i. (drop_bit 8 value,
         e(VIA_EEPROM_LAYOUT_OPTIONS_ADDR v + VIA_EEPROM_LAYOUT_OPTIONS_SIZE v - 1 - i := ucast (value AND 0xFF))))
       (value, e) [0..<VIA_EEPROM_LAYOUT_OPTIONS_SIZE v])"

definition eeconfig_init_via :: "via \<Rightarrow> eeprom \<Rightarrow> eeprom" where
  "eeconfig_init_via v e =
     (let e = via_eeprom_set_valid v False e; e = via_set_layout_options v (VIA_EEPROM_LAYOUT_OPTIONS_DEFAULT v) e;
          e = dynamic_keymap_reset (via_dk v) (via_keymaps v) e; e = dynamic_keymap_macro_reset (via_dk v) e
      in via_eeprom_set_valid v True e)"

definition via_init :: "via \<Rightarrow> eeprom \<Rightarrow> eeprom" where
  "via_init v e = (let e = via_init_kb v e in if \<not> via_eeprom_is_valid v e then eeconfig_init_via v e else e)"

section \<open>Requests\<close>

text \<open>
  The buffer of a request is a list of bytes, its command first, and is sent back at the end.  The result \<open>None\<close> is an
  access behind the buffer.  The commands that take no length of the request access its first six bytes only.
\<close>

definition write_at :: "nat \<Rightarrow> u8 list \<Rightarrow> u8 list \<Rightarrow> u8 list option" where
  "write_at i bs data = (if i + length bs \<le> length data then Some (take i data @ bs @ drop (i + length bs) data) else None)"

definition answer :: "nat \<Rightarrow> u8 list \<Rightarrow> u8 list \<times> eeprom \<Rightarrow> (u8 list \<times> eeprom) option" where
  "answer i bs s = map_option (\<lambda>data. (data, snd s)) (write_at i bs (fst s))"

definition unhandled :: "u8 list \<times> eeprom \<Rightarrow> (u8 list \<times> eeprom) option" where
  "unhandled = answer 0 [id_unhandled]"

definition raw_hid_receive_kb_default :: "u8 list \<times> eeprom \<Rightarrow> u8 list \<times> eeprom" where
  "raw_hid_receive_kb_default s = (case s of (data, e) \<Rightarrow> (data[0 := id_unhandled], e))"

definition bytes_of_u32 :: "u32 \<Rightarrow> u8 list" where
  "bytes_of_u32 value = [ucast (drop_bit 24 value AND 0xFF), ucast (drop_bit 16 value AND 0xFF), ucast (drop_bit 8 value AND 0xFF),
     ucast (value AND 0xFF)]"

definition bytes_of_u16 :: "u16 \<Rightarrow> u8 list" where
  "bytes_of_u16 value = [ucast (drop_bit 8 value), ucast (value AND 0xFF)]"

definition row_bytes :: "nat \<Rightarrow> u32 \<Rightarrow> u8 list" where
  "row_bytes cols value =
     (if 24 < cols then [ucast (drop_bit 24 value AND 0xFF)] else []) @ (if 16 < cols then [ucast (drop_bit 16 value AND 0xFF)] else []) @
     (if 8 < cols then [ucast (drop_bit 8 value AND 0xFF)] else []) @ [ucast (value AND 0xFF)]"

text \<open>The time and the matrix are arguments.\<close>

definition get_keyboard_value :: "via \<Rightarrow> u32 \<Rightarrow> (nat \<Rightarrow> u32) \<Rightarrow> u8 list \<times> eeprom \<Rightarrow> (u8 list \<times> eeprom) option" where
  "get_keyboard_value v uptime matrix_get_row s =
     (let value_id = fst s ! 1; d = via_dk v
      in if value_id = id_uptime then answer 2 (bytes_of_u32 uptime) s
         else if value_id = id_layout_options then answer 2 (bytes_of_u32 (via_get_layout_options v (snd s))) s
         else if value_id = id_switch_matrix_state
         then if (DK_COLS d div 8 + 1) * DK_ROWS d \<le> 28
              then answer 2 (concat (map (\<lambda>r. row_bytes (DK_COLS d) (matrix_get_row r)) [0..<DK_ROWS d])) s else Some s
         else Some (raw_hid_receive_kb v s))"

definition set_keyboard_value :: "via \<Rightarrow> u8 list \<times> eeprom \<Rightarrow> (u8 list \<times> eeprom) option" where
  "set_keyboard_value v s =
     (let data = fst s
      in if data ! 1 = id_layout_options
         then let value = push_bit 24 (ucast (data ! 2)) OR push_bit 16 (ucast (data ! 3)) OR push_bit 8 (ucast (data ! 4)) OR
                ucast (data ! 5)
              in Some (data, via_set_layout_options v value (snd s))
         else Some (raw_hid_receive_kb v s))"

definition lighting_request :: "via \<Rightarrow> u8 list \<times> eeprom \<Rightarrow> (u8 list \<times> eeprom) option" where
  "lighting_request v s = (if VIA_CUSTOM_LIGHTING_ENABLE v then Some (raw_hid_receive_kb v s) else unhandled s)"

definition request_offset :: "u8 list \<Rightarrow> nat" where
  "request_offset data = unat (push_bit 8 (ucast (data ! 1)) OR ucast (data ! 2) :: u16)"

text \<open>The bytes of a request that are written are read only as far as the area reaches.\<close>

definition take_buffer :: "nat \<Rightarrow> (nat \<Rightarrow> u8 list \<Rightarrow> eeprom \<Rightarrow> eeprom) \<Rightarrow> u8 list \<times> eeprom \<Rightarrow> (u8 list \<times> eeprom) option" where
  "take_buffer area store s =
     (let data = fst s; offset = request_offset data; n = min (unat (data ! 3)) (area - offset)
      in if 4 + n \<le> length data then Some (data, store offset (take n (drop 4 data)) (snd s)) else None)"

definition raw_hid_receive :: "via \<Rightarrow> u32 \<Rightarrow> (nat \<Rightarrow> u32) \<Rightarrow> u8 list \<times> eeprom \<Rightarrow> (u8 list \<times> eeprom) option" where
  "raw_hid_receive v uptime matrix_get_row s =
     (let (data, e) = s; command_id = data ! 0; d = via_dk v;
          layer = unat (data ! 1); r = unat (data ! 2); c = unat (data ! 3)
      in if command_id = id_get_protocol_version then answer 1 (bytes_of_u16 VIA_PROTOCOL_VERSION) s
         else if command_id = id_get_keyboard_value then get_keyboard_value v uptime matrix_get_row s
         else if command_id = id_set_keyboard_value then set_keyboard_value v s
         else if command_id = id_dynamic_keymap_get_keycode then answer 4 (bytes_of_u16 (dynamic_keymap_get_keycode d e layer r c)) s
         else if command_id = id_dynamic_keymap_set_keycode
         then Some (data, dynamic_keymap_set_keycode d layer r c (push_bit 8 (ucast (data ! 4)) OR ucast (data ! 5)) e)
         else if command_id = id_dynamic_keymap_reset then Some (data, dynamic_keymap_reset d (via_keymaps v) e)
         else if command_id = id_lighting_set_value \<or> command_id = id_lighting_get_value \<or> command_id = id_lighting_save
         then lighting_request v s
         else if command_id = id_eeprom_reset \<and> VIA_EEPROM_ALLOW_RESET v
         then Some (data, eeconfig_init_via v (via_eeprom_set_valid v False e))
         else if command_id = id_dynamic_keymap_macro_get_count then answer 1 [of_nat (MACRO_COUNT d)] s
         else if command_id = id_dynamic_keymap_macro_get_buffer_size then answer 1 (bytes_of_u16 (of_nat (MACRO_EEPROM_SIZE d))) s
         else if command_id = id_dynamic_keymap_macro_get_buffer
         then answer 4 (dynamic_keymap_macro_get_buffer d e (request_offset data) (unat (data ! 3))) s
         else if command_id = id_dynamic_keymap_macro_set_buffer
         then take_buffer (MACRO_EEPROM_SIZE d) (dynamic_keymap_macro_set_buffer d) s
         else if command_id = id_dynamic_keymap_macro_reset then Some (data, dynamic_keymap_macro_reset d e)
         else if command_id = id_dynamic_keymap_get_layer_count then answer 1 [of_nat (LAYER_COUNT d)] s
         else if command_id = id_dynamic_keymap_get_buffer
         then answer 4 (dynamic_keymap_get_buffer d e (request_offset data) (unat (data ! 3))) s
         else if command_id = id_dynamic_keymap_set_buffer then take_buffer (keymap_size d) (dynamic_keymap_set_buffer d) s
         else unhandled s)"

section \<open>Keycodes\<close>

definition fn_mo :: "'s config \<Rightarrow> nat \<Rightarrow> bool \<Rightarrow> 'a layer_st_scheme \<Rightarrow> 'a layer_st_scheme" where
  "fn_mo c layer down s = update_tri_layer c 1 2 3 ((if down then layer_on c (of_nat layer) else layer_off c (of_nat layer)) s)"

definition process_record_via ::
    "via \<Rightarrow> luts \<Rightarrow> 's config \<Rightarrow> eeprom \<Rightarrow> u16 \<Rightarrow> bool \<Rightarrow> 'a layer_st_scheme \<Rightarrow> (bool \<times> 'a layer_st_scheme) option" where
  "process_record_via v l c e keycode down s =
     (if down \<and> MACRO00 \<le> keycode \<and> keycode \<le> MACRO15
      then map_option (Pair False) (dynamic_keymap_macro_send (via_dk v) l c e (unat (keycode - MACRO00)) s)
      else if keycode = FN_MO13 then Some (False, fn_mo c 1 down s)
      else if keycode = FN_MO23 then Some (False, fn_mo c 2 down s)
      else Some (True, s))"

section \<open>Initialisation\<close>

text \<open>The updates of the EEPROM by the initialisation, in the order of the code.\<close>

definition layout_writes :: "via \<Rightarrow> u32 \<Rightarrow> (nat \<times> u8) list" where
  "layout_writes v value =
     map (\<lambda>i. (VIA_EEPROM_LAYOUT_OPTIONS_ADDR v + VIA_EEPROM_LAYOUT_OPTIONS_SIZE v - 1 - i, ucast (drop_bit (8 * i) value)))
       [0..<VIA_EEPROM_LAYOUT_OPTIONS_SIZE v]"

definition keymap_writes :: "via \<Rightarrow> (nat \<times> u8) list" where
  "keymap_writes v = concat (map (\<lambda>(l, r, c). let address = dynamic_keymap_key_to_eeprom_address (via_dk v) l r c; k = via_keymaps v l r c
     in [(address, ucast (drop_bit 8 k)), (address + 1, ucast (k AND 0xFF))]) (cells (via_dk v)))"

definition macro_writes :: "via \<Rightarrow> (nat \<times> u8) list" where
  "macro_writes v = map (\<lambda>p. (p, 0)) [MACRO_EEPROM_ADDR (via_dk v)..<MACRO_EEPROM_ADDR (via_dk v) + MACRO_EEPROM_SIZE (via_dk v)]"

definition magic_writes :: "via \<Rightarrow> u8 list \<Rightarrow> (nat \<times> u8) list" where
  "magic_writes v bs = [(VIA_EEPROM_MAGIC_ADDR v, bs ! 0), (VIA_EEPROM_MAGIC_ADDR v + 1, bs ! 1), (VIA_EEPROM_MAGIC_ADDR v + 2, bs ! 2)]"

definition init_writes :: "via \<Rightarrow> (nat \<times> u8) list" where
  "init_writes v = magic_writes v [0xFF, 0xFF, 0xFF] @ layout_writes v (VIA_EEPROM_LAYOUT_OPTIONS_DEFAULT v) @ keymap_writes v @
     macro_writes v @ magic_writes v (via_magic v)"

definition write_bytes :: "(nat \<times> u8) list \<Rightarrow> eeprom \<Rightarrow> eeprom" where
  "write_bytes ws e = foldl (\<lambda>e (a, b). e(a := b)) e ws"

lemma write_bytes_simps [simp]: "write_bytes [] e = e" "write_bytes (w # ws) e = write_bytes ws (e(fst w := snd w))"
  by (simp_all add: write_bytes_def split_beta)

lemma write_bytes_append [simp]: "write_bytes (xs @ ys) e = write_bytes ys (write_bytes xs e)"
  by (simp add: write_bytes_def)

lemma write_bytes_at: "write_bytes ws e a = (case map_of (rev ws) a of Some b \<Rightarrow> b | None \<Rightarrow> e a)"
  by (induction ws rule: rev_induct) (auto simp: write_bytes_def split: option.splits)

lemma write_bytes_other: "a \<notin> fst ` set ws \<Longrightarrow> write_bytes ws e a = e a"
  by (induction ws arbitrary: e) auto

lemma write_bytes_again: "write_bytes ws (write_bytes (take n ws) e) = write_bytes ws e"
proof
  fix a
  show "write_bytes ws (write_bytes (take n ws) e) a = write_bytes ws e a"
  proof (cases "map_of (rev ws) a")
    case None
    then have "a \<notin> fst ` set ws" by (simp add: map_of_eq_None_iff)
    moreover from this have "a \<notin> fst ` set (take n ws)" by (auto dest: in_set_takeD)
    ultimately show ?thesis by (simp add: write_bytes_other)
  qed (simp add: write_bytes_at)
qed

lemma set_valid_writes: "via_eeprom_set_valid v b e = write_bytes (magic_writes v (if b then via_magic v else [0xFF, 0xFF, 0xFF])) e"
  by (simp add: via_eeprom_set_valid_def magic_writes_def)

lemma set_layout_writes: "via_set_layout_options v value e = write_bytes (layout_writes v value) e"
proof -
  have low: "(ucast (w AND 0xFF) :: u8) = ucast w" for w :: u32
  proof -
    have m: "(0xFF :: u32) = mask 8" by (simp add: mask_eq_exp_minus_1)
    show ?thesis unfolding m by (auto simp: bit_eq_iff bit_simps)
  qed
  have "foldl (\<lambda>(value, e) i. (drop_bit 8 value, e(n + m - 1 - i := ucast (value AND 0xFF)))) (value, e) [0..<k] =
      (drop_bit (8 * k) value, write_bytes (map (\<lambda>i. (n + m - 1 - i, ucast (drop_bit (8 * i) value))) [0..<k]) e)" for n m k
    by (induction k) (simp_all add: low)
  then show ?thesis by (simp add: via_set_layout_options_def layout_writes_def)
qed

lemma keymap_reset_writes: "dynamic_keymap_reset (via_dk v) (via_keymaps v) e = write_bytes (keymap_writes v) e"
proof -
  have "foldl (\<lambda>e (l, r, c). dynamic_keymap_set_keycode (via_dk v) l r c (via_keymaps v l r c) e) e xs =
      write_bytes (concat (map (\<lambda>(l, r, c). let address = dynamic_keymap_key_to_eeprom_address (via_dk v) l r c; k = via_keymaps v l r c
         in [(address, ucast (drop_bit 8 k)), (address + 1, ucast (k AND 0xFF))]) xs)) e" for xs
    by (induction xs arbitrary: e) (auto simp: dynamic_keymap_set_keycode_def Let_def)
  then show ?thesis by (simp add: reset_cells keymap_writes_def)
qed

lemma macro_reset_writes: "dynamic_keymap_macro_reset (via_dk v) e = write_bytes (macro_writes v) e"
  by (simp add: dynamic_keymap_macro_reset_def macro_writes_def write_bytes_def foldl_map)

lemma eeconfig_init_writes: "eeconfig_init_via v e = write_bytes (init_writes v) e"
  by (simp add: eeconfig_init_via_def init_writes_def set_valid_writes set_layout_writes keymap_reset_writes macro_reset_writes Let_def)

definition decimal_digit :: "u8 \<Rightarrow> bool" where "decimal_digit b \<longleftrightarrow> 48 \<le> b \<and> b \<le> 57"

definition via_wf :: "via \<Rightarrow> bool" where
  "via_wf v \<longleftrightarrow> (let d = via_dk v in
     VIA_EEPROM_LAYOUT_OPTIONS_ADDR v + VIA_EEPROM_LAYOUT_OPTIONS_SIZE v \<le> EEPROM_ADDR d \<and>
     EEPROM_ADDR d + LAYER_COUNT d * DK_ROWS d * DK_COLS d * 2 \<le> MACRO_EEPROM_ADDR d \<and>
     VIA_EEPROM_LAYOUT_OPTIONS_SIZE v \<le> 4 \<and> (\<forall>i \<in> {2, 3, 5, 6, 8, 9}. decimal_digit (QMK_BUILDDATE v ! i)))"

lemma date_byte_not_erased:
  assumes "decimal_digit (QMK_BUILDDATE v ! (i + 1))"
  shows "date_byte v i \<noteq> 0xFF"
proof
  let ?p = "QMK_BUILDDATE v ! (i + 1)"
  have m: "(0x0F :: u8) = mask 4" by (simp add: mask_eq_exp_minus_1)
  have low: "(push_bit 4 a OR (b AND 0x0F)) AND 0x0F = b AND 0x0F" for a b :: u8
    unfolding m by (auto simp: bit_eq_iff bit_simps)
  assume "date_byte v i = 0xFF"
  then have f: "?p AND 0x0F = 0x0F" using low [of "QMK_BUILDDATE v ! i AND 0x0F" ?p] by (simp add: date_byte_def)
  have "n = 48 \<or> n = 49 \<or> n = 50 \<or> n = 51 \<or> n = 52 \<or> n = 53 \<or> n = 54 \<or> n = 55 \<or> n = 56 \<or> n = 57"
    if "48 \<le> n" "n \<le> 57" for n :: nat using that by presburger
  from this [of "unat ?p"] assms
  have "unat ?p = 48 \<or> unat ?p = 49 \<or> unat ?p = 50 \<or> unat ?p = 51 \<or> unat ?p = 52 \<or> unat ?p = 53 \<or> unat ?p = 54 \<or>
    unat ?p = 55 \<or> unat ?p = 56 \<or> unat ?p = 57" by (simp add: decimal_digit_def word_le_nat_alt)
  then have "?p = 48 \<or> ?p = 49 \<or> ?p = 50 \<or> ?p = 51 \<or> ?p = 52 \<or> ?p = 53 \<or> ?p = 54 \<or> ?p = 55 \<or> ?p = 56 \<or> ?p = 57"
    by (simp add: word_unat_eq_iff)
  then show False using f by (elim disjE) simp_all
qed

lemma magic_not_erased: "via_wf v \<Longrightarrow> via_magic v ! 0 \<noteq> 0xFF \<and> via_magic v ! 2 \<noteq> 0xFF"
  using date_byte_not_erased [of v 2] date_byte_not_erased [of v 8] by (simp add: via_wf_def via_magic_def Let_def)

lemma keymap_writes_in:
  "a \<in> fst ` set (keymap_writes v) \<Longrightarrow>
   EEPROM_ADDR (via_dk v) \<le> a \<and> a < EEPROM_ADDR (via_dk v) + LAYER_COUNT (via_dk v) * DK_ROWS (via_dk v) * DK_COLS (via_dk v) * 2"
  using index_less [of "via_dk v"] by (fastforce simp: keymap_writes_def Let_def set_cells address_index)

lemma layout_writes_in:
  "a \<in> fst ` set (layout_writes v w) \<Longrightarrow>
   VIA_EEPROM_LAYOUT_OPTIONS_ADDR v \<le> a \<and> a < VIA_EEPROM_LAYOUT_OPTIONS_ADDR v + VIA_EEPROM_LAYOUT_OPTIONS_SIZE v"
  by (auto simp: layout_writes_def)

lemma macro_writes_in:
  "a \<in> fst ` set (macro_writes v) \<longleftrightarrow> MACRO_EEPROM_ADDR (via_dk v) \<le> a \<and> a < MACRO_EEPROM_ADDR (via_dk v) + MACRO_EEPROM_SIZE (via_dk v)"
  by (auto simp: macro_writes_def image_iff)

text \<open>The updates between the two of the magic number.\<close>

definition inner_writes :: "via \<Rightarrow> (nat \<times> u8) list" where
  "inner_writes v = layout_writes v (VIA_EEPROM_LAYOUT_OPTIONS_DEFAULT v) @ keymap_writes v @ macro_writes v"

lemma inner_writes_in: "via_wf v \<Longrightarrow> a \<in> fst ` set (inner_writes v) \<Longrightarrow> VIA_EEPROM_MAGIC_ADDR v + 3 \<le> a"
proof -
  assume wf: "via_wf v" and "a \<in> fst ` set (inner_writes v)"
  then have "a \<in> fst ` set (layout_writes v (VIA_EEPROM_LAYOUT_OPTIONS_DEFAULT v)) \<or> a \<in> fst ` set (keymap_writes v) \<or>
    a \<in> fst ` set (macro_writes v)" by (auto simp only: inner_writes_def set_append image_Un Un_iff)
  then have "VIA_EEPROM_LAYOUT_OPTIONS_ADDR v \<le> a \<or> EEPROM_ADDR (via_dk v) \<le> a \<or> MACRO_EEPROM_ADDR (via_dk v) \<le> a"
    using keymap_writes_in [of a v] layout_writes_in [of a v] macro_writes_in [of a v] by blast
  then show ?thesis using wf by (auto simp: via_wf_def Let_def VIA_EEPROM_LAYOUT_OPTIONS_ADDR_def)
qed

lemma written_then_kept: "a \<notin> fst ` set ys \<Longrightarrow> write_bytes (xs @ (a, b) # ys) e a = b"
  by (simp add: write_bytes_other)

lemma interrupted_invalid:
  assumes "via_wf v" "0 < k" "k < length (init_writes v)"
  shows "\<not> via_eeprom_is_valid v (write_bytes (take k (init_writes v)) e)"
proof (cases "k \<le> 3 + length (inner_writes v)")
  case True
  let ?M = "VIA_EEPROM_MAGIC_ADDR v" and ?rest = "[(VIA_EEPROM_MAGIC_ADDR v + 1, 0xFF), (VIA_EEPROM_MAGIC_ADDR v + 2, 0xFF)] @ inner_writes v"
  have "init_writes v = ((?M, 0xFF) # ?rest) @ magic_writes v (via_magic v)" by (simp add: init_writes_def magic_writes_def inner_writes_def)
  then have "take k (init_writes v) = take k ((?M, 0xFF) # ?rest)" using True by (simp only: take_append) simp
  then have "take k (init_writes v) = [] @ (?M, 0xFF) # take (k - 1) ?rest" using assms(2) by (simp add: take_Cons')
  moreover have "?M \<notin> fst ` set (take (k - 1) ?rest)"
    using inner_writes_in [OF assms(1), of ?M] by (force dest: in_set_takeD)
  ultimately have "write_bytes (take k (init_writes v)) e ?M = 0xFF" by (metis written_then_kept)
  then show ?thesis using magic_not_erased [OF assms(1)] by (simp add: via_eeprom_is_valid_def)
next
  case False
  let ?M = "VIA_EEPROM_MAGIC_ADDR v" and ?j = "k - (3 + length (inner_writes v))"
  have "length (init_writes v) = 3 + length (inner_writes v) + 3" by (simp add: init_writes_def magic_writes_def inner_writes_def)
  then have j: "?j \<le> 2" using assms(3) by simp
  let ?rest = "inner_writes v @ take ?j (magic_writes v (via_magic v))"
  have "init_writes v = ([(?M, 0xFF), (?M + 1, 0xFF), (?M + 2, 0xFF)] @ inner_writes v) @ magic_writes v (via_magic v)"
    by (simp add: init_writes_def magic_writes_def inner_writes_def)
  then have "take k (init_writes v) = ([(?M, 0xFF), (?M + 1, 0xFF), (?M + 2, 0xFF)] @ inner_writes v) @ take ?j (magic_writes v (via_magic v))"
    using False by (simp only: take_append) (simp add: numeral_3_eq_3)
  then have "take k (init_writes v) = [(?M, 0xFF), (?M + 1, 0xFF)] @ (?M + 2, 0xFF) # ?rest" by simp
  moreover have "?M + 2 \<notin> fst ` set ?rest"
  proof -
    have "?M + 2 \<notin> fst ` set (take ?j (magic_writes v (via_magic v)))"
    proof -
      have "set (take ?j (magic_writes v (via_magic v))) \<subseteq> set (take 2 (magic_writes v (via_magic v)))"
        using j by (rule set_take_subset_set_take)
      then show ?thesis by (force simp: magic_writes_def)
    qed
    then show ?thesis using inner_writes_in [OF assms(1), of "?M + 2"] by (auto simp: image_iff)
  qed
  ultimately have "write_bytes (take k (init_writes v)) e (?M + 2) = 0xFF" by (metis written_then_kept)
  then show ?thesis using magic_not_erased [OF assms(1)] by (simp add: via_eeprom_is_valid_def)
qed

lemma init_valid: "via_wf v \<Longrightarrow> via_eeprom_is_valid v (eeconfig_init_via v e)"
  by (simp add: eeconfig_init_via_def Let_def via_eeprom_is_valid_def via_eeprom_set_valid_def)

text \<open>
  C18. An interrupted initialisation is repeated.  The initialisation is a sequence of updates of single bytes; wherever it
  is cut off, the next start finishes with the EEPROM that the whole initialisation would have left.
\<close>

theorem via_init_resumes:
  assumes "via_wf v" "via_init_kb v = (\<lambda>e. e)" "\<not> via_eeprom_is_valid v e"
  shows "write_bytes (init_writes v) e = eeconfig_init_via v e \<and>
    via_init v (write_bytes (take k (init_writes v)) e) = eeconfig_init_via v e"
proof -
  consider "k = 0" | "0 < k" "k < length (init_writes v)" | "length (init_writes v) \<le> k" by linarith
  then have "via_init v (write_bytes (take k (init_writes v)) e) = eeconfig_init_via v e"
  proof cases
    case 1
    then show ?thesis using assms by (simp add: via_init_def)
  next
    case 2
    then show ?thesis using interrupted_invalid [OF assms(1) 2] assms(2) by (simp add: via_init_def eeconfig_init_writes write_bytes_again)
  next
    case 3
    then show ?thesis using init_valid [OF assms(1), of e] assms(2) by (simp add: via_init_def eeconfig_init_writes)
  qed
  then show ?thesis by (simp add: eeconfig_init_writes)
qed

lemma big_endian_bit:
  "bit (foldl (\<lambda>value i. push_bit 8 value OR ucast (b i)) 0 [0..<n] :: u32) m \<longleftrightarrow>
    m < 32 \<and> m div 8 < n \<and> bit (b (n - 1 - m div 8) :: u8) (m mod 8)"
proof (induction n arbitrary: m)
  case (Suc n)
  show ?case
  proof (cases "m < 8")
    case True
    then show ?thesis by (auto simp: bit_simps)
  next
    case False
    then have m: "m div 8 = Suc ((m - 8) div 8)" "m mod 8 = (m - 8) mod 8" by (simp_all add: le_div_geq le_mod_geq)
    have "\<not> bit (ucast (b n) :: u32) m" using False by (auto simp: bit_simps dest: bit_imp_le_length)
    then show ?thesis using False Suc.IH [of "m - 8"] by (auto simp: bit_or_iff bit_push_bit_iff m)
  qed
qed simp

lemma write_down:
  "i < k \<Longrightarrow> k \<le> Suc n \<Longrightarrow> write_bytes (map (\<lambda>i. (n - i, f i)) [0..<k]) e (n - i) = f i"
  by (induction k) (auto simp: less_Suc_eq)

lemma get_set_layout:
  assumes "VIA_EEPROM_LAYOUT_OPTIONS_SIZE v \<le> 4"
  shows "via_get_layout_options v (via_set_layout_options v value e) = take_bit (8 * VIA_EEPROM_LAYOUT_OPTIONS_SIZE v) value"
proof (rule bit_word_eqI)
  fix m
  assume "m < LENGTH(32)"
  then have m: "m < 32" by simp
  let ?n = "VIA_EEPROM_LAYOUT_OPTIONS_SIZE v" and ?a = "VIA_EEPROM_LAYOUT_OPTIONS_ADDR v"
  have "via_set_layout_options v value e (?a + (?n - 1 - m div 8)) = ucast (drop_bit (8 * (m div 8)) value)" if "m div 8 < ?n"
    using write_down [of "m div 8" ?n "?a + ?n - 1" "\<lambda>i. ucast (drop_bit (8 * i) value)" e] that
    by (simp add: set_layout_writes layout_writes_def)
  then show "bit (via_get_layout_options v (via_set_layout_options v value e)) m \<longleftrightarrow> bit (take_bit (8 * ?n) value) m"
    using m unfolding via_get_layout_options_def big_endian_bit
    by (auto simp: bit_simps less_mult_imp_div_less div_less_iff_less_mult mult.commute)
qed

lemma get_layout_other:
  assumes "\<And>a. VIA_EEPROM_LAYOUT_OPTIONS_ADDR v \<le> a \<Longrightarrow> a < VIA_EEPROM_LAYOUT_OPTIONS_ADDR v + VIA_EEPROM_LAYOUT_OPTIONS_SIZE v \<Longrightarrow>
    e a = e' a"
  shows "via_get_layout_options v e = via_get_layout_options v e'"
  unfolding via_get_layout_options_def by (intro foldl_cong) (simp_all add: assms)

lemma get_keycode_other:
  assumes "in_keymap d l r c"
    and "\<And>a. EEPROM_ADDR d \<le> a \<Longrightarrow> a < EEPROM_ADDR d + LAYER_COUNT d * DK_ROWS d * DK_COLS d * 2 \<Longrightarrow> e a = e' a"
  shows "dynamic_keymap_get_keycode d e l r c = dynamic_keymap_get_keycode d e' l r c"
  using index_less [OF assms(1)] by (simp add: dynamic_keymap_get_keycode_def Let_def address_index assms(2))

text \<open>
  What a start leaves in the EEPROM.  After it the EEPROM is marked as valid.  If it was before nothing changes;
  otherwise the layout options have their default, cut off at the size they are kept in, every key of every layer has the
  keycode of the flash, the macros are empty, and no byte outside these areas and the magic number changes.
\<close>

theorem via_init_defaults:
  assumes "via_wf v" "via_init_kb v = (\<lambda>e. e)"
  shows "let e' = via_init v e; d = via_dk v
    in via_eeprom_is_valid v e' \<and>
       (if via_eeprom_is_valid v e then e' = e
        else via_get_layout_options v e' = take_bit (8 * VIA_EEPROM_LAYOUT_OPTIONS_SIZE v) (VIA_EEPROM_LAYOUT_OPTIONS_DEFAULT v) \<and>
          (\<forall>l p. Dynamic_Keymap.keymap_key_to_keycode d e' l p =
             (if in_keymap d l (unat (row p)) (unat (col p)) then via_keymaps v l (unat (row p)) (unat (col p)) else KC_NO)) \<and>
          dynamic_keymap_macro_get_buffer d e' 0 (MACRO_EEPROM_SIZE d) = replicate (MACRO_EEPROM_SIZE d) 0)"
proof (cases "via_eeprom_is_valid v e")
  case True
  then show ?thesis using assms(2) by (simp add: via_init_def Let_def)
next
  case False
  let ?d = "via_dk v"
  define e1 where "e1 = via_set_layout_options v (VIA_EEPROM_LAYOUT_OPTIONS_DEFAULT v) (via_eeprom_set_valid v False e)"
  define e2 where "e2 = dynamic_keymap_reset ?d (via_keymaps v) e1"
  define e' where "e' = via_init v e"
  have e': "e' = via_eeprom_set_valid v True (dynamic_keymap_macro_reset ?d e2)"
    using False assms(2) by (simp add: e'_def e2_def e1_def via_init_def eeconfig_init_via_def Let_def)
  have low: "VIA_EEPROM_MAGIC_ADDR v + 3 \<le> a \<Longrightarrow> e' a = (if MACRO_EEPROM_ADDR ?d \<le> a \<and> a < MACRO_EEPROM_ADDR ?d + MACRO_EEPROM_SIZE ?d
      then 0 else e2 a)" for a
  proof -
    assume a: "VIA_EEPROM_MAGIC_ADDR v + 3 \<le> a"
    have "e' a = write_bytes (macro_writes v) e2 a" using a by (simp add: e' via_eeprom_set_valid_def macro_reset_writes)
    also have "\<dots> = (if a \<in> fst ` set (macro_writes v) then 0 else e2 a)"
      by (auto simp: write_bytes_other write_bytes_at macro_writes_def map_of_eq_None_iff image_iff dest!: map_of_SomeD split: option.splits)
    finally show ?thesis unfolding macro_writes_in .
  qed
  have wf: "VIA_EEPROM_LAYOUT_OPTIONS_ADDR v + VIA_EEPROM_LAYOUT_OPTIONS_SIZE v \<le> EEPROM_ADDR ?d"
    "EEPROM_ADDR ?d + LAYER_COUNT ?d * DK_ROWS ?d * DK_COLS ?d * 2 \<le> MACRO_EEPROM_ADDR ?d" "VIA_EEPROM_LAYOUT_OPTIONS_SIZE v \<le> 4"
    "VIA_EEPROM_LAYOUT_OPTIONS_ADDR v = VIA_EEPROM_MAGIC_ADDR v + 3"
    using assms(1) by (simp_all add: via_wf_def Let_def VIA_EEPROM_LAYOUT_OPTIONS_ADDR_def)
  have "via_get_layout_options v e' = via_get_layout_options v e1"
  proof (rule get_layout_other)
    fix a assume a: "VIA_EEPROM_LAYOUT_OPTIONS_ADDR v \<le> a" "a < VIA_EEPROM_LAYOUT_OPTIONS_ADDR v + VIA_EEPROM_LAYOUT_OPTIONS_SIZE v"
    then have "a < EEPROM_ADDR ?d" using wf by linarith
    then show "e' a = e1 a" using a wf low [of a] set_many_outside [of "cells ?d" ?d a]
      by (simp add: e2_def reset_cells set_cells)
  qed
  then have "via_get_layout_options v e' = take_bit (8 * VIA_EEPROM_LAYOUT_OPTIONS_SIZE v) (VIA_EEPROM_LAYOUT_OPTIONS_DEFAULT v)"
    using get_set_layout [OF wf(3)] by (simp add: e1_def)
  moreover have "dynamic_keymap_get_keycode ?d e' l r c = via_keymaps v l r c" if "in_keymap ?d l r c" for l r c
  proof -
    have "dynamic_keymap_get_keycode ?d e' l r c = dynamic_keymap_get_keycode ?d e2 l r c"
      using wf low by (intro get_keycode_other [OF that]) simp
    then show ?thesis using set_many [of "cells ?d" ?d l r c] that by (simp add: e2_def reset_cells set_cells)
  qed
  moreover have "dynamic_keymap_macro_get_buffer ?d e' 0 (MACRO_EEPROM_SIZE ?d) = replicate (MACRO_EEPROM_SIZE ?d) 0"
    using wf low by (intro nth_equalityI) (simp_all add: dynamic_keymap_macro_get_buffer_def get_buffer_def)
  moreover have "via_eeprom_is_valid v e'" using False assms(2) init_valid [OF assms(1)] by (simp add: e'_def via_init_def)
  ultimately show ?thesis using False unfolding Let_def e'_def [symmetric]
    by (simp add: Dynamic_Keymap.keymap_key_to_keycode_def in_keymap_def)
qed

text \<open>The witnesses: a keyboard of one key and one layer, with one byte of layout options.\<close>

definition small_via :: via where
  "small_via = \<lparr>VIA_EEPROM_MAGIC_ADDR = 0, VIA_EEPROM_LAYOUT_OPTIONS_SIZE = 1, VIA_EEPROM_LAYOUT_OPTIONS_DEFAULT = 0x105,
     VIA_EEPROM_ALLOW_RESET = False, VIA_CUSTOM_LIGHTING_ENABLE = False,
     QMK_BUILDDATE = [50, 48, 49, 57, 45, 49, 49, 45, 48, 53],
     via_dk = \<lparr>LAYER_COUNT = 1, DK_ROWS = 1, DK_COLS = 1, EEPROM_ADDR = 4, MACRO_COUNT = 1, MACRO_EEPROM_ADDR = 6, MACRO_EEPROM_SIZE = 100\<rparr>,
     via_keymaps = (\<lambda>_ _ _. 0x5C01), via_init_kb = (\<lambda>e. e), raw_hid_receive_kb = raw_hid_receive_kb_default\<rparr>"

lemma small_via: "via_wf small_via" "via_init_kb small_via = (\<lambda>e. e)" "\<not> via_eeprom_is_valid small_via (\<lambda>_. 0xFF)"
  by (simp_all add: via_wf_def small_via_def VIA_EEPROM_LAYOUT_OPTIONS_ADDR_def decimal_digit_def via_eeprom_is_valid_def via_magic_def
      date_byte_def)

lemma via_init_resumes_witness:
  "via_init small_via (write_bytes (take 5 (init_writes small_via)) (\<lambda>_. 0xFF)) = eeconfig_init_via small_via (\<lambda>_. 0xFF)"
  using via_init_resumes [OF small_via, of 5] by blast

lemma via_init_defaults_witness:
  "let e = via_init small_via (\<lambda>_. 0xFF)
   in via_get_layout_options small_via e = 5 \<and> Dynamic_Keymap.keymap_key_to_keycode (via_dk small_via) e 0 \<lparr>col = 0, row = 0\<rparr> = 0x5C01"
  using via_init_defaults [OF small_via(1,2), of "\<lambda>_. 0xFF"] small_via(3)
  by (auto simp: Let_def small_via_def in_keymap_def take_bit_eq_mod)

section \<open>The buffer of a request\<close>

lemma length_write_at: "write_at i bs data = Some data' \<Longrightarrow> length data' = length data"
  by (auto simp: write_at_def split: if_splits)

lemma answer_None: "answer i bs s = None \<longleftrightarrow> length (fst s) < i + length bs"
  by (simp add: answer_def write_at_def not_le)

lemma answer_length: "answer i bs s = Some s' \<Longrightarrow> length (fst s') = length (fst s)"
  by (auto simp: answer_def dest: length_write_at)

lemma matrix_bytes:
  assumes "cols \<le> 32" "(cols div 8 + 1) * n \<le> 28"
  shows "length (concat (map (\<lambda>r. row_bytes cols (f r)) [0..<n])) \<le> 28"
proof -
  have row: "length (row_bytes cols w) \<le> cols div 8 + 1" for w using assms(1) by (auto simp: row_bytes_def)
  have "length (concat (map (\<lambda>r. row_bytes cols (f r)) [0..<n])) \<le> (cols div 8 + 1) * n"
  proof (induction n)
    case (Suc n)
    have "(cols div 8 + 1) * Suc n = (cols div 8 + 1) * n + (cols div 8 + 1)" by (simp only: mult_Suc_right add.commute)
    then show ?case using Suc.IH row [of "f n"] by (simp only: upt_Suc if_True map_append concat_append length_append) simp
  qed simp
  then show ?thesis using assms(2) by linarith
qed

definition overruns :: "via \<Rightarrow> u8 list \<Rightarrow> bool" where
  "overruns v data \<longleftrightarrow> (let d = via_dk v; cmd = data ! 0; n = unat (data ! 3); offset = request_offset data in
     (cmd = id_dynamic_keymap_macro_get_buffer \<or> cmd = id_dynamic_keymap_get_buffer) \<and> length data < 4 + n \<or>
     cmd = id_dynamic_keymap_macro_set_buffer \<and> length data < 4 + min n (MACRO_EEPROM_SIZE d - offset) \<or>
     cmd = id_dynamic_keymap_set_buffer \<and> length data < 4 + min n (keymap_size d - offset))"

text \<open>
  C37. When a request leaves the buffer.  With at least 32 bytes, the only accesses behind the buffer are those of the four
  commands for blocks whose length is more than the buffer has behind its first four bytes (which the code assumes but
  does not test); every other request is answered, with a buffer of the same length.
\<close>

theorem via_request_answered:
  assumes "32 \<le> length data" "DK_COLS (via_dk v) \<le> 32" "\<And>s. length (fst (raw_hid_receive_kb v s)) = length (fst s)"
  shows "(raw_hid_receive v uptime rows (data, e) = None \<longleftrightarrow> overruns v data) \<and>
    (\<forall>s'. raw_hid_receive v uptime rows (data, e) = Some s' \<longrightarrow> length (fst s') = length data)"
proof -
  have kb: "length (fst (raw_hid_receive_kb v (data, e))) = length data" by (simp add: assms(3))
  have lighting: "lighting_request v (data, e) \<noteq> None" "\<forall>s'. lighting_request v (data, e) = Some s' \<longrightarrow> length (fst s') = length data"
    using assms(1) kb by (auto simp: lighting_request_def unhandled_def answer_None simp del: not_None_eq dest: answer_length)
  have get: "get_keyboard_value v uptime rows (data, e) \<noteq> None"
    "\<forall>s'. get_keyboard_value v uptime rows (data, e) = Some s' \<longrightarrow> length (fst s') = length data"
    using assms(1) kb matrix_bytes [OF assms(2), of "DK_ROWS (via_dk v)" rows]
    by (auto simp: get_keyboard_value_def Let_def answer_None bytes_of_u32_def simp del: not_None_eq dest: answer_length split: if_splits)
  have set_value: "set_keyboard_value v (data, e) \<noteq> None"
    "\<forall>s'. set_keyboard_value v (data, e) = Some s' \<longrightarrow> length (fst s') = length data"
    using kb by (auto simp: set_keyboard_value_def Let_def)
  have buffer: "take_buffer area f (data, e) = None \<longleftrightarrow> length data < 4 + min (unat (data ! 3)) (area - request_offset data)"
    "\<forall>s'. take_buffer area f (data, e) = Some s' \<longrightarrow> length (fst s') = length data" for area f
    by (auto simp: take_buffer_def Let_def)
  note buffer_length = buffer(2) [rule_format]
  have size: "length (dynamic_keymap_macro_get_buffer d e i n) = n" "length (dynamic_keymap_get_buffer d e i n) = n" for d i n
    by (simp_all add: dynamic_keymap_macro_get_buffer_def dynamic_keymap_get_buffer_def get_buffer_def)
  show ?thesis
    using assms(1) lighting get set_value
    by (auto simp: raw_hid_receive_def Let_def overruns_def answer_None buffer(1) size unhandled_def bytes_of_u16_def
        dest: answer_length buffer_length
        split: if_splits)
qed

text \<open>The witness: a request for 60 bytes of the macros in a buffer of 32 bytes, and one for 28.\<close>

lemma via_request_answered_witness:
  "raw_hid_receive small_via 0 (\<lambda>_. 0) ([0x0E, 0, 0, 60] @ replicate 28 0, \<lambda>_. 0) = None \<and>
   raw_hid_receive small_via 0 (\<lambda>_. 0) ([0x0E, 0, 0, 28] @ replicate 28 0, \<lambda>_. 0) \<noteq> None"
proof -
  have kb: "length (fst (raw_hid_receive_kb small_via s)) = length (fst s)" for s
    by (cases s) (simp add: small_via_def raw_hid_receive_kb_default_def)
  have cols: "DK_COLS (via_dk small_via) \<le> 32" by (simp add: small_via_def)
  have "overruns small_via ([0x0E, 0, 0, 60] @ replicate 28 0)" "\<not> overruns small_via ([0x0E, 0, 0, 28] @ replicate 28 0)"
    by (simp_all add: overruns_def Let_def)
  then show ?thesis
    using via_request_answered [OF _ cols kb, of "[0x0E, 0, 0, 60] @ replicate 28 0" 0 "\<lambda>_. 0" "\<lambda>_. 0"]
      via_request_answered [OF _ cols kb, of "[0x0E, 0, 0, 28] @ replicate 28 0" 0 "\<lambda>_. 0" "\<lambda>_. 0"]
    by (simp del: not_None_eq append.simps)
qed

section \<open>Keys over requests\<close>

lemma bytes_of_two:
  fixes hi lo :: u8
  shows "bytes_of_u16 (push_bit 8 (ucast hi) OR ucast lo) = [hi, lo]"
proof -
  have m: "(0xFF :: u16) = mask 8" by (simp add: mask_eq_exp_minus_1)
  show ?thesis unfolding bytes_of_u16_def m by (auto simp: bit_eq_iff bit_simps dest: bit_imp_le_length)
qed

text \<open>
  C38. The host sets a key.  After the request that sets the keycode of a position of the keymap, the keyboard looks up
  this keycode there and every other position has what it had before; and the request that asks for the position is
  answered with the two bytes.
\<close>

theorem via_sets_key:
  assumes "in_keymap (via_dk v) (unat l) (unat r) (unat c)"
  shows "\<exists>e'. raw_hid_receive v t rows ([id_dynamic_keymap_set_keycode, l, r, c, hi, lo] @ xs, e) =
      Some ([id_dynamic_keymap_set_keycode, l, r, c, hi, lo] @ xs, e') \<and>
    (\<forall>l' p. Dynamic_Keymap.keymap_key_to_keycode (via_dk v) e' l' p =
       (if (l', row p, col p) = (unat l, r, c) then push_bit 8 (ucast hi) OR ucast lo
        else Dynamic_Keymap.keymap_key_to_keycode (via_dk v) e l' p)) \<and>
    raw_hid_receive v t' rows ([id_dynamic_keymap_get_keycode, l, r, c, x, y] @ xs, e') =
      Some ([id_dynamic_keymap_get_keycode, l, r, c, hi, lo] @ xs, e')"
proof -
  let ?k = "push_bit 8 (ucast hi) OR ucast lo :: u16"
  define e' where "e' = dynamic_keymap_set_keycode (via_dk v) (unat l) (unat r) (unat c) ?k e"
  have look: "Dynamic_Keymap.keymap_key_to_keycode (via_dk v) e' l' p =
      (if (l', row p, col p) = (unat l, r, c) then ?k else Dynamic_Keymap.keymap_key_to_keycode (via_dk v) e l' p)" for l' p
    using get_after_set [OF assms, of l' "unat (row p)" "unat (col p)"] assms
    by (auto simp: e'_def Dynamic_Keymap.keymap_key_to_keycode_def in_keymap_def word_unat_eq_iff)
  have "dynamic_keymap_get_keycode (via_dk v) e' (unat l) (unat r) (unat c) = ?k"
    using get_after_set [OF assms assms] by (simp add: e'_def)
  then have "raw_hid_receive v t' rows ([id_dynamic_keymap_get_keycode, l, r, c, x, y] @ xs, e') =
      Some ([id_dynamic_keymap_get_keycode, l, r, c, hi, lo] @ xs, e')"
    by (simp add: raw_hid_receive_def bytes_of_two answer_def) (simp add: bytes_of_two write_at_def eval_nat_numeral)
  moreover have "raw_hid_receive v t rows ([id_dynamic_keymap_set_keycode, l, r, c, hi, lo] @ xs, e) =
      Some ([id_dynamic_keymap_set_keycode, l, r, c, hi, lo] @ xs, e')"
    by (simp add: raw_hid_receive_def e'_def)
  ultimately show ?thesis using look by blast
qed

lemma via_sets_key_witness:
  "\<exists>e. raw_hid_receive small_via 0 (\<lambda>_. 0) ([5, 0, 0, 0, 0x5C, 0x10] @ replicate 26 0, \<lambda>_. 0) =
      Some ([5, 0, 0, 0, 0x5C, 0x10] @ replicate 26 0, e) \<and>
     Dynamic_Keymap.keymap_key_to_keycode (via_dk small_via) e 0 \<lparr>col = 0, row = 0\<rparr> = 0x5C10"
proof -
  have "in_keymap (via_dk small_via) (unat (0 :: u8)) (unat (0 :: u8)) (unat (0 :: u8))" by (simp add: small_via_def in_keymap_def)
  from via_sets_key [OF this, of 0 "\<lambda>_. 0" "0x5C" "0x10" "replicate 26 0" "\<lambda>_. 0" 0 0 0] obtain e where
    set_key: "raw_hid_receive small_via 0 (\<lambda>_. 0) ([5, 0, 0, 0, 0x5C, 0x10] @ replicate 26 0, \<lambda>_. 0) =
      Some ([5, 0, 0, 0, 0x5C, 0x10] @ replicate 26 0, e)" and
    look: "\<forall>l' p. Dynamic_Keymap.keymap_key_to_keycode (via_dk small_via) e l' p =
       (if (l', row p, col p) = (unat (0 :: u8), 0, 0) then push_bit 8 (ucast (0x5C :: u8)) OR ucast (0x10 :: u8)
        else Dynamic_Keymap.keymap_key_to_keycode (via_dk small_via) (\<lambda>_. 0) l' p)" by blast
  then show ?thesis using spec [OF spec [OF look, of 0], of "\<lparr>col = 0, row = 0\<rparr>"] by (intro exI [of _ e] conjI) simp_all
qed

text \<open>A position behind the keymap is not refused: here the request for the second layer of one writes into the macros.\<close>

lemma position_is_not_checked:
  "\<exists>e. raw_hid_receive small_via 0 (\<lambda>_. 0) ([5, 1, 0, 0, 7, 8] @ replicate 26 0, \<lambda>_. 0) = Some ([5, 1, 0, 0, 7, 8] @ replicate 26 0, e) \<and>
     e (MACRO_EEPROM_ADDR (via_dk small_via)) = 7"
  by (simp add: raw_hid_receive_def small_via_def dynamic_keymap_set_keycode_def dynamic_keymap_key_to_eeprom_address_def Let_def)

text \<open>A command that the code does not know does not reach the keyboard, although a comment of the code says so.\<close>

lemma unknown_command_is_not_routed:
  "0x14 \<le> data ! 0 \<Longrightarrow> data \<noteq> [] \<Longrightarrow> raw_hid_receive v t rows (data, e) = Some (id_unhandled # tl data, e)"
  by (cases data) (auto simp: raw_hid_receive_def Let_def unhandled_def answer_def write_at_def word_le_nat_alt)

section \<open>The two keys of a tri-layer\<close>

definition via_keys ::
    "via \<Rightarrow> luts \<Rightarrow> 's config \<Rightarrow> eeprom \<Rightarrow> (u16 \<times> bool) list \<Rightarrow> 'a layer_st_scheme \<Rightarrow> 'a layer_st_scheme option" where
  "via_keys v l c e es s =
     foldl (\<lambda>os (k, down). Option.bind os (\<lambda>s. map_option snd (process_record_via v l c e k down s))) (Some s) es"

definition fn_down :: "u16 \<Rightarrow> (u16 \<times> bool) list \<Rightarrow> bool" where
  "fn_down k es = foldl (\<lambda>d (k', down). if k' = k then down else d) False es"

lemma fn_mo_layers:
  assumes "\<And>st. layer_state_set_kb c st = st" "layer = 1 \<or> layer = 2"
  shows "bit (layer_state (fn_mo c layer down s)) n \<longleftrightarrow>
    (let on = \<lambda>n. if n = layer then down else bit (layer_state s) n in if n = 3 then on 1 \<and> on 2 else on n)"
proof -
  have on: "bit (layer_state ((if down then layer_on c (of_nat layer) else layer_off c (of_nat layer)) s)) n \<longleftrightarrow>
      (if n = layer then down else bit (layer_state s) n)" for n
    using assms(2) by (auto simp: layer_on_def layer_off_def layer_bit_def assms(1) bit_or_bitmask bit_and_not_bitmask)
  show ?thesis by (simp add: fn_mo_def update_tri_layer_def assms(1) bit_tri_layer on Let_def)
qed

text \<open>
  C39. The two function keys together.  From no layer on, after any presses and releases of \<^verbatim>\<open>FN_MO13\<close> and \<^verbatim>\<open>FN_MO23\<close>
  layer 1 is on exactly while the first is down, layer 2 while the second is, layer 3 while both are, and no other layer.
\<close>

theorem fn_keys_make_layers:
  assumes "\<And>st. layer_state_set_kb c st = st" "layer_state s = 0" "fst ` set es \<subseteq> {FN_MO13, FN_MO23}"
  shows "\<exists>s'. via_keys v l c e es s = Some s' \<and>
    (\<forall>n. bit (layer_state s') n \<longleftrightarrow> n = 1 \<and> fn_down FN_MO13 es \<or> n = 2 \<and> fn_down FN_MO23 es \<or>
       n = 3 \<and> fn_down FN_MO13 es \<and> fn_down FN_MO23 es)"
  using assms(3)
proof (induction es rule: rev_induct)
  case Nil
  then show ?case using assms(2) by (simp add: via_keys_def fn_down_def)
next
  case (snoc ev es)
  obtain k down where ev: "ev = (k, down)" by (cases ev)
  obtain s1 where s1: "via_keys v l c e es s = Some s1" "\<forall>n. bit (layer_state s1) n \<longleftrightarrow> n = 1 \<and> fn_down FN_MO13 es \<or>
      n = 2 \<and> fn_down FN_MO23 es \<or> n = 3 \<and> fn_down FN_MO13 es \<and> fn_down FN_MO23 es"
    using snoc by auto
  have fn: "fn_down k' (es @ [ev]) = (if k = k' then down else fn_down k' es)" for k' by (auto simp: fn_down_def ev)
  have k: "k = FN_MO13 \<or> k = FN_MO23" using snoc.prems by (simp add: ev)
  then have "via_keys v l c e (es @ [ev]) s = Some (fn_mo c (if k = FN_MO13 then 1 else 2) down s1)"
    using s1(1) by (auto simp: via_keys_def ev process_record_via_def)
  then show ?case using k fn_mo_layers [OF assms(1), of "if k = FN_MO13 then 1 else 2" down s1]
    by (auto simp: fn s1(2) Let_def)
qed

lemma fn_keys_make_layers_witness:
  "let c = default_config (\<lambda>_ _. 0) :: unit config; es = [(FN_MO13, True), (FN_MO23, True), (FN_MO13, False)]
   in \<exists>s. via_keys small_via ascii_luts c (\<lambda>_. 0) es (layer_init c) = Some s \<and> bit (layer_state s) 2 \<and> \<not> bit (layer_state s) 3"
proof -
  let ?c = "default_config (\<lambda>_ _. 0) :: unit config"
  have "layer_state_set_kb ?c st = st" for st by (simp add: default_config_def)
  from fn_keys_make_layers [OF this, of "layer_init ?c" "[(FN_MO13, True), (FN_MO23, True), (FN_MO13, False)]" small_via ascii_luts "\<lambda>_. 0"]
  show ?thesis unfolding Let_def by (auto simp: layer_init_def fn_down_def)
qed

end
