(* ===== verification/Combo.thy ===== *)
theory Combo
  imports Action_Util "HOL-Library.Sublist"
begin

text \<open>
  Combos, \<^verbatim>\<open>quantum/process_keycode/process_combo.c\<close>: chords of keys that act as one key.  The presses of keys that may
  belong to a chord wait in a buffer; a full chord waits in a ring until its term has passed or another key comes, and
  then turns the last of its presses into its own.  What the module passes on is the list \<open>combo_out\<close>; in the firmware
  \<open>action_tapping_process\<close> gets the records and the keymap the events.  The options of a build are the record
  \<open>combo_config\<close>, its functions the ones a keymap may override.  The state of a chord is a byte, as in a build for chords
  of up to eight keys.  Builds without \<^verbatim>\<open>COMBO_ONLY_FROM_LAYER\<close> and with the timer.
\<close>

section \<open>The data\<close>

record combo_config =
  COMBO_HOLD_TERM :: u16
  COMBO_STRICT_TIMER :: bool
  COMBO_KEY_BUFFER_LENGTH :: nat
  COMBO_BUFFER_LENGTH :: nat
  get_combo_term :: "nat \<Rightarrow> u16"
  get_combo_must_hold :: "nat \<Rightarrow> u16 \<Rightarrow> bool"
  get_combo_must_tap :: "nat \<Rightarrow> bool"
  process_combo_key_release :: "nat \<Rightarrow> nat \<Rightarrow> u16 \<Rightarrow> bool"

text \<open>The keys of a combo are those before the terminator \<^verbatim>\<open>COMBO_END\<close>, which is 0.\<close>

record combo_t =
  combo_keys :: "u16 list"
  combo_keycode :: u16
  combo_disabled :: bool
  combo_active :: bool
  combo_state :: u8

definition COMBO_END :: u16 where "COMBO_END = 0"

definition COMBO :: "u16 list \<Rightarrow> u16 \<Rightarrow> combo_t" where
  "COMBO ck ca = \<lparr>combo_keys = ck, combo_keycode = ca, combo_disabled = False, combo_active = False, combo_state = 0\<rparr>"

text \<open>\<open>None\<close> is the index -1.\<close>

record queued_record_t =
  q_record :: keyrecord_t
  q_combo :: "nat option"
  q_keycode :: u16

datatype combo_out = Process keyrecord_t | Combo_event nat bool

record combo_st =
  key_combos :: "combo_t list"
  combo_timer :: u16
  b_combo_enable :: bool
  longest_term :: u16
  key_buffer :: "queued_record_t list"
  combo_buffer_write :: nat
  combo_buffer_read :: nat
  combo_buffer :: "nat list"
  combo_out :: "combo_out list"


definition COMBO_KEY_POS :: keypos_t where "COMBO_KEY_POS = \<lparr>col = 254, row = 254\<rparr>"

definition combo_init :: "combo_config \<Rightarrow> combo_t list \<Rightarrow> combo_st" where
  "combo_init cc cs = \<lparr>key_combos = cs, combo_timer = 0, b_combo_enable = True, longest_term = 0, key_buffer = [],
     combo_buffer_write = 0, combo_buffer_read = 0, combo_buffer = replicate (COMBO_BUFFER_LENGTH cc) 0, combo_out = []\<rparr>"

definition KEYCODE_IS_MOD :: "u16 \<Rightarrow> bool" where
  "KEYCODE_IS_MOD code \<longleftrightarrow> IS_MOD code \<or> code \<ge> QK_MODS \<and> code \<le> QK_MODS_MAX \<and> code AND QK_BASIC_MAX = 0"

text \<open>The rule of \<^verbatim>\<open>COMBO_MUST_HOLD_MODS\<close>, for \<open>get_combo_must_hold\<close>.\<close>

definition must_hold_mods :: "u16 \<Rightarrow> bool" where
  "must_hold_mods keycode \<longleftrightarrow> KEYCODE_IS_MOD keycode \<or> keycode \<ge> QK_MOMENTARY \<and> keycode \<le> QK_MOMENTARY_MAX"

definition default_combo_config :: combo_config where
  "default_combo_config = \<lparr>COMBO_HOLD_TERM = 200, COMBO_STRICT_TIMER = False, COMBO_KEY_BUFFER_LENGTH = 8,
     COMBO_BUFFER_LENGTH = 4, get_combo_term = (\<lambda>_. 50), get_combo_must_hold = (\<lambda>_ _. False), get_combo_must_tap = (\<lambda>_. False),
     process_combo_key_release = (\<lambda>_ _ _. False)\<rparr>"

section \<open>Combos\<close>

definition set_combo :: "nat \<Rightarrow> (combo_t \<Rightarrow> combo_t) \<Rightarrow> combo_st \<Rightarrow> combo_st" where
  "set_combo i f s = s\<lparr>key_combos := (key_combos s)[i := f (key_combos s ! i)]\<rparr>"

definition emit :: "combo_out \<Rightarrow> combo_st \<Rightarrow> combo_st" where
  "emit out s = s\<lparr>combo_out := combo_out s @ [out]\<rparr>"

abbreviation DISABLE_COMBO :: "combo_t \<Rightarrow> combo_t" where "DISABLE_COMBO cb \<equiv> cb\<lparr>combo_disabled := True\<rparr>"
abbreviation ACTIVATE_COMBO :: "combo_t \<Rightarrow> combo_t" where "ACTIVATE_COMBO cb \<equiv> cb\<lparr>combo_active := True\<rparr>"
abbreviation DEACTIVATE_COMBO :: "combo_t \<Rightarrow> combo_t" where "DEACTIVATE_COMBO cb \<equiv> cb\<lparr>combo_active := False\<rparr>"
abbreviation RESET_COMBO_STATE :: "combo_t \<Rightarrow> combo_t" where "RESET_COMBO_STATE cb \<equiv> cb\<lparr>combo_disabled := False, combo_state := 0\<rparr>"

text \<open>The time is the argument \<open>now\<close>.\<close>

definition release_combo :: "u16 \<Rightarrow> nat \<Rightarrow> combo_st \<Rightarrow> combo_st" where
  "release_combo now i s =
     (let keycode = combo_keycode (key_combos s ! i);
          s = emit (if keycode \<noteq> 0
                then Process \<lparr>event = \<lparr>key = COMBO_KEY_POS, pressed = False, time = now OR 1\<rparr>, tap_interrupted = False, tap_count = 0,
                       rec_keycode = keycode\<rparr>
                else Combo_event i False) s
      in set_combo i DEACTIVATE_COMBO s)"

definition must_hold :: "combo_config \<Rightarrow> nat \<Rightarrow> combo_st \<Rightarrow> bool" where
  "must_hold cc i s = get_combo_must_hold cc i (combo_keycode (key_combos s ! i))"

definition get_wait_time :: "combo_config \<Rightarrow> nat \<Rightarrow> combo_st \<Rightarrow> u16" where
  "get_wait_time cc i s =
     (if (must_hold cc i s \<or> get_combo_must_tap cc i) \<and> longest_term s < COMBO_HOLD_TERM cc then COMBO_HOLD_TERM cc else longest_term s)"

definition clear_combos :: "combo_st \<Rightarrow> combo_st" where
  "clear_combos s = s\<lparr>longest_term := 0,
     key_combos := map (\<lambda>cb. if \<not> combo_active cb then RESET_COMBO_STATE cb else cb) (key_combos s)\<rparr>"

definition dump_record :: "combo_st \<Rightarrow> queued_record_t \<Rightarrow> combo_st" where
  "dump_record s q =
     (if IS_NOEVENT (event (q_record q)) then s
      else if rec_keycode (q_record q) = 0 \<and> q_combo q \<noteq> None then emit (Combo_event (the (q_combo q)) True) s
      else emit (Process (q_record q)) s)"

text \<open>The processing of the records does not come back to this module, so the loop starts at the first record.\<close>

definition dump_key_buffer :: "combo_st \<Rightarrow> combo_st" where
  "dump_key_buffer s = (foldl dump_record s (key_buffer s))\<lparr>key_buffer := []\<rparr>"

definition ALL_COMBO_KEYS_ARE_DOWN :: "u8 \<Rightarrow> nat \<Rightarrow> bool" where "ALL_COMBO_KEYS_ARE_DOWN st key_count \<longleftrightarrow> 2 ^ key_count - 1 = unat st"
definition ONLY_ONE_KEY_IS_DOWN :: "u8 \<Rightarrow> bool" where "ONLY_ONE_KEY_IS_DOWN st \<longleftrightarrow> st AND (st - 1) = 0"
definition KEY_NOT_YET_RELEASED :: "u8 \<Rightarrow> nat \<Rightarrow> bool" where "KEY_NOT_YET_RELEASED st key_index \<longleftrightarrow> bitmask key_index AND st \<noteq> 0"
definition KEY_STATE_DOWN :: "nat \<Rightarrow> u8 \<Rightarrow> u8" where "KEY_STATE_DOWN key_index st = st OR bitmask key_index"
definition KEY_STATE_UP :: "nat \<Rightarrow> u8 \<Rightarrow> u8" where "KEY_STATE_UP key_index st = st AND NOT (bitmask key_index)"

text \<open>The comparison with the keycode comes before the test for the terminator.\<close>

fun find_key_index_and_count :: "u16 list \<Rightarrow> u16 \<Rightarrow> nat option \<Rightarrow> nat \<Rightarrow> nat option \<times> nat" where
  "find_key_index_and_count [] keycode key_index key_count = (if keycode = COMBO_END then Some key_count else key_index, key_count)"
| "find_key_index_and_count (k # ks) keycode key_index key_count =
     find_key_index_and_count ks keycode (if keycode = k then Some key_count else key_index) (key_count + 1)"

text \<open>The places of the ring from the next to read to the last written.\<close>

definition queue_places :: "combo_config \<Rightarrow> combo_st \<Rightarrow> nat list" where
  "queue_places cc s = map (\<lambda>j. (combo_buffer_read s + j) mod COMBO_BUFFER_LENGTH cc)
     [0..<(combo_buffer_write s + COMBO_BUFFER_LENGTH cc - combo_buffer_read s) mod COMBO_BUFFER_LENGTH cc]"

definition next_place :: "combo_config \<Rightarrow> nat \<Rightarrow> nat" where
  "next_place cc i = (i + 1) mod COMBO_BUFFER_LENGTH cc"

definition drop_combo_from_buffer :: "combo_config \<Rightarrow> nat \<Rightarrow> combo_st \<Rightarrow> combo_st" where
  "drop_combo_from_buffer cc combo_index s =
     (case List.find (\<lambda>i. combo_buffer s ! i = combo_index) (queue_places cc s) of
        None \<Rightarrow> s
      | Some i \<Rightarrow> (let s = set_combo combo_index DISABLE_COMBO s
          in if i = combo_buffer_read s then s\<lparr>combo_buffer_read := next_place cc (combo_buffer_read s)\<rparr> else s))"

text \<open>The second component is whether the last key of the combo has been found.\<close>

fun apply_records :: "combo_t \<Rightarrow> nat \<Rightarrow> u8 \<Rightarrow> queued_record_t list \<Rightarrow> queued_record_t list \<times> bool" where
  "apply_records cb i st [] = ([], False)"
| "apply_records cb i st (q # qs) =
     (case find_key_index_and_count (combo_keys cb) (q_keycode q) None 0 of
        (None, _) \<Rightarrow> apfst (Cons q) (apply_records cb i st qs)
      | (Some key_index, key_count) \<Rightarrow>
          (let st = KEY_STATE_DOWN key_index st; r = q_record q
           in if ALL_COMBO_KEYS_ARE_DOWN st key_count
              then (q\<lparr>q_record := r\<lparr>rec_keycode := combo_keycode cb, event := (event r)\<lparr>key := COMBO_KEY_POS\<rparr>\<rparr>, q_combo := Some i\<rparr> # qs, True)
              else apfst (Cons (q\<lparr>q_record := r\<lparr>event := (event r)\<lparr>time := 0\<rparr>\<rparr>\<rparr>)) (apply_records cb i st qs)))"

definition apply_combo :: "combo_config \<Rightarrow> nat \<Rightarrow> combo_st \<Rightarrow> combo_st" where
  "apply_combo cc i s =
     (if combo_disabled (key_combos s ! i) then s
      else let (qs, found) = apply_records (key_combos s ! i) i 0 (key_buffer s);
               s = s\<lparr>key_buffer := qs\<rparr>; s = (if found then set_combo i ACTIVATE_COMBO s else s)
           in drop_combo_from_buffer cc i s)"

definition apply_combos :: "combo_config \<Rightarrow> combo_st \<Rightarrow> combo_st" where
  "apply_combos cc s =
     (let s = foldl (\<lambda>s p. let i = combo_buffer s ! p
                in if get_combo_must_tap cc i then drop_combo_from_buffer cc i s else apply_combo cc i s) s (queue_places cc s)
      in clear_combos (dump_key_buffer s))"

text \<open>The combo that is dropped of two that share a key.\<close>

definition overlaps :: "nat \<Rightarrow> nat \<Rightarrow> combo_st \<Rightarrow> nat option" where
  "overlaps i j s =
     (let ks1 = combo_keys (key_combos s ! i); ks2 = combo_keys (key_combos s ! j)
      in if set ks1 \<inter> set ks2 = {} then None else if length ks2 < length ks1 then Some j else Some i)"

text \<open>The loop over the ready combos; the first component is whether the new one is dropped.\<close>

fun disable_overlapping :: "combo_config \<Rightarrow> nat \<Rightarrow> nat list \<Rightarrow> combo_st \<Rightarrow> bool \<times> combo_st" where
  "disable_overlapping cc i [] s = (False, s)"
| "disable_overlapping cc i (p # ps) s =
     (case overlaps (combo_buffer s ! p) i s of
        None \<Rightarrow> disable_overlapping cc i ps s
      | Some d \<Rightarrow> (let s = set_combo d DISABLE_COMBO s
          in if d = i then (True, s)
             else disable_overlapping cc i ps
               (if p = combo_buffer_read s then s\<lparr>combo_buffer_read := next_place cc (combo_buffer_read s)\<rparr> else s)))"

definition queue_combo :: "combo_config \<Rightarrow> nat \<Rightarrow> combo_st \<Rightarrow> combo_st" where
  "queue_combo cc i s =
     (let (dropped, s) = disable_overlapping cc i (queue_places cc s) s
      in if dropped then s
         else let s = s\<lparr>combo_buffer := (combo_buffer s)[combo_buffer_write s := i], combo_buffer_write := next_place cc (combo_buffer_write s)\<rparr>
              in s\<lparr>longest_term := get_wait_time cc i s\<rparr>)"

definition combo_press :: "combo_config \<Rightarrow> u16 \<Rightarrow> nat \<Rightarrow> nat \<Rightarrow> nat \<Rightarrow> combo_st \<Rightarrow> combo_st" where
  "combo_press cc now i key_index key_count s =
     (let term = get_combo_term cc i;
          s = (if combo_active (key_combos s ! i) then s
               else let s = set_combo i (combo_state_update (KEY_STATE_DOWN key_index)) s
                    in if longest_term s < term then s\<lparr>longest_term := term\<rparr> else s)
      in if ALL_COMBO_KEYS_ARE_DOWN (combo_state (key_combos s ! i)) key_count
         then if combo_timer s \<noteq> 0 \<and> TIMER_DIFF_16 now (combo_timer s) > term then set_combo i DISABLE_COMBO s else queue_combo cc i s
         else s)"

definition combo_release :: "combo_config \<Rightarrow> u16 \<Rightarrow> u16 \<Rightarrow> nat \<Rightarrow> nat \<Rightarrow> nat \<Rightarrow> bool \<Rightarrow> combo_st \<Rightarrow> bool \<times> combo_st" where
  "combo_release cc now keycode i key_index key_count part s =
     (let cb = key_combos s ! i; st = combo_state cb; up = set_combo i (combo_state_update (KEY_STATE_UP key_index))
      in if \<not> combo_active cb \<and> ALL_COMBO_KEYS_ARE_DOWN st key_count then
           if combo_disabled cb \<or> must_hold cc i s then (False, up (drop_combo_from_buffer cc i s))
           else if get_combo_must_tap cc i
           then let s = apply_combos cc (apply_combo cc i s)
                in (part, up (if process_combo_key_release cc i key_index keycode then release_combo now i s else s))
           else (part, up s)
         else if combo_active cb \<and> ONLY_ONE_KEY_IS_DOWN st \<and> KEY_NOT_YET_RELEASED st key_index then (True, up (release_combo now i s))
         else if combo_active cb \<and> KEY_NOT_YET_RELEASED st key_index
         then (True, up (if process_combo_key_release cc i key_index keycode then release_combo now i s else s))
         else (False, up s))"

definition process_single_combo :: "combo_config \<Rightarrow> u16 \<Rightarrow> u16 \<Rightarrow> bool \<Rightarrow> nat \<Rightarrow> combo_st \<Rightarrow> bool \<times> combo_st" where
  "process_single_combo cc now keycode down i s =
     (case find_key_index_and_count (combo_keys (key_combos s ! i)) keycode None 0 of
        (None, _) \<Rightarrow> (False, s)
      | (Some key_index, key_count) \<Rightarrow>
          (let part = (\<not> combo_disabled (key_combos s ! i) \<and> b_combo_enable s)
           in if down \<and> part then (part, combo_press cc now i key_index key_count s)
              else combo_release cc now keycode i key_index key_count part s))"

definition combo_enable :: "combo_st \<Rightarrow> combo_st" where "combo_enable s = s\<lparr>b_combo_enable := True\<rparr>"

definition combo_disable :: "combo_st \<Rightarrow> combo_st" where
  "combo_disable s =
     dump_key_buffer (clear_combos (s\<lparr>combo_timer := 0, b_combo_enable := False, combo_buffer_read := combo_buffer_write s\<rparr>))"

definition combo_toggle :: "combo_st \<Rightarrow> combo_st" where
  "combo_toggle s = (if b_combo_enable s then combo_disable s else combo_enable s)"

definition process_combos :: "combo_config \<Rightarrow> u16 \<Rightarrow> u16 \<Rightarrow> bool \<Rightarrow> combo_st \<Rightarrow> bool \<times> combo_st" where
  "process_combos cc now keycode down s =
     foldl (\<lambda>(is_combo_key, s) i. let (b, s) = process_single_combo cc now keycode down i s in (is_combo_key \<or> b, s))
       (False, s) [0..<length (key_combos s)]"

definition process_combo :: "combo_config \<Rightarrow> u16 \<Rightarrow> u16 \<Rightarrow> keyrecord_t \<Rightarrow> combo_st \<Rightarrow> bool \<times> combo_st" where
  "process_combo cc now keycode r s =
     (let down = pressed (event r)
      in if keycode = CMB_ON \<and> down then (True, combo_enable s)
         else if keycode = CMB_OFF \<and> down then (True, combo_disable s)
         else if keycode = CMB_TOG \<and> down then (True, combo_toggle s)
         else let (is_combo_key, s) = process_combos cc now keycode down s
              in (\<not> is_combo_key,
                  if down \<and> is_combo_key
                  then let s = (if COMBO_STRICT_TIMER cc \<and> combo_timer s \<noteq> 0 then s else s\<lparr>combo_timer := now\<rparr>)
                       in if length (key_buffer s) < COMBO_KEY_BUFFER_LENGTH cc
                          then s\<lparr>key_buffer := key_buffer s @ [\<lparr>q_record = r, q_combo = None, q_keycode = keycode\<rparr>]\<rparr> else s
                  else if combo_buffer_read s \<noteq> combo_buffer_write s then apply_combos cc s
                  else clear_combos ((dump_key_buffer s)\<lparr>combo_timer := 0\<rparr>)))"

definition combo_task :: "combo_config \<Rightarrow> u16 \<Rightarrow> combo_st \<Rightarrow> combo_st" where
  "combo_task cc now s =
     (if b_combo_enable s \<and> combo_timer s \<noteq> 0 \<and> TIMER_DIFF_16 now (combo_timer s) > longest_term s
      then if combo_buffer_read s \<noteq> combo_buffer_write s then (apply_combos cc s)\<lparr>longest_term := 0, combo_timer := 0\<rparr>
           else clear_combos ((dump_key_buffer s)\<lparr>combo_timer := 0\<rparr>)
      else s)"

text \<open>A key event: what is not taken goes on to the tapping.\<close>

definition combo_exec :: "combo_config \<Rightarrow> u16 \<Rightarrow> u16 \<Rightarrow> keyrecord_t \<Rightarrow> combo_st \<Rightarrow> combo_st" where
  "combo_exec cc now keycode r s =
     (let (go_on, s) = process_combo cc now keycode r s in if go_on then emit (Process r) s else s)"

text \<open>The record of a key as it comes from the matrix.\<close>

definition key_record :: "(u16 \<Rightarrow> keypos_t) \<Rightarrow> u16 \<Rightarrow> bool \<Rightarrow> u16 \<Rightarrow> keyrecord_t" where
  "key_record pos k down now =
     \<lparr>event = \<lparr>key = pos k, pressed = down, time = now OR 1\<rparr>, tap_interrupted = False, tap_count = 0, rec_keycode = 0\<rparr>"

text \<open>Key events with their keycode and time, and the task.\<close>

datatype combo_ev = Key_at u16 bool u16 | Task_at u16

definition combo_step :: "combo_config \<Rightarrow> (u16 \<Rightarrow> keypos_t) \<Rightarrow> combo_st \<Rightarrow> combo_ev \<Rightarrow> combo_st" where
  "combo_step cc pos s ev =
     (case ev of Key_at k down now \<Rightarrow> combo_exec cc now k (key_record pos k down now) s | Task_at now \<Rightarrow> combo_task cc now s)"

definition letter_pos :: "u16 \<Rightarrow> keypos_t" where "letter_pos k = \<lparr>col = ucast k, row = 0\<rparr>"

text \<open>What happens when an event is not buffered.\<close>

definition flush :: "combo_config \<Rightarrow> combo_st \<Rightarrow> combo_st" where
  "flush cc s = (if combo_buffer_read s \<noteq> combo_buffer_write s then apply_combos cc s
     else clear_combos ((dump_key_buffer s)\<lparr>combo_timer := 0\<rparr>))"

section \<open>The order of the presses\<close>

definition press_times :: "combo_out list \<Rightarrow> u16 list" where
  "press_times outs = concat (map (\<lambda>out. case out of Process r \<Rightarrow> if pressed (event r) then [time (event r)] else [] | Combo_event i b \<Rightarrow> []) outs)"

definition waiting_times :: "queued_record_t list \<Rightarrow> u16 list" where
  "waiting_times qs = filter (\<lambda>t. t \<noteq> 0) (map (\<lambda>q. time (event (q_record q))) qs)"

lemma times_simps [simp]:
  "press_times [] = []" "press_times (xs @ ys) = press_times xs @ press_times ys"
  "press_times (Process r # xs) = (if pressed (event r) then [time (event r)] else []) @ press_times xs"
  "press_times (Combo_event i b # xs) = press_times xs"
  "waiting_times [] = []" "waiting_times (qs @ rs) = waiting_times qs @ waiting_times rs"
  "waiting_times (q # qs) = (if time (event (q_record q)) = 0 then [] else [time (event (q_record q))]) @ waiting_times qs"
  by (simp_all add: press_times_def waiting_times_def)

text \<open>The presses passed on and those waiting are presses of the input, in its order.\<close>

definition in_order :: "u16 list \<Rightarrow> combo_st \<Rightarrow> bool" where
  "in_order ts s \<longleftrightarrow> subseq (press_times (combo_out s) @ waiting_times (key_buffer s)) ts"

lemma in_order_frame:
  "key_buffer s' = key_buffer s \<Longrightarrow> combo_out s' = combo_out s \<Longrightarrow> in_order ts s' = in_order ts s"
  by (simp add: in_order_def)

lemma emit_fields [simp]:
  "key_buffer (emit out s) = key_buffer s" "key_combos (emit out s) = key_combos s" "combo_out (emit out s) = combo_out s @ [out]"
  by (simp_all add: emit_def)

lemma set_combo_frame [simp]: "key_buffer (set_combo i f s) = key_buffer s" "combo_out (set_combo i f s) = combo_out s"
  by (simp_all add: set_combo_def)

lemma clear_combos_frame [simp]: "key_buffer (clear_combos s) = key_buffer s" "combo_out (clear_combos s) = combo_out s"
  by (simp_all add: clear_combos_def)

lemma drop_combo_frame [simp]:
  "key_buffer (drop_combo_from_buffer cc i s) = key_buffer s" "combo_out (drop_combo_from_buffer cc i s) = combo_out s"
  by (simp_all add: drop_combo_from_buffer_def Let_def split: option.split)

lemma disable_overlapping_frame:
  "key_buffer (snd (disable_overlapping cc i ps s)) = key_buffer s \<and> combo_out (snd (disable_overlapping cc i ps s)) = combo_out s"
proof (induction ps arbitrary: s)
  case (Cons p ps)
  show ?case by (cases "overlaps (combo_buffer s ! p) i s") (simp_all add: Let_def Cons.IH)
qed simp

lemma queue_combo_frame [simp]: "key_buffer (queue_combo cc i s) = key_buffer s" "combo_out (queue_combo cc i s) = combo_out s"
  using disable_overlapping_frame [of cc i "queue_places cc s" s] by (simp_all add: queue_combo_def Let_def split_beta)

lemma combo_press_frame [simp]:
  "key_buffer (combo_press cc now i j n s) = key_buffer s" "combo_out (combo_press cc now i j n s) = combo_out s"
  by (simp_all add: combo_press_def Let_def)

lemma release_combo_order: "in_order ts s \<Longrightarrow> in_order ts (release_combo now i s)"
  by (simp add: in_order_def release_combo_def Let_def)

lemma dump_order:
  "subseq (press_times (combo_out (foldl dump_record s qs))) (press_times (combo_out s) @ waiting_times qs)"
proof (induction qs arbitrary: s)
  case (Cons q qs)
  have "press_times (combo_out (dump_record s q)) = press_times (combo_out s) \<or>
      time (event (q_record q)) \<noteq> 0 \<and> press_times (combo_out (dump_record s q)) = press_times (combo_out s) @ [time (event (q_record q))]"
    by (auto simp: dump_record_def IS_NOEVENT_def)
  then have "subseq (press_times (combo_out (dump_record s q)) @ waiting_times qs) (press_times (combo_out s) @ waiting_times (q # qs))"
  proof (elim disjE conjE)
    assume "press_times (combo_out (dump_record s q)) = press_times (combo_out s)"
    moreover have "subseq (waiting_times qs) (waiting_times (q # qs))"
      unfolding times_simps by (rule list_emb_append2 [OF subseq_order.refl])
    ultimately show ?thesis by (simp only: subseq_append')
  qed simp
  then show ?case unfolding foldl_Cons by (rule subseq_order.trans [OF Cons.IH])
qed simp

lemma dump_key_buffer_order: "in_order ts s \<Longrightarrow> in_order ts (dump_key_buffer s)" "key_buffer (dump_key_buffer s) = []"
  using dump_order [of s "key_buffer s"] subseq_order.trans by (auto simp: in_order_def dump_key_buffer_def)

lemma apply_records_order: "subseq (waiting_times (fst (apply_records cb i st qs))) (waiting_times qs)"
proof (induction cb i st qs rule: apply_records.induct)
  case (2 cb i st q qs)
  obtain key_index key_count where f: "find_key_index_and_count (combo_keys cb) (q_keycode q) None 0 = (key_index, key_count)" by fastforce
  show ?case
  proof (cases key_index)
    case None
    then show ?thesis using "2.IH"(1) f by (auto intro: list_emb_append_mono)
  next
    case (Some j)
    then show ?thesis using "2.IH"(2) f by (auto simp: Let_def intro: list_emb_append_mono list_emb_append2)
  qed
qed simp

lemma apply_combo_order: "in_order ts s \<Longrightarrow> in_order ts (apply_combo cc i s)"
proof -
  assume s: "in_order ts s"
  obtain qs b where q: "apply_records (key_combos s ! i) i 0 (key_buffer s) = (qs, b)" by fastforce
  then have "subseq (waiting_times qs) (waiting_times (key_buffer s))" using apply_records_order by (metis fst_conv)
  then have "subseq (press_times (combo_out s) @ waiting_times qs) (press_times (combo_out s) @ waiting_times (key_buffer s))"
    by (simp add: subseq_append')
  then have "in_order ts (s\<lparr>key_buffer := qs\<rparr>)" using s subseq_order.trans by (auto simp: in_order_def)
  then show ?thesis using s by (auto simp: apply_combo_def q Let_def in_order_def)
qed

lemma apply_combos_order: "in_order ts s \<Longrightarrow> in_order ts (apply_combos cc s)" "key_buffer (apply_combos cc s) = []"
proof -
  let ?f = "\<lambda>s p. let i = combo_buffer s ! p in if get_combo_must_tap cc i then drop_combo_from_buffer cc i s else apply_combo cc i s"
  have "in_order ts s \<Longrightarrow> in_order ts (foldl ?f s ps)" for s ps
  proof (induction ps arbitrary: s)
    case (Cons p ps)
    have "in_order ts (?f s p)" using Cons.prems apply_combo_order by (simp add: Let_def in_order_def)
    then show ?case using Cons.IH by simp
  qed simp
  then show "in_order ts s \<Longrightarrow> in_order ts (apply_combos cc s)"
    using dump_key_buffer_order(1) by (simp add: apply_combos_def in_order_def)
  show "key_buffer (apply_combos cc s) = []" by (simp add: apply_combos_def dump_key_buffer_order(2))
qed

lemma release_order: "in_order ts s \<Longrightarrow> in_order ts (snd (combo_release cc now k i j n part s))"
proof -
  assume s: "in_order ts s"
  have up: "in_order ts (set_combo i f u) = in_order ts u" for f u by (simp add: in_order_def)
  have "in_order ts (apply_combos cc (apply_combo cc i s))" using s by (intro apply_combos_order(1) apply_combo_order)
  moreover have "in_order ts (drop_combo_from_buffer cc i s)" using s by (simp add: in_order_def)
  ultimately show ?thesis using s release_combo_order by (simp add: combo_release_def Let_def up)
qed

lemma single_order: "in_order ts s \<Longrightarrow> in_order ts (snd (process_single_combo cc now k down i s))"
  using release_order by (auto simp: process_single_combo_def Let_def in_order_frame [of "combo_press cc now i _ _ s" s] split: prod.splits option.splits)

lemma combos_order: "in_order ts s \<Longrightarrow> in_order ts (snd (process_combos cc now k down s))"
proof -
  assume s: "in_order ts s"
  have "in_order ts (snd bs) \<Longrightarrow> in_order ts (snd (foldl (\<lambda>(b, s) i. let (b', s) = process_single_combo cc now k down i s in (b \<or> b', s)) bs ixs))"
    for bs ixs
  proof (induction ixs arbitrary: bs)
    case (Cons i ixs)
    obtain b u where bs: "bs = (b, u)" by (cases bs)
    obtain b' u' where u': "process_single_combo cc now k down i u = (b', u')" by fastforce
    then have "in_order ts (snd (b \<or> b', u'))" using single_order [of ts u cc now k down i] Cons.prems by (simp add: bs)
    from Cons.IH [OF this] show ?case by (simp add: bs u')
  qed simp
  then show ?thesis using s by (simp add: process_combos_def)
qed

lemma exec_order:
  assumes "in_order ts s" "k \<noteq> CMB_ON" "k \<noteq> CMB_TOG"
  shows "in_order (if pressed (event r) then ts @ [time (event r)] else ts) (combo_exec cc now k r s)"
proof -
  let ?ts = "if pressed (event r) then ts @ [time (event r)] else ts"
  have passes: "in_order ?ts (emit (Process r) u)" if "in_order ts u" "key_buffer u = []" for u
    using that by (simp add: in_order_def)
  have grow: "in_order ?ts u" if "in_order ts u" for u using that by (auto simp: in_order_def)
  have flushes: "in_order ts (flush cc u)" "key_buffer (flush cc u) = []" if "in_order ts u" for u
    using that apply_combos_order dump_key_buffer_order by (simp_all add: flush_def in_order_def)
  show ?thesis
  proof (cases "k = CMB_OFF \<and> pressed (event r)")
    case True
    let ?s = "clear_combos (s\<lparr>combo_timer := 0, b_combo_enable := False, combo_buffer_read := combo_buffer_write s\<rparr>)"
    have "in_order ts ?s" using assms(1) by (simp add: in_order_def)
    then have "in_order ts (combo_disable s)" "key_buffer (combo_disable s) = []"
      using dump_key_buffer_order by (simp_all add: combo_disable_def)
    then show ?thesis using True passes by (simp add: combo_exec_def process_combo_def)
  next
    case False
    obtain b u where u: "process_combos cc now k (pressed (event r)) s = (b, u)" by fastforce
    then have o: "in_order ts u" using combos_order [OF assms(1), of cc now k "pressed (event r)"] by simp
    show ?thesis
    proof (cases "pressed (event r) \<and> b")
      case True
      have "in_order ?ts (u\<lparr>key_buffer := key_buffer u @ [\<lparr>q_record = r, q_combo = None, q_keycode = k\<rparr>]\<rparr>)"
        using o True list_emb_append_mono [of "(=)" "press_times (combo_out u) @ waiting_times (key_buffer u)" ts]
        by (auto simp: in_order_def)
      then show ?thesis using True False assms(2,3) u grow [OF o]
        by (auto simp: combo_exec_def process_combo_def Let_def in_order_def)
    next
      case other: False
      then have "combo_exec cc now k r s = (if b then flush cc u else emit (Process r) (flush cc u))"
        using False assms(2,3) u by (auto simp: combo_exec_def process_combo_def flush_def Let_def)
      then show ?thesis using flushes [OF o] grow passes by simp
    qed
  qed
qed

lemma task_order: "in_order ts s \<Longrightarrow> in_order ts (combo_task cc now s)"
  using apply_combos_order(1) [of ts s cc] dump_key_buffer_order(1) [of ts s] by (simp add: combo_task_def in_order_def)

fun input_presses :: "combo_ev list \<Rightarrow> u16 list" where
  "input_presses [] = []"
| "input_presses (Key_at k down now # es) = (if down then [now OR 1] else []) @ input_presses es"
| "input_presses (Task_at now # es) = input_presses es"

text \<open>
  C40. Presses keep their order.  Whatever the table of combos and the options, the presses that are passed on, those of
  combos included, are among the presses of the keys in their order: none is passed on twice and none overtakes
  another.  (The keys that switch combos on are left out: such a press does not wait for those before it.)
\<close>

theorem combo_presses_in_order:
  assumes "\<And>k down now. Key_at k down now \<in> set es \<Longrightarrow> k \<noteq> CMB_ON \<and> k \<noteq> CMB_TOG"
  shows "subseq (press_times (combo_out (foldl (combo_step cc pos) (combo_init cc cs) es))) (input_presses es)"
proof -
  have "in_order ts s \<Longrightarrow> in_order (ts @ input_presses es) (foldl (combo_step cc pos) s es)" for ts s
    using assms
  proof (induction es arbitrary: ts s)
    case (Cons e es)
    show ?case
    proof (cases e)
      case (Task_at now)
      then show ?thesis using Cons.IH [OF task_order [OF Cons.prems(1)]] Cons.prems(2) by (simp add: combo_step_def)
    next
      case (Key_at k down now)
      have "k \<noteq> CMB_ON \<and> k \<noteq> CMB_TOG" using Cons.prems(2) [of k down now] Key_at by simp
      then have "in_order (ts @ (if down then [now OR 1] else [])) (combo_step cc pos s e)"
        using exec_order [OF Cons.prems(1), of k "key_record pos k down now" cc now] Key_at by (cases down) (simp_all add: combo_step_def Key_at key_record_def)
      from Cons.IH [OF this] Cons.prems(2) show ?thesis by (cases down) (auto simp: Key_at)
    qed
  qed simp
  from this [of "[]" "combo_init cc cs"]
  have "subseq (press_times (combo_out (foldl (combo_step cc pos) (combo_init cc cs) es)) @
      waiting_times (key_buffer (foldl (combo_step cc pos) (combo_init cc cs) es))) (input_presses es)"
    by (simp add: in_order_def combo_init_def)
  then show ?thesis by (metis list_emb_append_mono subseq_order.order_refl subseq_order.trans append_Nil2 list_emb_Nil)
qed

lemma combo_presses_in_order_witness:
  "subseq (press_times (combo_out (foldl (combo_step default_combo_config letter_pos)
      (combo_init default_combo_config [COMBO [KC_A, KC_B] KC_ESCAPE, COMBO [KC_B, KC_C] KC_TAB])
      [Key_at KC_A True 1000, Key_at KC_B True 1010, Key_at KC_C True 1020, Task_at 1100]))) [1001, 1011, 1021]"
proof -
  let ?es = "[Key_at KC_A True 1000, Key_at KC_B True 1010, Key_at KC_C True 1020, Task_at 1100]"
  have "\<And>k down now. Key_at k down now \<in> set ?es \<Longrightarrow> k \<noteq> CMB_ON \<and> k \<noteq> CMB_TOG" by auto
  moreover have "input_presses ?es = [1001, 1011, 1021]" by simp
  ultimately show ?thesis using combo_presses_in_order [of ?es] by metis
qed

end
