(* ===== verification/Combo_Chord.thy ===== *)
theory Combo_Chord
  imports Combo Bitwise
begin

text \<open>
  One chord of \<^verbatim>\<open>quantum/process_keycode/process_combo.c\<close>: what the module passes on for a table of one combo, whatever the
  keys, the times and the tasks.  The state of the combo is read as a set of keys; the invariant says which keys are held
  back and why.  The contract of a table and a keyboard is the locale \<open>one_chord\<close>.
\<close>

section \<open>The state of a combo as a set of keys\<close>

definition keys_of :: "u16 list \<Rightarrow> u8 \<Rightarrow> u16 set" where
  "keys_of ks st = {ks ! i | i. i < length ks \<and> bit st i}"

definition within :: "u16 list \<Rightarrow> u8 \<Rightarrow> bool" where
  "within ks st \<longleftrightarrow> (\<forall>i. bit st i \<longrightarrow> i < length ks)"

lemma find_key:
  assumes "keycode \<noteq> 0"
  shows "find_key_index_and_count ks keycode idx n =
    (if keycode \<in> set ks then Some (n + (GREATEST i. i < length ks \<and> ks ! i = keycode)) else idx, n + length ks)"
proof (induction ks arbitrary: idx n)
  case (Cons k ks)
  let ?P = "\<lambda>i. i < length (k # ks) \<and> (k # ks) ! i = keycode" and ?Q = "\<lambda>i. i < length ks \<and> ks ! i = keycode"
  have bound: "\<And>i. ?P i \<Longrightarrow> i \<le> length ks" "\<And>i. ?Q i \<Longrightarrow> i \<le> length ks" by auto
  show ?case
  proof (cases "keycode \<in> set ks")
    case True
    then obtain i where "?Q i" by (auto simp: in_set_conv_nth)
    then have q: "?Q (Greatest ?Q)" by (rule GreatestI_nat) (auto intro: bound)
    have "Greatest ?P = Suc (Greatest ?Q)"
    proof (rule Greatest_equality)
      show "?P (Suc (Greatest ?Q))" using q by simp
      fix j assume j: "?P j"
      show "j \<le> Suc (Greatest ?Q)"
      proof (cases j)
        case (Suc j')
        then have "?Q j'" using j by simp
        then have "j' \<le> Greatest ?Q" by (rule Greatest_le_nat) (auto intro: bound)
        then show ?thesis using Suc by simp
      qed simp
    qed
    then show ?thesis using True by (simp add: Cons.IH)
  next
    case False
    then have "Greatest ?P = 0" if "keycode = k"
      using that by (intro Greatest_equality) (auto simp: nth_Cons' split: if_splits)
    then show ?thesis using False by (auto simp: Cons.IH)
  qed
qed (use assms in \<open>simp add: COMBO_END_def\<close>)

lemma find_key_at:
  assumes "distinct ks" "i < length ks" "ks ! i \<noteq> 0"
  shows "find_key_index_and_count ks (ks ! i) None 0 = (Some i, length ks)"
proof -
  have "(GREATEST j. j < length ks \<and> ks ! j = ks ! i) = i"
    using assms by (intro Greatest_equality) (auto simp: nth_eq_iff_index_eq)
  then show ?thesis using assms by (simp add: find_key)
qed

lemma keys_of_0 [simp]: "keys_of ks 0 = {}" "within ks 0"
  by (simp_all add: keys_of_def within_def)

lemma keys_of_down:
  assumes "i < length ks" "length ks \<le> 8"
  shows "keys_of ks (KEY_STATE_DOWN i st) = insert (ks ! i) (keys_of ks st)" "within ks st \<Longrightarrow> within ks (KEY_STATE_DOWN i st)"
  using assms by (auto simp: keys_of_def within_def KEY_STATE_DOWN_def bit_or_bitmask)

lemma keys_of_up:
  assumes "distinct ks" "i < length ks"
  shows "keys_of ks (KEY_STATE_UP i st) = keys_of ks st - {ks ! i}" "within ks st \<Longrightarrow> within ks (KEY_STATE_UP i st)"
  using assms by (auto simp: keys_of_def within_def KEY_STATE_UP_def bit_and_not_bitmask nth_eq_iff_index_eq)

lemma all_down:
  assumes "distinct ks" "length ks \<le> 8" "within ks st"
  shows "ALL_COMBO_KEYS_ARE_DOWN st (length ks) \<longleftrightarrow> keys_of ks st = set ks"
proof -
  have "ALL_COMBO_KEYS_ARE_DOWN st (length ks) \<longleftrightarrow> unat st = mask (length ks)"
    by (auto simp: ALL_COMBO_KEYS_ARE_DOWN_def mask_eq_exp_minus_1)
  also have "\<dots> \<longleftrightarrow> (\<forall>i. bit st i \<longleftrightarrow> i < length ks)"
    by (simp add: bit_eq_iff bit_unat bit_mask_iff)
  also have "\<dots> \<longleftrightarrow> (\<forall>i < length ks. bit st i)" using assms(3) by (auto simp: within_def)
  also have "\<dots> \<longleftrightarrow> keys_of ks st = set ks"
  proof
    assume k: "keys_of ks st = set ks"
    have "bit st i" if i: "i < length ks" for i
    proof -
      have "ks ! i \<in> keys_of ks st" using i k by simp
      then show ?thesis using assms(1) i by (auto simp: keys_of_def nth_eq_iff_index_eq)
    qed
    then show "\<forall>i < length ks. bit st i" by simp
  qed (auto simp: keys_of_def set_conv_nth)
  finally show ?thesis .
qed

lemma not_yet_released:
  assumes "distinct ks" "i < length ks"
  shows "KEY_NOT_YET_RELEASED st i \<longleftrightarrow> ks ! i \<in> keys_of ks st"
proof -
  have "KEY_NOT_YET_RELEASED st i \<longleftrightarrow> bit st i"
    by (simp add: KEY_NOT_YET_RELEASED_def and.commute [of "bitmask i"] and_bitmask_eq_0)
  then show ?thesis using assms by (auto simp: keys_of_def nth_eq_iff_index_eq)
qed

lemma only_one_down:
  assumes "distinct ks" "i < length ks" "within ks st" "ks ! i \<in> keys_of ks st"
  shows "ONLY_ONE_KEY_IS_DOWN st \<longleftrightarrow> keys_of ks st = {ks ! i}"
proof -
  have i: "bit st i" using assms by (auto simp: keys_of_def nth_eq_iff_index_eq)
  then have nz: "st \<noteq> 0" by auto
  then have u: "unat st \<noteq> 0" by (simp add: unat_eq_0)
  have "unat st AND (unat st - 1) = unat (st AND (st - 1))" using nz by (simp add: unat_and unat_minus_one)
  then have "card {j. bit st j} = Suc (card {j. bit (st AND (st - 1)) j})"
    using card_bits_and_pred [OF u] by (simp add: bit_unat)
  moreover have "finite {j. bit (st AND (st - 1)) j}" by simp
  moreover have "st AND (st - 1) = 0 \<longleftrightarrow> {j. bit (st AND (st - 1)) j} = {}" by (auto intro: bit_eqI)
  ultimately have "ONLY_ONE_KEY_IS_DOWN st \<longleftrightarrow> card {j. bit st j} = 1"
    by (simp add: ONLY_ONE_KEY_IS_DOWN_def)
  also have "\<dots> \<longleftrightarrow> {j. bit st j} = {i}"
  proof
    assume "card {j. bit st j} = 1"
    then obtain x where x: "{j. bit st j} = {x}" by (rule card_1_singletonE)
    have "i \<in> {j. bit st j}" using i by simp
    then show "{j. bit st j} = {i}" unfolding x by simp
  qed simp
  also have "\<dots> \<longleftrightarrow> keys_of ks st = {ks ! i}"
  proof
    assume one: "keys_of ks st = {ks ! i}"
    have "j = i" if j: "bit st j" for j
    proof -
      have "j < length ks" using assms(3) j by (simp add: within_def)
      moreover from this have "ks ! j \<in> keys_of ks st" using j by (auto simp: keys_of_def)
      ultimately show ?thesis using one assms(1,2) by (simp add: nth_eq_iff_index_eq)
    qed
    then show "{j. bit st j} = {i}" using i by blast
  next
    assume "{j. bit st j} = {i}"
    then have "bit st j \<longleftrightarrow> j = i" for j by blast
    then show "keys_of ks st = {ks ! i}" using assms(2) by (auto simp: keys_of_def)
  qed
  finally show ?thesis .
qed

section \<open>A chord is applied\<close>

text \<open>The press of a key waiting in the buffer.\<close>

definition fresh :: "(u16 \<Rightarrow> keypos_t) \<Rightarrow> queued_record_t \<Rightarrow> bool" where
  "fresh pos q \<longleftrightarrow> q_combo q = None \<and> \<not> IS_NOEVENT (event (q_record q)) \<and>
     (\<exists>now. q_record q = key_record pos (q_keycode q) True now)"

lemma or_1_not_0 [simp]: "(w :: u16) OR 1 \<noteq> 0"
proof
  assume "w OR 1 = 0"
  then have "\<not> bit (w OR 1) 0" by simp
  then show False by (simp add: bit_or_iff)
qed

lemma fresh_event: "fresh pos q \<Longrightarrow> \<not> IS_NOEVENT (event (q_record q))"
  by (simp add: fresh_def)

lemma dump_fresh:
  "\<forall>q \<in> set qs. fresh pos q \<Longrightarrow> foldl dump_record s qs = s\<lparr>combo_out := combo_out s @ map (Process \<circ> q_record) qs\<rparr>"
proof (induction qs arbitrary: s)
  case (Cons q qs)
  then have "dump_record s q = emit (Process (q_record q)) s" using fresh_event [of pos q] by (simp add: dump_record_def fresh_def)
  then show ?case using Cons by (simp add: emit_def)
qed simp

definition tick_of :: "queued_record_t \<Rightarrow> queued_record_t" where
  "tick_of q = q\<lparr>q_record := (q_record q)\<lparr>event := (event (q_record q))\<lparr>time := 0\<rparr>\<rparr>\<rparr>"

definition chord_of :: "combo_t \<Rightarrow> nat \<Rightarrow> queued_record_t \<Rightarrow> queued_record_t" where
  "chord_of cb i q = q\<lparr>q_record := (q_record q)\<lparr>rec_keycode := combo_keycode cb, event := (event (q_record q))\<lparr>key := COMBO_KEY_POS\<rparr>\<rparr>,
     q_combo := Some i\<rparr>"

lemma apply_records_all:
  assumes "distinct ks" "length ks \<le> 8" "0 \<notin> set ks" "combo_keys cb = ks"
  shows "within ks st \<Longrightarrow> qs \<noteq> [] \<Longrightarrow> distinct (map q_keycode qs) \<Longrightarrow> keys_of ks st \<inter> q_keycode ` set qs = {} \<Longrightarrow>
    keys_of ks st \<union> q_keycode ` set qs = set ks \<Longrightarrow>
    apply_records cb i st qs = (map tick_of (butlast qs) @ [chord_of cb i (last qs)], True)"
proof (induction qs arbitrary: st)
  case (Cons q qs)
  have "q_keycode q \<in> set ks" using Cons.prems(5) by auto
  then obtain j where j: "j < length ks" "ks ! j = q_keycode q" by (auto simp: in_set_conv_nth)
  then have "ks ! j \<noteq> 0" using assms(3) by (metis nth_mem)
  from find_key_at [OF assms(1) j(1) this] have f: "find_key_index_and_count ks (q_keycode q) None 0 = (Some j, length ks)"
    by (simp add: j(2))
  let ?st = "KEY_STATE_DOWN j st"
  have st: "keys_of ks ?st = insert (q_keycode q) (keys_of ks st)" "within ks ?st"
    using keys_of_down [OF j(1) assms(2)] Cons.prems(1) by (simp_all add: j(2))
  show ?case
  proof (cases "qs = []")
    case True
    then have "ALL_COMBO_KEYS_ARE_DOWN ?st (length ks)" using all_down [OF assms(1,2) st(2)] st(1) Cons.prems(5) by auto
    then show ?thesis using True by (simp add: f assms(4) Let_def chord_of_def)
  next
    case False
    have "keys_of ks ?st \<noteq> set ks"
    proof
      assume all: "keys_of ks ?st = set ks"
      obtain q' where q': "q' \<in> set qs" using False by (cases qs) auto
      then have "q_keycode q' \<in> keys_of ks ?st" using all Cons.prems(5) by auto
      then have "q_keycode q' = q_keycode q" using q' Cons.prems(4) by (auto simp: st(1))
      then have "q_keycode q \<in> q_keycode ` set qs" using q' by (metis imageI)
      then show False using Cons.prems(3) by simp
    qed
    then have "\<not> ALL_COMBO_KEYS_ARE_DOWN ?st (length ks)" using all_down [OF assms(1,2) st(2)] by simp
    moreover have "apply_records cb i ?st qs = (map tick_of (butlast qs) @ [chord_of cb i (last qs)], True)"
      using Cons.prems False by (intro Cons.IH [OF st(2)]) (auto simp: st(1))
    ultimately show ?thesis using False by (simp add: f assms(4) Let_def tick_of_def)
  qed
qed simp

lemma dump_ticks: "foldl dump_record s (map tick_of qs) = s"
  by (induction qs) (simp_all add: dump_record_def tick_of_def IS_NOEVENT_def)

lemma dump_chord:
  assumes "fresh pos q" "combo_keycode cb \<noteq> 0"
  shows "dump_record s (chord_of cb i q) = emit (Process (q_record (chord_of cb i q))) s"
  using assms by (auto simp: dump_record_def chord_of_def IS_NOEVENT_def fresh_def key_record_def COMBO_KEY_POS_def)

text \<open>The ring of a table of one combo.\<close>

definition one_queued :: "combo_config \<Rightarrow> combo_st \<Rightarrow> bool" where
  "one_queued cc s \<longleftrightarrow> combo_buffer_write s = next_place cc (combo_buffer_read s) \<and> combo_buffer s ! combo_buffer_read s = 0"

definition ring_ok :: "combo_config \<Rightarrow> combo_st \<Rightarrow> bool" where
  "ring_ok cc s \<longleftrightarrow> combo_buffer_read s < COMBO_BUFFER_LENGTH cc \<and> combo_buffer_write s < COMBO_BUFFER_LENGTH cc \<and>
     length (combo_buffer s) = COMBO_BUFFER_LENGTH cc"

lemma places_none: "ring_ok cc s \<Longrightarrow> combo_buffer_read s = combo_buffer_write s \<Longrightarrow> queue_places cc s = []"
  by (simp add: queue_places_def ring_ok_def)

lemma next_place_other:
  assumes "2 \<le> COMBO_BUFFER_LENGTH cc" "i < COMBO_BUFFER_LENGTH cc"
  shows "next_place cc i \<noteq> i" "next_place cc i < COMBO_BUFFER_LENGTH cc"
  using assms by (cases "i + 1 = COMBO_BUFFER_LENGTH cc"; simp add: next_place_def)+

lemma places_one:
  assumes "2 \<le> COMBO_BUFFER_LENGTH cc" "ring_ok cc s" "one_queued cc s"
  shows "queue_places cc s = [combo_buffer_read s]"
proof -
  let ?L = "COMBO_BUFFER_LENGTH cc"
  have "(combo_buffer_write s + ?L - combo_buffer_read s) mod ?L = 1"
  proof (cases "combo_buffer_read s + 1 = ?L")
    case True
    then show ?thesis using assms by (simp add: one_queued_def next_place_def)
  next
    case False
    then have "combo_buffer_write s = combo_buffer_read s + 1" using assms by (simp add: one_queued_def next_place_def ring_ok_def)
    then show ?thesis using assms(1) by (simp add: mod_if)
  qed
  then show ?thesis using assms(2) by (simp add: queue_places_def ring_ok_def)
qed

lemma drop_none:
  "ring_ok cc s \<Longrightarrow> combo_buffer_read s = combo_buffer_write s \<Longrightarrow> drop_combo_from_buffer cc i s = s"
  by (simp add: drop_combo_from_buffer_def places_none)

lemma drop_one:
  assumes "2 \<le> COMBO_BUFFER_LENGTH cc" "ring_ok cc s" "one_queued cc s"
  shows "drop_combo_from_buffer cc 0 s = (set_combo 0 DISABLE_COMBO s)\<lparr>combo_buffer_read := combo_buffer_write s\<rparr>"
  using places_one [OF assms] assms(3) by (simp add: drop_combo_from_buffer_def one_queued_def set_combo_def)

lemma apply_combos_one:
  assumes s: "key_combos s = [cb]" "combo_keycode cb \<noteq> 0" "\<not> combo_disabled cb"
    and ks: "distinct (combo_keys cb)" "length (combo_keys cb) \<le> 8" "0 \<notin> set (combo_keys cb)" "\<not> get_combo_must_tap cc 0"
    and buffer: "key_buffer s \<noteq> []" "\<forall>q \<in> set (key_buffer s). fresh pos q" "distinct (map q_keycode (key_buffer s))"
      "q_keycode ` set (key_buffer s) = set (combo_keys cb)"
    and ring: "2 \<le> COMBO_BUFFER_LENGTH cc" "ring_ok cc s" "one_queued cc s"
  shows "\<exists>r. apply_combos cc s = s\<lparr>key_combos := [cb\<lparr>combo_active := True, combo_disabled := True\<rparr>], key_buffer := [],
      combo_buffer_read := combo_buffer_write s, longest_term := 0, combo_out := combo_out s @ [Process r]\<rparr> \<and>
    key (event r) = COMBO_KEY_POS \<and> pressed (event r)"
proof -
  let ?qs = "key_buffer s" and ?r = "q_record (chord_of cb 0 (last (key_buffer s)))"
  let ?s1 = "s\<lparr>key_buffer := map tick_of (butlast ?qs) @ [chord_of cb 0 (last ?qs)], key_combos := [cb\<lparr>combo_active := True\<rparr>]\<rparr>"
  have "apply_records cb 0 0 ?qs = (map tick_of (butlast ?qs) @ [chord_of cb 0 (last ?qs)], True)"
    using buffer by (intro apply_records_all [OF ks(1-3) refl]) simp_all
  moreover have "drop_combo_from_buffer cc 0 ?s1 = (set_combo 0 DISABLE_COMBO ?s1)\<lparr>combo_buffer_read := combo_buffer_write s\<rparr>"
    using ring by (subst drop_one) (simp_all add: ring_ok_def one_queued_def)
  ultimately have applied: "apply_combo cc 0 s = ?s1\<lparr>key_combos := [cb\<lparr>combo_active := True, combo_disabled := True\<rparr>],
      combo_buffer_read := combo_buffer_write s\<rparr>"
    using s by (simp add: apply_combo_def set_combo_def Let_def)
  have fr: "fresh pos (last ?qs)" using buffer by simp
  have "apply_combos cc s = clear_combos (dump_key_buffer (apply_combo cc 0 s))"
    using places_one [OF ring] ks(4) ring(3) by (simp add: apply_combos_def one_queued_def Let_def)
  also have "\<dots> = s\<lparr>key_combos := [cb\<lparr>combo_active := True, combo_disabled := True\<rparr>], key_buffer := [],
      combo_buffer_read := combo_buffer_write s, longest_term := 0, combo_out := combo_out s @ [Process ?r]\<rparr>"
    by (simp add: applied dump_key_buffer_def dump_ticks dump_chord [OF fr s(2)] emit_def clear_combos_def)
  finally have app: "apply_combos cc s = s\<lparr>key_combos := [cb\<lparr>combo_active := True, combo_disabled := True\<rparr>], key_buffer := [],
      combo_buffer_read := combo_buffer_write s, longest_term := 0, combo_out := combo_out s @ [Process ?r]\<rparr>" .
  moreover have "key (event ?r) = COMBO_KEY_POS" "pressed (event ?r)"
    using fr by (auto simp: chord_of_def fresh_def key_record_def)
  ultimately show ?thesis by blast
qed

section \<open>One chord\<close>

text \<open>What the tapping sees: the positions that are down, or \<open>None\<close> after a press of one that is down or a release of one that is up.\<close>

fun out_step :: "keypos_t set option \<Rightarrow> combo_out \<Rightarrow> keypos_t set option" where
  "out_step None e = None"
| "out_step (Some H) (Combo_event i b) = Some H"
| "out_step (Some H) (Process r) =
     (let p = key (event r)
      in if pressed (event r) then if p \<in> H then None else Some (insert p H) else if p \<in> H then Some (H - {p}) else None)"

text \<open>Every key is pressed and released in turn; the keys that are down afterwards.\<close>

fun keys_after :: "u16 set \<Rightarrow> combo_ev list \<Rightarrow> u16 set" where
  "keys_after D [] = D"
| "keys_after D (Key_at k down now # es) = keys_after (if down then insert k D else D - {k}) es"
| "keys_after D (Task_at now # es) = keys_after D es"

fun keys_in_turn :: "u16 set \<Rightarrow> u16 set \<Rightarrow> combo_ev list \<Rightarrow> bool" where
  "keys_in_turn K D [] = True"
| "keys_in_turn K D (Key_at k down now # es) =
     (k \<in> K \<and> (k \<in> D \<longleftrightarrow> \<not> down) \<and> keys_in_turn K (if down then insert k D else D - {k}) es)"
| "keys_in_turn K D (Task_at now # es) = keys_in_turn K D es"

text \<open>
  The keys whose bit is set in the state of the combo are down and have not been passed on: they wait in the buffer, or
  have become the combo.
\<close>

definition passed_on :: "u16 list \<Rightarrow> (u16 \<Rightarrow> keypos_t) \<Rightarrow> u16 set \<Rightarrow> combo_t \<Rightarrow> keypos_t set" where
  "passed_on ks pos D cb = pos ` (D - keys_of ks (combo_state cb)) \<union> (if combo_active cb then {COMBO_KEY_POS} else {})"

definition chord_phase :: "combo_config \<Rightarrow> u16 list \<Rightarrow> combo_t \<Rightarrow> combo_st \<Rightarrow> bool" where
  "chord_phase cc ks cb s \<longleftrightarrow>
     (if combo_active cb
      then combo_disabled cb \<and> key_buffer s = [] \<and> keys_of ks (combo_state cb) \<noteq> {} \<and> combo_buffer_read s = combo_buffer_write s
      else q_keycode ` set (key_buffer s) = keys_of ks (combo_state cb) \<and> (key_buffer s \<noteq> [] \<longrightarrow> b_combo_enable s) \<and>
        (combo_disabled cb \<longrightarrow> keys_of ks (combo_state cb) = set ks) \<and>
        (if keys_of ks (combo_state cb) = set ks \<and> \<not> combo_disabled cb then one_queued cc s
         else combo_buffer_read s = combo_buffer_write s))"

definition chord_at :: "combo_config \<Rightarrow> u16 list \<Rightarrow> u16 \<Rightarrow> (u16 \<Rightarrow> keypos_t) \<Rightarrow> u16 set \<Rightarrow> combo_t \<Rightarrow> combo_st \<Rightarrow> bool" where
  "chord_at cc ks kc pos D cb s \<longleftrightarrow> ring_ok cc s \<and> combo_keys cb = ks \<and> combo_keycode cb = kc \<and>
     within ks (combo_state cb) \<and> keys_of ks (combo_state cb) \<subseteq> D \<and>
     (\<forall>q \<in> set (key_buffer s). fresh pos q) \<and> distinct (map q_keycode (key_buffer s)) \<and>
     foldl out_step (Some {}) (combo_out s) = Some (passed_on ks pos D cb) \<and> chord_phase cc ks cb s"

definition chord_inv :: "combo_config \<Rightarrow> u16 list \<Rightarrow> u16 \<Rightarrow> (u16 \<Rightarrow> keypos_t) \<Rightarrow> u16 set \<Rightarrow> combo_st \<Rightarrow> bool" where
  "chord_inv cc ks kc pos D s \<longleftrightarrow> (\<exists>cb. key_combos s = [cb] \<and> chord_at cc ks kc pos D cb s)"

lemma chord_invE:
  assumes "chord_inv cc ks kc pos D s"
  obtains cb where "key_combos s = [cb]" "chord_at cc ks kc pos D cb s"
  using assms by (auto simp: chord_inv_def)

lemma chord_atD:
  assumes "chord_at cc ks kc pos D cb s"
  shows "ring_ok cc s" "combo_keys cb = ks" "combo_keycode cb = kc" "within ks (combo_state cb)" "keys_of ks (combo_state cb) \<subseteq> D"
    "\<forall>q \<in> set (key_buffer s). fresh pos q" "distinct (map q_keycode (key_buffer s))"
    "foldl out_step (Some {}) (combo_out s) = Some (passed_on ks pos D cb)" "chord_phase cc ks cb s"
  using assms by (simp_all add: chord_at_def)

lemma emit_frame [simp]:
  "ring_ok cc (emit out s) = ring_ok cc s" "chord_phase cc ks cb (emit out s) = chord_phase cc ks cb s"
  by (simp_all add: emit_def ring_ok_def chord_phase_def one_queued_def)

lemma emit_inv:
  assumes "key_combos s = [cb]" "chord_at cc ks kc pos D cb s" "keys_of ks (combo_state cb) \<subseteq> D'"
    "out_step (Some (passed_on ks pos D cb)) out = Some (passed_on ks pos D' cb)"
  shows "chord_inv cc ks kc pos D' (emit out s)"
  using assms by (simp add: chord_inv_def chord_at_def)

lemma process_combos_one:
  "key_combos s = [cb] \<Longrightarrow> process_combos cc now k down s = process_single_combo cc now k down 0 s"
  by (simp add: process_combos_def split: prod.splits)

lemma one_queued_differs: "2 \<le> COMBO_BUFFER_LENGTH cc \<Longrightarrow> ring_ok cc s \<Longrightarrow> one_queued cc s \<Longrightarrow> combo_buffer_read s \<noteq> combo_buffer_write s"
  using next_place_other(1) [of cc "combo_buffer_read s"] by (simp add: one_queued_def ring_ok_def)

locale one_chord =
  fixes cc :: combo_config and ks :: "u16 list" and kc :: u16 and pos :: "u16 \<Rightarrow> keypos_t" and K :: "u16 set"
  assumes keys: "distinct ks" "2 \<le> length ks" "length ks \<le> 8" "set ks \<inter> {0, CMB_ON, CMB_OFF, CMB_TOG} = {}" "kc \<noteq> 0"
    and positions: "inj_on pos K" "0 \<notin> K" "\<And>k. k \<in> K \<Longrightarrow> pos k \<noteq> COMBO_KEY_POS \<and> pos k \<noteq> \<lparr>col = 255, row = 255\<rparr>"
    and config: "length ks \<le> COMBO_KEY_BUFFER_LENGTH cc" "2 \<le> COMBO_BUFFER_LENGTH cc" "\<not> get_combo_must_tap cc 0"
      "\<And>i k. \<not> process_combo_key_release cc 0 i k"
begin

lemma out_presses:
  assumes "\<forall>q \<in> set qs. fresh pos q" "distinct (map q_keycode qs)" "E \<subseteq> K" "q_keycode ` set qs \<subseteq> K" "E \<inter> q_keycode ` set qs = {}"
  shows "foldl out_step (Some (pos ` E)) (map (Process \<circ> q_record) qs) = Some (pos ` (E \<union> q_keycode ` set qs))"
  using assms
proof (induction qs arbitrary: E)
  case (Cons q qs)
  have q: "key (event (q_record q)) = pos (q_keycode q)" "pressed (event (q_record q))"
    using Cons.prems(1) by (auto simp: fresh_def key_record_def)
  have "pos (q_keycode q) \<notin> pos ` E" using Cons.prems by (auto simp: inj_on_image_mem_iff [OF positions(1)])
  moreover have "foldl out_step (Some (pos ` insert (q_keycode q) E)) (map (Process \<circ> q_record) qs) =
      Some (pos ` (insert (q_keycode q) E \<union> q_keycode ` set qs))"
    using Cons.prems by (intro Cons.IH) auto
  ultimately show ?case by (simp add: q comp_def)
qed simp

lemma dumped:
  assumes s: "ring_ok cc s" "combo_buffer_read s = combo_buffer_write s" "key_combos s = [cb]" "combo_keys cb = ks" "combo_keycode cb = kc"
      "combo_state cb = 0" "\<not> combo_active cb" "\<not> combo_disabled cb"
    and buffer: "\<forall>q \<in> set (key_buffer s). fresh pos q" "distinct (map q_keycode (key_buffer s))" "q_keycode ` set (key_buffer s) \<subseteq> K"
    and out: "foldl out_step (Some {}) (combo_out s) = Some (pos ` E)" "E \<subseteq> K" "E \<inter> q_keycode ` set (key_buffer s) = {}"
  shows "chord_inv cc ks kc pos (E \<union> q_keycode ` set (key_buffer s)) (dump_key_buffer s)"
proof -
  have "{} \<noteq> set ks" using keys(2) by auto
  then show ?thesis
    using s buffer(1) out out_presses [OF buffer(1,2) out(2) buffer(3) out(3)]
    by (simp add: dump_key_buffer_def dump_fresh chord_inv_def chord_at_def chord_phase_def passed_on_def ring_ok_def)
qed

lemma dump_clear:
  "key_combos s = [cb] \<Longrightarrow> \<not> combo_active cb \<Longrightarrow> \<forall>q \<in> set (key_buffer s). fresh pos q \<Longrightarrow>
   clear_combos ((dump_key_buffer s)\<lparr>combo_timer := 0\<rparr>) = dump_key_buffer (clear_combos (s\<lparr>combo_timer := 0\<rparr>))"
  by (simp add: dump_key_buffer_def dump_fresh clear_combos_def)

lemma flush_dumps:
  assumes s: "ring_ok cc s" "combo_buffer_read s = combo_buffer_write s" "key_combos s = [cb]" "combo_keys cb = ks" "combo_keycode cb = kc"
      "\<not> combo_active cb"
    and buffer: "\<forall>q \<in> set (key_buffer s). fresh pos q" "distinct (map q_keycode (key_buffer s))" "q_keycode ` set (key_buffer s) \<subseteq> K"
    and out: "foldl out_step (Some {}) (combo_out s) = Some (pos ` E)" "E \<subseteq> K" "E \<inter> q_keycode ` set (key_buffer s) = {}"
    and D: "D = E \<union> q_keycode ` set (key_buffer s)"
  shows "chord_inv cc ks kc pos D (flush cc s)"
proof -
  have "flush cc s = dump_key_buffer (clear_combos (s\<lparr>combo_timer := 0\<rparr>))"
    using s buffer(1) by (simp add: flush_def dump_clear)
  moreover have "chord_inv cc ks kc pos (E \<union> q_keycode ` set (key_buffer (clear_combos (s\<lparr>combo_timer := 0\<rparr>))))
      (dump_key_buffer (clear_combos (s\<lparr>combo_timer := 0\<rparr>)))"
    using s buffer out by (intro dumped [where cb = "RESET_COMBO_STATE cb"]) (simp_all add: clear_combos_def ring_ok_def)
  ultimately show ?thesis by (simp add: D clear_combos_def)
qed

lemma flush_applies:
  assumes s: "ring_ok cc s" "one_queued cc s" "key_combos s = [cb]" "combo_keys cb = ks" "combo_keycode cb = kc"
      "\<not> combo_disabled cb" "within ks (combo_state cb)" "keys_of ks (combo_state cb) \<noteq> {}" "keys_of ks (combo_state cb) \<subseteq> D" "D \<subseteq> K"
    and buffer: "\<forall>q \<in> set (key_buffer s). fresh pos q" "distinct (map q_keycode (key_buffer s))" "q_keycode ` set (key_buffer s) = set ks"
    and out: "foldl out_step (Some {}) (combo_out s) = Some (pos ` (D - keys_of ks (combo_state cb)))"
  shows "chord_inv cc ks kc pos D (flush cc s)"
proof -
  have "key_buffer s \<noteq> []" using buffer(3) keys(2) by auto
  moreover have "0 \<notin> set ks" using keys(4) by auto
  ultimately obtain r where r: "apply_combos cc s = s\<lparr>key_combos := [cb\<lparr>combo_active := True, combo_disabled := True\<rparr>], key_buffer := [],
      combo_buffer_read := combo_buffer_write s, longest_term := 0, combo_out := combo_out s @ [Process r]\<rparr>"
      "key (event r) = COMBO_KEY_POS" "pressed (event r)"
    using apply_combos_one [OF s(3), of cc pos] s keys config buffer by auto
  have "flush cc s = apply_combos cc s" using one_queued_differs [OF config(2) s(1,2)] by (simp add: flush_def)
  moreover have "COMBO_KEY_POS \<notin> pos ` (D - keys_of ks (combo_state cb))" using positions(3) s(10) by force
  ultimately show ?thesis using s r out
    by (simp add: chord_inv_def chord_at_def chord_phase_def passed_on_def ring_ok_def Let_def)
qed

lemma flush_inv:
  assumes "chord_inv cc ks kc pos D s" "D \<subseteq> K"
  shows "chord_inv cc ks kc pos D (flush cc s)"
proof -
  obtain cb where cb: "key_combos s = [cb]" and at: "chord_at cc ks kc pos D cb s" using assms(1) by (rule chord_invE)
  note inv = chord_atD [OF at]
  show ?thesis
  proof (cases "combo_active cb")
    case True
    then have "flush cc s = s\<lparr>longest_term := 0, combo_timer := 0\<rparr>"
      using cb inv(9) by (simp add: flush_def chord_phase_def dump_key_buffer_def clear_combos_def)
    then show ?thesis using cb at True by (simp add: chord_inv_def chord_at_def chord_phase_def ring_ok_def)
  next
    case False
    then have M: "q_keycode ` set (key_buffer s) = keys_of ks (combo_state cb)"
      and out: "foldl out_step (Some {}) (combo_out s) = Some (pos ` (D - keys_of ks (combo_state cb)))"
      using inv(8,9) by (simp_all add: chord_phase_def passed_on_def)
    show ?thesis
    proof (cases "keys_of ks (combo_state cb) = set ks \<and> \<not> combo_disabled cb")
      case True
      moreover have "set ks \<noteq> {}" using keys(2) by auto
      moreover have "one_queued cc s" using inv(9) False True by (simp add: chord_phase_def)
      ultimately show ?thesis using M by (intro flush_applies [OF inv(1) _ cb inv(2,3) _ inv(4) _ inv(5) assms(2) inv(6,7) _ out]) simp_all
    next
      case queue: False
      then have "combo_buffer_read s = combo_buffer_write s" using inv(9) False by (simp add: chord_phase_def)
      then show ?thesis using cb inv(1-7) False M out assms(2)
        by (intro flush_dumps [where E = "D - keys_of ks (combo_state cb)"]) auto
    qed
  qed
qed

lemma pass_press:
  assumes "chord_inv cc ks kc pos D s" "D \<subseteq> K" "k \<in> K" "k \<notin> D"
  shows "chord_inv cc ks kc pos (insert k D) (emit (Process (key_record pos k True now)) s)"
proof -
  obtain cb where cb: "key_combos s = [cb]" and at: "chord_at cc ks kc pos D cb s" using assms(1) by (rule chord_invE)
  let ?M = "keys_of ks (combo_state cb)"
  have M: "?M \<subseteq> D" using at by (rule chord_atD)
  have "pos k \<notin> pos ` (D - ?M)" using inj_on_image_mem_iff [OF positions(1) assms(3), of "D - ?M"] assms(2,4) by blast
  moreover have "insert k D - ?M = insert k (D - ?M)" using M assms(4) by blast
  ultimately have "out_step (Some (passed_on ks pos D cb)) (Process (key_record pos k True now)) = Some (passed_on ks pos (insert k D) cb)"
    using positions(3) [OF assms(3)] by (auto simp: passed_on_def key_record_def)
  then show ?thesis using M by (intro emit_inv [OF cb at]) auto
qed

lemma pass_release:
  assumes "chord_inv cc ks kc pos D s" "D \<subseteq> K" "k \<in> D" "\<And>cb. key_combos s = [cb] \<Longrightarrow> k \<notin> keys_of ks (combo_state cb)"
  shows "chord_inv cc ks kc pos (D - {k}) (emit (Process (key_record pos k False now)) s)"
proof -
  obtain cb where cb: "key_combos s = [cb]" and at: "chord_at cc ks kc pos D cb s" using assms(1) by (rule chord_invE)
  let ?M = "keys_of ks (combo_state cb)"
  have M: "?M \<subseteq> D" "k \<notin> ?M" using chord_atD(5) [OF at] assms(4) cb by auto
  have k: "k \<in> K" using assms(2,3) by blast
  have "D - {k} - ?M = (D - ?M) - {k}" by blast
  moreover have "pos ` ((D - ?M) - {k}) = pos ` (D - ?M) - pos ` {k}"
    using assms(2) k by (intro inj_on_image_set_diff [OF positions(1)]) auto
  moreover have "pos k \<in> pos ` (D - ?M)" using assms(3) M by blast
  ultimately have "out_step (Some (passed_on ks pos D cb)) (Process (key_record pos k False now)) = Some (passed_on ks pos (D - {k}) cb)"
    using positions(3) [OF k] by (auto simp: passed_on_def key_record_def)
  then show ?thesis using M by (intro emit_inv [OF cb at]) auto
qed

lemma other_key:
  "k \<in> K \<Longrightarrow> k \<notin> set ks \<Longrightarrow> key_combos s = [cb] \<Longrightarrow> combo_keys cb = ks \<Longrightarrow> process_single_combo cc now k down 0 s = (False, s)"
  using positions(2) by (cases "k = 0") (auto simp: process_single_combo_def find_key)

lemma chord_key:
  assumes "k \<in> set ks" "key_combos s = [cb]" "combo_keys cb = ks"
  obtains j where "j < length ks" "ks ! j = k"
    "process_single_combo cc now k down 0 s =
      (let part = (\<not> combo_disabled cb \<and> b_combo_enable s)
       in if down \<and> part then (part, combo_press cc now 0 j (length ks) s) else combo_release cc now k 0 j (length ks) part s)"
proof -
  obtain j where j: "j < length ks" "ks ! j = k" using assms(1) by (auto simp: in_set_conv_nth)
  then have "ks ! j \<noteq> 0" using keys(4) assms(1) by auto
  from find_key_at [OF keys(1) j(1) this] show thesis
    using j assms(2,3) by (intro that [of j]) (simp_all add: process_single_combo_def)
qed

lemma command_inv:
  assumes "chord_inv cc ks kc pos D s" "D \<subseteq> K"
  shows "chord_inv cc ks kc pos D (combo_enable s)" "chord_inv cc ks kc pos D (combo_disable s)" "chord_inv cc ks kc pos D (combo_toggle s)"
proof -
  obtain cb where cb: "key_combos s = [cb]" and at: "chord_at cc ks kc pos D cb s" using assms(1) by (rule chord_invE)
  note inv = chord_atD [OF at]
  have "chord_phase cc ks cb (combo_enable s)" using inv(9) by (auto simp: chord_phase_def combo_enable_def one_queued_def)
  then show on: "chord_inv cc ks kc pos D (combo_enable s)" using cb inv(1-8) by (simp add: chord_inv_def chord_at_def ring_ok_def combo_enable_def)
  show off: "chord_inv cc ks kc pos D (combo_disable s)"
  proof (cases "combo_active cb")
    case True
    then have "combo_disable s = s\<lparr>longest_term := 0, combo_timer := 0, b_combo_enable := False, combo_buffer_read := combo_buffer_write s\<rparr>"
      using cb inv(9) by (simp add: combo_disable_def chord_phase_def clear_combos_def dump_key_buffer_def)
    then show ?thesis using cb at True by (simp add: chord_inv_def chord_at_def chord_phase_def ring_ok_def)
  next
    case False
    define s1 where "s1 = clear_combos (s\<lparr>combo_timer := 0, b_combo_enable := False, combo_buffer_read := combo_buffer_write s\<rparr>)"
    let ?M = "keys_of ks (combo_state cb)"
    have M: "q_keycode ` set (key_buffer s) = ?M" and out: "foldl out_step (Some {}) (combo_out s) = Some (pos ` (D - ?M))"
      using inv(8,9) False by (simp_all add: chord_phase_def passed_on_def)
    have s1: "key_buffer s1 = key_buffer s" "combo_out s1 = combo_out s" "ring_ok cc s1" "key_combos s1 = [RESET_COMBO_STATE cb]"
      "combo_buffer_read s1 = combo_buffer_write s1"
      using cb False inv(1) by (simp_all add: s1_def clear_combos_def ring_ok_def)
    have "chord_inv cc ks kc pos ((D - ?M) \<union> q_keycode ` set (key_buffer s1)) (dump_key_buffer s1)"
      using s1 inv False M out assms(2) by (intro dumped [where cb = "RESET_COMBO_STATE cb"]) auto
    moreover have "D - ?M \<union> ?M = D" using inv(5) by blast
    ultimately show ?thesis by (simp add: combo_disable_def s1_def [symmetric] s1(1) M)
  qed
  show "chord_inv cc ks kc pos D (combo_toggle s)" using on off by (simp add: combo_toggle_def)
qed

lemma exec_command:
  assumes "k \<in> {CMB_ON, CMB_OFF, CMB_TOG}" "pressed (event r)"
  shows "\<exists>f \<in> {combo_enable, combo_disable, combo_toggle}. combo_exec cc now k r s = emit (Process r) (f s)"
  using assms by (auto simp: combo_exec_def process_combo_def Let_def)

lemma exec_pass:
  assumes "key_combos s = [cb]" "process_single_combo cc now k (pressed (event r)) 0 s = (False, s')"
    "\<not> (k \<in> {CMB_ON, CMB_OFF, CMB_TOG} \<and> pressed (event r))"
  shows "combo_exec cc now k r s = emit (Process r) (flush cc s')"
  using assms by (auto simp: combo_exec_def process_combo_def process_combos_one flush_def Let_def)

lemma exec_swallow:
  assumes "key_combos s = [cb]" "process_single_combo cc now k False 0 s = (True, s')" "\<not> pressed (event r)"
  shows "combo_exec cc now k r s = flush cc s'"
  using assms by (auto simp: combo_exec_def process_combo_def process_combos_one flush_def Let_def)

lemma exec_buffer:
  assumes "key_combos s = [cb]" "process_single_combo cc now k True 0 s = (True, s')" "pressed (event r)" "k \<notin> {CMB_ON, CMB_OFF, CMB_TOG}"
    "length (key_buffer s') < COMBO_KEY_BUFFER_LENGTH cc"
  shows "\<exists>t. combo_exec cc now k r s =
    s'\<lparr>combo_timer := t, key_buffer := key_buffer s' @ [\<lparr>q_record = r, q_combo = None, q_keycode = k\<rparr>]\<rparr>"
proof (cases "COMBO_STRICT_TIMER cc \<and> combo_timer s' \<noteq> 0")
  case True
  then show ?thesis using assms by (intro exI [of _ "combo_timer s'"]) (simp add: combo_exec_def process_combo_def process_combos_one Let_def)
next
  case False
  then show ?thesis using assms by (intro exI [of _ now]) (auto simp: combo_exec_def process_combo_def process_combos_one Let_def)
qed

lemma up_same:
  assumes "key_combos s = [cb]" "j < length ks" "ks ! j \<notin> keys_of ks (combo_state cb)"
  shows "set_combo 0 (combo_state_update (KEY_STATE_UP j)) s = s"
proof -
  have "\<not> bit (combo_state cb) j" using assms(2,3) by (auto simp: keys_of_def)
  then have "KEY_STATE_UP j (combo_state cb) = combo_state cb"
    by (intro bit_eqI) (auto simp: KEY_STATE_UP_def bit_and_not_bitmask)
  then show ?thesis using assms(1) by (cases s, cases cb) (simp add: set_combo_def)
qed

lemma other_key_inv:
  assumes "chord_inv cc ks kc pos D s" "D \<subseteq> K" "k \<in> K" "k \<notin> set ks" "k \<in> D \<longleftrightarrow> \<not> down"
  shows "chord_inv cc ks kc pos (if down then insert k D else D - {k}) (combo_exec cc now k (key_record pos k down now) s)"
proof -
  let ?r = "key_record pos k down now"
  obtain cb where cb: "key_combos s = [cb]" and at: "chord_at cc ks kc pos D cb s" using assms(1) by (rule chord_invE)
  have p: "pressed (event ?r) = down" by (simp add: key_record_def)
  have "\<exists>s1. combo_exec cc now k ?r s = emit (Process ?r) s1 \<and> chord_inv cc ks kc pos D s1"
  proof (cases "k \<in> {CMB_ON, CMB_OFF, CMB_TOG} \<and> down")
    case True
    then obtain f where "f \<in> {combo_enable, combo_disable, combo_toggle}" "combo_exec cc now k ?r s = emit (Process ?r) (f s)"
      using exec_command [of k ?r] p by blast
    then show ?thesis using command_inv [OF assms(1,2)] by blast
  next
    case False
    then have "combo_exec cc now k ?r s = emit (Process ?r) (flush cc s)"
      using exec_pass [OF cb, of now k ?r s] other_key [OF assms(3,4) cb chord_atD(2) [OF at]] p by simp
    then show ?thesis using flush_inv [OF assms(1,2)] by blast
  qed
  then obtain s1 where s1: "combo_exec cc now k ?r s = emit (Process ?r) s1" "chord_inv cc ks kc pos D s1" by blast
  show ?thesis
  proof (cases down)
    case True
    then show ?thesis using s1(1) pass_press [OF s1(2) assms(2,3)] assms(5) by simp
  next
    case False
    have "k \<notin> keys_of ks st" for st using assms(4) by (auto simp: keys_of_def)
    then show ?thesis using False s1(1) pass_release [OF s1(2) assms(2)] assms(5) by simp
  qed
qed

lemma press_unbuffered:
  assumes "chord_inv cc ks kc pos D s" "D \<subseteq> K" "k \<in> K" "k \<in> set ks" "k \<notin> D" "key_combos s = [cb]" "combo_active cb \<or> \<not> b_combo_enable s"
  shows "chord_inv cc ks kc pos (insert k D) (combo_exec cc now k (key_record pos k True now) s)"
proof -
  let ?r = "key_record pos k True now"
  have at: "chord_at cc ks kc pos D cb s" using assms(1,6) by (auto simp: chord_inv_def)
  note inv = chord_atD [OF at]
  obtain j where j: "j < length ks" "ks ! j = k" and proc: "process_single_combo cc now k True 0 s =
      (let part = (\<not> combo_disabled cb \<and> b_combo_enable s)
       in if True \<and> part then (part, combo_press cc now 0 j (length ks) s) else combo_release cc now k 0 j (length ks) part s)"
    using chord_key [OF assms(4,6) inv(2), of now True] by blast
  have k: "k \<notin> keys_of ks (combo_state cb)" using inv(5) assms(5) by blast
  then have "keys_of ks (combo_state cb) \<noteq> set ks" using assms(4) by blast
  then have "\<not> ALL_COMBO_KEYS_ARE_DOWN (combo_state cb) (length ks)" using all_down [OF keys(1,3) inv(4)] by simp
  moreover have "\<not> KEY_NOT_YET_RELEASED (combo_state cb) j" using not_yet_released [OF keys(1) j(1)] k j(2) by simp
  moreover have "\<not> (\<not> combo_disabled cb \<and> b_combo_enable s)" using assms(7) inv(9) by (auto simp: chord_phase_def)
  ultimately have "process_single_combo cc now k True 0 s = (False, set_combo 0 (combo_state_update (KEY_STATE_UP j)) s)"
    using assms(6) by (simp add: proc combo_release_def Let_def)
  then have "process_single_combo cc now k True 0 s = (False, s)" using up_same [OF assms(6) j(1)] k j(2) by simp
  then have "combo_exec cc now k ?r s = emit (Process ?r) (flush cc s)"
    using keys(4) assms(4) by (intro exec_pass [OF assms(6)]) (auto simp: key_record_def)
  then show ?thesis using pass_press [OF flush_inv [OF assms(1,2)] assms(2,3,5)] by simp
qed

lemma press_state:
  assumes "chord_inv cc ks kc pos D s" "k \<in> set ks" "k \<notin> D" "key_combos s = [cb]" "\<not> combo_active cb" "b_combo_enable s"
    and j: "j < length ks" "ks ! j = k"
  shows "\<exists>cb' l w bs. combo_press cc now 0 j (length ks) s =
      s\<lparr>key_combos := [cb'], longest_term := l, combo_buffer_write := w, combo_buffer := bs\<rparr> \<and>
    combo_keys cb' = ks \<and> combo_keycode cb' = kc \<and> \<not> combo_active cb' \<and> within ks (combo_state cb') \<and>
    keys_of ks (combo_state cb') = insert k (keys_of ks (combo_state cb)) \<and>
    (combo_disabled cb' \<longrightarrow> keys_of ks (combo_state cb') = set ks) \<and> w < COMBO_BUFFER_LENGTH cc \<and> length bs = COMBO_BUFFER_LENGTH cc \<and>
    (if keys_of ks (combo_state cb') = set ks \<and> \<not> combo_disabled cb'
     then w = next_place cc (combo_buffer_read s) \<and> bs ! combo_buffer_read s = 0 else w = combo_buffer_read s)"
proof -
  have at: "chord_at cc ks kc pos D cb s" using assms(1,4) by (auto simp: chord_inv_def)
  note inv = chord_atD [OF at]
  have "k \<notin> keys_of ks (combo_state cb)" using inv(5) assms(3) by blast
  then have "keys_of ks (combo_state cb) \<noteq> set ks" using assms(2) by blast
  then have s: "\<not> combo_disabled cb" "combo_buffer_read s = combo_buffer_write s" using inv(9) assms(5) by (auto simp: chord_phase_def)
  define cb1 where "cb1 = combo_state_update (KEY_STATE_DOWN j) cb"
  define l where "l = (if longest_term s < get_combo_term cc 0 then get_combo_term cc 0 else longest_term s)"
  define s1 where "s1 = s\<lparr>key_combos := [cb1], longest_term := l\<rparr>"
  have cb1: "combo_keys cb1 = ks" "combo_keycode cb1 = kc" "\<not> combo_active cb1" "within ks (combo_state cb1)" "\<not> combo_disabled cb1"
    "keys_of ks (combo_state cb1) = insert k (keys_of ks (combo_state cb))"
    using keys_of_down [OF j(1) keys(3)] inv(2-4) assms(5) s(1) j(2) by (simp_all add: cb1_def)
  have s1: "(let s = set_combo 0 (combo_state_update (KEY_STATE_DOWN j)) s
      in if longest_term s < get_combo_term cc 0 then s\<lparr>longest_term := get_combo_term cc 0\<rparr> else s) = s1"
    using assms(4) by (cases s) (simp add: s1_def l_def cb1_def set_combo_def Let_def)
  have ring: "ring_ok cc s1" "combo_buffer_read s1 = combo_buffer_write s1" using inv(1) s(2) by (simp_all add: s1_def ring_ok_def)
  have all: "ALL_COMBO_KEYS_ARE_DOWN (combo_state cb1) (length ks) \<longleftrightarrow> keys_of ks (combo_state cb1) = set ks"
    by (rule all_down [OF keys(1,3) cb1(4)])
  have press: "combo_press cc now 0 j (length ks) s =
      (if keys_of ks (combo_state cb1) = set ks
       then if combo_timer s \<noteq> 0 \<and> TIMER_DIFF_16 now (combo_timer s) > get_combo_term cc 0 then set_combo 0 DISABLE_COMBO s1 else queue_combo cc 0 s1
       else s1)"
    using s1 assms(4,5) all by (simp add: combo_press_def Let_def) (simp add: s1_def)
  consider (part) "keys_of ks (combo_state cb1) \<noteq> set ks"
    | (late) "keys_of ks (combo_state cb1) = set ks" "combo_timer s \<noteq> 0 \<and> TIMER_DIFF_16 now (combo_timer s) > get_combo_term cc 0"
    | (full) "keys_of ks (combo_state cb1) = set ks" "\<not> (combo_timer s \<noteq> 0 \<and> TIMER_DIFF_16 now (combo_timer s) > get_combo_term cc 0)"
    by blast
  then show ?thesis
  proof cases
    case part
    then have "combo_press cc now 0 j (length ks) s = s1" by (simp add: press)
    then show ?thesis using cb1 part s inv(1)
      by (intro exI [of _ cb1] exI [of _ l] exI [of _ "combo_buffer_write s"] exI [of _ "combo_buffer s"]) (auto simp: s1_def ring_ok_def)
  next
    case late
    then have "combo_press cc now 0 j (length ks) s = set_combo 0 DISABLE_COMBO s1" by (simp add: press)
    then show ?thesis using cb1 late(1) s inv(1)
      by (intro exI [of _ "DISABLE_COMBO cb1"] exI [of _ l] exI [of _ "combo_buffer_write s"] exI [of _ "combo_buffer s"])
         (auto simp: s1_def ring_ok_def set_combo_def)
  next
    case full
    then have "combo_press cc now 0 j (length ks) s = queue_combo cc 0 s1" unfolding press by (simp only: if_True if_False simp_thms)
    then show ?thesis using cb1 full(1) s inv(1) next_place_other(2) [OF config(2), of "combo_buffer_read s"]
      by (intro exI [of _ cb1] exI [of _ "get_wait_time cc 0 (s1\<lparr>combo_buffer := (combo_buffer s)[combo_buffer_write s := 0],
            combo_buffer_write := next_place cc (combo_buffer_write s)\<rparr>)"] exI [of _ "next_place cc (combo_buffer_write s)"]
          exI [of _ "(combo_buffer s)[combo_buffer_write s := 0]"])
         (simp add: queue_combo_def places_none [OF ring] Let_def, auto simp: s1_def ring_ok_def)
  qed
qed

lemma press_buffered:
  assumes "chord_inv cc ks kc pos D s" "k \<in> K" "k \<in> set ks" "k \<notin> D" "key_combos s = [cb]" "\<not> combo_active cb" "b_combo_enable s"
  shows "chord_inv cc ks kc pos (insert k D) (combo_exec cc now k (key_record pos k True now) s)"
proof -
  let ?r = "key_record pos k True now" and ?M = "keys_of ks (combo_state cb)"
  have at: "chord_at cc ks kc pos D cb s" using assms(1,5) by (auto simp: chord_inv_def)
  note inv = chord_atD [OF at]
  have M: "q_keycode ` set (key_buffer s) = ?M" using inv(9) assms(6) by (simp add: chord_phase_def)
  obtain j where j: "j < length ks" "ks ! j = k" and proc: "process_single_combo cc now k True 0 s =
      (let part = (\<not> combo_disabled cb \<and> b_combo_enable s)
       in if True \<and> part then (part, combo_press cc now 0 j (length ks) s) else combo_release cc now k 0 j (length ks) part s)"
    using chord_key [OF assms(3,5) inv(2), of now True] by blast
  obtain cb' l w bs where press: "combo_press cc now 0 j (length ks) s =
      s\<lparr>key_combos := [cb'], longest_term := l, combo_buffer_write := w, combo_buffer := bs\<rparr>"
    and cb': "combo_keys cb' = ks" "combo_keycode cb' = kc" "\<not> combo_active cb'" "within ks (combo_state cb')"
      "keys_of ks (combo_state cb') = insert k ?M"
    and queue: "combo_disabled cb' \<longrightarrow> keys_of ks (combo_state cb') = set ks" "w < COMBO_BUFFER_LENGTH cc" "length bs = COMBO_BUFFER_LENGTH cc"
      "if keys_of ks (combo_state cb') = set ks \<and> \<not> combo_disabled cb'
       then w = next_place cc (combo_buffer_read s) \<and> bs ! combo_buffer_read s = 0 else w = combo_buffer_read s"
    using press_state [OF assms(1,3-7) j] by blast
  have k: "k \<notin> ?M" using inv(5) assms(4) by blast
  then have "\<not> combo_disabled cb" using inv(9) assms(3,6) by (auto simp: chord_phase_def)
  then have exec: "process_single_combo cc now k True 0 s =
      (True, s\<lparr>key_combos := [cb'], longest_term := l, combo_buffer_write := w, combo_buffer := bs\<rparr>)"
    using assms(7) by (simp add: proc press)
  have "?M \<subset> set ks" using k assms(3) by (auto simp: keys_of_def)
  then have "card ?M < length ks" using psubset_card_mono [of "set ks" ?M] distinct_card [OF keys(1)] by simp
  moreover have "length (key_buffer s) = card ?M" using distinct_card [OF inv(7)] M by simp
  ultimately obtain t where e: "combo_exec cc now k ?r s = s\<lparr>key_combos := [cb'], longest_term := l, combo_buffer_write := w, combo_buffer := bs,
      combo_timer := t, key_buffer := key_buffer s @ [\<lparr>q_record = ?r, q_combo = None, q_keycode = k\<rparr>]\<rparr>"
    using exec_buffer [OF assms(5) exec, of ?r] keys(4) assms(3) config(1) by (auto simp: key_record_def)
  have fresh: "fresh pos \<lparr>q_record = ?r, q_combo = None, q_keycode = k\<rparr>"
    using positions(3) [OF assms(2)] by (cases "pos k") (auto simp: fresh_def key_record_def IS_NOEVENT_def)
  have "insert k D - insert k ?M = D - ?M" using assms(4) by blast
  then have out: "passed_on ks pos (insert k D) cb' = passed_on ks pos D cb" using cb' assms(6) by (simp add: passed_on_def)
  have "distinct (map q_keycode (key_buffer s) @ [k])" using inv(7) k M by simp
  moreover have "insert k ?M \<subseteq> insert k D" using inv(5) by blast
  moreover have "chord_phase cc ks cb' (combo_exec cc now k ?r s)"
    unfolding chord_phase_def using cb' M assms(7) queue by (simp add: e one_queued_def)
  ultimately have "chord_at cc ks kc pos (insert k D) cb' (combo_exec cc now k ?r s)"
    using cb' inv(1,6,8) fresh out queue(2,3) by (simp add: chord_at_def e ring_ok_def)
  then show ?thesis by (simp add: chord_inv_def e)
qed

text \<open>The release of a key of the chord while the combo is not held.\<close>

lemma release_inactive:
  assumes "chord_inv cc ks kc pos D s" "D \<subseteq> K" "k \<in> set ks" "k \<in> D" "key_combos s = [cb]" "\<not> combo_active cb"
  shows "chord_inv cc ks kc pos (D - {k}) (combo_exec cc now k (key_record pos k False now) s)"
proof -
  let ?r = "key_record pos k False now" and ?M = "keys_of ks (combo_state cb)"
  have at: "chord_at cc ks kc pos D cb s" using assms(1,5) by (auto simp: chord_inv_def)
  note inv = chord_atD [OF at]
  have M: "q_keycode ` set (key_buffer s) = ?M" and out: "foldl out_step (Some {}) (combo_out s) = Some (pos ` (D - ?M))"
    using inv(8,9) assms(6) by (simp_all add: chord_phase_def passed_on_def)
  obtain j where j: "j < length ks" "ks ! j = k" and proc: "process_single_combo cc now k False 0 s =
      (let part = (\<not> combo_disabled cb \<and> b_combo_enable s)
       in if False \<and> part then (part, combo_press cc now 0 j (length ks) s) else combo_release cc now k 0 j (length ks) part s)"
    using chord_key [OF assms(3,5) inv(2), of now False] by blast
  have all: "ALL_COMBO_KEYS_ARE_DOWN (combo_state cb) (length ks) \<longleftrightarrow> ?M = set ks" by (rule all_down [OF keys(1,3) inv(4)])
  have up: "keys_of ks (KEY_STATE_UP j (combo_state cb)) = ?M - {k}" "within ks (KEY_STATE_UP j (combo_state cb))"
    using keys_of_up [OF keys(1) j(1)] inv(4) j(2) by simp_all
  have passes: ?thesis if s1: "process_single_combo cc now k False 0 s = (False, sx)" "ring_ok cc sx"
      "combo_buffer_read sx = combo_buffer_write sx" "key_combos sx = [cbx]" "combo_keys cbx = ks" "combo_keycode cbx = kc"
      "\<not> combo_active cbx" "key_buffer sx = key_buffer s" "combo_out sx = combo_out s" for sx cbx
  proof -
    have e: "combo_exec cc now k ?r s = emit (Process ?r) (flush cc sx)"
      using exec_pass [OF assms(5), of now k ?r sx] s1(1) by (simp add: key_record_def)
    have "chord_inv cc ks kc pos D (flush cc sx)"
      using s1 inv(5-7) M out assms(2) by (intro flush_dumps [where E = "D - ?M" and cb = cbx]) auto
    moreover have "k \<notin> keys_of ks (combo_state cb2)" if "key_combos (flush cc sx) = [cb2]" for cb2
      using that s1(3,4,7,8) inv(6) by (auto simp: flush_def dump_key_buffer_def dump_fresh clear_combos_def)
    ultimately show ?thesis unfolding e using assms(2,4) by (intro pass_release) auto
  qed
  show ?thesis
  proof (cases "?M = set ks")
    case False
    then have "process_single_combo cc now k False 0 s = (False, set_combo 0 (combo_state_update (KEY_STATE_UP j)) s)"
      using assms(5,6) all by (simp add: proc combo_release_def Let_def)
    moreover have "combo_buffer_read s = combo_buffer_write s" using inv(9) False assms(6) by (simp add: chord_phase_def)
    ultimately show ?thesis using inv(1-3) assms(5,6)
      by (intro passes [where sx = "set_combo 0 (combo_state_update (KEY_STATE_UP j)) s" and cbx = "combo_state_update (KEY_STATE_UP j) cb"])
         (simp_all add: set_combo_def ring_ok_def)
  next
    case full: True
    show ?thesis
    proof (cases "combo_disabled cb \<or> must_hold cc 0 s")
      case True
      define s1 where "s1 = set_combo 0 (combo_state_update (KEY_STATE_UP j)) (drop_combo_from_buffer cc 0 s)"
      have p: "process_single_combo cc now k False 0 s = (False, s1)"
        using assms(5,6) all full True by (simp add: proc combo_release_def Let_def s1_def)
      show ?thesis
      proof (cases "combo_disabled cb")
        case True
        then have "combo_buffer_read s = combo_buffer_write s" using inv(9) assms(6) by (simp add: chord_phase_def)
        moreover from this have "drop_combo_from_buffer cc 0 s = s" by (rule drop_none [OF inv(1)])
        ultimately show ?thesis using p inv(1-3) assms(5,6)
          by (intro passes [where sx = s1 and cbx = "combo_state_update (KEY_STATE_UP j) cb"]) (simp_all add: s1_def set_combo_def ring_ok_def)
      next
        case False
        then have "one_queued cc s" using inv(9) full assms(6) by (simp add: chord_phase_def)
        from drop_one [OF config(2) inv(1) this] show ?thesis using p inv(1-3) assms(5,6)
          by (intro passes [where sx = s1 and cbx = "(DISABLE_COMBO cb)\<lparr>combo_state := KEY_STATE_UP j (combo_state cb)\<rparr>"])
             (simp_all add: s1_def set_combo_def ring_ok_def)
      qed
    next
      case queued: False
      define cb1 where "cb1 = combo_state_update (KEY_STATE_UP j) cb"
      define s1 where "s1 = s\<lparr>key_combos := [cb1]\<rparr>"
      have "key_buffer s \<noteq> []" using M full keys(2) by auto
      then have "b_combo_enable s" using inv(9) assms(6) by (simp add: chord_phase_def)
      then have p: "process_single_combo cc now k False 0 s = (True, s1)"
        using assms(5,6) all full queued config(3) by (simp add: proc combo_release_def Let_def s1_def cb1_def set_combo_def)
      have q: "one_queued cc s" using inv(9) full queued assms(6) by (simp add: chord_phase_def)
      have cb1: "keys_of ks (combo_state cb1) = set ks - {k}" "within ks (combo_state cb1)" using up full by (simp_all add: cb1_def)
      have "set ks - {k} \<noteq> {}"
      proof
        assume "set ks - {k} = {}"
        then have "card (set ks) \<le> card {k}" by (intro card_mono) auto
        then show False using distinct_card [OF keys(1)] keys(2) by simp
      qed
      moreover have "D - {k} - (set ks - {k}) = D - ?M" using full assms(3) by blast
      moreover have "set ks - {k} \<subseteq> D - {k}" using inv(5) full by blast
      ultimately have "chord_inv cc ks kc pos (D - {k}) (flush cc s1)"
        using inv(1-3,6,7) q M full queued out assms(2,6) cb1
        by (intro flush_applies [where cb = cb1]) (auto simp: s1_def ring_ok_def one_queued_def cb1_def)
      moreover have "combo_exec cc now k ?r s = flush cc s1"
        using exec_swallow [OF assms(5) p] by (simp add: key_record_def)
      ultimately show ?thesis by simp
    qed
  qed
qed

lemma release_active:
  assumes "chord_inv cc ks kc pos D s" "D \<subseteq> K" "k \<in> set ks" "k \<in> D" "key_combos s = [cb]" "combo_active cb"
  shows "chord_inv cc ks kc pos (D - {k}) (combo_exec cc now k (key_record pos k False now) s)"
proof -
  let ?r = "key_record pos k False now" and ?M = "keys_of ks (combo_state cb)"
  have at: "chord_at cc ks kc pos D cb s" using assms(1,5) by (auto simp: chord_inv_def)
  note inv = chord_atD [OF at]
  have phase: "combo_disabled cb" "key_buffer s = []" "combo_buffer_read s = combo_buffer_write s" and out:
    "foldl out_step (Some {}) (combo_out s) = Some (pos ` (D - ?M) \<union> {COMBO_KEY_POS})"
    using inv(8,9) assms(6) by (simp_all add: chord_phase_def passed_on_def)
  obtain j where j: "j < length ks" "ks ! j = k" and proc: "process_single_combo cc now k False 0 s =
      (let part = (\<not> combo_disabled cb \<and> b_combo_enable s)
       in if False \<and> part then (part, combo_press cc now 0 j (length ks) s) else combo_release cc now k 0 j (length ks) part s)"
    using chord_key [OF assms(3,5) inv(2), of now False] by blast
  have bit: "KEY_NOT_YET_RELEASED (combo_state cb) j \<longleftrightarrow> k \<in> ?M" using not_yet_released [OF keys(1) j(1)] j(2) by simp
  have up: "keys_of ks (KEY_STATE_UP j (combo_state cb)) = ?M - {k}" "within ks (KEY_STATE_UP j (combo_state cb))"
    using keys_of_up [OF keys(1) j(1)] inv(4) j(2) by simp_all
  consider (own) "k \<notin> ?M" | (final) "?M = {k}" | (other) "k \<in> ?M" "?M \<noteq> {k}" by blast
  then show ?thesis
  proof cases
    case own
    then have "process_single_combo cc now k False 0 s = (False, s)"
      using assms(5,6) bit up_same [OF assms(5) j(1)] j(2) by (simp add: proc combo_release_def Let_def)
    then have e: "combo_exec cc now k ?r s = emit (Process ?r) (flush cc s)"
      using exec_pass [OF assms(5), of now k ?r s] by (simp add: key_record_def)
    have "key_combos (flush cc s) = [cb]" using assms(5,6) phase by (simp add: flush_def dump_key_buffer_def clear_combos_def)
    then show ?thesis unfolding e using flush_inv [OF assms(1,2)] assms(2,4) own by (intro pass_release) auto
  next
    case final
    then have only: "ONLY_ONE_KEY_IS_DOWN (combo_state cb)" using only_one_down [OF keys(1) j(1) inv(4)] j(2) by simp
    define r where "r = \<lparr>event = \<lparr>key = COMBO_KEY_POS, pressed = False, time = now OR 1\<rparr>, tap_interrupted = False, tap_count = 0, rec_keycode = kc\<rparr>"
    define cb1 where "cb1 = (DEACTIVATE_COMBO cb)\<lparr>combo_state := KEY_STATE_UP j (combo_state cb)\<rparr>"
    define s1 where "s1 = (emit (Process r) s)\<lparr>key_combos := [cb1]\<rparr>"
    have "process_single_combo cc now k False 0 s = (True, s1)"
      using assms(5,6) bit final only inv(3) keys(5)
      by (simp add: proc combo_release_def release_combo_def Let_def s1_def r_def cb1_def set_combo_def emit_def)
    then have e: "combo_exec cc now k ?r s = flush cc s1" using exec_swallow [OF assms(5)] by (simp add: key_record_def)
    have "COMBO_KEY_POS \<notin> pos ` (D - {k})" using positions(3) assms(2) by force
    then have o1: "foldl out_step (Some {}) (combo_out s1) = Some (pos ` (D - {k}))" using out final by (simp add: s1_def r_def)
    have "chord_inv cc ks kc pos (D - {k}) (flush cc s1)"
      using inv(1-3) phase o1 assms(2) by (intro flush_dumps [where E = "D - {k}" and cb = cb1]) (auto simp: s1_def cb1_def ring_ok_def emit_def)
    then show ?thesis by (simp add: e)
  next
    case other
    then have only: "\<not> ONLY_ONE_KEY_IS_DOWN (combo_state cb)" using only_one_down [OF keys(1) j(1) inv(4)] j(2) by simp
    define cb1 where "cb1 = combo_state_update (KEY_STATE_UP j) cb"
    define s1 where "s1 = s\<lparr>key_combos := [cb1]\<rparr>"
    have "process_single_combo cc now k False 0 s = (True, s1)"
      using assms(5,6) bit other only config(4) by (simp add: proc combo_release_def Let_def s1_def cb1_def set_combo_def)
    then have e: "combo_exec cc now k ?r s = flush cc s1" using exec_swallow [OF assms(5)] by (simp add: key_record_def)
    have "D - {k} - (?M - {k}) = D - ?M" using other(1) by blast
    then have "passed_on ks pos (D - {k}) cb1 = passed_on ks pos D cb" using up by (simp add: passed_on_def cb1_def)
    moreover have "?M - {k} \<noteq> {}" using other by blast
    moreover have "?M - {k} \<subseteq> D - {k}" using inv(5) by blast
    ultimately have "chord_at cc ks kc pos (D - {k}) cb1 s1"
      using inv(1-3,8) phase assms(6) up by (simp add: chord_at_def s1_def cb1_def ring_ok_def chord_phase_def)
    then have "chord_inv cc ks kc pos (D - {k}) s1" by (simp add: chord_inv_def s1_def)
    then have "chord_inv cc ks kc pos (D - {k}) (flush cc s1)" using assms(2) by (intro flush_inv) auto
    then show ?thesis by (simp add: e)
  qed
qed

lemma task_inv:
  assumes "chord_inv cc ks kc pos D s" "D \<subseteq> K"
  shows "chord_inv cc ks kc pos D (combo_task cc now s)"
proof -
  have "combo_task cc now s = s \<or> combo_task cc now s = flush cc s \<or>
      combo_task cc now s = (flush cc s)\<lparr>longest_term := 0, combo_timer := 0\<rparr>"
    by (auto simp: combo_task_def flush_def)
  moreover have "chord_inv cc ks kc pos D (u\<lparr>longest_term := l, combo_timer := t\<rparr>) = chord_inv cc ks kc pos D u" for u l t
    by (simp add: chord_inv_def chord_at_def chord_phase_def ring_ok_def one_queued_def)
  ultimately show ?thesis using assms(1) flush_inv [OF assms] by metis
qed

lemma step_inv:
  assumes "chord_inv cc ks kc pos D s" "D \<subseteq> K" "keys_in_turn K D (e # es)"
  shows "chord_inv cc ks kc pos (keys_after D [e]) (combo_step cc pos s e)"
proof (cases e)
  case (Task_at now)
  then show ?thesis using task_inv [OF assms(1,2)] by (simp add: combo_step_def)
next
  case (Key_at k down now)
  then have k: "k \<in> K" "k \<in> D \<longleftrightarrow> \<not> down" using assms(3) by simp_all
  obtain cb where cb: "key_combos s = [cb]" using assms(1) by (auto simp: chord_inv_def)
  have "chord_inv cc ks kc pos (if down then insert k D else D - {k}) (combo_exec cc now k (key_record pos k down now) s)"
  proof (cases "k \<in> set ks")
    case False
    then show ?thesis using other_key_inv [OF assms(1,2) k(1)] k(2) by blast
  next
    case True
    then show ?thesis
      using k press_unbuffered [OF assms(1,2) k(1) True _ cb] press_buffered [OF assms(1) k(1) True _ cb]
        release_active [OF assms(1,2) True _ cb] release_inactive [OF assms(1,2) True _ cb]
      by (cases down; cases "combo_active cb"; cases "b_combo_enable s") simp_all
  qed
  then show ?thesis by (simp add: combo_step_def Key_at)
qed

lemma run_inv:
  "chord_inv cc ks kc pos D s \<Longrightarrow> D \<subseteq> K \<Longrightarrow> keys_in_turn K D es \<Longrightarrow>
   chord_inv cc ks kc pos (keys_after D es) (foldl (combo_step cc pos) s es)"
proof (induction es arbitrary: D s)
  case (Cons e es)
  have "keys_after D [e] \<subseteq> K" "keys_in_turn K (keys_after D [e]) es" "keys_after D (e # es) = keys_after (keys_after D [e]) es"
    using Cons.prems(2,3) by (cases e; auto)+
  then show ?case using Cons.IH [OF step_inv [OF Cons.prems]] by simp
qed simp

end

text \<open>The contract, on the chord of two letters with the default options.\<close>

interpretation letters_chord: one_chord default_combo_config "[KC_A, KC_B]" KC_ESCAPE letter_pos "{KC_A, KC_B, KC_C}"
  by unfold_locales (auto simp: default_combo_config_def inj_on_def letter_pos_def COMBO_KEY_POS_def)

lemma init_chord: "chord_inv cc ks kc pos {} (combo_init cc [COMBO ks kc])"
  if "2 \<le> length ks" "2 \<le> COMBO_BUFFER_LENGTH cc"
proof -
  have "{} \<noteq> set ks" using that(1) by auto
  then show ?thesis using that(2)
    by (simp add: chord_inv_def chord_at_def chord_phase_def passed_on_def combo_init_def COMBO_def ring_ok_def)
qed



definition letters_combo :: "combo_ev list \<Rightarrow> (keypos_t \<times> bool) list" where
  "letters_combo es = map (\<lambda>out. case out of Process r \<Rightarrow> (key (event r), pressed (event r)) | Combo_event i b \<Rightarrow> (COMBO_KEY_POS, b))
     (combo_out (foldl (combo_step default_combo_config letter_pos) (combo_init default_combo_config [COMBO [KC_A, KC_B] KC_ESCAPE]) es))"

lemma chord_example:
  "letters_combo [Key_at KC_A True 1000, Key_at KC_B True 1010, Task_at 1100, Key_at KC_B False 1220, Key_at KC_A False 1230] =
   [(COMBO_KEY_POS, True), (COMBO_KEY_POS, False)]"
  by code_simp

lemma no_key_example:
  "letters_combo [Key_at 0 True 1000, Key_at KC_A True 1000, Key_at KC_B True 1010, Task_at 1100] =
   [(letter_pos 0, True), (letter_pos KC_A, True), (letter_pos KC_B, True)]"
  by code_simp

text \<open>The release of the one key of a chord of one key leaves the chord active without a key, so it is never released.\<close>

lemma chord_of_one_sticks:
  "map (\<lambda>out. case out of Process r \<Rightarrow> (key (event r), pressed (event r)) | Combo_event i b \<Rightarrow> (COMBO_KEY_POS, b))
     (combo_out (foldl (combo_step default_combo_config letter_pos) (combo_init default_combo_config [COMBO [KC_A] KC_ESCAPE])
       [Key_at KC_A True 1000, Key_at KC_A False 1010, Task_at 1200, Key_at KC_B True 1300, Key_at KC_B False 1310])) =
   [(COMBO_KEY_POS, True), (letter_pos KC_B, True), (letter_pos KC_B, False)]"
  by code_simp

text \<open>With the buffer full a press is lost, and its release gets through: here for a buffer of two.\<close>

lemma full_buffer_loses_press:
  "map (\<lambda>out. case out of Process r \<Rightarrow> (key (event r), pressed (event r)) | Combo_event i b \<Rightarrow> (COMBO_KEY_POS, b))
     (combo_out (foldl (combo_step (default_combo_config\<lparr>COMBO_KEY_BUFFER_LENGTH := 2\<rparr>) letter_pos)
       (combo_init default_combo_config [COMBO [KC_A, KC_D] KC_ESCAPE, COMBO [KC_B, KC_E] KC_ESCAPE, COMBO [KC_C, KC_F] KC_ESCAPE])
       [Key_at KC_A True 1000, Key_at KC_B True 1001, Key_at KC_C True 1002, Key_at KC_C False 1050])) =
   [(letter_pos KC_A, True), (letter_pos KC_B, True), (letter_pos KC_C, False)]"
  by code_simp

end
