(* ===== verification/Mousekey.thy ===== *)
theory Mousekey
  imports Keycode
begin

text \<open>
  Mouse keys, \<^verbatim>\<open>quantum/mousekey.c\<close>, in the accelerated mode and in the combined one (\<^verbatim>\<open>MK_COMBINED\<close>), and what
  \<^verbatim>\<open>host_mouse_send\<close> and the mouse case of \<^verbatim>\<open>process_action\<close> do with them.  The mode with three constant speeds is in
  Mousekey_Speed; the kinetic mode computes with floats and is left out.  Reports sent are the list \<open>mouse_sent\<close>.
\<close>

section \<open>State\<close>

text \<open>The axes are \<^verbatim>\<open>int8_t\<close>: words read by \<open>sint\<close>.\<close>

record report_mouse_t =
  mouse_buttons :: u8
  mouse_x :: u8
  mouse_y :: u8
  mouse_v :: u8
  mouse_h :: u8

record mouse_host =
  mouse_driver :: bool
  mouse_report :: report_mouse_t
  last_timer_c :: u16
  last_timer_w :: u16
  mouse_sent :: "report_mouse_t list"

record mouse_st = mouse_host +
  mousekey_accel :: u8
  mousekey_repeat :: u8
  mousekey_wheel_repeat :: u8

text \<open>Macros of the build, and the \<^verbatim>\<open>mk_\<close> variables initialised from macros.\<close>

record mouse_config =
  MK_COMBINED :: bool
  MOUSEKEY_MOVE_DELTA :: nat
  MOUSEKEY_MOVE_MAX :: nat
  MOUSEKEY_WHEEL_DELTA :: nat
  MOUSEKEY_WHEEL_MAX :: nat
  mk_delay :: u8
  mk_interval :: u8
  mk_max_speed :: u8
  mk_time_to_max :: u8
  mk_wheel_delay :: u8
  mk_wheel_interval :: u8
  mk_wheel_max_speed :: u8
  mk_wheel_time_to_max :: u8

definition default_mouse_config :: mouse_config where
  "default_mouse_config = \<lparr>MK_COMBINED = False, MOUSEKEY_MOVE_DELTA = 5, MOUSEKEY_MOVE_MAX = 127,
     MOUSEKEY_WHEEL_DELTA = 1, MOUSEKEY_WHEEL_MAX = 127, mk_delay = 30, mk_interval = 50, mk_max_speed = 10,
     mk_time_to_max = 20, mk_wheel_delay = 30, mk_wheel_interval = 100, mk_wheel_max_speed = 8, mk_wheel_time_to_max = 40\<rparr>"

definition no_report :: report_mouse_t where
  "no_report = \<lparr>mouse_buttons = 0, mouse_x = 0, mouse_y = 0, mouse_v = 0, mouse_h = 0\<rparr>"

definition mouse_init :: "bool \<Rightarrow> mouse_st" where
  "mouse_init d = \<lparr>mouse_driver = d, mouse_report = no_report, last_timer_c = 0, last_timer_w = 0, mouse_sent = [],
     mousekey_accel = 0, mousekey_repeat = 0, mousekey_wheel_repeat = 0\<rparr>"

section \<open>Operations\<close>

definition host_mouse_send :: "report_mouse_t \<Rightarrow> 'a mouse_host_scheme \<Rightarrow> 'a mouse_host_scheme" where
  "host_mouse_send r s = (if mouse_driver s then s\<lparr>mouse_sent := mouse_sent s @ [r]\<rparr> else s)"

definition mousekey_send :: "u16 \<Rightarrow> 'a mouse_host_scheme \<Rightarrow> 'a mouse_host_scheme" where
  "mousekey_send now s =
     (let r = mouse_report s;
          s = (if mouse_x r \<noteq> 0 \<or> mouse_y r \<noteq> 0 then s\<lparr>last_timer_c := now\<rparr> else s);
          s = (if mouse_v r \<noteq> 0 \<or> mouse_h r \<noteq> 0 then s\<lparr>last_timer_w := now\<rparr> else s)
      in host_mouse_send r s)"

text \<open>\<^verbatim>\<open>(x * 181) >> 8\<close> in \<^verbatim>\<open>int\<close>: the shift of a negative number rounds down.\<close>

definition times_inv_sqrt2 :: "u8 \<Rightarrow> u8" where
  "times_inv_sqrt2 x = word_of_int ((sint x * 181) div 256)"

text \<open>The return of both unit functions, whose local variable is a \<^verbatim>\<open>uint16_t\<close>.\<close>

definition clamp_unit :: "nat \<Rightarrow> u16 \<Rightarrow> u8" where
  "clamp_unit mx u = (if unat u > mx then of_nat mx else if u = 0 then 1 else ucast u)"

definition move_unit :: "mouse_config \<Rightarrow> mouse_st \<Rightarrow> u8" where
  "move_unit mc s =
     (let full = MOUSEKEY_MOVE_DELTA mc * unat (mk_max_speed mc)
      in clamp_unit (MOUSEKEY_MOVE_MAX mc)
        (if bit (mousekey_accel s) 0 then of_nat (if MK_COMBINED mc then 1 else full div 4)
         else if bit (mousekey_accel s) 1 then of_nat (full div 2)
         else if bit (mousekey_accel s) 2 then of_nat (if MK_COMBINED mc then MOUSEKEY_MOVE_MAX mc else full)
         else if mousekey_repeat s = 0 then of_nat (MOUSEKEY_MOVE_DELTA mc)
         else if mk_time_to_max mc \<le> mousekey_repeat s then of_nat full
         else of_nat ((full * unat (mousekey_repeat s)) div unat (mk_time_to_max mc))))"

text \<open>In the combined mode the wheel reads the repeat count of the cursor.\<close>

definition wheel_unit :: "mouse_config \<Rightarrow> mouse_st \<Rightarrow> u8" where
  "wheel_unit mc s =
     (let full = MOUSEKEY_WHEEL_DELTA mc * unat (mk_wheel_max_speed mc);
          n = (if MK_COMBINED mc then mousekey_repeat s else mousekey_wheel_repeat s)
      in clamp_unit (MOUSEKEY_WHEEL_MAX mc)
        (if bit (mousekey_accel s) 0 then of_nat (if MK_COMBINED mc then 1 else full div 4)
         else if bit (mousekey_accel s) 1 then of_nat (full div 2)
         else if bit (mousekey_accel s) 2 then of_nat (if MK_COMBINED mc then MOUSEKEY_WHEEL_MAX mc else full)
         else if n = 0 then of_nat (MOUSEKEY_WHEEL_DELTA mc)
         else if mk_wheel_time_to_max mc \<le> n then of_nat full
         else of_nat ((full * unat n) div unat (mk_wheel_time_to_max mc))))"

text \<open>A unit times the sign of an axis, and the block for diagonals that the task has for the cursor and for the wheel.\<close>

definition toward :: "u8 \<Rightarrow> u8 \<Rightarrow> u8" where
  "toward a u = (if a = 0 then 0 else word_of_int (int (unat u) * (if 0 < sint a then 1 else -1)))"

definition diagonal :: "u8 \<Rightarrow> u8 \<Rightarrow> u8 \<times> u8" where
  "diagonal a b =
     (let shrink = (\<lambda>x. let x = times_inv_sqrt2 x in if x = 0 then 1 else x)
      in if a \<noteq> 0 \<and> b \<noteq> 0 then (shrink a, shrink b) else (a, b))"

definition any_motion :: "report_mouse_t \<Rightarrow> bool" where
  "any_motion r \<longleftrightarrow> mouse_x r \<noteq> 0 \<or> mouse_y r \<noteq> 0 \<or> mouse_v r \<noteq> 0 \<or> mouse_h r \<noteq> 0"

definition cursor_due :: "mouse_config \<Rightarrow> u16 \<Rightarrow> mouse_st \<Rightarrow> bool" where
  "cursor_due mc now s \<longleftrightarrow> (mouse_x (mouse_report s) \<noteq> 0 \<or> mouse_y (mouse_report s) \<noteq> 0) \<and>
     unat (TIMER_DIFF_16 now (last_timer_c s)) >
       (if mousekey_repeat s \<noteq> 0 then unat (mk_interval mc) else unat (mk_delay mc) * 10)"

definition wheel_due :: "mouse_config \<Rightarrow> u16 \<Rightarrow> mouse_st \<Rightarrow> bool" where
  "wheel_due mc now s \<longleftrightarrow> (mouse_v (mouse_report s) \<noteq> 0 \<or> mouse_h (mouse_report s) \<noteq> 0) \<and>
     unat (TIMER_DIFF_16 now (last_timer_w s)) >
       (if mousekey_wheel_repeat s \<noteq> 0 then unat (mk_wheel_interval mc) else unat (mk_wheel_delay mc) * 10)"

definition mousekey_task :: "mouse_config \<Rightarrow> u16 \<Rightarrow> mouse_st \<Rightarrow> mouse_st" where
  "mousekey_task mc now s =
     (let t = mouse_report s;
          cursor = cursor_due mc now s;
          s = (if cursor \<and> mousekey_repeat s \<noteq> 0xFF then s\<lparr>mousekey_repeat := mousekey_repeat s + 1\<rparr> else s);
          (x, y) = (if cursor then diagonal (toward (mouse_x t) (move_unit mc s)) (toward (mouse_y t) (move_unit mc s))
                    else (0, 0));
          wheel = wheel_due mc now s;
          s = (if wheel \<and> mousekey_wheel_repeat s \<noteq> 0xFF then s\<lparr>mousekey_wheel_repeat := mousekey_wheel_repeat s + 1\<rparr> else s);
          (v, h) = (if wheel then diagonal (toward (mouse_v t) (wheel_unit mc s)) (toward (mouse_h t) (wheel_unit mc s))
                    else (0, 0));
          s = s\<lparr>mouse_report := t\<lparr>mouse_x := x, mouse_y := y, mouse_v := v, mouse_h := h\<rparr>\<rparr>;
          s = (if any_motion (mouse_report s) then mousekey_send now s else s)
      in s\<lparr>mouse_report := t\<rparr>)"

definition IS_MOUSEKEY_BUTTON :: "u8 \<Rightarrow> bool" where
  "IS_MOUSEKEY_BUTTON code \<longleftrightarrow> KC_MS_BTN1 \<le> code \<and> code \<le> KC_MS_BTN8"

definition IS_MOUSEKEY :: "u8 \<Rightarrow> bool" where
  "IS_MOUSEKEY code \<longleftrightarrow> KC_MS_UP \<le> code \<and> code \<le> KC_MS_ACCEL2"

text \<open>\<^verbatim>\<open>unit * -1\<close>, stored in an \<^verbatim>\<open>int8_t\<close>, is the negated word.\<close>

definition mousekey_on :: "mouse_config \<Rightarrow> u8 \<Rightarrow> mouse_st \<Rightarrow> mouse_st" where
  "mousekey_on mc code s =
     (let r = mouse_report s
      in if code = KC_MS_UP then s\<lparr>mouse_report := r\<lparr>mouse_y := - move_unit mc s\<rparr>\<rparr>
         else if code = KC_MS_DOWN then s\<lparr>mouse_report := r\<lparr>mouse_y := move_unit mc s\<rparr>\<rparr>
         else if code = KC_MS_LEFT then s\<lparr>mouse_report := r\<lparr>mouse_x := - move_unit mc s\<rparr>\<rparr>
         else if code = KC_MS_RIGHT then s\<lparr>mouse_report := r\<lparr>mouse_x := move_unit mc s\<rparr>\<rparr>
         else if code = KC_MS_WH_UP then s\<lparr>mouse_report := r\<lparr>mouse_v := wheel_unit mc s\<rparr>\<rparr>
         else if code = KC_MS_WH_DOWN then s\<lparr>mouse_report := r\<lparr>mouse_v := - wheel_unit mc s\<rparr>\<rparr>
         else if code = KC_MS_WH_LEFT then s\<lparr>mouse_report := r\<lparr>mouse_h := - wheel_unit mc s\<rparr>\<rparr>
         else if code = KC_MS_WH_RIGHT then s\<lparr>mouse_report := r\<lparr>mouse_h := wheel_unit mc s\<rparr>\<rparr>
         else if IS_MOUSEKEY_BUTTON code
         then s\<lparr>mouse_report := r\<lparr>mouse_buttons := mouse_buttons r OR bitmask (unat (code - KC_MS_BTN1))\<rparr>\<rparr>
         else if code = KC_MS_ACCEL0 then s\<lparr>mousekey_accel := mousekey_accel s OR bitmask 0\<rparr>
         else if code = KC_MS_ACCEL1 then s\<lparr>mousekey_accel := mousekey_accel s OR bitmask 1\<rparr>
         else if code = KC_MS_ACCEL2 then s\<lparr>mousekey_accel := mousekey_accel s OR bitmask 2\<rparr>
         else s)"

text \<open>The first chain of \<^verbatim>\<open>mousekey_off\<close> up to the buttons is the same in every mode.\<close>

definition release_axis :: "u8 \<Rightarrow> report_mouse_t \<Rightarrow> report_mouse_t" where
  "release_axis code r =
     (if code = KC_MS_UP \<and> sint (mouse_y r) < 0 then r\<lparr>mouse_y := 0\<rparr>
      else if code = KC_MS_DOWN \<and> sint (mouse_y r) > 0 then r\<lparr>mouse_y := 0\<rparr>
      else if code = KC_MS_LEFT \<and> sint (mouse_x r) < 0 then r\<lparr>mouse_x := 0\<rparr>
      else if code = KC_MS_RIGHT \<and> sint (mouse_x r) > 0 then r\<lparr>mouse_x := 0\<rparr>
      else if code = KC_MS_WH_UP \<and> sint (mouse_v r) > 0 then r\<lparr>mouse_v := 0\<rparr>
      else if code = KC_MS_WH_DOWN \<and> sint (mouse_v r) < 0 then r\<lparr>mouse_v := 0\<rparr>
      else if code = KC_MS_WH_LEFT \<and> sint (mouse_h r) < 0 then r\<lparr>mouse_h := 0\<rparr>
      else if code = KC_MS_WH_RIGHT \<and> sint (mouse_h r) > 0 then r\<lparr>mouse_h := 0\<rparr>
      else if IS_MOUSEKEY_BUTTON code
      then r\<lparr>mouse_buttons := mouse_buttons r AND NOT (bitmask (unat (code - KC_MS_BTN1)))\<rparr>
      else r)"

definition mousekey_off :: "u8 \<Rightarrow> mouse_st \<Rightarrow> mouse_st" where
  "mousekey_off code s =
     (let s = s\<lparr>mouse_report := release_axis code (mouse_report s)\<rparr>;
          s = (if code = KC_MS_ACCEL0 then s\<lparr>mousekey_accel := mousekey_accel s AND NOT (bitmask 0)\<rparr>
               else if code = KC_MS_ACCEL1 then s\<lparr>mousekey_accel := mousekey_accel s AND NOT (bitmask 1)\<rparr>
               else if code = KC_MS_ACCEL2 then s\<lparr>mousekey_accel := mousekey_accel s AND NOT (bitmask 2)\<rparr>
               else s);
          r = mouse_report s;
          s = (if mouse_x r = 0 \<and> mouse_y r = 0 then s\<lparr>mousekey_repeat := 0\<rparr> else s)
      in if mouse_v r = 0 \<and> mouse_h r = 0 then s\<lparr>mousekey_wheel_repeat := 0\<rparr> else s)"

definition mousekey_clear :: "mouse_st \<Rightarrow> mouse_st" where
  "mousekey_clear s = s\<lparr>mouse_report := no_report, mousekey_repeat := 0, mousekey_wheel_repeat := 0, mousekey_accel := 0\<rparr>"

text \<open>
  \<^verbatim>\<open>ACT_MOUSEKEY\<close> in \<^verbatim>\<open>process_action\<close> of builds without a pointing device: the same two calls as in
  \<^verbatim>\<open>register_code\<close> and \<^verbatim>\<open>unregister_code\<close>.  \<^verbatim>\<open>clear_keyboard_but_mods_and_keys\<close> clears and sends.
\<close>

definition act_mousekey :: "mouse_config \<Rightarrow> u16 \<Rightarrow> bool \<Rightarrow> u8 \<Rightarrow> mouse_st \<Rightarrow> mouse_st" where
  "act_mousekey mc now pressed code s =
     mousekey_send now (if pressed then mousekey_on mc code s else mousekey_off code s)"

definition clear_mouse :: "u16 \<Rightarrow> mouse_st \<Rightarrow> mouse_st" where
  "clear_mouse now s = mousekey_send now (mousekey_clear s)"

datatype mouse_event = Mouse_key u16 bool u8 | Mouse_task u16 | Mouse_clear u16

fun mouse_step :: "mouse_config \<Rightarrow> mouse_event \<Rightarrow> mouse_st \<Rightarrow> mouse_st" where
  "mouse_step mc (Mouse_key now pressed code) s = act_mousekey mc now pressed code s"
| "mouse_step mc (Mouse_task now) s = mousekey_task mc now s"
| "mouse_step mc (Mouse_clear now) s = clear_mouse now s"

definition mouse_run :: "mouse_config \<Rightarrow> mouse_event list \<Rightarrow> mouse_st \<Rightarrow> mouse_st" where
  "mouse_run mc es s = foldl (\<lambda>s e. mouse_step mc e s) s es"

section \<open>Units and signs\<close>

definition mouse_config_ok :: "mouse_config \<Rightarrow> bool" where
  "mouse_config_ok mc \<longleftrightarrow> 1 \<le> MOUSEKEY_MOVE_MAX mc \<and> MOUSEKEY_MOVE_MAX mc \<le> 127 \<and>
     1 \<le> MOUSEKEY_WHEEL_MAX mc \<and> MOUSEKEY_WHEEL_MAX mc \<le> 127"

lemma sint_i8:
  assumes "-128 \<le> k" "k \<le> 127"
  shows "sint (word_of_int k :: u8) = k"
  using assms by (simp add: signed_of_int signed_take_bit_int_eq_self)

lemma uint_le: "unat u \<le> m \<Longrightarrow> uint u \<le> int m"
  by (metis of_nat_mono uint_nat)

lemma sint_unit:
  assumes "unat (u :: u8) \<le> 127"
  shows "sint u = uint u" "sint (- u) = - uint u"
proof -
  have r: "uint u \<le> 127" "0 \<le> uint u" using uint_le [OF assms] by simp_all
  show "sint u = uint u" using sint_i8 [of "uint u"] r by simp
  show "sint (- u) = - uint u" using sint_i8 [of "- uint u"] r by simp
qed

lemma sint_0_iff: "sint (a :: u8) = 0 \<longleftrightarrow> a = 0"
  by (rule signed_eq_0_iff)

lemma clamp_unit_bounds:
  assumes "1 \<le> mx" "mx \<le> 127"
  shows "1 \<le> unat (clamp_unit mx u)" "unat (clamp_unit mx u) \<le> mx"
proof -
  have "unat u \<noteq> 0" if "u \<noteq> 0" using that by (simp add: unat_eq_0)
  then show "1 \<le> unat (clamp_unit mx u)" "unat (clamp_unit mx u) \<le> mx"
    using assms by (auto simp: clamp_unit_def unat_of_nat take_bit_nat_eq_self unsigned_ucast_eq Suc_le_eq)
qed

lemma move_unit_bounds:
  "mouse_config_ok mc \<Longrightarrow> 1 \<le> unat (move_unit mc s) \<and> unat (move_unit mc s) \<le> MOUSEKEY_MOVE_MAX mc"
  unfolding move_unit_def Let_def by (intro conjI clamp_unit_bounds) (auto simp: mouse_config_ok_def)

lemma wheel_unit_bounds:
  "mouse_config_ok mc \<Longrightarrow> 1 \<le> unat (wheel_unit mc s) \<and> unat (wheel_unit mc s) \<le> MOUSEKEY_WHEEL_MAX mc"
  unfolding wheel_unit_def Let_def by (intro conjI clamp_unit_bounds) (auto simp: mouse_config_ok_def)

text \<open>An axis is in range and points in direction \<open>d\<close>.\<close>

definition axis_ok :: "nat \<Rightarrow> int \<Rightarrow> u8 \<Rightarrow> bool" where
  "axis_ok m d a \<longleftrightarrow> \<bar>sint a\<bar> \<le> int m \<and> sgn (sint a) = d"

lemma axis_ok_zero [simp]: "axis_ok m d 0 \<longleftrightarrow> d = 0"
  by (auto simp: axis_ok_def)

lemma axis_ok_unit:
  assumes "1 \<le> unat u" "unat u \<le> m" "m \<le> 127"
  shows "axis_ok m 1 u" "axis_ok m (- 1) (- u)"
proof -
  have "0 < uint u" "uint u \<le> int m" "unat u \<le> 127"
    using assms uint_le [of u m] by (simp_all add: uint_nat del: of_nat_unat)
  then show "axis_ok m 1 u" "axis_ok m (- 1) (- u)" by (auto simp: axis_ok_def sint_unit)
qed

lemma axis_ok_toward:
  assumes "axis_ok m d a" "1 \<le> unat u" "unat u \<le> m" "m \<le> 127"
  shows "axis_ok m d (toward a u)"
proof (cases "a = 0")
  case True
  then show ?thesis using assms(1) by (simp add: toward_def)
next
  case False
  have u: "toward a u = (if 0 < sint a then u else - u)" using False by (simp add: toward_def)
  have "sint a \<noteq> 0" using False by (simp add: sint_0_iff)
  then have "d = (if 0 < sint a then 1 else - 1)" using assms(1) by (auto simp: axis_ok_def)
  then show ?thesis using axis_ok_unit [OF assms(2-4)] by (simp add: u)
qed

lemma sint_times_inv_sqrt2:
  assumes "\<bar>sint x\<bar> \<le> 127"
  shows "sint (times_inv_sqrt2 x) = (sint x * 181) div 256"
  unfolding times_inv_sqrt2_def by (rule sint_i8) (use assms in auto)

lemma axis_ok_shrink:
  assumes "axis_ok m d x" "1 \<le> m" "m \<le> 127" "x \<noteq> 0"
  shows "axis_ok m d (if times_inv_sqrt2 x = 0 then 1 else times_inv_sqrt2 x)"
proof -
  have r: "\<bar>sint x\<bar> \<le> 127" and x: "sint x \<noteq> 0" using assms by (auto simp: axis_ok_def sint_0_iff)
  have zero: "times_inv_sqrt2 x = 0 \<longleftrightarrow> (sint x * 181) div 256 = 0"
    using sint_times_inv_sqrt2 [OF r] by (metis sint_0_iff)
  show ?thesis
  proof (cases "0 < sint x")
    case True
    then show ?thesis using assms zero sint_times_inv_sqrt2 [OF r] by (auto simp: axis_ok_def sgn_if)
  next
    case False
    then have "sint x < 0" using x by simp
    then have "(sint x * 181) div 256 < 0" "- int m \<le> (sint x * 181) div 256"
      using assms(1) by (auto simp: axis_ok_def)
    then show ?thesis using assms zero sint_times_inv_sqrt2 [OF r] \<open>sint x < 0\<close> by (auto simp: axis_ok_def sgn_if)
  qed
qed

lemma axis_ok_diagonal:
  assumes "axis_ok m d a" "axis_ok m e b" "1 \<le> m" "m \<le> 127"
  shows "axis_ok m d (fst (diagonal a b))" "axis_ok m e (snd (diagonal a b))"
  using assms axis_ok_shrink [OF assms(1,3,4)] axis_ok_shrink [OF assms(2-4)]
  by (auto simp: diagonal_def Let_def)

section \<open>What the keys say\<close>

text \<open>
  The reference: each axis has a direction, set by the last key pressed on it and reset by the release of the key that
  points there; the buttons are the set of those held.  The task has no part in it.
\<close>

record mouse_ref =
  dir_x :: int
  dir_y :: int
  dir_v :: int
  dir_h :: int
  held_buttons :: "nat set"

definition mouse_idle :: mouse_ref where
  "mouse_idle = \<lparr>dir_x = 0, dir_y = 0, dir_v = 0, dir_h = 0, held_buttons = {}\<rparr>"

definition axis_key :: "bool \<Rightarrow> int \<Rightarrow> int \<Rightarrow> int" where
  "axis_key pressed d a = (if pressed then d else if a = d then 0 else a)"

definition ref_key :: "bool \<Rightarrow> u8 \<Rightarrow> mouse_ref \<Rightarrow> mouse_ref" where
  "ref_key p code a =
     (if code = KC_MS_UP then a\<lparr>dir_y := axis_key p (- 1) (dir_y a)\<rparr>
      else if code = KC_MS_DOWN then a\<lparr>dir_y := axis_key p 1 (dir_y a)\<rparr>
      else if code = KC_MS_LEFT then a\<lparr>dir_x := axis_key p (- 1) (dir_x a)\<rparr>
      else if code = KC_MS_RIGHT then a\<lparr>dir_x := axis_key p 1 (dir_x a)\<rparr>
      else if code = KC_MS_WH_UP then a\<lparr>dir_v := axis_key p 1 (dir_v a)\<rparr>
      else if code = KC_MS_WH_DOWN then a\<lparr>dir_v := axis_key p (- 1) (dir_v a)\<rparr>
      else if code = KC_MS_WH_LEFT then a\<lparr>dir_h := axis_key p (- 1) (dir_h a)\<rparr>
      else if code = KC_MS_WH_RIGHT then a\<lparr>dir_h := axis_key p 1 (dir_h a)\<rparr>
      else if IS_MOUSEKEY_BUTTON code
      then a\<lparr>held_buttons := (if p then insert (unat code - 0xF1) (held_buttons a) else held_buttons a - {unat code - 0xF1})\<rparr>
      else a)"

fun ref_step :: "mouse_event \<Rightarrow> mouse_ref \<Rightarrow> mouse_ref" where
  "ref_step (Mouse_key _ p code) a = ref_key p code a"
| "ref_step (Mouse_task _) a = a"
| "ref_step (Mouse_clear _) a = mouse_idle"

definition ref_run :: "mouse_event list \<Rightarrow> mouse_ref" where
  "ref_run es = foldl (\<lambda>a e. ref_step e a) mouse_idle es"

text \<open>A report shows the reference when every axis has its direction, and is part of it when an axis may also rest.\<close>

definition report_follows :: "mouse_config \<Rightarrow> mouse_ref \<Rightarrow> report_mouse_t \<Rightarrow> bool" where
  "report_follows mc a r \<longleftrightarrow>
     axis_ok (MOUSEKEY_MOVE_MAX mc) (dir_x a) (mouse_x r) \<and> axis_ok (MOUSEKEY_MOVE_MAX mc) (dir_y a) (mouse_y r) \<and>
     axis_ok (MOUSEKEY_WHEEL_MAX mc) (dir_v a) (mouse_v r) \<and> axis_ok (MOUSEKEY_WHEEL_MAX mc) (dir_h a) (mouse_h r) \<and>
     held_buttons a = {n. bit (mouse_buttons r) n}"

definition report_part :: "mouse_config \<Rightarrow> mouse_ref \<Rightarrow> report_mouse_t \<Rightarrow> bool" where
  "report_part mc a r \<longleftrightarrow>
     (mouse_x r = 0 \<or> axis_ok (MOUSEKEY_MOVE_MAX mc) (dir_x a) (mouse_x r)) \<and>
     (mouse_y r = 0 \<or> axis_ok (MOUSEKEY_MOVE_MAX mc) (dir_y a) (mouse_y r)) \<and>
     (mouse_v r = 0 \<or> axis_ok (MOUSEKEY_WHEEL_MAX mc) (dir_v a) (mouse_v r)) \<and>
     (mouse_h r = 0 \<or> axis_ok (MOUSEKEY_WHEEL_MAX mc) (dir_h a) (mouse_h r)) \<and>
     held_buttons a = {n. bit (mouse_buttons r) n}"

lemma report_follows_part: "report_follows mc a r \<Longrightarrow> report_part mc a r"
  by (simp add: report_follows_def report_part_def)

lemma axis_ok_sgn:
  "axis_ok m d a \<Longrightarrow> sint a < 0 \<longleftrightarrow> d = - 1" "axis_ok m d a \<Longrightarrow> 0 < sint a \<longleftrightarrow> d = 1"
  by (auto simp: axis_ok_def sgn_if split: if_splits)

lemma button_code:
  assumes "IS_MOUSEKEY_BUTTON code"
  shows "unat (code - KC_MS_BTN1) = unat code - 0xF1" "unat code - 0xF1 < 8"
proof -
  have le: "0xF1 \<le> code" "code \<le> 0xF8" using assms by (simp_all add: IS_MOUSEKEY_BUTTON_def)
  show "unat (code - KC_MS_BTN1) = unat code - 0xF1" using unat_sub [OF le(1)] by simp
  show "unat code - 0xF1 < 8" using le(2) by (simp add: word_le_nat_alt)
qed

lemma mouse_code_cases:
  obtains "code = KC_MS_UP" | "code = KC_MS_DOWN" | "code = KC_MS_LEFT" | "code = KC_MS_RIGHT" | "code = KC_MS_WH_UP"
  | "code = KC_MS_WH_DOWN" | "code = KC_MS_WH_LEFT" | "code = KC_MS_WH_RIGHT"
  | "code \<notin> {KC_MS_UP, KC_MS_DOWN, KC_MS_LEFT, KC_MS_RIGHT, KC_MS_WH_UP, KC_MS_WH_DOWN, KC_MS_WH_LEFT, KC_MS_WH_RIGHT}"
    "IS_MOUSEKEY_BUTTON (code :: u8)"
  | "code \<notin> {KC_MS_UP, KC_MS_DOWN, KC_MS_LEFT, KC_MS_RIGHT, KC_MS_WH_UP, KC_MS_WH_DOWN, KC_MS_WH_LEFT, KC_MS_WH_RIGHT}"
    "\<not> IS_MOUSEKEY_BUTTON code"
  by blast

lemma mousekey_on_follows:
  assumes "mouse_config_ok mc" "report_follows mc a (mouse_report s)"
  shows "report_follows mc (ref_key True code a) (mouse_report (mousekey_on mc code s))"
proof -
  have m: "axis_ok (MOUSEKEY_MOVE_MAX mc) 1 (move_unit mc s)" "axis_ok (MOUSEKEY_MOVE_MAX mc) (- 1) (- move_unit mc s)"
    and w: "axis_ok (MOUSEKEY_WHEEL_MAX mc) 1 (wheel_unit mc s)" "axis_ok (MOUSEKEY_WHEEL_MAX mc) (- 1) (- wheel_unit mc s)"
    using assms(1) move_unit_bounds [OF assms(1), of s] wheel_unit_bounds [OF assms(1), of s]
    by (auto simp: mouse_config_ok_def intro: axis_ok_unit)
  have b: "insert (unat code - 0xF1) (held_buttons a) = {n. bit (mouse_buttons (mouse_report s) OR bitmask (unat (code - 0xF1))) n}"
    if "IS_MOUSEKEY_BUTTON code"
    using assms(2) button_code [OF that] by (auto simp: report_follows_def mask_simps)
  show ?thesis
    by (rule mouse_code_cases [of code])
      (use assms(2) m w b in \<open>simp_all add: ref_key_def mousekey_on_def report_follows_def axis_key_def Let_def\<close>)
qed

lemma release_axis_follows:
  assumes "report_follows mc a r"
  shows "report_follows mc (ref_key False code a) (release_axis code r)"
proof -
  have ax: "axis_ok (MOUSEKEY_MOVE_MAX mc) (dir_x a) (mouse_x r)" "axis_ok (MOUSEKEY_MOVE_MAX mc) (dir_y a) (mouse_y r)"
    "axis_ok (MOUSEKEY_WHEEL_MAX mc) (dir_v a) (mouse_v r)" "axis_ok (MOUSEKEY_WHEEL_MAX mc) (dir_h a) (mouse_h r)"
    using assms by (simp_all add: report_follows_def)
  have b: "held_buttons a - {unat code - 0xF1} = {n. bit (mouse_buttons r AND NOT (bitmask (unat (code - 0xF1)))) n}"
    if "IS_MOUSEKEY_BUTTON code"
    using assms button_code [OF that] by (auto simp: report_follows_def mask_simps)
  have nb: "\<not> IS_MOUSEKEY_BUTTON c" if "c \<in> {KC_MS_UP, KC_MS_DOWN, KC_MS_LEFT, KC_MS_RIGHT, KC_MS_WH_UP, KC_MS_WH_DOWN, KC_MS_WH_LEFT, KC_MS_WH_RIGHT}" for c
    using that by (auto simp: IS_MOUSEKEY_BUTTON_def)
  show ?thesis
    by (rule mouse_code_cases [of code])
      (use assms b nb in \<open>simp_all add: release_axis_def ref_key_def axis_key_def report_follows_def axis_ok_sgn [OF ax(1)]
        axis_ok_sgn [OF ax(2)] axis_ok_sgn [OF ax(3)] axis_ok_sgn [OF ax(4)]\<close>)
qed

lemma mousekey_send_simps [simp]:
  "mouse_report (mousekey_send now s) = mouse_report s" "mouse_driver (mousekey_send now s) = mouse_driver s"
  "mouse_sent (mousekey_send now s) = mouse_sent s @ (if mouse_driver s then [mouse_report s] else [])"
  "mouse_host.more (mousekey_send now s) = mouse_host.more s"
  by (simp_all add: mousekey_send_def host_mouse_send_def Let_def)

lemma mousekey_send_counters [simp]:
  "mousekey_accel (mousekey_send now s) = mousekey_accel s" "mousekey_repeat (mousekey_send now s) = mousekey_repeat s"
  "mousekey_wheel_repeat (mousekey_send now s) = mousekey_wheel_repeat s"
  by (simp_all add: mousekey_send_def host_mouse_send_def Let_def)

lemma mousekey_off_report [simp]: "mouse_report (mousekey_off code s) = release_axis code (mouse_report s)"
  by (simp add: mousekey_off_def Let_def)

lemma mouse_sent_key [simp]:
  "mouse_sent (mousekey_on mc code s) = mouse_sent s" "mouse_sent (mousekey_off code s) = mouse_sent s"
  "mouse_driver (mousekey_on mc code s) = mouse_driver s" "mouse_driver (mousekey_off code s) = mouse_driver s"
  by (simp_all add: mousekey_on_def mousekey_off_def Let_def)

text \<open>The parts of the task: the counters after it and the two pairs of axes it sends.\<close>

definition after_repeat :: "mouse_config \<Rightarrow> u16 \<Rightarrow> mouse_st \<Rightarrow> mouse_st" where
  "after_repeat mc now s = (if cursor_due mc now s \<and> mousekey_repeat s \<noteq> 0xFF then s\<lparr>mousekey_repeat := mousekey_repeat s + 1\<rparr> else s)"

definition after_repeats :: "mouse_config \<Rightarrow> u16 \<Rightarrow> mouse_st \<Rightarrow> mouse_st" where
  "after_repeats mc now s = (let t = after_repeat mc now s
     in if wheel_due mc now s \<and> mousekey_wheel_repeat s \<noteq> 0xFF then t\<lparr>mousekey_wheel_repeat := mousekey_wheel_repeat s + 1\<rparr> else t)"

definition task_report :: "mouse_config \<Rightarrow> u16 \<Rightarrow> mouse_st \<Rightarrow> report_mouse_t" where
  "task_report mc now s =
     (let r = mouse_report s; u = move_unit mc (after_repeat mc now s); w = wheel_unit mc (after_repeats mc now s);
          xy = (if cursor_due mc now s then diagonal (toward (mouse_x r) u) (toward (mouse_y r) u) else (0, 0));
          vh = (if wheel_due mc now s then diagonal (toward (mouse_v r) w) (toward (mouse_h r) w) else (0, 0))
      in r\<lparr>mouse_x := fst xy, mouse_y := snd xy, mouse_v := fst vh, mouse_h := snd vh\<rparr>)"

lemma after_repeat_simps [simp]:
  "mouse_report (after_repeat mc now s) = mouse_report s" "last_timer_w (after_repeat mc now s) = last_timer_w s"
  "mousekey_wheel_repeat (after_repeat mc now s) = mousekey_wheel_repeat s"
  by (simp_all add: after_repeat_def)

lemma mousekey_task_eq:
  "mousekey_task mc now s =
     (let t = after_repeats mc now s; r = task_report mc now s
      in (if any_motion r then mousekey_send now (t\<lparr>mouse_report := r\<rparr>) else t)\<lparr>mouse_report := mouse_report s\<rparr>)"
proof -
  have w: "wheel_due mc now (after_repeat mc now s) = wheel_due mc now s" by (simp add: wheel_due_def)
  show ?thesis
    unfolding mousekey_task_def after_repeat_def [symmetric] Let_def w
    by (simp add: task_report_def after_repeats_def Let_def split_beta cong: if_cong)
qed

lemma mousekey_task_sent:
  "mouse_sent (mousekey_task mc now s) =
     mouse_sent s @ (if any_motion (task_report mc now s) \<and> mouse_driver s then [task_report mc now s] else [])"
  "mouse_report (mousekey_task mc now s) = mouse_report s" "mouse_driver (mousekey_task mc now s) = mouse_driver s"
  by (simp_all add: mousekey_task_eq Let_def after_repeats_def after_repeat_def)

lemma task_report_part:
  assumes ok: "mouse_config_ok mc" and f: "report_follows mc a (mouse_report s)"
  shows "report_part mc a (task_report mc now s)"
proof -
  let ?r = "mouse_report s"
  have "axis_ok (MOUSEKEY_MOVE_MAX mc) (dir_x a) (fst (diagonal (toward (mouse_x ?r) u) (toward (mouse_y ?r) u)))"
    "axis_ok (MOUSEKEY_MOVE_MAX mc) (dir_y a) (snd (diagonal (toward (mouse_x ?r) u) (toward (mouse_y ?r) u)))"
    if "u = move_unit mc t" for u t
    using f ok move_unit_bounds [OF ok, of t] that
    by (auto simp: report_follows_def mouse_config_ok_def intro!: axis_ok_diagonal axis_ok_toward)
  moreover have "axis_ok (MOUSEKEY_WHEEL_MAX mc) (dir_v a) (fst (diagonal (toward (mouse_v ?r) u) (toward (mouse_h ?r) u)))"
    "axis_ok (MOUSEKEY_WHEEL_MAX mc) (dir_h a) (snd (diagonal (toward (mouse_v ?r) u) (toward (mouse_h ?r) u)))"
    if "u = wheel_unit mc t" for u t
    using f ok wheel_unit_bounds [OF ok, of t] that
    by (auto simp: report_follows_def mouse_config_ok_def intro!: axis_ok_diagonal axis_ok_toward)
  ultimately show ?thesis using f by (simp add: task_report_def report_part_def report_follows_def Let_def)
qed

lemma mouse_step_follows:
  assumes "mouse_config_ok mc" "report_follows mc a (mouse_report s)"
  shows "report_follows mc (ref_step e a) (mouse_report (mouse_step mc e s))"
    and "\<exists>out. mouse_sent (mouse_step mc e s) = mouse_sent s @ out \<and> list_all (report_part mc (ref_step e a)) out"
proof -
  have idle: "report_follows mc mouse_idle no_report" by (simp add: report_follows_def mouse_idle_def no_report_def)
  show f: "report_follows mc (ref_step e a) (mouse_report (mouse_step mc e s))"
    using assms idle
    by (cases e) (auto simp: act_mousekey_def clear_mouse_def mousekey_clear_def mousekey_task_sent mousekey_on_follows release_axis_follows)
  show "\<exists>out. mouse_sent (mouse_step mc e s) = mouse_sent s @ out \<and> list_all (report_part mc (ref_step e a)) out"
    using report_follows_part [OF f] task_report_part [OF assms]
    by (cases e) (auto simp: act_mousekey_def clear_mouse_def mousekey_clear_def mousekey_task_sent)
qed

lemma mouse_run_snoc: "mouse_run mc (es @ [e]) s = mouse_step mc e (mouse_run mc es s)" "ref_run (es @ [e]) = ref_step e (ref_run es)"
  by (simp_all add: mouse_run_def ref_run_def)

lemma mouse_run_follows:
  assumes "mouse_config_ok mc"
  shows "report_follows mc (ref_run es) (mouse_report (mouse_run mc es (mouse_init d)))"
proof (induction es rule: rev_induct)
  case Nil
  then show ?case by (simp add: mouse_run_def ref_run_def report_follows_def mouse_idle_def mouse_init_def no_report_def)
next
  case (snoc e es)
  then show ?case using mouse_step_follows(1) [OF assms] by (simp add: mouse_run_snoc)
qed

text \<open>
  C20. The mouse does what its keys say, in bounds.  After any sequence of key events, calls of the task and clears, every
  axis of the stored report points where the last key pressed on it and not released points, and the buttons are those
  held.  Every report that the next event sends has these buttons, moves an axis only in its direction, and by at most
  \<^verbatim>\<open>MOUSEKEY_MOVE_MAX\<close> or \<^verbatim>\<open>MOUSEKEY_WHEEL_MAX\<close>, so that no axis wraps around, on diagonals too.
\<close>

theorem mouse_follows_keys:
  assumes "mouse_config_ok mc"
  shows "report_follows mc (ref_run (es @ [e])) (mouse_report (mouse_run mc (es @ [e]) (mouse_init d))) \<and>
    (\<exists>out. mouse_sent (mouse_run mc (es @ [e]) (mouse_init d)) = mouse_sent (mouse_run mc es (mouse_init d)) @ out \<and>
       list_all (report_part mc (ref_run (es @ [e]))) out)"
  using mouse_step_follows [OF assms mouse_run_follows [OF assms]] by (simp add: mouse_run_snoc)

lemma mouse_follows_keys_witness:
  "\<exists>out. mouse_sent (mouse_run default_mouse_config
       ([Mouse_key 0 True KC_MS_RIGHT, Mouse_key 0 True KC_MS_UP] @ [Mouse_task 301]) (mouse_init True)) =
     mouse_sent (mouse_run default_mouse_config [Mouse_key 0 True KC_MS_RIGHT, Mouse_key 0 True KC_MS_UP] (mouse_init True)) @ out \<and>
     list_all (report_part default_mouse_config
       (ref_run ([Mouse_key 0 True KC_MS_RIGHT, Mouse_key 0 True KC_MS_UP] @ [Mouse_task 301]))) out"
  using mouse_follows_keys [of default_mouse_config "[Mouse_key 0 True KC_MS_RIGHT, Mouse_key 0 True KC_MS_UP]" "Mouse_task 301" True]
  by (simp add: mouse_config_ok_def default_mouse_config_def)

section \<open>Repetition and acceleration\<close>

text \<open>
  The reference: which of the task's calls move, a pure function of their times, and the speed of the \<open>n\<close>-th movement,
  counted from the key press.
\<close>

fun due_times :: "nat \<Rightarrow> nat \<Rightarrow> u16 \<Rightarrow> u16 list \<Rightarrow> u16 list" where
  "due_times pause every l [] = []"
| "due_times pause every l (t # ts) =
     (if unat (TIMER_DIFF_16 t l) > pause then t # due_times every every t ts else due_times pause every l ts)"

definition cursor_speed :: "mouse_config \<Rightarrow> nat \<Rightarrow> nat" where
  "cursor_speed mc n =
     (let full = MOUSEKEY_MOVE_DELTA mc * unat (mk_max_speed mc); top = unat (mk_time_to_max mc)
      in max 1 (min (MOUSEKEY_MOVE_MAX mc)
           (if n = 0 then MOUSEKEY_MOVE_DELTA mc else if top \<le> n then full else full * n div top)))"

lemma clamp_unit_nat:
  assumes "mx \<le> 127" "1 \<le> mx" "n < 65536"
  shows "clamp_unit mx (of_nat n) = of_nat (max 1 (min mx n))"
proof -
  have u: "unat (of_nat n :: u16) = n" using assms(3) by (simp add: unat_of_nat take_bit_nat_eq_self)
  have z: "(of_nat n :: u16) = 0 \<longleftrightarrow> n = 0" by (metis u unat_eq_0)
  have c: "ucast (of_nat n :: u16) = (of_nat n :: u8)" using assms(3) by (simp add: unsigned_of_nat take_bit_nat_eq_self)
  consider "n > mx" | "n = 0" | "0 < n" "n \<le> mx" by linarith
  then show ?thesis
  proof cases
    case 1
    then show ?thesis using assms(2) by (simp add: clamp_unit_def u max_def)
  next
    case 2
    then show ?thesis by (simp add: clamp_unit_def)
  next
    case 3
    then show ?thesis using assms(2) by (simp add: clamp_unit_def u z c max_def)
  qed
qed

lemma move_unit_speed:
  assumes "mouse_config_ok mc" "MOUSEKEY_MOVE_DELTA mc * unat (mk_max_speed mc) < 65536" "MOUSEKEY_MOVE_DELTA mc < 65536"
    and "mousekey_accel s = 0"
  shows "move_unit mc s = of_nat (cursor_speed mc (unat (mousekey_repeat s)))"
proof -
  let ?full = "MOUSEKEY_MOVE_DELTA mc * unat (mk_max_speed mc)"
  have div: "?full * n div t < 65536" if "n < t" for n t :: nat
  proof -
    have "?full * n \<le> ?full * t" using that by (intro mult_le_mono) auto
    then have "?full * n div t \<le> ?full" using that by (metis div_le_mono nonzero_mult_div_cancel_right not_less_zero)
    then show ?thesis using assms(2) by simp
  qed
  have z: "unat (mousekey_repeat s) = 0 \<longleftrightarrow> mousekey_repeat s = 0" by (simp add: unat_eq_0)
  have c: "clamp_unit (MOUSEKEY_MOVE_MAX mc) (of_nat n) = of_nat (max 1 (min (MOUSEKEY_MOVE_MAX mc) n))" if "n < 65536" for n
    using that assms(1) by (intro clamp_unit_nat) (auto simp: mouse_config_ok_def)
  show ?thesis
    using assms(2-4) div [of "unat (mousekey_repeat s)" "unat (mk_time_to_max mc)"] c [of ?full] c [of "MOUSEKEY_MOVE_DELTA mc"]
      c [of "?full * unat (mousekey_repeat s) div unat (mk_time_to_max mc)"]
    by (auto simp: move_unit_def cursor_speed_def Let_def z word_le_nat_alt not_le)
qed

lemma cursor_speed_bounds:
  "mouse_config_ok mc \<Longrightarrow> 1 \<le> cursor_speed mc n \<and> cursor_speed mc n \<le> MOUSEKEY_MOVE_MAX mc"
  by (simp add: cursor_speed_def mouse_config_ok_def Let_def)

lemma cursor_speed_mono:
  assumes "1 \<le> n" "n \<le> m"
  shows "cursor_speed mc n \<le> cursor_speed mc m"
proof -
  let ?full = "MOUSEKEY_MOVE_DELTA mc * unat (mk_max_speed mc)" and ?top = "unat (mk_time_to_max mc)"
  have "?full * n div ?top \<le> ?full" if "n < ?top"
  proof -
    have "?full * n \<le> ?full * ?top" using that by (intro mult_le_mono) auto
    then show ?thesis using that by (metis div_le_mono nonzero_mult_div_cancel_right not_less_zero)
  qed
  moreover have "?full * n div ?top \<le> ?full * m div ?top" using assms(2) by (intro div_le_mono mult_le_mono) auto
  ultimately have "(if ?top \<le> n then ?full else ?full * n div ?top) \<le> (if ?top \<le> m then ?full else ?full * m div ?top)"
    using assms(2) by (auto simp: not_le)
  then show ?thesis using assms by (auto simp: cursor_speed_def Let_def simp del: max.bounded_iff intro!: max.mono min.mono)
qed

text \<open>With the default settings the second movement is shorter than the first.\<close>

lemma default_cursor_speeds:
  "cursor_speed default_mouse_config 0 = 5" "cursor_speed default_mouse_config 1 = 2"
  "cursor_speed default_mouse_config 20 = 50"
  by (simp_all add: cursor_speed_def default_mouse_config_def Let_def)

lemma repeat_bump:
  fixes n :: u8
  shows "unat (if n \<noteq> 0xFF then n + 1 else n) = min 255 (unat n + 1)" "(if n \<noteq> 0xFF then n + 1 else n) \<noteq> 0"
proof -
  have le: "unat n \<le> 255" using unsigned_less [of n, where ?'a = nat] by simp
  have top: "unat n = 255 \<longleftrightarrow> n = 0xFF" by (simp add: word_unat_eq_iff)
  then have "unat (n + 1) = unat n + 1" if "n \<noteq> 0xFF" using that le unat_word_ariths(1) [of n 1] by simp
  then show *: "unat (if n \<noteq> 0xFF then n + 1 else n) = min 255 (unat n + 1)" using le top by (auto simp: min_def)
  then show "(if n \<noteq> 0xFF then n + 1 else n) \<noteq> 0" unfolding unat_eq_0 [symmetric] by simp
qed

lemma cursor_repeat:
  assumes ok: "mouse_config_ok mc" "MOUSEKEY_MOVE_DELTA mc * unat (mk_max_speed mc) < 65536" "MOUSEKEY_MOVE_DELTA mc < 65536"
    and s: "mousekey_accel s = 0" "mouse_driver s" "mouse_report s = no_report\<lparr>mouse_x := u\<rparr>" "0 < sint u"
    and pause: "pause = (if mousekey_repeat s \<noteq> 0 then unat (mk_interval mc) else unat (mk_delay mc) * 10)"
  shows "mouse_sent (mouse_run mc (map Mouse_task ts) s) = mouse_sent s @
    map (\<lambda>i. no_report\<lparr>mouse_x := of_nat (cursor_speed mc (min 255 (unat (mousekey_repeat s) + 1 + i)))\<rparr>)
      [0..<length (due_times pause (unat (mk_interval mc)) (last_timer_c s) ts)]"
  using s pause
proof (induction ts arbitrary: s pause)
  case Nil
  then show ?case by (simp add: mouse_run_def)
next
  case (Cons t ts)
  note s = Cons.prems(1-4) and pause = Cons.prems(5)
  let ?n = "mousekey_repeat s" and ?r = "after_repeat mc t s"
  have run: "mouse_run mc (Mouse_task t # es) s = mouse_run mc es (mousekey_task mc t s)" for es
    by (simp add: mouse_run_def)
  have nw: "\<not> wheel_due mc t s" using s(3) by (simp add: wheel_due_def no_report_def)
  have u0: "u \<noteq> 0" using s(4) by auto
  have due: "cursor_due mc t s \<longleftrightarrow> unat (TIMER_DIFF_16 t (last_timer_c s)) > pause"
    using s(3) u0 by (simp add: cursor_due_def pause no_report_def)
  show ?case
  proof (cases "cursor_due mc t s")
    case False
    have "mousekey_task mc t s = s"
      using False nw s(3)
      by (simp add: mousekey_task_eq task_report_def after_repeats_def after_repeat_def any_motion_def no_report_def Let_def)
    then show ?thesis using Cons.IH [OF s pause] False due by (simp add: run)
  next
    case True
    let ?m = "if ?n \<noteq> 0xFF then ?n + 1 else ?n"
    let ?v = "move_unit mc (s\<lparr>mousekey_repeat := ?m\<rparr>)"
    have r: "?r = s\<lparr>mousekey_repeat := ?m\<rparr>" using True by (simp add: after_repeat_def)
    have m: "unat ?m = min 255 (unat ?n + 1)" "?m \<noteq> 0" by (rule repeat_bump)+
    have v: "?v = of_nat (cursor_speed mc (min 255 (unat ?n + 1)))"
      using move_unit_speed [OF ok, of "s\<lparr>mousekey_repeat := ?m\<rparr>"] s(1) m(1) by simp
    have "1 \<le> unat ?v" using move_unit_bounds [OF ok(1)] by blast
    then have v0: "?v \<noteq> 0" by auto
    have rep: "task_report mc t s = no_report\<lparr>mouse_x := ?v\<rparr>"
      using True nw s(3,4) u0 by (simp add: task_report_def r toward_def diagonal_def no_report_def Let_def)
    have task: "mousekey_task mc t s = s\<lparr>mousekey_repeat := ?m, last_timer_c := t, mouse_sent := mouse_sent s @ [no_report\<lparr>mouse_x := ?v\<rparr>]\<rparr>"
      using s(2) nw v0
      by (simp add: mousekey_task_eq rep r after_repeats_def any_motion_def mousekey_send_def host_mouse_send_def no_report_def Let_def)
    have "min 255 (min 255 (unat ?n + 1) + 1 + i) = min 255 (unat ?n + 1 + Suc i)" for i by simp
    then show ?thesis
      using Cons.IH [of "mousekey_task mc t s" "unat (mk_interval mc)"] s m v True due
      by (simp add: run task map_upt_Suc del: upt_Suc)
  qed
qed

text \<open>
  A held cursor key repeats and accelerates as documented.  After the press of \<^verbatim>\<open>KC_MS_RIGHT\<close> at time \<open>t\<close>, the calls of the
  task that move are the first one more than the delay after the press, and from then on every first one more than the
  interval after the last; the \<open>n\<close>-th of them moves by the \<open>n\<close>-th speed, which stays the same from the 255th on.
\<close>

theorem cursor_ramp:
  assumes "mouse_config_ok mc" "MOUSEKEY_MOVE_DELTA mc * unat (mk_max_speed mc) < 65536" "MOUSEKEY_MOVE_DELTA mc < 65536"
  shows "mouse_sent (mouse_run mc (Mouse_key t True KC_MS_RIGHT # map Mouse_task ts) (mouse_init True)) =
    map (\<lambda>n. no_report\<lparr>mouse_x := of_nat (cursor_speed mc (min 255 n))\<rparr>)
      [0..<Suc (length (due_times (unat (mk_delay mc) * 10) (unat (mk_interval mc)) t ts))]"
proof -
  let ?u = "move_unit mc (mouse_init True)"
  let ?s = "mouse_step mc (Mouse_key t True KC_MS_RIGHT) (mouse_init True)"
  have u: "?u = of_nat (cursor_speed mc 0)" using move_unit_speed [OF assms] by (simp add: mouse_init_def)
  have b: "1 \<le> unat ?u" "unat ?u \<le> 127"
    using move_unit_bounds [OF assms(1), of "mouse_init True"] assms(1) by (auto simp: mouse_config_ok_def)
  then have pos: "0 < sint ?u" using axis_ok_unit(1) [of ?u 127] by (auto simp: axis_ok_def sgn_1_pos)
  then have u0: "?u \<noteq> 0" by auto
  have s: "?s = (mouse_init True)\<lparr>mouse_report := no_report\<lparr>mouse_x := ?u\<rparr>, last_timer_c := t, mouse_sent := [no_report\<lparr>mouse_x := ?u\<rparr>]\<rparr>"
    using u0 by (simp add: act_mousekey_def mousekey_on_def mousekey_send_def host_mouse_send_def mouse_init_def no_report_def Let_def)
  have fold: "mouse_run mc (Mouse_key t True KC_MS_RIGHT # map Mouse_task ts) (mouse_init True) = mouse_run mc (map Mouse_task ts) ?s"
    by (simp add: mouse_run_def)
  have "mouse_sent (mouse_run mc (map Mouse_task ts) ?s) = mouse_sent ?s @
      map (\<lambda>i. no_report\<lparr>mouse_x := of_nat (cursor_speed mc (min 255 (unat (mousekey_repeat ?s) + 1 + i)))\<rparr>)
        [0..<length (due_times (unat (mk_delay mc) * 10) (unat (mk_interval mc)) (last_timer_c ?s) ts)]"
    by (rule cursor_repeat [OF assms]) (use pos in \<open>simp_all only: s, simp_all add: mouse_init_def\<close>)
  then show ?thesis unfolding fold s u by (simp add: mouse_init_def map_upt_Suc del: upt_Suc)
qed

text \<open>
  The wheel in the combined mode.  Its speed there depends on the repeat count of the cursor, so a wheel key held alone
  never accelerates, however long it is held.
\<close>

lemma combined_wheel_step:
  assumes "MK_COMBINED mc" "mousekey_accel s = 0" "mousekey_repeat s = 0" "mouse_report s = no_report\<lparr>mouse_v := w\<rparr>"
    and "0 < sint w" "clamp_unit (MOUSEKEY_WHEEL_MAX mc) (of_nat (MOUSEKEY_WHEEL_DELTA mc)) = w"
  shows "mousekey_accel (mousekey_task mc t s) = 0" "mousekey_repeat (mousekey_task mc t s) = 0"
    "list_all (\<lambda>r. r = no_report\<lparr>mouse_v := w\<rparr>) (mouse_sent s) \<Longrightarrow>
     list_all (\<lambda>r. r = no_report\<lparr>mouse_v := w\<rparr>) (mouse_sent (mousekey_task mc t s))"
proof -
  have w0: "w \<noteq> 0" using assms(5) by auto
  have nc: "\<not> cursor_due mc t s" using assms(4) by (simp add: cursor_due_def no_report_def)
  then have a: "after_repeat mc t s = s" by (simp add: after_repeat_def)
  then show k: "mousekey_accel (mousekey_task mc t s) = 0" "mousekey_repeat (mousekey_task mc t s) = 0"
    using assms(2,3) by (simp_all add: mousekey_task_eq after_repeats_def Let_def)
  have u: "wheel_unit mc (after_repeats mc t s) = w"
    using assms(1-3,6) a by (simp add: wheel_unit_def after_repeats_def Let_def)
  have "task_report mc t s = no_report\<lparr>mouse_v := if wheel_due mc t s then w else 0\<rparr>"
    using nc assms(4,5) w0 u by (simp add: task_report_def toward_def diagonal_def no_report_def Let_def)
  then show "list_all (\<lambda>r. r = no_report\<lparr>mouse_v := w\<rparr>) (mouse_sent s) \<Longrightarrow>
      list_all (\<lambda>r. r = no_report\<lparr>mouse_v := w\<rparr>) (mouse_sent (mousekey_task mc t s))"
    by (auto simp: mousekey_task_sent any_motion_def no_report_def)
qed

theorem combined_wheel_constant:
  assumes "MK_COMBINED mc" "mouse_config_ok mc"
  shows "list_all (\<lambda>r. r = no_report\<lparr>mouse_v := clamp_unit (MOUSEKEY_WHEEL_MAX mc) (of_nat (MOUSEKEY_WHEEL_DELTA mc))\<rparr>)
    (mouse_sent (mouse_run mc (Mouse_key t True KC_MS_WH_UP # map Mouse_task ts) (mouse_init True)))"
proof -
  let ?w = "clamp_unit (MOUSEKEY_WHEEL_MAX mc) (of_nat (MOUSEKEY_WHEEL_DELTA mc))"
  let ?run = "\<lambda>ts. mouse_run mc (Mouse_key t True KC_MS_WH_UP # map Mouse_task ts) (mouse_init True)"
  have "1 \<le> unat ?w" "unat ?w \<le> 127"
    using clamp_unit_bounds [of "MOUSEKEY_WHEEL_MAX mc"] assms(2) by (auto simp: mouse_config_ok_def intro: order_trans)
  then have pos: "0 < sint ?w" using axis_ok_unit(1) [of ?w 127] by (auto simp: axis_ok_def sgn_1_pos)
  have u: "wheel_unit mc (mouse_init True) = ?w" using assms(1) by (simp add: wheel_unit_def mouse_init_def Let_def)
  have "mousekey_accel (?run ts) = 0 \<and> mousekey_repeat (?run ts) = 0 \<and> mouse_report (?run ts) = no_report\<lparr>mouse_v := ?w\<rparr> \<and>
      list_all (\<lambda>r. r = no_report\<lparr>mouse_v := ?w\<rparr>) (mouse_sent (?run ts))"
  proof (induction ts rule: rev_induct)
    case Nil
    show ?case
      using u by (simp add: mouse_run_def act_mousekey_def mousekey_on_def Let_def) (simp add: mouse_init_def)
  next
    case (snoc now ts)
    have "?run (ts @ [now]) = mousekey_task mc now (?run ts)" by (simp add: mouse_run_def)
    then show ?case using combined_wheel_step [OF assms(1), of "?run ts" ?w now] snoc pos by (simp add: mousekey_task_sent(2))
  qed
  then show ?thesis by blast
qed

end
