(* ===== verification/Mousekey_Speed.thy ===== *)
theory Mousekey_Speed
  imports Mousekey
begin

text \<open>
  Mouse keys with constant speeds, the part of \<^verbatim>\<open>quantum/mousekey.c\<close> under \<^verbatim>\<open>MK_3_SPEED\<close>, with or without
  \<^verbatim>\<open>MK_MOMENTARY_ACCEL\<close>.  The report and its sending are those of Mousekey.
\<close>

section \<open>State and operations\<close>

datatype mkspd = mkspd_unmod | mkspd_0 | mkspd_1 | mkspd_2

record speed_st = mouse_host +
  mk_speed :: mkspd

record speed_config =
  MK_MOMENTARY_ACCEL :: bool
  c_offsets :: "mkspd \<Rightarrow> u16"
  c_intervals :: "mkspd \<Rightarrow> u16"
  w_offsets :: "mkspd \<Rightarrow> u16"
  w_intervals :: "mkspd \<Rightarrow> u16"

definition default_speed_config :: "bool \<Rightarrow> speed_config" where
  "default_speed_config momentary = \<lparr>MK_MOMENTARY_ACCEL = momentary,
     c_offsets = case_mkspd 16 1 4 32, c_intervals = case_mkspd 16 32 16 16,
     w_offsets = case_mkspd 1 1 1 1, w_intervals = case_mkspd 40 360 120 20\<rparr>"

definition initial_speed :: "speed_config \<Rightarrow> mkspd" where
  "initial_speed sc = (if MK_MOMENTARY_ACCEL sc then mkspd_unmod else mkspd_1)"

definition speed_init :: "speed_config \<Rightarrow> bool \<Rightarrow> speed_st" where
  "speed_init sc d = \<lparr>mouse_driver = d, mouse_report = no_report, last_timer_c = 0, last_timer_w = 0, mouse_sent = [],
     mk_speed = initial_speed sc\<rparr>"

definition speed_task_report :: "speed_config \<Rightarrow> u16 \<Rightarrow> speed_st \<Rightarrow> report_mouse_t" where
  "speed_task_report sc now s =
     (let t = mouse_report s;
          r = t\<lparr>mouse_x := 0, mouse_y := 0, mouse_v := 0, mouse_h := 0\<rparr>;
          r = (if (mouse_x t \<noteq> 0 \<or> mouse_y t \<noteq> 0) \<and> TIMER_DIFF_16 now (last_timer_c s) > c_intervals sc (mk_speed s)
               then r\<lparr>mouse_x := mouse_x t, mouse_y := mouse_y t\<rparr> else r)
      in if (mouse_h t \<noteq> 0 \<or> mouse_v t \<noteq> 0) \<and> TIMER_DIFF_16 now (last_timer_w s) > w_intervals sc (mk_speed s)
         then r\<lparr>mouse_v := mouse_v t, mouse_h := mouse_h t\<rparr> else r)"

definition mousekey_task_3 :: "speed_config \<Rightarrow> u16 \<Rightarrow> speed_st \<Rightarrow> speed_st" where
  "mousekey_task_3 sc now s =
     (let t = mouse_report s;
          s = s\<lparr>mouse_report := speed_task_report sc now s\<rparr>;
          s = (if any_motion (mouse_report s) then mousekey_send now s else s)
      in s\<lparr>mouse_report := t\<rparr>)"

text \<open>The two assignments to each axis are made one after the other, so the second test reads what the first one wrote.\<close>

definition set_speed :: "u16 \<Rightarrow> u8 \<Rightarrow> u8" where
  "set_speed offset a =
     (let a = (if 0 < sint a then ucast offset else a)
      in if sint a < 0 then - ucast offset else a)"

text \<open>The diagonal of the wheel lacks the correction of a speed that has become zero.\<close>

definition wheel_diagonal :: "u8 \<Rightarrow> u8 \<Rightarrow> u8 \<times> u8" where
  "wheel_diagonal a b = (if a \<noteq> 0 \<and> b \<noteq> 0 then (times_inv_sqrt2 a, times_inv_sqrt2 b) else (a, b))"

definition adjust_report :: "u16 \<Rightarrow> u16 \<Rightarrow> report_mouse_t \<Rightarrow> report_mouse_t" where
  "adjust_report c_offset w_offset r =
     (let (x, y) = diagonal (set_speed c_offset (mouse_x r)) (set_speed c_offset (mouse_y r));
          (h, v) = wheel_diagonal (set_speed w_offset (mouse_h r)) (set_speed w_offset (mouse_v r))
      in r\<lparr>mouse_x := x, mouse_y := y, mouse_v := v, mouse_h := h\<rparr>)"

definition adjust_speed :: "speed_config \<Rightarrow> speed_st \<Rightarrow> speed_st" where
  "adjust_speed sc s =
     s\<lparr>mouse_report := adjust_report (c_offsets sc (mk_speed s)) (w_offsets sc (mk_speed s)) (mouse_report s)\<rparr>"

definition mousekey_on_3 :: "speed_config \<Rightarrow> u8 \<Rightarrow> speed_st \<Rightarrow> speed_st" where
  "mousekey_on_3 sc code s =
     (let r = mouse_report s;
          c = ucast (c_offsets sc (mk_speed s));
          w = ucast (w_offsets sc (mk_speed s));
          old = mk_speed s;
          s = (if code = KC_MS_UP then s\<lparr>mouse_report := r\<lparr>mouse_y := - c\<rparr>\<rparr>
               else if code = KC_MS_DOWN then s\<lparr>mouse_report := r\<lparr>mouse_y := c\<rparr>\<rparr>
               else if code = KC_MS_LEFT then s\<lparr>mouse_report := r\<lparr>mouse_x := - c\<rparr>\<rparr>
               else if code = KC_MS_RIGHT then s\<lparr>mouse_report := r\<lparr>mouse_x := c\<rparr>\<rparr>
               else if code = KC_MS_WH_UP then s\<lparr>mouse_report := r\<lparr>mouse_v := w\<rparr>\<rparr>
               else if code = KC_MS_WH_DOWN then s\<lparr>mouse_report := r\<lparr>mouse_v := - w\<rparr>\<rparr>
               else if code = KC_MS_WH_LEFT then s\<lparr>mouse_report := r\<lparr>mouse_h := - w\<rparr>\<rparr>
               else if code = KC_MS_WH_RIGHT then s\<lparr>mouse_report := r\<lparr>mouse_h := w\<rparr>\<rparr>
               else if IS_MOUSEKEY_BUTTON code
               then s\<lparr>mouse_report := r\<lparr>mouse_buttons := mouse_buttons r OR bitmask (unat (code - KC_MS_BTN1))\<rparr>\<rparr>
               else if code = KC_MS_ACCEL0 then s\<lparr>mk_speed := mkspd_0\<rparr>
               else if code = KC_MS_ACCEL1 then s\<lparr>mk_speed := mkspd_1\<rparr>
               else if code = KC_MS_ACCEL2 then s\<lparr>mk_speed := mkspd_2\<rparr>
               else s)
      in if mk_speed s \<noteq> old then adjust_speed sc s else s)"

definition mousekey_off_3 :: "speed_config \<Rightarrow> u8 \<Rightarrow> speed_st \<Rightarrow> speed_st" where
  "mousekey_off_3 sc code s =
     (let old = mk_speed s;
          s = s\<lparr>mouse_report := release_axis code (mouse_report s)\<rparr>
      in if MK_MOMENTARY_ACCEL sc
         then (let s = (if code = KC_MS_ACCEL0 \<or> code = KC_MS_ACCEL1 \<or> code = KC_MS_ACCEL2
                        then s\<lparr>mk_speed := mkspd_unmod\<rparr> else s)
               in if mk_speed s \<noteq> old then adjust_speed sc s else s)
         else s)"

text \<open>\<^verbatim>\<open>mousekey_clear\<close> resets the report; of the counters it also resets, this mode reads none.\<close>

definition mousekey_clear_3 :: "speed_st \<Rightarrow> speed_st" where
  "mousekey_clear_3 s = s\<lparr>mouse_report := no_report\<rparr>"

fun speed_step :: "speed_config \<Rightarrow> mouse_event \<Rightarrow> speed_st \<Rightarrow> speed_st" where
  "speed_step sc (Mouse_key now pressed code) s =
     mousekey_send now (if pressed then mousekey_on_3 sc code s else mousekey_off_3 sc code s)"
| "speed_step sc (Mouse_task now) s = mousekey_task_3 sc now s"
| "speed_step sc (Mouse_clear now) s = mousekey_send now (mousekey_clear_3 s)"

definition speed_run :: "speed_config \<Rightarrow> mouse_event list \<Rightarrow> speed_st \<Rightarrow> speed_st" where
  "speed_run sc es s = foldl (\<lambda>s e. speed_step sc e s) s es"

section \<open>What the keys say\<close>

text \<open>
  The reference is that of the accelerated mode.  The offsets have to fit a report, and those of the wheel have to be at
  least two.
\<close>

definition speed_config_ok :: "speed_config \<Rightarrow> bool" where
  "speed_config_ok sc \<longleftrightarrow> list_all (\<lambda>k. 1 \<le> c_offsets sc k \<and> c_offsets sc k \<le> 127 \<and> 2 \<le> w_offsets sc k \<and> w_offsets sc k \<le> 127)
     [mkspd_unmod, mkspd_0, mkspd_1, mkspd_2]"

lemma speed_config_okD:
  assumes "speed_config_ok sc"
  shows "1 \<le> c_offsets sc k \<and> c_offsets sc k \<le> 127 \<and> 2 \<le> w_offsets sc k \<and> w_offsets sc k \<le> 127"
  using assms by (cases k) (simp_all add: speed_config_ok_def)

lemma unat_offset:
  assumes "m \<le> f" "f \<le> (127 :: u16)"
  shows "unat m \<le> unat (ucast f :: u8)" "unat (ucast f :: u8) \<le> 127"
proof -
  have "unat f \<le> 127" using assms(2) by (simp add: word_le_nat_alt)
  then have "unat (ucast f :: u8) = unat f" by (simp add: unsigned_ucast_eq take_bit_nat_eq_self)
  then show "unat m \<le> unat (ucast f :: u8)" "unat (ucast f :: u8) \<le> 127"
    using assms \<open>unat f \<le> 127\<close> by (simp_all add: word_le_nat_alt)
qed

lemma axis_ok_set_speed:
  assumes "axis_ok 127 d a" "1 \<le> f" "f \<le> 127"
  shows "axis_ok 127 d (set_speed f a)" "set_speed f a \<noteq> 0 \<Longrightarrow> uint (ucast f :: u8) = \<bar>sint (set_speed f a)\<bar>"
proof -
  let ?u = "ucast f :: u8"
  have u: "1 \<le> unat ?u" "unat ?u \<le> 127" using unat_offset [OF assms(2,3)] by simp_all
  have pos: "axis_ok 127 1 ?u" "axis_ok 127 (- 1) (- ?u)" by (rule axis_ok_unit; use u in simp)+
  have s: "sint ?u = uint ?u" "sint (- ?u) = - uint ?u" by (rule sint_unit [OF u(2)])+
  have set: "set_speed f a = (if 0 < sint a then ?u else if sint a < 0 then - ?u else a)"
    using s by (auto simp: set_speed_def Let_def not_less)
  show "axis_ok 127 d (set_speed f a)"
    using assms(1) axis_ok_sgn [OF assms(1)] pos by (auto simp: set)
  have "0 \<le> uint ?u" by simp
  then show "uint ?u = \<bar>sint (set_speed f a)\<bar>" if "set_speed f a \<noteq> 0"
    using that s sint_0_iff [of a] unfolding set by (cases "0 < sint a"; cases "sint a < 0") simp_all
qed

text \<open>Two survives the shift, one does not.\<close>

lemma axis_ok_times:
  assumes "axis_ok 127 d x" "2 \<le> \<bar>sint x\<bar>"
  shows "axis_ok 127 d (times_inv_sqrt2 x)"
proof -
  have r: "\<bar>sint x\<bar> \<le> 127" using assms(1) by (simp add: axis_ok_def)
  then have "sgn ((sint x * 181) div 256) = sgn (sint x)" "\<bar>(sint x * 181) div 256\<bar> \<le> 127"
    using assms(2) by (auto simp: sgn_if)
  then show ?thesis using assms(1) by (simp add: axis_ok_def sint_times_inv_sqrt2 [OF r])
qed

lemma axis_ok_wheel_diagonal:
  assumes "axis_ok 127 d a" "axis_ok 127 e b" "2 \<le> f" "f \<le> 127"
  shows "axis_ok 127 d (fst (wheel_diagonal (set_speed f a) (set_speed f b)))"
    "axis_ok 127 e (snd (wheel_diagonal (set_speed f a) (set_speed f b)))"
proof -
  have f: "1 \<le> f" using assms(3) by (simp add: word_le_nat_alt)
  have two: "2 \<le> uint (ucast f :: u8)" using unat_offset(1) [OF assms(3,4)] by (simp add: uint_nat del: of_nat_unat)
  have big: "2 \<le> \<bar>sint (set_speed f x)\<bar>" if "set_speed f x \<noteq> 0" "axis_ok 127 g x" for x g
    using axis_ok_set_speed(2) [OF that(2) f assms(4) that(1)] two by simp
  show "axis_ok 127 d (fst (wheel_diagonal (set_speed f a) (set_speed f b)))"
    "axis_ok 127 e (snd (wheel_diagonal (set_speed f a) (set_speed f b)))"
    using axis_ok_set_speed(1) [OF assms(1) f assms(4)] axis_ok_set_speed(1) [OF assms(2) f assms(4)]
      big [OF _ assms(1)] big [OF _ assms(2)]
    by (auto simp: wheel_diagonal_def intro: axis_ok_times)
qed

abbreviation follows_127 :: "mouse_ref \<Rightarrow> report_mouse_t \<Rightarrow> bool" where
  "follows_127 \<equiv> report_follows default_mouse_config"

lemma follows_127_eq:
  "follows_127 a r \<longleftrightarrow> axis_ok 127 (dir_x a) (mouse_x r) \<and> axis_ok 127 (dir_y a) (mouse_y r) \<and>
     axis_ok 127 (dir_v a) (mouse_v r) \<and> axis_ok 127 (dir_h a) (mouse_h r) \<and> held_buttons a = {n. bit (mouse_buttons r) n}"
  by (simp add: report_follows_def default_mouse_config_def)

lemma adjust_speed_follows:
  assumes "speed_config_ok sc" "follows_127 a (mouse_report s)"
  shows "follows_127 a (mouse_report (adjust_speed sc s))"
proof -
  let ?r = "mouse_report s" and ?c = "c_offsets sc (mk_speed s)" and ?w = "w_offsets sc (mk_speed s)"
  have o: "1 \<le> ?c" "?c \<le> 127" "2 \<le> ?w" "?w \<le> 127" using speed_config_okD [OF assms(1)] by auto
  have ax: "axis_ok 127 (dir_x a) (mouse_x ?r)" "axis_ok 127 (dir_y a) (mouse_y ?r)"
    "axis_ok 127 (dir_v a) (mouse_v ?r)" "axis_ok 127 (dir_h a) (mouse_h ?r)" "held_buttons a = {n. bit (mouse_buttons ?r) n}"
    using assms(2) by (simp_all add: follows_127_eq)
  note axis_ok_diagonal [OF axis_ok_set_speed(1) [OF ax(1) o(1,2)] axis_ok_set_speed(1) [OF ax(2) o(1,2)]]
  moreover note axis_ok_wheel_diagonal [OF ax(4,3) o(3,4)]
  ultimately show ?thesis
    using ax(5) by (simp add: follows_127_eq adjust_speed_def adjust_report_def split_beta Let_def)
qed

lemma mousekey_on_3_follows:
  assumes "speed_config_ok sc" "follows_127 a (mouse_report s)"
  shows "follows_127 (ref_key True code a) (mouse_report (mousekey_on_3 sc code s))"
proof -
  let ?c = "ucast (c_offsets sc (mk_speed s)) :: u8" and ?w = "ucast (w_offsets sc (mk_speed s)) :: u8"
  have o: "1 \<le> c_offsets sc (mk_speed s)" "c_offsets sc (mk_speed s) \<le> 127"
    "2 \<le> w_offsets sc (mk_speed s)" "w_offsets sc (mk_speed s) \<le> 127"
    using speed_config_okD [OF assms(1)] by auto
  have w1: "1 \<le> w_offsets sc (mk_speed s)" using o(3) by (simp add: word_le_nat_alt)
  have u: "axis_ok 127 1 ?c" "axis_ok 127 (- 1) (- ?c)" "axis_ok 127 1 ?w" "axis_ok 127 (- 1) (- ?w)"
    by (rule axis_ok_unit; use unat_offset [OF o(1,2)] unat_offset [OF w1 o(4)] in simp)+
  have b: "insert (unat code - 0xF1) (held_buttons a) = {n. bit (mouse_buttons (mouse_report s) OR bitmask (unat (code - 0xF1))) n}"
    if "IS_MOUSEKEY_BUTTON code"
    using assms(2) button_code [OF that] by (auto simp: follows_127_eq mask_simps)
  show ?thesis
  proof (rule mouse_code_cases [of code])
    assume other: "code \<notin> {KC_MS_UP, KC_MS_DOWN, KC_MS_LEFT, KC_MS_RIGHT, KC_MS_WH_UP, KC_MS_WH_DOWN, KC_MS_WH_LEFT, KC_MS_WH_RIGHT}"
      "\<not> IS_MOUSEKEY_BUTTON code"
    then have "ref_key True code a = a" by (simp add: ref_key_def)
    then show ?thesis
      using assms(2) other adjust_speed_follows [OF assms(1), of a "s\<lparr>mk_speed := k\<rparr>" for k]
      by (simp add: mousekey_on_3_def Let_def)
  qed (use assms(2) u b in \<open>simp_all add: ref_key_def mousekey_on_3_def follows_127_eq axis_key_def Let_def\<close>)
qed

lemma mousekey_off_3_follows:
  assumes "speed_config_ok sc" "follows_127 a (mouse_report s)"
  shows "follows_127 (ref_key False code a) (mouse_report (mousekey_off_3 sc code s))"
  using release_axis_follows [OF assms(2), of code] adjust_speed_follows [OF assms(1)]
  by (simp add: mousekey_off_3_def Let_def)

lemma mousekey_task_3_sent:
  "mouse_sent (mousekey_task_3 sc now s) =
     mouse_sent s @ (if any_motion (speed_task_report sc now s) \<and> mouse_driver s then [speed_task_report sc now s] else [])"
  "mouse_report (mousekey_task_3 sc now s) = mouse_report s"
  by (simp_all add: mousekey_task_3_def Let_def)

lemma mouse_sent_key_3 [simp]:
  "mouse_sent (mousekey_on_3 sc code s) = mouse_sent s" "mouse_sent (mousekey_off_3 sc code s) = mouse_sent s"
  by (simp_all add: mousekey_on_3_def mousekey_off_3_def adjust_speed_def Let_def)

lemma speed_task_report_part: "follows_127 a (mouse_report s) \<Longrightarrow> report_part default_mouse_config a (speed_task_report sc now s)"
  by (simp add: speed_task_report_def report_part_def report_follows_def Let_def)

lemma speed_step_follows:
  assumes "speed_config_ok sc" "follows_127 a (mouse_report s)"
  shows "follows_127 (ref_step e a) (mouse_report (speed_step sc e s))"
    and "\<exists>out. mouse_sent (speed_step sc e s) = mouse_sent s @ out \<and> list_all (report_part default_mouse_config (ref_step e a)) out"
proof -
  have idle: "follows_127 mouse_idle no_report" by (simp add: follows_127_eq mouse_idle_def no_report_def)
  show f: "follows_127 (ref_step e a) (mouse_report (speed_step sc e s))"
    using assms idle
    by (cases e) (auto simp: mousekey_clear_3_def mousekey_task_3_sent mousekey_on_3_follows mousekey_off_3_follows)
  show "\<exists>out. mouse_sent (speed_step sc e s) = mouse_sent s @ out \<and> list_all (report_part default_mouse_config (ref_step e a)) out"
    using report_follows_part [OF f] speed_task_report_part [OF assms(2)]
    by (cases e) (auto simp: mousekey_clear_3_def mousekey_task_3_sent)
qed

text \<open>
  The mouse with constant speeds does what its keys say: in bounds and in their directions, while keys and speeds change in any
  order, with tap-to-select and with momentary speeds.
\<close>

theorem speed_keys_follow:
  assumes "speed_config_ok sc"
  shows "follows_127 (ref_run (es @ [e])) (mouse_report (speed_run sc (es @ [e]) (speed_init sc d))) \<and>
    (\<exists>out. mouse_sent (speed_run sc (es @ [e]) (speed_init sc d)) = mouse_sent (speed_run sc es (speed_init sc d)) @ out \<and>
       list_all (report_part default_mouse_config (ref_run (es @ [e]))) out)"
proof -
  have run: "speed_run sc (es @ [e]) s = speed_step sc e (speed_run sc es s)" for es e s by (simp add: speed_run_def)
  have "follows_127 (ref_run es) (mouse_report (speed_run sc es (speed_init sc d)))"
  proof (induction es rule: rev_induct)
    case Nil
    show ?case by (simp add: speed_run_def ref_run_def follows_127_eq mouse_idle_def speed_init_def no_report_def)
  next
    case (snoc e es)
    then show ?case using speed_step_follows(1) [OF assms] by (simp add: run mouse_run_snoc)
  qed
  then show ?thesis using speed_step_follows [OF assms] by (simp add: run mouse_run_snoc)
qed

text \<open>
  The default offsets of the wheel are one.  When two wheel keys are held and the speed changes, the positive axis stops:
  scrolling right and up, a press of \<^verbatim>\<open>KC_MS_ACCEL2\<close> leaves nothing of either.
\<close>

lemma wheel_diagonal_stalls:
  "let s = speed_run (default_speed_config False) [Mouse_key 0 True KC_MS_WH_UP, Mouse_key 0 True KC_MS_WH_RIGHT, Mouse_key 0 True KC_MS_ACCEL2]
       (speed_init (default_speed_config False) True)
   in mouse_v (mouse_report s) = 0 \<and> mouse_h (mouse_report s) = 0"
  by (simp add: speed_run_def mousekey_send_def host_mouse_send_def default_speed_config_def speed_init_def initial_speed_def mousekey_on_3_def no_report_def IS_MOUSEKEY_BUTTON_def
      adjust_speed_def adjust_report_def wheel_diagonal_def set_speed_def times_inv_sqrt2_def diagonal_def Let_def)

end
