(* ===== verification/Spec2Isabelle.thy ===== *)
theory Spec2Isabelle
  imports Bitwise Crc Ring_Buffer Matrix_Debounce Switches_To_Host Deferred_Exec Encoder Dynamic_Keymap Dynamic_Macro Quantum
    Numeric_Str Tap_Dance Via Combo_Chord Mousekey_Speed
begin

text \<open>
  QMK firmware: the program of a keyboard's microcontroller.  This development models its core, the code under
  \<^verbatim>\<open>quantum/\<close> that turns switches into USB reports, with the report and host layers of \<^verbatim>\<open>tmk_core/protocol/\<close> and the EEPROM
  drivers it stands on, and proves what makes the parts and their composition correct.

  THE PROGRAM.  The main loop calls \<^verbatim>\<open>keyboard_task\<close> (\<^verbatim>\<open>quantum/keyboard.c\<close>).  It scans the switch matrix (\<^verbatim>\<open>quantum/matrix.c\<close>),
  filters the contacts' chatter (\<^verbatim>\<open>quantum/debounce/\<close>), and executes one event for every key that has changed.  An event
  first passes \<^verbatim>\<open>pre_process_record_quantum\<close> (combos), then decides between tap and hold (\<^verbatim>\<open>quantum/action_tapping.c\<close>),
  then becomes a record that \<^verbatim>\<open>process_record\<close> gives to the chain of features in \<^verbatim>\<open>quantum/quantum.c\<close>; what no feature takes
  is an action (\<^verbatim>\<open>quantum/action.c\<close>), found through the active layers (\<^verbatim>\<open>quantum/action_layer.c\<close>).  Actions change the
  modifiers and the report (\<^verbatim>\<open>quantum/action_util.c\<close>, \<^verbatim>\<open>tmk_core/protocol/report.c\<close>), which \<^verbatim>\<open>host.c\<close> sends.  Settings,
  keymaps and macros are kept in the EEPROM and changed by keys (\<^verbatim>\<open>process_magic.c\<close>) or by the host (\<^verbatim>\<open>quantum/via.c\<close>).

  THE MODEL.  A static variable of the C code is a field of a record, a function is an Isabelle function that takes and
  returns the record, and the records extend one another in the order in which the code's files use one another:
  \<open>host_st\<close>, \<open>util_st\<close>, \<open>layer_st\<close>, \<open>action_st\<close>, \<open>quantum_st\<close>, with \<open>tapping_st\<close> around them.  Reports that leave the
  firmware, delays and calls of user code are the list \<open>effects\<close>, in the order they happen; the clock is the field
  \<open>clock\<close> in milliseconds, of which the code reads 16 or 32 bits.  Integers are words of their C width wherever
  arithmetic on them may wrap.  The options of a build and the functions a keyboard or keymap supplies are the record
  \<open>config\<close> of Firmware_Config and the configuration records of the features.  An access outside an array, and a loop that
  does not end, is the result \<open>None\<close>.

  THEORIES, in the order of the layers.

  C_Prelude: integer types, wrap-around time differences (\<^verbatim>\<open>platforms/timer.h\<close>), single-bit masks, counted loops.  The
  interfaces are locales, each interpreted on the definitions that provide it: \<open>bounded_fifo\<close> (Fifo) on the ring buffer
  and on the waiting buffer of the tapping, \<open>key_store\<close> (Key_Store) on the table of swapped hands, the cache of source
  layers and the settings in the EEPROM, \<open>key_report\<close> (Report) on both report layouts, \<open>debouncer\<close> (Debounce) on every
  debounce algorithm, \<open>eeprom_blocks\<close> (Eeprom) on the transient driver, \<open>deferred_callbacks\<close> (Deferred_Exec) on callbacks
  that may use the table, \<open>pair_dance\<close> (Tap_Dance) and \<open>one_chord\<close> (Combo_Chord) on the tables of a keymap.

  Bitwise (\<^verbatim>\<open>quantum/bitwise.c\<close>), Crc (\<^verbatim>\<open>quantum/crc.c\<close>), Ring_Buffer (\<^verbatim>\<open>quantum/ring_buffer.h\<close>), Numeric_Str (the decimal
  strings of \<^verbatim>\<open>quantum/quantum.c\<close>), Deferred_Exec (\<^verbatim>\<open>quantum/deferred_exec.c\<close>), Encoder (\<^verbatim>\<open>quantum/encoder.c\<close>): the utilities.
  Population count against the set of bits, the CRC table against its polynomial, the ring buffer and the table of deferred
  calls against lists, the encoder against the movement of its shaft.

  Debounce, Debounce_Keys (\<^verbatim>\<open>quantum/debounce/\<close>), Matrix (\<^verbatim>\<open>quantum/matrix.c\<close>, \<^verbatim>\<open>matrix_common.c\<close>), Matrix_Debounce: the scan on the
  three wirings and on split keyboards, all debounce algorithms, and what the two with a counter per key promise over time
  when the timer wraps.  Keyboard (\<^verbatim>\<open>quantum/keyboard.c\<close>): the task, its loop over the matrix and the ghost detection.

  Keycode (\<^verbatim>\<open>quantum/keycode.h\<close>, \<^verbatim>\<open>quantum_keycodes.h\<close>), Keycode_Config (\<^verbatim>\<open>quantum/keycode_config.c\<close>), Report
  (\<^verbatim>\<open>tmk_core/protocol/report.c\<close>), Host (\<^verbatim>\<open>tmk_core/protocol/host.c\<close>), Firmware_Config (\<^verbatim>\<open>quantum/action.h\<close>, \<^verbatim>\<open>keyboard.h\<close>), Action_Util,
  Action_Code (\<^verbatim>\<open>quantum/action_code.h\<close>, \<^verbatim>\<open>keymap_common.c\<close>), Action_Layer, Action_Register, Action, Action_Tapping: from the
  event to the report.  Their lemmas show that the keys and modifiers of the last report are those of a reference machine
  (registered codes, plain typing), that the release of a key undoes its press whatever happens to layers and hands in
  between, and what a key with two functions does.  Switches_To_Host composes them with the task: from the closed
  switches to the last report.

  Send_String (\<^verbatim>\<open>quantum/send_string.c\<close>), Code16 (the keycodes with modifiers of \<^verbatim>\<open>quantum.c\<close>), and the features of
  \<^verbatim>\<open>quantum/process_keycode/\<close>: Space_Cadet, Grave_Esc, Key_Lock, Leader, Magic, Dynamic_Macro, Tap_Dance, Combo and
  Combo_Chord.  Quantum (\<^verbatim>\<open>quantum/quantum.c\<close>) is the keycode of an event and the chain of the features; it is put into the
  hooks of \<^verbatim>\<open>process_record\<close>.  Each feature has its contract: text sent is text read by a host with the US layout, a
  locked key stays down, a recorded macro is what is played, a pair dance and a chord leave nothing down.

  Mousekey and Mousekey_Speed (\<^verbatim>\<open>quantum/mousekey.c\<close>): mouse keys that accelerate and mouse keys of constant speeds.  Every
  report moves an axis only where the key held on it points, and within its range; when a held key moves the cursor and
  how far is a function of the times at which the task is called.

  Eeprom (\<^verbatim>\<open>drivers/eeprom/\<close>), Eeconfig (\<^verbatim>\<open>quantum/eeconfig.c\<close>), Dynamic_Keymap (\<^verbatim>\<open>quantum/dynamic_keymap.c\<close>), Via (\<^verbatim>\<open>quantum/via.c\<close>):
  what outlives a restart.  The driver refines a function from addresses to bytes; settings, keys and macros read back as
  they were written and do not disturb each other; an interrupted initialisation is repeated.

  ABSTRACT SPECIFICATIONS.  A queue is a list, the report is the set of its keys, the
  keyboard of plain keys is a pair of a key set and a modifier mask, a debounced key is a machine of its history, the macro
  buffer is a list of records, a text is what \<open>host_step\<close> reads from reports, key lock is a set of physical and a set of
  locked keys, the tapping behind a combo is the set of positions that are down.

  LOOPS AND FUEL.  Loops over an index range are folds or recursions over the list of indices; other loops are functions
  with a measure.  Where the code has a loop that may not end, it is \<open>partial_function (option)\<close>: the strings of stored
  macros, the buffers of dynamic macros, the task of the tap dances, for which it is proved when a result exists.  The
  loop of the tapping over its waiting buffer ends because every round takes an entry out.  No definition takes fuel.

  NOT MODELLED.  Builds with the PER_KEY options of the tapping and with RETRO_SHIFT; the calls of the mouse keys from the
  actions, which are modelled beside them in Mousekey; the kinetic mouse keys, which compute with floats; the
  digitizer report of \<^verbatim>\<open>host.c\<close>; the debug output.  The remaining features of \<^verbatim>\<open>quantum/process_keycode/\<close> (auto
  shift, key override, unicode, steno, MIDI, music, printer, terminal, haptic, joystick, programmable buttons), which are hooks
  of the chain in Quantum; pointing devices; lighting (RGB light, RGB and LED matrix, backlight, colours,
  velocikey), audio, haptics, OpenRGB, OLED and LCD displays: they sit beside the path from switch to report and mostly
  compute pictures and sounds, or drive a chip.  The transport of split keyboards, whose results are arguments of the scan.
  USB descriptors and stacks (\<^verbatim>\<open>tmk_core/protocol/\<close>), platforms, bootloaders and drivers: hardware registers and vendor
  libraries.  Vendored code under \<^verbatim>\<open>lib/\<close>, generated tables, keyboards, keymaps and user code, the Python tools, tests and
  documents.
\<close>

end
